(* ===== verification/Go_Base.thy ===== *)
theory Go_Base
  imports Main "HOL-Library.Word" "HOL-Library.Finite_Map" "HOL-Library.List_Lexorder"
    "HOL-Library.Char_ord"
begin

unbundle bit_operations_syntax

section \<open>What the server's sources use of Go\<close>

text \<open>
  The vocabulary the component theories share: bytes and byte buffers, Go strings (byte
  sequences, here \<^typ>\<open>string\<close>), \<^verbatim>\<open>encoding/binary\<close> big-endian integers, \<^verbatim>\<open>time\<close>
  values, \<^verbatim>\<open>strconv.Itoa\<close>, \<^verbatim>\<open>strings.TrimSpace\<close>, \<^verbatim>\<open>sort.Ints\<close> and Go maps
  (\<^typ>\<open>('k, 'v) fmap\<close>: finite, unordered).  The generic lemmas on them are collected
  here, the rewrite rules for buffers in \<open>buffer_simps\<close> and the evaluation rules of
  the standard-library functions in \<open>go_defs\<close>.
\<close>

named_theorems buffer_simps \<open>reading a buffer after writes into it\<close>
named_theorems go_defs \<open>definitions of standard-library functions, for evaluation\<close>

type_synonym byte = "8 word"
type_synonym bytes = "8 word list"
type_synonym u16 = "16 word"
type_synonym u32 = "32 word"
type_synonym u64 = "64 word"

subsection \<open>Strings and byte slices\<close>

definition byte_of :: "char \<Rightarrow> byte" where
  "byte_of c = of_char c"

definition char_at :: "byte \<Rightarrow> char" where
  "char_at b = char_of (unat b)"

text \<open>The conversions \<^verbatim>\<open>[]byte(s)\<close> and \<^verbatim>\<open>string(b)\<close>.\<close>

definition bytes_of :: "string \<Rightarrow> bytes" where
  "bytes_of s = map byte_of s"

definition string_of :: "bytes \<Rightarrow> string" where
  "string_of bs = map char_at bs"

lemma of_char_lt_256: "(of_char c :: nat) < 256"
  by (subst of_char_mod_256 [symmetric]) simp

lemma unat_byte_of [simp]: "unat (byte_of c) = of_char c"
proof -
  have "byte_of c = of_nat (of_char c)"
    by (simp add: byte_of_def of_nat_of_char)
  then show ?thesis
    using of_char_lt_256 [of c] by (simp add: unat_of_nat)
qed

lemma char_at_byte_of [simp]: "char_at (byte_of c) = c"
  by (simp add: char_at_def)

lemma byte_of_char_at [simp]: "byte_of (char_at b) = b"
proof -
  have "unat (byte_of (char_at b)) = unat b"
    using unsigned_less [of b, where ?'a = nat] by (simp add: char_at_def)
  then show ?thesis by (rule unsigned_word_eqI)
qed

lemma string_of_bytes_of [simp]: "string_of (bytes_of s) = s"
  by (simp add: string_of_def bytes_of_def comp_def)

lemma bytes_of_string_of [simp]: "bytes_of (string_of b) = b"
  by (simp add: string_of_def bytes_of_def comp_def)

lemma length_bytes_of [simp]: "length (bytes_of s) = length s"
  by (simp add: bytes_of_def)

lemma length_string_of [simp]: "length (string_of b) = length b"
  by (simp add: string_of_def)

lemma bytes_of_inject [simp]: "bytes_of s = bytes_of t \<longleftrightarrow> s = t"
  by (metis string_of_bytes_of)

subsection \<open>Big-endian integers (\<open>encoding/binary\<close>)\<close>

text \<open>
  \<open>be_put n x\<close> is the \<open>n\<close>-byte big-endian rendering of \<open>x\<close>, most significant byte
  first, and \<open>be_get\<close> reads one back.
\<close>

fun be_put :: "nat \<Rightarrow> nat \<Rightarrow> bytes" where
  "be_put 0 x = []"
| "be_put (Suc n) x = be_put n (x div 256) @ [of_nat x]"

definition be_get :: "bytes \<Rightarrow> nat" where
  "be_get bs = foldl (\<lambda>a b. 256 * a + unat b) 0 bs"

lemma length_be_put [simp]: "length (be_put n x) = n"
  by (induction n arbitrary: x) simp_all

lemma be_get_snoc [simp]: "be_get (bs @ [b]) = 256 * be_get bs + unat b"
  by (simp add: be_get_def)

lemma be_get_Nil [simp]: "be_get [] = 0"
  by (simp add: be_get_def)

lemma be_get_put: "be_get (be_put n x) = x mod 256 ^ n"
proof (induction n arbitrary: x)
  case 0
  then show ?case by simp
next
  case (Suc n)
  then show ?case
    by (simp add: unat_of_nat mod_mult2_eq add.commute)
qed

lemma be_get_less: "be_get bs < 256 ^ length bs"
proof (induction bs rule: rev_induct)
  case Nil
  then show ?case by simp
next
  case (snoc b bs)
  have "unat b < 256"
    using unsigned_less [of b, where ?'a = nat] by simp
  with snoc.IH show ?case by simp
qed

lemma word_256_zero: "(256 :: byte) = 0"
  by simp

lemma be_put_get: "be_put (length bs) (be_get bs) = bs"
proof (induction bs rule: rev_induct)
  case Nil
  then show ?case by simp
next
  case (snoc b bs)
  have "unat b < 256"
    using unsigned_less [of b, where ?'a = nat] by simp
  moreover have "(256 :: byte) * of_nat (be_get bs) = 0"
    using mult_zero_left [of "of_nat (be_get bs) :: byte"] by (metis word_256_zero)
  ultimately show ?case using snoc.IH by simp
qed

definition putUint16 :: "u16 \<Rightarrow> bytes" where
  "putUint16 v = be_put 2 (unat v)"

definition putUint32 :: "u32 \<Rightarrow> bytes" where
  "putUint32 v = be_put 4 (unat v)"

definition putUint64 :: "u64 \<Rightarrow> bytes" where
  "putUint64 v = be_put 8 (unat v)"

definition getUint16 :: "bytes \<Rightarrow> u16" where
  "getUint16 bs = of_nat (be_get bs)"

definition getUint32 :: "bytes \<Rightarrow> u32" where
  "getUint32 bs = of_nat (be_get bs)"

definition getUint64 :: "bytes \<Rightarrow> u64" where
  "getUint64 bs = of_nat (be_get bs)"

lemmas be_defs = putUint16_def putUint32_def putUint64_def getUint16_def getUint32_def getUint64_def

subsection \<open>Byte buffers\<close>

text \<open>
  \<open>slice xs lo hi\<close> is \<^verbatim>\<open>xs[lo:hi]\<close>, and \<open>go_copy dst lo hi src\<close> the buffer after
  \<^verbatim>\<open>copy(dst[lo:hi], src)\<close>, which copies as many bytes as both sides have.  Both are
  used at offsets inside the buffer only, where Go does not panic.
\<close>

definition slice :: "'a list \<Rightarrow> nat \<Rightarrow> nat \<Rightarrow> 'a list" where
  "slice xs lo hi = take (hi - lo) (drop lo xs)"

definition go_copy :: "'a list \<Rightarrow> nat \<Rightarrow> nat \<Rightarrow> 'a list \<Rightarrow> 'a list" where
  "go_copy dst lo hi src =
     (let n = min (min (hi - lo) (length dst - lo)) (length src)
      in take lo dst @ take n src @ drop (lo + n) dst)"

lemma length_slice [simp]: "hi \<le> length xs \<Longrightarrow> length (slice xs lo hi) = hi - lo"
  by (simp add: slice_def)

lemma length_go_copy [simp]: "length (go_copy dst lo hi src) = length dst"
proof (cases "lo \<le> length dst")
  case True
  then show ?thesis unfolding go_copy_def Let_def by (auto simp: min_def)
qed (simp add: go_copy_def)

lemma nth_slice: "hi \<le> length xs \<Longrightarrow> i < hi - lo \<Longrightarrow> slice xs lo hi ! i = xs ! (lo + i)"
  by (simp add: slice_def)

lemma nth_go_copy:
  assumes "lo \<le> hi" and "hi \<le> length dst" and "i < length dst"
  shows "go_copy dst lo hi src ! i =
    (if lo \<le> i \<and> i < lo + min (hi - lo) (length src) then src ! (i - lo) else dst ! i)"
  using assms by (auto simp: go_copy_def Let_def nth_append min_def not_less)

lemma slice_eqI:
  assumes "hi \<le> length xs" and "hi \<le> length ys"
    and "\<And>i. lo \<le> i \<Longrightarrow> i < hi \<Longrightarrow> xs ! i = ys ! i"
  shows "slice xs lo hi = slice ys lo hi"
  using assms by (auto intro!: nth_equalityI simp: nth_slice)

lemma slice_go_copy_other [buffer_simps]:
  assumes "lo \<le> hi" and "hi \<le> length dst" and "b \<le> length dst" and "b \<le> lo \<or> hi \<le> a"
  shows "slice (go_copy dst lo hi src) a b = slice dst a b"
  using assms by (auto intro!: slice_eqI simp: nth_go_copy)

lemma slice_go_copy_same [buffer_simps]:
  assumes "lo \<le> hi" and "hi \<le> length dst"
  shows "slice (go_copy dst lo hi src) lo hi =
    take (hi - lo) src @ slice dst (lo + min (hi - lo) (length src)) hi"
proof -
  define n where "n = min (hi - lo) (length src)"
  with assms have "go_copy dst lo hi src = take lo dst @ take n src @ drop (lo + n) dst"
    by (simp add: go_copy_def Let_def min_absorb1)
  moreover have "take (hi - lo) src = take n src" by (simp add: n_def min_def)
  moreover have "length (take n src) = n" "n \<le> hi - lo" by (simp_all add: n_def)
  ultimately show ?thesis using assms by (simp add: slice_def n_def)
qed

lemma nth_go_copy_other [buffer_simps]:
  assumes "lo \<le> hi" and "hi \<le> length dst" and "i < length dst" and "i < lo \<or> hi \<le> i"
  shows "go_copy dst lo hi src ! i = dst ! i"
  using assms by (auto simp: nth_go_copy)

lemma slice_list_update_other [buffer_simps]:
  assumes "b \<le> length xs" and "i < a \<or> b \<le> i"
  shows "slice (xs[i := v]) a b = slice xs a b"
  using assms by (auto intro!: slice_eqI)

lemma slice_replicate [buffer_simps]:
  "hi \<le> n \<Longrightarrow> slice (replicate n v) lo hi = replicate (hi - lo) v"
  by (simp add: slice_def min_def)

lemma slice_same [buffer_simps]: "slice xs n n = []"
  by (simp add: slice_def)

lemma slice_go_copy_fill [buffer_simps]:
  assumes "lo \<le> hi" and "hi \<le> length dst" and "lo \<le> a" and "b \<le> hi" and "hi - lo \<le> n"
  shows "slice (go_copy dst lo hi (replicate n v)) a b = replicate (b - a) v"
  using assms by (intro nth_equalityI) (auto simp: nth_slice nth_go_copy)

lemma slice_to_end: "hi = length xs \<Longrightarrow> slice xs lo hi = drop lo xs"
  by (simp add: slice_def)

lemma slice_0: "slice xs 0 hi = take hi xs"
  by (simp add: slice_def)

lemma slice_slice_append: "lo \<le> mid \<Longrightarrow> mid \<le> hi \<Longrightarrow> slice xs lo mid @ slice xs mid hi = slice xs lo hi"
proof -
  assume "lo \<le> mid" and "mid \<le> hi"
  then have "hi - lo = (mid - lo) + (hi - mid)" and "drop mid xs = drop (mid - lo) (drop lo xs)"
    by simp_all
  then show ?thesis by (simp only: slice_def take_add)
qed

lemma go_copy_Nil [simp]: "go_copy dst lo hi [] = dst"
  by (simp add: go_copy_def)

lemma go_copy_take: "go_copy dst lo hi (take (hi - lo) src) = go_copy dst lo hi src"
proof -
  define n where "n = min (min (hi - lo) (length dst - lo)) (length src)"
  have "min (min (hi - lo) (length dst - lo)) (length (take (hi - lo) src)) = n"
    by (simp add: n_def ac_simps)
  moreover have "n \<le> hi - lo" by (simp add: n_def)
  ultimately show ?thesis by (simp add: go_copy_def Let_def n_def [symmetric] min_absorb1)
qed

lemma drop_go_copy [buffer_simps]:
  assumes "lo \<le> hi" and "hi \<le> length dst" and "hi \<le> n"
  shows "drop n (go_copy dst lo hi src) = drop n dst"
proof -
  have "slice (go_copy dst lo hi src) n (length dst) = slice dst n (length dst)"
    using assms by (intro slice_go_copy_other) auto
  then show ?thesis using assms by (simp add: slice_to_end)
qed

lemma drop_go_copy_all [buffer_simps]:
  "hi = length dst \<Longrightarrow> hi = lo + length src \<Longrightarrow> drop lo (go_copy dst lo hi src) = src"
  by (simp add: go_copy_def Let_def)

lemma go_copy_whole [buffer_simps]:
  "length src = length dst \<Longrightarrow> hi = length dst \<Longrightarrow> go_copy dst 0 hi src = src"
  by (simp add: go_copy_def Let_def)

lemma drop_list_update_other [buffer_simps]: "i < n \<Longrightarrow> drop n (xs[i := v]) = drop n xs"
  by (simp add: drop_update_cancel)

text \<open>\<^verbatim>\<open>bytes.TrimRight(b, "\x00")\<close>: fixed-width text fields are padded with zero bytes.\<close>

definition trim_zeros :: "bytes \<Rightarrow> bytes" where
  "trim_zeros bs = rev (dropWhile (\<lambda>b. b = 0) (rev bs))"

lemma dropWhile_replicate_zero: "dropWhile (\<lambda>b. b = 0) (replicate n 0 @ xs) = dropWhile (\<lambda>b. b = 0) xs"
  by (induction n) simp_all

lemma trim_zeros_append_replicate [simp]: "trim_zeros (bs @ replicate n 0) = trim_zeros bs"
  by (simp add: trim_zeros_def dropWhile_replicate_zero)

lemma trim_zeros_id: "bs = [] \<or> last bs \<noteq> 0 \<Longrightarrow> trim_zeros bs = bs"
  by (cases bs rule: rev_cases) (simp_all add: trim_zeros_def)

lemma length_trim_zeros: "length (trim_zeros bs) \<le> length bs"
  using length_dropWhile_le [of "\<lambda>b. b = 0" "rev bs"] by (simp add: trim_zeros_def)

subsection \<open>Fixed-width codecs as an interface\<close>

text \<open>
  Every integer field of the wire formats relies on the same contract: an encoder of a
  fixed width and a decoder that inverts it.  The client lemma reads a field back from a
  buffer into which it was copied.
\<close>

locale fixed_codec =
  fixes enc :: "'a \<Rightarrow> bytes" and dec :: "bytes \<Rightarrow> 'a" and width :: nat
  assumes length_enc: "length (enc x) = width"
    and dec_enc: "dec (enc x) = x"
begin

lemma enc_inject: "enc x = enc y \<longleftrightarrow> x = y"
  by (metis dec_enc)

lemma dec_slice_copy:
  assumes "hi = lo + width" and "hi \<le> length dst"
  shows "dec (slice (go_copy dst lo hi (enc x)) lo hi) = x"
proof -
  have "slice (go_copy dst lo hi (enc x)) lo hi = enc x @ slice dst hi hi"
    using assms by (simp add: slice_go_copy_same length_enc)
  then show ?thesis by (simp add: slice_def dec_enc)
qed

lemma dec_take_append: "dec (take width (enc x @ rest)) = x"
  by (simp add: length_enc dec_enc)

end

lemma of_nat_unat_mod:
  fixes w :: "'a::len word"
  shows "2 ^ LENGTH('a) = m \<Longrightarrow> of_nat (unat w mod m) = w"
  using unsigned_less [of w, where ?'a = nat] by auto

interpretation u16: fixed_codec putUint16 getUint16 2
  by unfold_locales (simp_all add: be_defs be_get_put of_nat_unat_mod)

interpretation u32: fixed_codec putUint32 getUint32 4
  by unfold_locales (simp_all add: be_defs be_get_put of_nat_unat_mod)

interpretation u64: fixed_codec putUint64 getUint64 8
  by unfold_locales (simp_all add: be_defs be_get_put of_nat_unat_mod)

subsection \<open>Time (\<open>time.Time\<close> and \<open>time.Duration\<close>)\<close>

text \<open>
  An instant is the number of nanoseconds since the Unix epoch; the zero \<^verbatim>\<open>time.Time\<close> is
  January 1 of year 1.  \<^verbatim>\<open>t.Sub(u)\<close> saturates at the range of the 64-bit duration.  The
  clock that \<^verbatim>\<open>time.Now\<close> reads is an argument of the operations that read it.
\<close>

type_synonym time = int
type_synonym duration = int

definition zero_time :: time where
  "zero_time = - 62135596800000000000"

definition time_sub :: "time \<Rightarrow> time \<Rightarrow> duration" where
  "time_sub t u = max (- (2 ^ 63)) (min (2 ^ 63 - 1) (t - u))"

abbreviation millis :: "int \<Rightarrow> duration" where
  "millis n \<equiv> n * 1000000"

abbreviation seconds :: "int \<Rightarrow> duration" where
  "seconds n \<equiv> n * 1000000000"

text \<open>The idiom \<^verbatim>\<open>if now.IsZero() { now = time.Now() }\<close>.\<close>

definition or_now :: "time \<Rightarrow> time \<Rightarrow> time" where
  "or_now clock t = (if t = zero_time then clock else t)"

text \<open>\<^verbatim>\<open>t.Unix()\<close> and \<^verbatim>\<open>d.Milliseconds()\<close> (which truncates toward zero).\<close>

definition unix :: "time \<Rightarrow> int" where
  "unix t = t div 1000000000"

definition milliseconds :: "duration \<Rightarrow> int" where
  "milliseconds d = sgn d * (\<bar>d\<bar> div 1000000)"

lemma time_sub_gr [simp]: "- (2 ^ 63) \<le> d \<Longrightarrow> d < 2 ^ 63 - 1 \<Longrightarrow> d < time_sub t u \<longleftrightarrow> d < t - u"
  by (auto simp: time_sub_def)

lemma time_sub_less [simp]: "- (2 ^ 63) < d \<Longrightarrow> d \<le> 2 ^ 63 - 1 \<Longrightarrow> time_sub t u < d \<longleftrightarrow> t - u < d"
  by (auto simp: time_sub_def)

lemma milliseconds_nonneg: "0 \<le> d \<Longrightarrow> 0 \<le> milliseconds d"
  by (cases "d = 0") (simp_all add: milliseconds_def div_int_pos_iff)

text \<open>The loops over Go maps visit the keys as a sorted list.\<close>

lemma sorted_list_of_fset_simps [simp]:
  "set (sorted_list_of_fset s) = fset s" "distinct (sorted_list_of_fset s)" "sorted_list_of_fset {||} = []"
  by (simp_all add: sorted_list_of_fset.rep_eq)

subsection \<open>Decimal rendering (\<open>strconv.Itoa\<close>)\<close>

definition digit_char :: "nat \<Rightarrow> char" where
  "digit_char d = ''0123456789'' ! d"

fun nat_digits :: "nat \<Rightarrow> string" where
  "nat_digits n =
     (if n < 10 then [digit_char n] else nat_digits (n div 10) @ [digit_char (n mod 10)])"

declare nat_digits.simps [simp del]

definition itoa :: "int \<Rightarrow> string" where
  "itoa i = (if i < 0 then CHR ''-'' # nat_digits (nat (- i)) else nat_digits (nat i))"

definition digit_chars :: "char set" where
  "digit_chars = set ''0123456789''"

lemma digit_char_in: "d < 10 \<Longrightarrow> digit_char d \<in> digit_chars"
  unfolding digit_char_def digit_chars_def by (rule nth_mem) simp

lemma digit_char_inject: "d < 10 \<Longrightarrow> e < 10 \<Longrightarrow> digit_char d = digit_char e \<longleftrightarrow> d = e"
  unfolding digit_char_def by (rule nth_eq_iff_index_eq) simp_all

lemma nat_digits_chars: "set (nat_digits n) \<subseteq> digit_chars"
proof (induction n rule: nat_digits.induct)
  case (1 n)
  then show ?case
    by (subst nat_digits.simps) (auto simp: digit_char_in)
qed

lemma nat_digits_nonempty [simp]: "nat_digits n \<noteq> []" "[] \<noteq> nat_digits n"
  by (subst nat_digits.simps, simp)+

lemma nat_digits_inject: "nat_digits m = nat_digits n \<Longrightarrow> m = n"
proof (induction m arbitrary: n rule: nat_digits.induct)
  case (1 m)
  show ?case
  proof (cases "m < 10 \<or> n < 10")
    case True
    with "1.prems" show ?thesis
      by (auto simp: nat_digits.simps [of m] nat_digits.simps [of n] digit_char_inject split: if_splits)
  next
    case False
    with "1.prems" have "nat_digits (m div 10) = nat_digits (n div 10)" and "m mod 10 = n mod 10"
      by (auto simp: nat_digits.simps [of m] nat_digits.simps [of n] digit_char_inject)
    with "1.IH" False have "m div 10 = n div 10" by simp
    with \<open>m mod 10 = n mod 10\<close> show ?thesis by (metis div_mult_mod_eq)
  qed
qed

lemma itoa_chars: "set (itoa i) \<subseteq> insert (CHR ''-'') digit_chars"
  using nat_digits_chars by (auto simp: itoa_def)

lemma minus_not_digit: "CHR ''-'' \<notin> set (nat_digits n)"
  using nat_digits_chars [of n] by (auto simp: digit_chars_def)

lemma itoa_inject [simp]: "itoa i = itoa j \<longleftrightarrow> i = j"
proof
  assume eq: "itoa i = itoa j"
  show "i = j"
  proof (cases "(i < 0) = (j < 0)")
    case True
    with eq have "nat \<bar>i\<bar> = nat \<bar>j\<bar>"
      by (auto simp: itoa_def split: if_splits dest: nat_digits_inject)
    with True show ?thesis by (cases "i < 0"; cases "j < 0"; simp)
  next
    case False
    with eq show ?thesis
      using minus_not_digit [of "nat i"] minus_not_digit [of "nat j"]
      by (auto simp: itoa_def split: if_splits) (metis list.set_intros(1))+
  qed
qed simp

lemma colon_not_in_itoa: "CHR '':'' \<notin> set (itoa i)"
  using itoa_chars [of i] by (auto simp: digit_chars_def)

lemma comma_not_in_itoa: "CHR '','' \<notin> set (itoa i)"
  using itoa_chars [of i] by (auto simp: digit_chars_def)

text \<open>A separator that does not occur in the first component makes a joined key unambiguous.\<close>

lemma append_sep_inject:
  assumes "c \<notin> set xs" and "c \<notin> set ys"
  shows "xs @ c # us = ys @ c # vs \<longleftrightarrow> xs = ys \<and> us = vs"
proof
  assume eq: "xs @ c # us = ys @ c # vs"
  have "takeWhile (\<lambda>x. x \<noteq> c) (xs @ c # us) = xs" "takeWhile (\<lambda>x. x \<noteq> c) (ys @ c # vs) = ys"
    using assms by (auto simp: takeWhile_append)
  with eq show "xs = ys \<and> us = vs" by (metis list.inject same_append_eq)
qed simp

subsection \<open>Joined lists and hashes\<close>

text \<open>\<^verbatim>\<open>strings.Join\<close> and the 32-bit FNV-1a hash of \<^verbatim>\<open>hash/fnv\<close>.\<close>

fun join :: "string \<Rightarrow> string list \<Rightarrow> string" where
  "join sep [] = []"
| "join sep [s] = s"
| "join sep (s # ss) = s @ sep @ join sep ss"

definition fnv32a :: "string \<Rightarrow> u32" where
  "fnv32a s = foldl (\<lambda>h b. (h XOR ucast b) * 16777619) 2166136261 (bytes_of s)"

lemma append_sep_end: "c \<notin> set xs \<Longrightarrow> xs = ys @ c # zs \<Longrightarrow> False"
  by auto

text \<open>Joining words that are not empty and do not contain the separator loses nothing.\<close>

lemma join_inject:
  assumes "\<forall>x \<in> set xs. x \<noteq> [] \<and> c \<notin> set x" and "\<forall>y \<in> set ys. y \<noteq> [] \<and> c \<notin> set y" and "join [c] xs = join [c] ys"
  shows "xs = ys"
  using assms
proof (induction "[c]" xs arbitrary: ys rule: join.induct)
  case 1
  then show ?case by (cases "([c], ys)" rule: join.cases) auto
next
  case (2 s)
  then show ?case by (cases "([c], ys)" rule: join.cases) auto
next
  case (3 s t ss)
  show ?case
  proof (cases "([c], ys)" rule: join.cases)
    case (3 sep u v us)
    then have ys: "ys = u # v # us" by simp
    with "3.prems"(3) have "s @ c # join [c] (t # ss) = u @ c # join [c] (v # us)" by simp
    moreover have "c \<notin> set s" "c \<notin> set u" using "3.prems"(1,2) ys by simp_all
    ultimately have "s = u \<and> join [c] (t # ss) = join [c] (v # us)"
      by (metis (no_types) append_sep_inject)
    then have eq: "s = u" "join [c] (t # ss) = join [c] (v # us)" by blast+
    moreover have "\<forall>x \<in> set (t # ss). x \<noteq> [] \<and> c \<notin> set x" "\<forall>y \<in> set (v # us). y \<noteq> [] \<and> c \<notin> set y"
      using "3.prems"(1,2) ys by simp_all
    ultimately have "t # ss = v # us" using "3.hyps" by blast
    with eq(1) ys show ?thesis by (simp only:)
  qed (use "3.prems" in auto)
qed

subsection \<open>Trimming and letter case (\<open>strings\<close>)\<close>

text \<open>
  \<^verbatim>\<open>strings.TrimSpace\<close> removes Unicode white space: the list holds the UTF-8 encodings of
  the code points with that property.
\<close>

definition space_runes :: "string list" where
  "space_runes =
     [[CHR 0x09], [CHR 0x0A], [CHR 0x0B], [CHR 0x0C], [CHR 0x0D], [CHR 0x20],
      [CHR 0xC2, CHR 0x85], [CHR 0xC2, CHR 0xA0], [CHR 0xE1, CHR 0x9A, CHR 0x80]] @
     map (\<lambda>i. [CHR 0xE2, CHR 0x80, char_of (0x80 + i :: nat)]) [0..<11] @
     [[CHR 0xE2, CHR 0x80, CHR 0xA8], [CHR 0xE2, CHR 0x80, CHR 0xA9],
      [CHR 0xE2, CHR 0x80, CHR 0xAF], [CHR 0xE2, CHR 0x81, CHR 0x9F],
      [CHR 0xE3, CHR 0x80, CHR 0x80]]"

definition starts_with :: "'a list \<Rightarrow> 'a list \<Rightarrow> bool" where
  "starts_with p s \<longleftrightarrow> take (length p) s = p"

text \<open>\<^verbatim>\<open>strings.Contains\<close>.\<close>

fun contains_sub :: "'a list \<Rightarrow> 'a list \<Rightarrow> bool" where
  "contains_sub p [] \<longleftrightarrow> p = []"
| "contains_sub p (c # s) \<longleftrightarrow> starts_with p (c # s) \<or> contains_sub p s"

function strip_runes :: "string list \<Rightarrow> string \<Rightarrow> string" where
  "strip_runes rs s =
     (case find (\<lambda>r. r \<noteq> [] \<and> starts_with r s) rs of
        Some r \<Rightarrow> strip_runes rs (drop (length r) s)
      | None \<Rightarrow> s)"
  by pat_completeness auto
termination
proof (relation "measure (\<lambda>(rs, s). length s)")
  fix rs s r
  assume "find (\<lambda>r. r \<noteq> [] \<and> starts_with r s) rs = Some r"
  then have "r \<noteq> []" and "s \<noteq> []"
    by (auto simp: find_Some_iff starts_with_def)
  then show "((rs, drop (length r) s), rs, s) \<in> measure (\<lambda>(rs, s). length s)" by simp
qed simp

declare strip_runes.simps [simp del]

definition trim_space :: "string \<Rightarrow> string" where
  "trim_space s = rev (strip_runes (map rev space_runes) (rev (strip_runes space_runes s)))"

lemma strip_runes_stop: "(\<And>r. r \<in> set rs \<Longrightarrow> r \<noteq> [] \<Longrightarrow> \<not> starts_with r s) \<Longrightarrow> strip_runes rs s = s"
  by (subst strip_runes.simps) (auto simp: find_Some_iff split: option.split intro: nth_mem)

lemma length_strip_runes: "length (strip_runes rs s) \<le> length s"
proof (induction rs s rule: strip_runes.induct)
  case (1 rs s)
  then show ?case
    by (subst strip_runes.simps) (auto split: option.split intro: order_trans)
qed

text \<open>Printable ASCII text is not trimmed.\<close>

definition printable :: "string \<Rightarrow> bool" where
  "printable s \<longleftrightarrow> list_all (\<lambda>c. 0x21 \<le> (of_char c :: nat) \<and> (of_char c :: nat) < 0x80) s"

lemma space_runes_not_printable: "r \<in> set space_runes \<Longrightarrow> r \<noteq> [] \<and> \<not> printable (take 1 r) \<and> \<not> printable (take 1 (rev r))"
  by (auto simp: space_runes_def printable_def)

lemma starts_with_printable: "printable s \<Longrightarrow> r \<noteq> [] \<Longrightarrow> \<not> printable (take 1 r) \<Longrightarrow> \<not> starts_with r s"
  by (cases r; cases s) (auto simp: starts_with_def printable_def)

lemma trim_space_printable: "printable s \<Longrightarrow> trim_space s = s"
proof -
  assume s: "printable s"
  then have "strip_runes space_runes s = s"
    using space_runes_not_printable starts_with_printable by (intro strip_runes_stop) blast
  moreover have "printable (rev s)" using s by (simp add: printable_def)
  then have "strip_runes (map rev space_runes) (rev s) = rev s"
    using space_runes_not_printable starts_with_printable by (intro strip_runes_stop) fastforce
  ultimately show ?thesis by (simp add: trim_space_def)
qed

definition is_ascii :: "string \<Rightarrow> bool" where
  "is_ascii s \<longleftrightarrow> (\<forall>c \<in> set s. (of_char c :: nat) < 128)"

definition ascii_upper :: "char \<Rightarrow> char" where
  "ascii_upper c = (if CHR ''a'' \<le> c \<and> c \<le> CHR ''z'' then char_of (of_char c - 32 :: nat) else c)"

definition ascii_lower :: "char \<Rightarrow> char" where
  "ascii_lower c = (if CHR ''A'' \<le> c \<and> c \<le> CHR ''Z'' then char_of (of_char c + 32 :: nat) else c)"

text \<open>
  \<^verbatim>\<open>strings.ToUpper\<close> and \<^verbatim>\<open>ToLower\<close> map ASCII strings byte by byte; for other strings they
  use Unicode's case tables, which are the argument \<open>uni\<close>.
\<close>

definition to_upper :: "(string \<Rightarrow> string) \<Rightarrow> string \<Rightarrow> string" where
  "to_upper uni s = (if is_ascii s then map ascii_upper s else uni s)"

definition to_lower :: "(string \<Rightarrow> string) \<Rightarrow> string \<Rightarrow> string" where
  "to_lower uni s = (if is_ascii s then map ascii_lower s else uni s)"

subsection \<open>Runes\<close>

text \<open>
  \<^verbatim>\<open>for i := range s\<close> over a string visits the first byte of each UTF-8 sequence.
  \<open>rune_width\<close> is the width \<^verbatim>\<open>utf8.DecodeRuneInString\<close> finds at the front of a
  non-empty string: an invalid sequence is one byte wide.
\<close>

definition cont_byte :: "nat \<Rightarrow> nat \<Rightarrow> string \<Rightarrow> nat \<Rightarrow> bool" where
  "cont_byte lo hi s i \<longleftrightarrow> i < length s \<and> lo \<le> of_char (s ! i) \<and> of_char (s ! i) \<le> hi"

definition second_byte_range :: "nat \<Rightarrow> nat \<times> nat" where
  "second_byte_range b =
     (if b = 0xE0 then (0xA0, 0xBF) else if b = 0xED then (0x80, 0x9F)
      else if b = 0xF0 then (0x90, 0xBF) else if b = 0xF4 then (0x80, 0x8F) else (0x80, 0xBF))"

definition rune_width :: "string \<Rightarrow> nat" where
  "rune_width s =
     (let b = of_char (hd s) :: nat; second = cont_byte (fst (second_byte_range b)) (snd (second_byte_range b)) s 1
      in if 0xC2 \<le> b \<and> b \<le> 0xDF then (if second then 2 else 1)
         else if 0xE0 \<le> b \<and> b \<le> 0xEF then (if second \<and> cont_byte 0x80 0xBF s 2 then 3 else 1)
         else if 0xF0 \<le> b \<and> b \<le> 0xF4 then
           (if second \<and> cont_byte 0x80 0xBF s 2 \<and> cont_byte 0x80 0xBF s 3 then 4 else 1)
         else 1)"

lemma rune_width_pos: "0 < rune_width s"
  by (simp add: rune_width_def Let_def)

function rune_starts_from :: "nat \<Rightarrow> string \<Rightarrow> nat list" where
  "rune_starts_from i s =
     (if s = [] then [] else i # rune_starts_from (i + rune_width s) (drop (rune_width s) s))"
  by pat_completeness auto
termination
  by (relation "measure (\<lambda>(i, s). length s)") (auto simp: rune_width_pos)

declare rune_starts_from.simps [simp del]

abbreviation rune_starts :: "string \<Rightarrow> nat list" where
  "rune_starts s \<equiv> rune_starts_from 0 s"

lemma rune_width_ascii: "s \<noteq> [] \<Longrightarrow> is_ascii s \<Longrightarrow> rune_width s = 1"
  by (cases s) (auto simp: rune_width_def is_ascii_def Let_def)

lemma rune_starts_from_ascii: "is_ascii s \<Longrightarrow> rune_starts_from i s = [i..<i + length s]"
proof (induction i s rule: rune_starts_from.induct)
  case (1 i s)
  show ?case
  proof (cases s)
    case Nil
    then show ?thesis by (simp add: rune_starts_from.simps)
  next
    case (Cons c t)
    with "1.prems" have w: "rune_width s = 1" by (simp add: rune_width_ascii)
    from "1.prems" Cons have "is_ascii t" by (simp add: is_ascii_def)
    with "1.IH" Cons w have "rune_starts_from (Suc i) t = [Suc i..<Suc i + length t]"
      by (simp del: upt_Suc)
    with Cons w show ?thesis
      by (subst rune_starts_from.simps) (simp add: upt_conv_Cons del: upt_Suc)
  qed
qed

lemma rune_starts_from_bound: "k \<in> set (rune_starts_from i s) \<Longrightarrow> k < i + length s"
proof (induction i s rule: rune_starts_from.induct)
  case (1 i s)
  show ?case
  proof (cases "s = []")
    case True
    with "1.prems" show ?thesis by (simp add: rune_starts_from.simps)
  next
    case False
    with "1.prems" have "k = i \<or> k \<in> set (rune_starts_from (i + rune_width s) (drop (rune_width s) s))"
      by (simp add: rune_starts_from.simps [of i s])
    then show ?thesis
    proof
      assume "k \<in> set (rune_starts_from (i + rune_width s) (drop (rune_width s) s))"
      moreover from this have "drop (rune_width s) s \<noteq> []" by (auto simp: rune_starts_from.simps)
      ultimately show ?thesis using "1.IH" [OF False] by simp
    qed (use False in simp)
  qed
qed

subsection \<open>Network addresses\<close>

text \<open>\<^verbatim>\<open>net.UDPAddr\<close>: the IP as its 4 or 16 bytes.\<close>

record udp_addr =
  addr_IP :: bytes
  addr_Port :: int
  addr_Zone :: string

subsection \<open>Sequences of calls\<close>

text \<open>A sequence of calls of an operation that accepts or rejects its argument, with the verdicts,
  and the arguments that were accepted.\<close>

primrec accept_all :: "('w \<Rightarrow> 'i \<Rightarrow> 'w \<times> bool) \<Rightarrow> 'w \<Rightarrow> 'i list \<Rightarrow> 'w \<times> bool list" where
  "accept_all accept w [] = (w, [])"
| "accept_all accept w (i # is) =
     (let (w', ok) = accept w i; (w'', oks) = accept_all accept w' is in (w'', ok # oks))"

definition taken :: "'i list \<Rightarrow> bool list \<Rightarrow> 'i list" where
  "taken is oks = map fst (filter snd (zip is oks))"

end
