(* ===== verification/Draarl_Packet.thy ===== *)
theory Draarl_Packet
  imports Go_Base
begin

unbundle bit_operations_syntax

section \<open>The DraARLv1 device packet (\<open>internal/protocol/draarl.go\<close>)\<close>

text \<open>
  The 90-byte header and DATA region every device, client and node exchanges: decoding,
  encoding, the in-place rewrite of a forwarded packet, and the tables that classify
  device models and SSIDs.  A decoder returns the packet it has filled so far together
  with the error, if any, as the Go methods do through their receiver.
\<close>

abbreviation (input) DraARLVersion :: string where "DraARLVersion \<equiv> ''DraA''"
abbreviation (input) DraARLv1HeaderSize :: nat where "DraARLv1HeaderSize \<equiv> 90"
abbreviation (input) DraARLv1MaxPacketSize :: nat where "DraARLv1MaxPacketSize \<equiv> 800"
abbreviation (input) DraARLv1ReservedOffset :: nat where "DraARLv1ReservedOffset \<equiv> 86"
abbreviation (input) HeartbeatGPSPayloadSize :: nat where "HeartbeatGPSPayloadSize \<equiv> 24"
abbreviation (input) DraARLTypeJWTAuth :: byte where "DraARLTypeJWTAuth \<equiv> 1"
abbreviation (input) DraARLTypeHeartbeat :: byte where "DraARLTypeHeartbeat \<equiv> 2"
abbreviation (input) DraARLTypeConfig :: byte where "DraARLTypeConfig \<equiv> 3"
abbreviation (input) DraARLTypeTextMessage :: byte where "DraARLTypeTextMessage \<equiv> 4"
abbreviation (input) DraARLTypeOpus16K :: byte where "DraARLTypeOpus16K \<equiv> 5"

subsection \<open>Packets and their decoding\<close>

record draarl_packet =
  pkt_TimeStamp :: time
  pkt_UDPAddr :: "udp_addr option"
  pkt_Version :: string
  pkt_Length :: u16
  pkt_Username :: string
  pkt_DevicePassword :: string
  pkt_Type :: byte
  pkt_DevModel :: byte
  pkt_SSID :: byte
  pkt_DMRID :: u32
  pkt_CallSign :: string
  pkt_Reserved :: bytes
  pkt_DATA :: bytes

definition empty_packet :: draarl_packet where
  "empty_packet = \<lparr>pkt_TimeStamp = zero_time, pkt_UDPAddr = None, pkt_Version = '''', pkt_Length = 0,
     pkt_Username = '''', pkt_DevicePassword = '''', pkt_Type = 0, pkt_DevModel = 0, pkt_SSID = 0,
     pkt_DMRID = 0, pkt_CallSign = '''', pkt_Reserved = [], pkt_DATA = []\<rparr>"

datatype decode_error =
    PacketTooShort
  | InvalidVersion string
  | InvalidLength u16 nat
  | UnsupportedType byte

definition IsSupportedDraARLType :: "byte \<Rightarrow> bool" where
  "IsSupportedDraARLType packetType \<longleftrightarrow> DraARLTypeJWTAuth \<le> packetType \<and> packetType \<le> DraARLTypeOpus16K"

definition has_magic :: "bytes \<Rightarrow> bool" where
  "has_magic data \<longleftrightarrow> data ! 0 = byte_of (CHR ''D'') \<and> data ! 1 = byte_of (CHR ''r'') \<and>
     data ! 2 = byte_of (CHR ''a'') \<and> data ! 3 = byte_of (CHR ''A'')"

definition bytesToUint24 :: "bytes \<Rightarrow> u32" where
  "bytesToUint24 b =
     (if length b < 3 then 0
      else push_bit 16 (ucast (b ! 0)) OR push_bit 8 (ucast (b ! 1)) OR ucast (b ! 2))"

definition uint24ToBytes :: "u32 \<Rightarrow> bytes \<Rightarrow> bytes" where
  "uint24ToBytes v b =
     (if length b < 3 then b
      else b[0 := ucast (drop_bit 16 v), 1 := ucast (drop_bit 8 v), 2 := ucast v])"

definition text_field :: "bytes \<Rightarrow> nat \<Rightarrow> nat \<Rightarrow> string" where
  "text_field data lo hi = string_of (trim_zeros (slice data lo hi))"

definition decodeEnvelope :: "draarl_packet \<Rightarrow> bytes \<Rightarrow> draarl_packet \<times> decode_error option" where
  "decodeEnvelope p data =
     (if length data < DraARLv1HeaderSize then (p, Some PacketTooShort)
      else if \<not> has_magic data then (p, Some (InvalidVersion (string_of (slice data 0 4))))
      else
        let p = p\<lparr>pkt_Version := DraARLVersion, pkt_Length := getUint16 (slice data 4 6)\<rparr>
        in if unat (pkt_Length p) \<noteq> length data then (p, Some (InvalidLength (pkt_Length p) (length data)))
        else
          let p = p\<lparr>pkt_Type := data ! 48\<rparr>
          in if \<not> IsSupportedDraARLType (pkt_Type p) then (p, Some (UnsupportedType (pkt_Type p)))
          else
            let p = p\<lparr>pkt_DevModel := data ! 49, pkt_SSID := data ! 50,
                      pkt_DMRID := bytesToUint24 (slice data 51 54), pkt_Reserved := slice data 86 90\<rparr>
            in (if DraARLv1HeaderSize < length data then p\<lparr>pkt_DATA := drop DraARLv1HeaderSize data\<rparr> else p,
                None))"

definition DecodeRouting :: "draarl_packet \<Rightarrow> bytes \<Rightarrow> draarl_packet \<times> decode_error option" where
  "DecodeRouting p data =
     (case decodeEnvelope p data of
        (p, Some e) \<Rightarrow> (p, Some e)
      | (p, None) \<Rightarrow>
          let p = p\<lparr>pkt_Username := text_field data 6 38\<rparr>
          in (if pkt_Type p = DraARLTypeHeartbeat then p\<lparr>pkt_DevicePassword := text_field data 38 48\<rparr> else p,
              None))"

definition Decode :: "draarl_packet \<Rightarrow> bytes \<Rightarrow> draarl_packet \<times> decode_error option" where
  "Decode p data =
     (case decodeEnvelope p data of
        (p, Some e) \<Rightarrow> (p, Some e)
      | (p, None) \<Rightarrow>
          (p\<lparr>pkt_Username := text_field data 6 38, pkt_DevicePassword := text_field data 38 48,
             pkt_CallSign := text_field data 54 86\<rparr>, None))"

definition NewDraARLv1Packet :: "time \<Rightarrow> udp_addr option \<Rightarrow> bytes \<Rightarrow> decode_error + draarl_packet" where
  "NewDraARLv1Packet clock remoteAddr data =
     (case Decode (empty_packet\<lparr>pkt_UDPAddr := remoteAddr, pkt_TimeStamp := clock\<rparr>) data of
        (_, Some e) \<Rightarrow> Inl e | (p, None) \<Rightarrow> Inr p)"

definition NewDraARLv1RoutingPacket :: "time \<Rightarrow> udp_addr option \<Rightarrow> bytes \<Rightarrow> decode_error + draarl_packet" where
  "NewDraARLv1RoutingPacket clock remoteAddr data =
     (case DecodeRouting (empty_packet\<lparr>pkt_UDPAddr := remoteAddr, pkt_TimeStamp := clock\<rparr>) data of
        (_, Some e) \<Rightarrow> Inl e | (p, None) \<Rightarrow> Inr p)"

subsection \<open>Encoding\<close>

definition EncodeDraARLv1 ::
  "string \<Rightarrow> string \<Rightarrow> byte \<Rightarrow> byte \<Rightarrow> byte \<Rightarrow> u32 \<Rightarrow> string \<Rightarrow> bytes \<Rightarrow> bytes" where
  "EncodeDraARLv1 username devicePassword ssid packetType devModel dmrid callsign data =
     (let totalSize = DraARLv1HeaderSize + length data;
          packet = replicate totalSize 0;
          packet = go_copy packet 0 4 (bytes_of DraARLVersion);
          packet = go_copy packet 4 6 (putUint16 (of_nat totalSize));
          packet = go_copy packet 6 38 (take 32 (bytes_of username));
          packet = go_copy packet 38 48 (take 10 (bytes_of devicePassword));
          packet = packet[48 := packetType, 49 := devModel, 50 := ssid];
          packet = go_copy packet 51 54 (uint24ToBytes dmrid (slice packet 51 54));
          packet = go_copy packet 54 86 (take 32 (bytes_of callsign))
      in if 0 < length data then go_copy packet 90 totalSize data else packet)"

text \<open>
  \<open>RewriteForwardHeader\<close> works in a buffer from a pool: \<open>buf\<close> is the recycled buffer up
  to its capacity, with whatever bytes an earlier packet left in it.  A nil result is
  \<^const>\<open>None\<close>.
\<close>

definition RewriteForwardHeader ::
  "bytes \<Rightarrow> bytes \<Rightarrow> string \<Rightarrow> string \<Rightarrow> byte \<Rightarrow> byte \<Rightarrow> byte \<Rightarrow> u32 \<Rightarrow> bytes option" where
  "RewriteForwardHeader buf src username callsign ssid packetType devModel dmrid =
     (if length src < DraARLv1HeaderSize then None
      else if \<not> has_magic src then None
      else
        let out = (if length buf < length src then replicate (length src) 0 else take (length src) buf);
            out = go_copy out 0 (length src) src;
            out = go_copy out 6 38 (replicate 32 0);
            out = go_copy out 6 38 (take 32 (bytes_of username));
            out = go_copy out 38 48 (replicate 10 0);
            out = out[48 := packetType, 49 := devModel, 50 := ssid];
            out = go_copy out 51 54 (uint24ToBytes dmrid (slice out 51 54));
            out = go_copy out 54 86 (replicate 32 0);
            out = go_copy out 54 86 (take 32 (bytes_of callsign));
            out = go_copy out DraARLv1ReservedOffset DraARLv1HeaderSize (replicate 4 0)
        in Some (go_copy out 4 6 (putUint16 (of_nat (length out)))))"

definition PrepareForwardPacket ::
  "bytes \<Rightarrow> bytes \<Rightarrow> string \<Rightarrow> string \<Rightarrow> byte \<Rightarrow> byte \<Rightarrow> byte \<Rightarrow> u32 \<Rightarrow> bytes \<Rightarrow> bytes" where
  "PrepareForwardPacket buf src username callsign ssid packetType devModel dmrid payload =
     (if length src = DraARLv1HeaderSize + length payload
      then (case RewriteForwardHeader buf src username callsign ssid packetType devModel dmrid of
              Some rewritten \<Rightarrow> rewritten
            | None \<Rightarrow> EncodeDraARLv1 username '''' ssid packetType devModel dmrid callsign payload)
      else EncodeDraARLv1 username '''' ssid packetType devModel dmrid callsign payload)"

definition EncodeHeartbeatResponse :: "draarl_packet \<Rightarrow> string \<Rightarrow> bytes" where
  "EncodeHeartbeatResponse req callsign =
     (let totalSize = DraARLv1HeaderSize + length (pkt_DATA req);
          packet = replicate totalSize 0;
          packet = go_copy packet 0 4 (bytes_of DraARLVersion);
          packet = go_copy packet 4 6 (putUint16 (of_nat totalSize));
          packet = go_copy packet 6 38 (bytes_of (pkt_Username req));
          packet = go_copy packet 38 48 (bytes_of (pkt_DevicePassword req));
          packet = packet[48 := pkt_Type req, 49 := pkt_DevModel req, 50 := pkt_SSID req];
          packet = go_copy packet 51 54 (uint24ToBytes (pkt_DMRID req) (slice packet 51 54));
          packet = go_copy packet 54 86 (take 32 (bytes_of callsign))
      in if 0 < length (pkt_DATA req) then go_copy packet 90 totalSize (pkt_DATA req) else packet)"

definition EncodeHeartbeatRejectResponse :: "draarl_packet \<Rightarrow> byte \<Rightarrow> string \<Rightarrow> bytes" where
  "EncodeHeartbeatRejectResponse req code message =
     (let data = (if message \<noteq> '''' then [code] @ bytes_of message else [code])
      in EncodeDraARLv1 (pkt_Username req) '''' (pkt_SSID req) (pkt_Type req) (pkt_DevModel req)
           (pkt_DMRID req) '''' data)"

definition WithSourceGroupID :: "bytes \<Rightarrow> int \<Rightarrow> bytes option" where
  "WithSourceGroupID data groupID =
     (if length data < DraARLv1HeaderSize \<or> groupID \<le> 0 \<or> 2 ^ 32 - 1 < groupID then None
      else Some (go_copy data DraARLv1ReservedOffset (DraARLv1ReservedOffset + 4) (putUint32 (of_int groupID))))"

subsection \<open>Text helpers\<close>

definition mac_char_ok :: "string \<Rightarrow> nat \<Rightarrow> bool" where
  "mac_char_ok mac i \<longleftrightarrow>
     (if i mod 3 = 2 then mac ! i = CHR '':''
      else (CHR ''0'' \<le> mac ! i \<and> mac ! i \<le> CHR ''9'') \<or> (CHR ''A'' \<le> mac ! i \<and> mac ! i \<le> CHR ''F''))"

definition NormalizeMAC :: "(string \<Rightarrow> string) \<Rightarrow> string \<Rightarrow> string" where
  "NormalizeMAC uni mac =
     (let mac = to_upper uni (trim_space mac)
      in if length mac \<noteq> 17 then ''''
         else if list_all (mac_char_ok mac) [0..<length mac] then mac else '''')"

definition trim_both_zeros :: "bytes \<Rightarrow> bytes" where
  "trim_both_zeros bs = trim_zeros (dropWhile (\<lambda>b. b = 0) bs)"

definition ExtractHeartbeatMAC :: "(string \<Rightarrow> string) \<Rightarrow> bytes \<Rightarrow> string" where
  "ExtractHeartbeatMAC uni data =
     (if length data \<le> HeartbeatGPSPayloadSize then ''''
      else NormalizeMAC uni (trim_space (string_of (trim_both_zeros (drop HeartbeatGPSPayloadSize data)))))"

definition GetUsernameSSID :: "string \<Rightarrow> byte \<Rightarrow> string" where
  "GetUsernameSSID username ssid = username @ ''-'' @ itoa (uint ssid)"

definition GetCallSignSSID :: "string \<Rightarrow> byte \<Rightarrow> string" where
  "GetCallSignSSID callsign ssid = callsign @ ''-'' @ itoa (uint ssid)"

definition IsValidDevicePassword :: "string \<Rightarrow> bool" where
  "IsValidDevicePassword password \<longleftrightarrow>
     \<not> (length password < 6 \<or> 10 < length password) \<and>
     list_all (\<lambda>c. (CHR ''a'' \<le> c \<and> c \<le> CHR ''z'') \<or> (CHR ''A'' \<le> c \<and> c \<le> CHR ''Z'') \<or>
                   (CHR ''0'' \<le> c \<and> c \<le> CHR ''9'')) password"

text \<open>\<^verbatim>\<open>string(b)\<close> on a byte is the UTF-8 text of the code point of that number.\<close>

definition byte_rune :: "char \<Rightarrow> string" where
  "byte_rune c =
     (let n = of_char c :: nat
      in if n < 128 then [c] else [char_of (192 + n div 64), char_of (128 + n mod 64)])"

definition MaskDevicePassword :: "string \<Rightarrow> string" where
  "MaskDevicePassword password =
     (if length password \<le> 2 then ''***''
      else byte_rune (password ! 0) @ ''****'' @ byte_rune (password ! (length password - 1)))"

subsection \<open>Device models and SSIDs\<close>

definition IsGhostDevModel :: "byte \<Rightarrow> bool" where
  "IsGhostDevModel devModel \<longleftrightarrow> 101 \<le> devModel \<and> devModel \<le> 104"

definition IsGhostDevModelOrWeb :: "byte \<Rightarrow> bool" where
  "IsGhostDevModelOrWeb devModel \<longleftrightarrow> 100 \<le> devModel \<and> devModel \<le> 105"

definition GetGhostSSID :: "byte \<Rightarrow> byte" where
  "GetGhostSSID devModel = (if IsGhostDevModelOrWeb devModel then devModel else 0)"

definition IsValidNormalSSID :: "byte \<Rightarrow> bool" where
  "IsValidNormalSSID ssid \<longleftrightarrow> (1 \<le> ssid \<and> ssid \<le> 99) \<or> (106 \<le> ssid \<and> ssid \<le> 254)"

definition IsGhostSSID :: "byte \<Rightarrow> bool" where
  "IsGhostSSID ssid \<longleftrightarrow> 100 \<le> ssid \<and> ssid \<le> 105"

definition IsInterconnectSSID :: "byte \<Rightarrow> bool" where
  "IsInterconnectSSID ssid \<longleftrightarrow> 255 \<le> ssid \<and> ssid \<le> 255"

definition IsReservedSSID :: "byte \<Rightarrow> bool" where
  "IsReservedSSID ssid \<longleftrightarrow> IsGhostSSID ssid \<or> IsInterconnectSSID ssid"

definition IsInterconnectProductDevModel :: "byte \<Rightarrow> bool" where
  "IsInterconnectProductDevModel devModel \<longleftrightarrow> devModel \<le> 99"

definition IsGhostReservedDevModel :: "byte \<Rightarrow> bool" where
  "IsGhostReservedDevModel devModel \<longleftrightarrow> 100 \<le> devModel \<and> devModel \<le> 105"

definition IsBridgeSoftwareDevModel :: "byte \<Rightarrow> bool" where
  "IsBridgeSoftwareDevModel devModel \<longleftrightarrow> 236 \<le> devModel \<and> devModel \<le> 239"

definition IsValidClientReportedDevModel :: "byte \<Rightarrow> bool" where
  "IsValidClientReportedDevModel devModel \<longleftrightarrow>
     (if IsInterconnectProductDevModel devModel \<or> IsGhostReservedDevModel devModel \<or>
         IsBridgeSoftwareDevModel devModel then True
      else if devModel = 106 \<or> devModel = 107 then True
      else 151 \<le> devModel)"

definition IsSelectableHardwareDevModel :: "byte \<Rightarrow> bool" where
  "IsSelectableHardwareDevModel devModel \<longleftrightarrow> devModel = 1 \<or> devModel = 2"

definition FirmwareSupportedDevModels :: "byte list" where
  "FirmwareSupportedDevModels = [1, 2]"

definition IsFirmwareSupportedDevModel :: "byte \<Rightarrow> bool" where
  "IsFirmwareSupportedDevModel devModel \<longleftrightarrow> list_ex (\<lambda>m. m = devModel) FirmwareSupportedDevModels"

definition GetDevModelName :: "byte \<Rightarrow> string" where
  "GetDevModelName devModel =
     (if devModel = 0 then ''Unknown''
      else if devModel = 1 then ''ESP32 Radio Box (1W)''
      else if devModel = 2 then ''ESP32 Link Box (No RF)''
      else if devModel = 100 then ''WeChat Mini''
      else if devModel = 101 then ''Android''
      else if devModel = 102 then ''iOS''
      else if devModel = 103 then ''Windows''
      else if devModel = 104 then ''macOS''
      else if devModel = 105 then ''Web Browser''
      else if devModel = 106 then ''Interconnect (Legacy)''
      else if devModel = 107 then ''ESP32 Link Device (Legacy)''
      else if devModel = 236 then ''Nanshan Soft Bridge''
      else if devModel = 238 then ''HT Soft Bridge''
      else if devModel = 237 then ''Taotao Soft Bridge''
      else if devModel = 239 then ''NRL2 Soft Bridge''
      else ''Unknown('' @ itoa (uint devModel) @ '')'')"


subsection \<open>The layout of a header\<close>

definition pad :: "nat \<Rightarrow> bytes \<Rightarrow> bytes" where
  "pad n bs = take n bs @ replicate (n - length bs) 0"

definition u24 :: "u32 \<Rightarrow> bytes" where
  "u24 v = [ucast (drop_bit 16 v), ucast (drop_bit 8 v), ucast v]"

lemma length_u24 [simp]: "length (u24 v) = 3"
  by (simp add: u24_def)

lemma uint24ToBytes_3: "length b = 3 \<Longrightarrow> uint24ToBytes v b = u24 v"
  by (auto simp: uint24ToBytes_def u24_def length_Suc_conv numeral_eq_Suc)

lemma bytesToUint24_u24 [simp]: "bytesToUint24 (u24 v) = take_bit 24 v"
proof (rule bit_word_eqI)
  fix n assume "n < LENGTH(32)"
  then show "bit (bytesToUint24 (u24 v)) n \<longleftrightarrow> bit (take_bit 24 v) n"
    by (cases "n < 16") (auto simp: bytesToUint24_def u24_def bit_simps not_less)
qed

lemma u24_bytesToUint24: "length b = 3 \<Longrightarrow> u24 (bytesToUint24 b) = b"
proof -
  assume "length b = 3"
  then obtain x y z where b: "b = [x, y, z]"
    by (auto simp: length_Suc_conv numeral_eq_Suc)
  have "ucast (drop_bit 16 (bytesToUint24 b)) = x"
    by (rule bit_word_eqI) (auto simp: b bytesToUint24_def bit_simps dest: bit_imp_le_length)
  moreover have "ucast (drop_bit 8 (bytesToUint24 b)) = y"
    by (rule bit_word_eqI) (auto simp: b bytesToUint24_def bit_simps dest: bit_imp_le_length)
  moreover have "ucast (bytesToUint24 b) = z"
    by (rule bit_word_eqI) (auto simp: b bytesToUint24_def bit_simps)
  ultimately show ?thesis by (simp add: u24_def b)
qed

lemma length_pad [simp]: "length (pad n bs) = n"
  by (simp add: pad_def)

lemma header_slices:
  assumes "90 \<le> length xs"
  shows "xs = slice xs 0 4 @ slice xs 4 6 @ slice xs 6 38 @ slice xs 38 48 @
    [xs ! 48, xs ! 49, xs ! 50] @ slice xs 51 54 @ slice xs 54 86 @ slice xs 86 90 @ drop 90 xs"
proof -
  have three: "[xs ! 48, xs ! 49, xs ! 50] = slice xs 48 51"
    using assms by (intro nth_equalityI) (auto simp: nth_slice less_Suc_eq numeral_eq_Suc)
  have "xs = slice xs 0 90 @ drop 90 xs" by (simp add: slice_0)
  then show ?thesis unfolding three
    by (simp add: slice_slice_append flip: append_assoc)
qed

lemma byte_of_0: "byte_of (CHR 0x00) = 0"
  by (simp add: byte_of_def)

lemma header_eqI:
  assumes "length xs = length ys" and "90 \<le> length xs"
    and "slice xs 0 4 = slice ys 0 4" and "slice xs 4 6 = slice ys 4 6"
    and "slice xs 6 38 = slice ys 6 38" and "slice xs 38 48 = slice ys 38 48"
    and "xs ! 48 = ys ! 48" and "xs ! 49 = ys ! 49" and "xs ! 50 = ys ! 50"
    and "slice xs 51 54 = slice ys 51 54" and "slice xs 54 86 = slice ys 54 86"
    and "slice xs 86 90 = slice ys 86 90" and "drop 90 xs = drop 90 ys"
  shows "xs = ys"
  using header_slices [of xs] header_slices [of ys] assms by simp

lemma has_magic_iff: "90 \<le> length xs \<Longrightarrow> has_magic xs \<longleftrightarrow> slice xs 0 4 = bytes_of ''DraA''"
proof -
  assume "90 \<le> length xs"
  then have "slice xs 0 4 = [xs ! 0, xs ! 1, xs ! 2, xs ! 3]"
    by (intro nth_equalityI) (auto simp: nth_slice less_Suc_eq numeral_eq_Suc)
  then show ?thesis by (simp add: has_magic_def bytes_of_def)
qed

lemma encode_layout [simp]:
  defines "packet u pw ssid t m d cs data \<equiv> EncodeDraARLv1 u pw ssid t m d cs data"
  shows "length (packet u pw ssid t m d cs data) = 90 + length data"
    and "slice (packet u pw ssid t m d cs data) 0 4 = bytes_of ''DraA''"
    and "slice (packet u pw ssid t m d cs data) 4 6 = putUint16 (of_nat (90 + length data))"
    and "slice (packet u pw ssid t m d cs data) 6 38 = pad 32 (bytes_of u)"
    and "slice (packet u pw ssid t m d cs data) 38 48 = pad 10 (bytes_of pw)"
    and "packet u pw ssid t m d cs data ! 48 = t"
    and "packet u pw ssid t m d cs data ! 49 = m"
    and "packet u pw ssid t m d cs data ! 50 = ssid"
    and "slice (packet u pw ssid t m d cs data) 51 54 = u24 d"
    and "slice (packet u pw ssid t m d cs data) 54 86 = pad 32 (bytes_of cs)"
    and "slice (packet u pw ssid t m d cs data) 86 90 = replicate 4 0"
    and "drop 90 (packet u pw ssid t m d cs data) = data"
  by (simp_all add: packet_def EncodeDraARLv1_def Let_def buffer_simps u16.length_enc
      uint24ToBytes_3 pad_def min_def)

lemma rewrite_layout:
  assumes "RewriteForwardHeader buf src u cs ssid t m d = Some out"
  shows "length out = length src" and "90 \<le> length src" and "has_magic src"
    and "slice out 0 4 = bytes_of ''DraA''"
    and "slice out 4 6 = putUint16 (of_nat (length src))"
    and "slice out 6 38 = pad 32 (bytes_of u)"
    and "slice out 38 48 = replicate 10 0"
    and "out ! 48 = t" and "out ! 49 = m" and "out ! 50 = ssid"
    and "slice out 51 54 = u24 d"
    and "slice out 54 86 = pad 32 (bytes_of cs)"
    and "slice out 86 90 = replicate 4 0"
    and "drop 90 out = drop 90 src"
proof -
  from assms have src: "90 \<le> length src" "has_magic src"
    by (auto simp: RewriteForwardHeader_def split: if_splits)
  show "90 \<le> length src" "has_magic src" by (rule src)+
  from assms src have out: "out =
     go_copy (go_copy (go_copy (go_copy (go_copy ((go_copy (go_copy (go_copy src 6 38 (replicate 32 0)) 6 38
       (take 32 (bytes_of u))) 38 48 (replicate 10 0)) [48 := t, 49 := m, 50 := ssid])
       51 54 (u24 d)) 54 86 (replicate 32 0)) 54 86 (take 32 (bytes_of cs))) 86 90 (replicate 4 0))
       4 6 (putUint16 (of_nat (length src)))"
    by (cases "length buf < length src")
      (simp_all add: RewriteForwardHeader_def Let_def buffer_simps uint24ToBytes_3)
  show "length out = length src" and "slice out 0 4 = bytes_of ''DraA''"
    and "slice out 4 6 = putUint16 (of_nat (length src))"
    and "slice out 6 38 = pad 32 (bytes_of u)"
    and "slice out 38 48 = replicate 10 0"
    and "out ! 48 = t" and "out ! 49 = m" and "out ! 50 = ssid"
    and "slice out 51 54 = u24 d"
    and "slice out 54 86 = pad 32 (bytes_of cs)"
    and "slice out 86 90 = replicate 4 0"
    and "drop 90 out = drop 90 src"
    using src
    by (simp_all add: out buffer_simps u16.length_enc pad_def min_def flip: has_magic_iff)
qed

lemma pad_Nil [simp]: "pad n [] = replicate n 0"
  by (simp add: pad_def)

lemma RewriteForwardHeader_eq_encode:
  assumes "90 \<le> length src" and "has_magic src"
  shows "RewriteForwardHeader buf src u cs ssid t m d =
    Some (EncodeDraARLv1 u '''' ssid t m d cs (drop 90 src))"
proof -
  from assms obtain out where out: "RewriteForwardHeader buf src u cs ssid t m d = Some out"
    by (simp add: RewriteForwardHeader_def Let_def)
  have "out = EncodeDraARLv1 u '''' ssid t m d cs (drop 90 src)"
    by (rule header_eqI) (use assms in \<open>simp_all add: rewrite_layout [OF out] bytes_of_def [of "[]"]\<close>)
  with out show ?thesis by simp
qed

lemma trim_pad: "trim_zeros (pad n bs) = trim_zeros (take n bs)"
  by (simp add: pad_def)

text \<open>What a text field of width \<open>n\<close> carries of a string.\<close>

definition field_text :: "nat \<Rightarrow> string \<Rightarrow> string" where
  "field_text n s = string_of (trim_zeros (take n (bytes_of s)))"

lemma field_text_id:
  assumes "length s \<le> n" and "s = [] \<or> last s \<noteq> CHR 0x00"
  shows "field_text n s = s"
proof -
  have "bytes_of s = [] \<or> last (bytes_of s) \<noteq> 0"
  proof (cases "s = []")
    case False
    with assms(2) have "byte_of (last s) \<noteq> 0"
      by (metis byte_of_char_at char_at_byte_of byte_of_0)
    with False show ?thesis by (simp add: bytes_of_def last_map)
  qed (simp add: bytes_of_def)
  then show ?thesis using assms(1) by (simp add: field_text_def trim_zeros_id)
qed

lemma Decode_Encode:
  assumes "IsSupportedDraARLType t" and "90 + length data < 2 ^ 16"
  shows "Decode p (EncodeDraARLv1 u pw ssid t m d cs data) =
    (p\<lparr>pkt_Version := ''DraA'', pkt_Length := of_nat (90 + length data), pkt_Username := field_text 32 u,
       pkt_DevicePassword := field_text 10 pw, pkt_Type := t, pkt_DevModel := m, pkt_SSID := ssid,
       pkt_DMRID := take_bit 24 d, pkt_CallSign := field_text 32 cs, pkt_Reserved := replicate 4 0,
       pkt_DATA := (if data = [] then pkt_DATA p else data)\<rparr>, None)"
proof -
  let ?e = "EncodeDraARLv1 u pw ssid t m d cs data"
  have "has_magic ?e" by (simp add: has_magic_iff)
  moreover have "getUint16 (slice ?e 4 6) = of_nat (90 + length data)"
    by (simp add: u16.dec_enc del: of_nat_add)
  moreover have "unat (of_nat (90 + length data) :: u16) = 90 + length data"
    using assms(2) by (simp add: unat_of_nat del: of_nat_add)
  ultimately show ?thesis using assms(1)
    by (simp add: Decode_def decodeEnvelope_def Let_def text_field_def trim_pad field_text_def
        del: of_nat_add)
qed

lemmas devmodel_defs = IsGhostDevModel_def IsGhostDevModelOrWeb_def GetGhostSSID_def IsValidNormalSSID_def
  IsGhostSSID_def IsInterconnectSSID_def IsReservedSSID_def IsInterconnectProductDevModel_def
  IsGhostReservedDevModel_def IsBridgeSoftwareDevModel_def IsValidClientReportedDevModel_def
  IsSelectableHardwareDevModel_def FirmwareSupportedDevModels_def IsFirmwareSupportedDevModel_def

lemma unat_byte_less: "unat (b :: byte) < 256"
  using unsigned_less [of b, where ?'a = nat] by simp

lemma IsValidNormalSSID_iff: "IsValidNormalSSID ssid \<longleftrightarrow> ssid \<noteq> 0 \<and> \<not> IsReservedSSID ssid"
  using unat_byte_less [of ssid]
  by (auto simp: devmodel_defs word_le_nat_alt word_unat_eq_iff)

lemma IsValidClientReportedDevModel_iff:
  "IsValidClientReportedDevModel m \<longleftrightarrow> \<not> (108 \<le> m \<and> m \<le> 150)"
  using unat_byte_less [of m]
  by (auto simp: devmodel_defs word_le_nat_alt word_unat_eq_iff)

lemma IsGhostSSID_GetGhostSSID: "GetGhostSSID m \<noteq> 0 \<longleftrightarrow> IsGhostSSID (GetGhostSSID m)"
  by (auto simp: devmodel_defs)

lemma EncodeHeartbeatResponse_eq:
  "EncodeHeartbeatResponse req callsign =
     EncodeDraARLv1 (pkt_Username req) (pkt_DevicePassword req) (pkt_SSID req) (pkt_Type req)
       (pkt_DevModel req) (pkt_DMRID req) callsign (pkt_DATA req)"
  supply copy_take = go_copy_take [where hi = 38 and lo = 6, simplified] go_copy_take [where hi = 48 and lo = 38, simplified]
  by (simp add: EncodeHeartbeatResponse_def EncodeDraARLv1_def Let_def copy_take)

lemma pad_trim_zeros: "length bs = n \<Longrightarrow> pad n (trim_zeros bs) = bs"
proof -
  assume n: "length bs = n"
  have "rev bs = takeWhile (\<lambda>b. b = 0) (rev bs) @ dropWhile (\<lambda>b. b = 0) (rev bs)" by simp
  moreover have "takeWhile (\<lambda>b. b = 0) (rev bs) = replicate (length (takeWhile (\<lambda>b. b = 0) (rev bs))) 0"
    by (metis (mono_tags) replicate_eqI set_takeWhileD)
  ultimately obtain k where "rev bs = replicate k 0 @ rev (trim_zeros bs)"
    by (metis rev_rev_ident trim_zeros_def)
  then have "bs = trim_zeros bs @ replicate k 0"
    by (metis rev_append rev_replicate rev_rev_ident)
  moreover from this have "n = length (trim_zeros bs) + k"
    using n by (metis length_append length_replicate)
  ultimately show ?thesis by (simp add: pad_def)
qed

lemma putUint16_getUint16: "length bs = 2 \<Longrightarrow> putUint16 (getUint16 bs) = bs"
  using be_get_less [of bs] be_put_get [of bs] by (simp add: be_defs unat_of_nat)

lemma Encode_Decode:
  assumes "Decode p data = (q, None)" and "pkt_DATA p = []"
  shows "EncodeDraARLv1 (pkt_Username q) (pkt_DevicePassword q) (pkt_SSID q) (pkt_Type q) (pkt_DevModel q)
    (pkt_DMRID q) (pkt_CallSign q) (pkt_DATA q) = go_copy data 86 90 (replicate 4 0)"
proof -
  have env: "90 \<le> length data" "has_magic data" "unat (getUint16 (slice data 4 6)) = length data"
    and q: "q = p\<lparr>pkt_Version := ''DraA'', pkt_Length := getUint16 (slice data 4 6), pkt_Type := data ! 48,
      pkt_DevModel := data ! 49, pkt_SSID := data ! 50, pkt_DMRID := bytesToUint24 (slice data 51 54),
      pkt_Reserved := slice data 86 90, pkt_DATA := drop 90 data, pkt_Username := text_field data 6 38,
      pkt_DevicePassword := text_field data 38 48, pkt_CallSign := text_field data 54 86\<rparr>"
    using assms
    by (auto simp: Decode_def decodeEnvelope_def Let_def split: if_splits prod.splits option.splits)
  have len: "putUint16 (of_nat (length data)) = slice data 4 6"
  proof -
    have "(of_nat (length data) :: u16) = getUint16 (slice data 4 6)"
      by (simp flip: env(3))
    then show ?thesis using env(1) by (simp add: putUint16_getUint16)
  qed
  show ?thesis
    by (rule header_eqI) (use env in \<open>simp_all add: q text_field_def pad_trim_zeros
      u24_bytesToUint24 buffer_simps len has_magic_iff\<close>)
qed

lemma DecodeRouting_Decode:
  "snd (DecodeRouting p data) = snd (Decode p data)"
  "snd (Decode p data) = None \<Longrightarrow>
     fst (DecodeRouting p data) = (fst (Decode p data))\<lparr>
        pkt_DevicePassword := (if data ! 48 = DraARLTypeHeartbeat then pkt_DevicePassword (fst (Decode p data))
                               else pkt_DevicePassword p),
        pkt_CallSign := pkt_CallSign p\<rparr>"
  by (auto simp: DecodeRouting_def Decode_def decodeEnvelope_def Let_def split: if_splits)

subsection \<open>MAC addresses\<close>

definition mac_chars :: "char set" where
  "mac_chars = set ''0123456789ABCDEF:''"

lemma char_between_iff: "lo \<le> c \<and> c \<le> hi \<longleftrightarrow> (of_char lo :: nat) \<le> of_char c \<and> (of_char c :: nat) \<le> of_char hi"
  by (simp add: less_eq_char_def)

lemma mac_char_ok_in: "mac_char_ok mac i \<Longrightarrow> mac ! i \<in> mac_chars"
proof -
  assume ok: "mac_char_ok mac i"
  define n where "n = (of_char (mac ! i) :: nat)"
  have c: "mac ! i = char_of n" by (simp add: n_def)
  from ok have "n = 58 \<or> (48 \<le> n \<and> n \<le> 57) \<or> (65 \<le> n \<and> n \<le> 70)"
    unfolding n_def mac_char_ok_def char_between_iff by (auto split: if_splits)
  then have "n \<in> set ([48..<59] @ [65..<71])"
    unfolding set_append set_upt Un_iff atLeastLessThan_iff by presburger
  moreover have "list_all (\<lambda>k. char_of k \<in> set ''0123456789ABCDEF:'') ([48..<59] @ [65..<71])"
    by code_simp
  ultimately show ?thesis unfolding c mac_chars_def list_all_iff by blast
qed

lemma mac_chars_not_space: "r \<in> set space_runes \<Longrightarrow> hd r \<notin> mac_chars \<and> last r \<notin> mac_chars \<and> r \<noteq> []"
proof -
  have "list_all (\<lambda>r. hd r \<notin> set ''0123456789ABCDEF:'' \<and> last r \<notin> set ''0123456789ABCDEF:'' \<and> r \<noteq> [])
    space_runes"
    by code_simp
  then show "r \<in> set space_runes \<Longrightarrow> ?thesis" unfolding mac_chars_def list_all_iff by blast
qed

lemma mac_chars_upper: "c \<in> mac_chars \<Longrightarrow> ascii_upper c = c \<and> (of_char c :: nat) < 128"
  by (auto simp: mac_chars_def ascii_upper_def char_between_iff)

lemma starts_with_hd: "r \<noteq> [] \<Longrightarrow> starts_with r s \<Longrightarrow> s \<noteq> [] \<and> hd s = hd r"
  by (cases s; cases r) (auto simp: starts_with_def)

lemma trim_space_mac: "s \<noteq> [] \<Longrightarrow> set s \<subseteq> mac_chars \<Longrightarrow> trim_space s = s"
proof -
  assume s: "s \<noteq> []" "set s \<subseteq> mac_chars"
  have "strip_runes space_runes s = s"
    by (rule strip_runes_stop) (use s mac_chars_not_space starts_with_hd in \<open>metis hd_in_set subsetD\<close>)
  moreover have "strip_runes (map rev space_runes) (rev s) = rev s"
  proof (rule strip_runes_stop)
    fix r assume "r \<in> set (map rev space_runes)" and "r \<noteq> []"
    then have "hd r \<notin> mac_chars" using mac_chars_not_space by (auto simp: hd_rev)
    with s \<open>r \<noteq> []\<close> show "\<not> starts_with r (rev s)"
      by (metis hd_in_set set_rev starts_with_hd subsetD)
  qed
  ultimately show ?thesis by (simp add: trim_space_def)
qed

lemma NormalizeMAC_shape:
  assumes "NormalizeMAC uni m \<noteq> []"
  shows "length (NormalizeMAC uni m) = 17" and "list_all (mac_char_ok (NormalizeMAC uni m)) [0..<17]"
    and "set (NormalizeMAC uni m) \<subseteq> mac_chars"
proof -
  show len: "length (NormalizeMAC uni m) = 17" and ok: "list_all (mac_char_ok (NormalizeMAC uni m)) [0..<17]"
    using assms by (auto simp: NormalizeMAC_def Let_def split: if_splits)
  show "set (NormalizeMAC uni m) \<subseteq> mac_chars"
    using len ok by (auto simp: in_set_conv_nth list_all_iff intro!: mac_char_ok_in)
qed

lemma NormalizeMAC_idem: "NormalizeMAC uni (NormalizeMAC uni m) = NormalizeMAC uni m"
proof (cases "NormalizeMAC uni m = []")
  case True
  have "trim_space '''' = ''''"
    using length_strip_runes [of space_runes "''''"] length_strip_runes [of "map rev space_runes" "''''"]
    by (simp add: trim_space_def)
  with True show ?thesis by (simp add: NormalizeMAC_def Let_def to_upper_def is_ascii_def)
next
  case False
  let ?n = "NormalizeMAC uni m"
  note shape = NormalizeMAC_shape [OF False]
  from shape(3) have "is_ascii ?n" and "map ascii_upper ?n = ?n"
    using mac_chars_upper by (auto simp: is_ascii_def intro!: map_idI)
  then have "to_upper uni (trim_space ?n) = ?n"
    using False shape(3) by (simp add: trim_space_mac to_upper_def)
  with shape(1,2) show ?thesis by (simp add: NormalizeMAC_def [of uni ?n])
qed

lemma PrepareForwardPacket_eq:
  "PrepareForwardPacket buf src u cs ssid t m d payload =
     EncodeDraARLv1 u '''' ssid t m d cs
       (if length src = 90 + length payload \<and> has_magic src then drop 90 src else payload)"
proof (cases "length src = 90 + length payload \<and> has_magic src")
  case True
  then show ?thesis by (simp add: PrepareForwardPacket_def RewriteForwardHeader_eq_encode)
qed (auto simp: PrepareForwardPacket_def RewriteForwardHeader_def)

lemma replicate_4: "replicate 4 x = [x, x, x, x]"
  by (simp add: numeral_eq_Suc)

lemma ghost_not_interconnect: "IsGhostSSID ssid \<Longrightarrow> \<not> IsInterconnectSSID ssid"
  by (auto simp: devmodel_defs word_le_nat_alt)

lemma zero_not_reserved: "\<not> IsReservedSSID 0"
  by (simp add: devmodel_defs)

subsection \<open>Properties\<close>

text \<open>C39: Decoding an encoded packet gives back every field.  A packet of a supported type and of a
  size that the 16-bit length field can express, whose text fields fit and do not end in NUL,
  decodes without error to exactly the fields it was encoded from, the DMR ID reduced to its
  24 bits.\<close>

theorem decode_after_encode:
  assumes "IsSupportedDraARLType t" and "length data < 65446"
    and "length u \<le> 32" and "u = [] \<or> last u \<noteq> CHR 0x00"
    and "length pw \<le> 10" and "pw = [] \<or> last pw \<noteq> CHR 0x00"
    and "length cs \<le> 32" and "cs = [] \<or> last cs \<noteq> CHR 0x00"
  shows "NewDraARLv1Packet clock addr (EncodeDraARLv1 u pw ssid t m d cs data) = Inr
    \<lparr>pkt_TimeStamp = clock, pkt_UDPAddr = addr, pkt_Version = ''DraA'', pkt_Length = of_nat (90 + length data),
     pkt_Username = u, pkt_DevicePassword = pw, pkt_Type = t, pkt_DevModel = m, pkt_SSID = ssid,
     pkt_DMRID = take_bit 24 d, pkt_CallSign = cs, pkt_Reserved = replicate 4 0, pkt_DATA = data\<rparr>"
  using assms
  by (simp add: NewDraARLv1Packet_def Decode_Encode field_text_id empty_packet_def del: of_nat_add)

theorem decode_after_encode_witness:
  "NewDraARLv1Packet 7 None (EncodeDraARLv1 ''BG5'' ''12345678'' 3 5 1 4600001 ''BG5XYZ'' [1, 2, 3]) = Inr
    \<lparr>pkt_TimeStamp = 7, pkt_UDPAddr = None, pkt_Version = ''DraA'', pkt_Length = 93,
     pkt_Username = ''BG5'', pkt_DevicePassword = ''12345678'', pkt_Type = 5, pkt_DevModel = 1, pkt_SSID = 3,
     pkt_DMRID = 4600001, pkt_CallSign = ''BG5XYZ'', pkt_Reserved = [0, 0, 0, 0], pkt_DATA = [1, 2, 3]\<rparr>"
  using decode_after_encode [of 5 "[1, 2, 3]" "''BG5''" "''12345678''" "''BG5XYZ''" 7 None 3 1 4600001]
  by (simp add: IsSupportedDraARLType_def replicate_4)

text \<open>Encoding a decoded packet gives back the received bytes.  The decoder loses nothing but the
  four reserved bytes, which the encoder clears.\<close>

theorem encode_after_decode:
  assumes "NewDraARLv1Packet clock addr data = Inr p"
  shows "EncodeDraARLv1 (pkt_Username p) (pkt_DevicePassword p) (pkt_SSID p) (pkt_Type p) (pkt_DevModel p)
    (pkt_DMRID p) (pkt_CallSign p) (pkt_DATA p) = take 86 data @ replicate 4 0 @ drop 90 data"
proof -
  let ?p0 = "empty_packet\<lparr>pkt_UDPAddr := addr, pkt_TimeStamp := clock\<rparr>"
  from assms have dec: "Decode ?p0 data = (p, None)"
    by (auto simp: NewDraARLv1Packet_def split: prod.splits option.splits)
  then have "90 \<le> length data"
    by (auto simp: Decode_def decodeEnvelope_def Let_def split: if_splits prod.splits option.splits)
  then have "go_copy data 86 90 (replicate 4 0) = take 86 data @ replicate 4 0 @ drop 90 data"
    by (intro nth_equalityI) (auto simp: nth_go_copy nth_append)
  with Encode_Decode [OF dec] show ?thesis by (simp add: empty_packet_def)
qed

theorem encode_after_decode_witness:
  "\<exists>p. NewDraARLv1Packet 7 None (EncodeDraARLv1 ''BG5'' '''' 3 5 1 9 ''BG5XYZ'' [1, 2, 3]) = Inr p \<and>
    EncodeDraARLv1 (pkt_Username p) (pkt_DevicePassword p) (pkt_SSID p) (pkt_Type p) (pkt_DevModel p)
      (pkt_DMRID p) (pkt_CallSign p) (pkt_DATA p) =
    take 86 (EncodeDraARLv1 ''BG5'' '''' 3 5 1 9 ''BG5XYZ'' [1, 2, 3]) @ replicate 4 0 @ [1, 2, 3]"
proof -
  let ?d = "EncodeDraARLv1 ''BG5'' '''' 3 5 1 9 ''BG5XYZ'' [1, 2, 3]"
  have "\<exists>p. NewDraARLv1Packet 7 None ?d = Inr p"
    by (simp add: NewDraARLv1Packet_def Decode_Encode IsSupportedDraARLType_def)
  then obtain p where "NewDraARLv1Packet 7 None ?d = Inr p" by blast
  moreover have "drop 90 ?d = [1, 2, 3]" by (rule encode_layout(12))
  ultimately show ?thesis using encode_after_decode [of 7 None ?d p] by metis
qed

text \<open>A forwarded packet carries exactly the fields it is given and nothing else: whatever bytes
  the recycled buffer and the original header held, the result is a fresh encoding with an
  empty password field and a cleared reserved field.\<close>

theorem forward_packet_is_fresh:
  "PrepareForwardPacket buf src u cs ssid t m d payload =
     EncodeDraARLv1 u '''' ssid t m d cs
       (if length src = 90 + length payload \<and> has_magic src then drop 90 src else payload)"
  by (rule PrepareForwardPacket_eq)

text \<open>The heartbeat reply, which has its own encoding routine, is the general encoding of the
  request's fields with the given call sign.\<close>

theorem heartbeat_response_encodes:
  "EncodeHeartbeatResponse req callsign =
     EncodeDraARLv1 (pkt_Username req) (pkt_DevicePassword req) (pkt_SSID req) (pkt_Type req)
       (pkt_DevModel req) (pkt_DMRID req) callsign (pkt_DATA req)"
  by (rule EncodeHeartbeatResponse_eq)

text \<open>The routing decoder of the hot path accepts and rejects the same packets, with the same
  errors, as the full decoder, and where both succeed it differs only in the fields it skips:
  the call sign, and the password of packets that are not heartbeats.\<close>

theorem routing_decoder_agrees:
  "(case NewDraARLv1Packet clock addr data of
      Inl e \<Rightarrow> NewDraARLv1RoutingPacket clock addr data = Inl e
    | Inr p \<Rightarrow> NewDraARLv1RoutingPacket clock addr data =
        Inr (p\<lparr>pkt_CallSign := '''', pkt_DevicePassword := (if pkt_Type p = DraARLTypeHeartbeat then pkt_DevicePassword p else '''')\<rparr>))"
  by (auto simp: NewDraARLv1Packet_def NewDraARLv1RoutingPacket_def DecodeRouting_def Decode_def decodeEnvelope_def
      Let_def empty_packet_def split: prod.splits option.splits)

text \<open>The SSID space is partitioned: every SSID is 0, a normal device SSID, a ghost client SSID or
  an interconnection SSID, the classes exclude each other, and the SSID a ghost device model
  is given is a ghost SSID.\<close>

theorem ssid_classes:
  "(ssid = 0 \<or> IsValidNormalSSID ssid \<or> IsReservedSSID ssid) \<and>
   \<not> (IsValidNormalSSID ssid \<and> IsReservedSSID ssid) \<and> \<not> (ssid = 0 \<and> (IsValidNormalSSID ssid \<or> IsReservedSSID ssid)) \<and>
   \<not> (IsGhostSSID ssid \<and> IsInterconnectSSID ssid) \<and> (GetGhostSSID m = 0 \<or> IsGhostSSID (GetGhostSSID m))"
  using IsValidNormalSSID_iff [of ssid] ghost_not_interconnect [of ssid]
    zero_not_reserved IsGhostSSID_GetGhostSSID [of m]
  by blast

text \<open>Normalizing a MAC address is idempotent, and a result that is not empty is 17 characters of
  upper-case hexadecimal digits and colons, whatever Unicode case mapping applies to the input.\<close>

theorem normalized_mac:
  "NormalizeMAC uni (NormalizeMAC uni m) = NormalizeMAC uni m \<and>
   (NormalizeMAC uni m = '''' \<or> length (NormalizeMAC uni m) = 17 \<and> set (NormalizeMAC uni m) \<subseteq> set ''0123456789ABCDEF:'')"
  using NormalizeMAC_idem [of uni m] NormalizeMAC_shape [of uni m] unfolding mac_chars_def by blast

end
