(* ===== verification/Relay_Inner.thy ===== *)
theory Relay_Inner
  imports Draarl_Packet
begin

section \<open>Packets carried by a relay (\<open>internal/protocol/relay_validation.go\<close>, \<open>ghost_auth.go\<close>)\<close>

text \<open>
  The checks a centre or an edge makes on the ordinary packet inside a Type 0 relay frame,
  and the use of the header's Reserved field for session tags.
\<close>

datatype relay_error = RelayInnerSize | RelayInnerEnvelope | RelayInnerNotRealtime | RelayInnerCredentials

definition ValidateRelayInnerPacket :: "bytes \<Rightarrow> relay_error option" where
  "ValidateRelayInnerPacket data =
     (if length data < DraARLv1HeaderSize \<or> DraARLv1MaxPacketSize < length data then Some RelayInnerSize
      else if \<not> has_magic data \<or> unat (getUint16 (slice data 4 6)) \<noteq> length data then Some RelayInnerEnvelope
      else if data ! 48 \<noteq> DraARLTypeTextMessage \<and> data ! 48 \<noteq> DraARLTypeOpus16K then Some RelayInnerNotRealtime
      else if list_ex (\<lambda>v. v \<noteq> 0) (slice data 38 48) then Some RelayInnerCredentials
      else None)"

text \<open>
  The loop over \<^verbatim>\<open>range expected\<close> visits the index of the first byte of each rune of the
  expected text, not every byte.
\<close>

definition fixedFieldMatches :: "bytes \<Rightarrow> string \<Rightarrow> bool \<Rightarrow> bool" where
  "fixedFieldMatches field expected allowEmpty \<longleftrightarrow>
     (if length field < length expected then False
      else if allowEmpty \<and> list_all (\<lambda>v. v = 0) field then True
      else if list_ex (\<lambda>i. field ! i \<noteq> byte_of (expected ! i)) (rune_starts expected) then False
      else list_all (\<lambda>v. v = 0) (drop (length expected) field))"

definition RelayInnerIdentityMatches :: "bytes \<Rightarrow> string \<Rightarrow> string \<Rightarrow> byte \<Rightarrow> bool" where
  "RelayInnerIdentityMatches data username callSign ssid \<longleftrightarrow>
     (if length data < DraARLv1HeaderSize \<or> data ! 50 \<noteq> ssid \<or>
         \<not> fixedFieldMatches (slice data 6 38) username False then False
      else fixedFieldMatches (slice data 54 86) callSign True)"

definition ReservedUint32 :: "bytes \<Rightarrow> u32" where
  "ReservedUint32 reserved = (if length reserved < 4 then 0 else getUint32 (take 4 reserved))"

definition WithReservedUint32 :: "bytes \<Rightarrow> u32 \<Rightarrow> bytes option" where
  "WithReservedUint32 data value =
     (if length data < DraARLv1HeaderSize then None
      else Some (go_copy data DraARLv1ReservedOffset (DraARLv1ReservedOffset + 4) (putUint32 value)))"

subsection \<open>Field comparison\<close>

lemma list_all_zero_replicate: "list_all (\<lambda>v. v = (0 :: byte)) bs \<longleftrightarrow> bs = replicate (length bs) 0"
  unfolding list_all_iff by (metis in_set_replicate replicate_eqI)

lemma fixedFieldMatches_ascii:
  assumes "is_ascii expected" and "length expected \<le> length field"
  shows "fixedFieldMatches field expected False \<longleftrightarrow> field = pad (length field) (bytes_of expected)"
proof -
  let ?n = "length expected"
  have "(\<forall>i<?n. field ! i = byte_of (expected ! i)) \<longleftrightarrow> take ?n field = bytes_of expected"
    using assms(2) by (auto simp: list_eq_iff_nth_eq bytes_of_def)
  moreover have "field = pad (length field) (bytes_of expected) \<longleftrightarrow>
      take ?n field = bytes_of expected \<and> drop ?n field = replicate (length field - ?n) 0"
    using assms(2) append_eq_append_conv [of "take ?n field" "bytes_of expected" "drop ?n field"
      "replicate (length field - ?n) 0"] by (simp add: pad_def)
  ultimately show ?thesis
    using assms by (auto simp: fixedFieldMatches_def rune_starts_from_ascii list_ex_iff list_all_zero_replicate)
qed

lemma fixedFieldMatches_self: "length s \<le> n \<Longrightarrow> fixedFieldMatches (pad n (bytes_of s)) s e"
proof -
  assume n: "length s \<le> n"
  have "pad n (bytes_of s) ! i = byte_of (s ! i)" if "i \<in> set (rune_starts s)" for i
    using rune_starts_from_bound [OF that] n by (simp add: pad_def nth_append bytes_of_def)
  with n show ?thesis
    by (auto simp: fixedFieldMatches_def list_ex_iff list_all_iff pad_def)
qed

lemma ReservedUint32_putUint32 [simp]: "ReservedUint32 (putUint32 v) = v"
  by (simp add: ReservedUint32_def u32.length_enc u32.dec_enc)

lemma WithReservedUint32_tag:
  assumes "WithReservedUint32 data v = Some out"
  shows "length out = length data" and "ReservedUint32 (slice out 86 90) = v"
    and "take 86 out = take 86 data" and "drop 90 out = drop 90 data"
proof -
  from assms have out: "90 \<le> length data" "out = go_copy data 86 90 (putUint32 v)"
    by (auto simp: WithReservedUint32_def split: if_splits)
  then have "slice out 86 90 = putUint32 v"
    by (simp add: buffer_simps u32.length_enc)
  with out show "length out = length data" "ReservedUint32 (slice out 86 90) = v"
    "drop 90 out = drop 90 data" by (simp_all add: buffer_simps)
  show "take 86 out = take 86 data"
    using out by (simp add: buffer_simps flip: slice_0)
qed

lemma fixedFieldMatches_allow_empty:
  assumes "is_ascii expected" and "length expected \<le> length field"
  shows "fixedFieldMatches field expected True \<longleftrightarrow>
    field = replicate (length field) 0 \<or> field = pad (length field) (bytes_of expected)"
proof -
  have "fixedFieldMatches field expected True \<longleftrightarrow>
      list_all (\<lambda>v. v = 0) field \<or> fixedFieldMatches field expected False"
    using assms(2) by (auto simp: fixedFieldMatches_def)
  then show ?thesis using fixedFieldMatches_ascii [OF assms] by (simp add: list_all_zero_replicate)
qed

lemma forward_relayable:
  assumes "t = DraARLTypeTextMessage \<or> t = DraARLTypeOpus16K" and "length payload \<le> 710"
    and "length u \<le> 32" and "length cs \<le> 32"
  shows "ValidateRelayInnerPacket (PrepareForwardPacket buf src u cs ssid t m d payload) = None \<and>
    RelayInnerIdentityMatches (PrepareForwardPacket buf src u cs ssid t m d payload) u cs ssid"
proof -
  define data where "data = (if length src = 90 + length payload \<and> has_magic src then drop 90 src else payload)"
  let ?e = "EncodeDraARLv1 u '''' ssid t m d cs data"
  have len: "length data \<le> 710" using assms(2) by (simp add: data_def)
  have eq: "PrepareForwardPacket buf src u cs ssid t m d payload = ?e"
    by (simp add: PrepareForwardPacket_eq data_def)
  have "unat (of_nat (90 + length data) :: u16) = 90 + length data"
    using len by (simp add: unat_of_nat del: of_nat_add)
  then have "ValidateRelayInnerPacket ?e = None"
    using assms(1) len
    by (auto simp: ValidateRelayInnerPacket_def has_magic_iff u16.dec_enc bytes_of_def [of "[]"] list_ex_iff simp del: of_nat_add)
  moreover have "RelayInnerIdentityMatches ?e u cs ssid"
    using assms(3,4) by (simp add: RelayInnerIdentityMatches_def fixedFieldMatches_self)
  ultimately show ?thesis by (simp add: eq)
qed

subsection \<open>Properties\<close>

text \<open>Every voice or text packet the hub forwards passes the checks a peer applies to the inner
  packet of a relay frame: it is well-formed and free of credentials, and it matches the
  identity it was rewritten to.\<close>

theorem forwarded_packet_is_relayable:
  assumes "t = DraARLTypeTextMessage \<or> t = DraARLTypeOpus16K" and "length payload \<le> 710"
    and "length u \<le> 32" and "length cs \<le> 32"
  shows "ValidateRelayInnerPacket (PrepareForwardPacket buf src u cs ssid t m d payload) = None \<and>
    RelayInnerIdentityMatches (PrepareForwardPacket buf src u cs ssid t m d payload) u cs ssid"
  using forward_relayable [OF assms] .

theorem forwarded_packet_is_relayable_witness:
  "ValidateRelayInnerPacket (PrepareForwardPacket [7] [9] ''BG5'' ''BG5XYZ'' 3 5 1 9 [1, 2, 3]) = None"
  using forwarded_packet_is_relayable [of 5 "[1, 2, 3]" "''BG5''" "''BG5XYZ''" "[7]" "[9]" 3 1 9] by simp

text \<open>On ASCII names the identity check of a relayed packet is exact: it accepts precisely the
  packets with the right SSID whose user name field is the padded user name and whose call
  sign field is empty or the padded call sign.\<close>

theorem relay_identity_exact:
  assumes "is_ascii u" and "length u \<le> 32" and "is_ascii cs" and "length cs \<le> 32"
  shows "RelayInnerIdentityMatches data u cs ssid \<longleftrightarrow>
    90 \<le> length data \<and> data ! 50 = ssid \<and> slice data 6 38 = pad 32 (bytes_of u) \<and>
    (slice data 54 86 = replicate 32 0 \<or> slice data 54 86 = pad 32 (bytes_of cs))"
proof (cases "90 \<le> length data")
  case True
  then show ?thesis
    using fixedFieldMatches_ascii [of u "slice data 6 38"] fixedFieldMatches_allow_empty [of cs "slice data 54 86"] assms
    by (auto simp: RelayInnerIdentityMatches_def)
qed (simp add: RelayInnerIdentityMatches_def)

theorem relay_identity_exact_witness:
  "\<not> RelayInnerIdentityMatches (EncodeDraARLv1 ''BG6'' '''' 3 5 1 9 '''' []) ''BG5'' '''' 3"
proof -
  have "is_ascii ''BG5''" "is_ascii ''''" by code_simp+
  then have "RelayInnerIdentityMatches (EncodeDraARLv1 ''BG6'' '''' 3 5 1 9 '''' []) ''BG5'' '''' 3 \<longleftrightarrow>
      90 \<le> length (EncodeDraARLv1 ''BG6'' '''' 3 5 1 9 '''' []) \<and> EncodeDraARLv1 ''BG6'' '''' 3 5 1 9 '''' [] ! 50 = 3 \<and>
      slice (EncodeDraARLv1 ''BG6'' '''' 3 5 1 9 '''' []) 6 38 = pad 32 (bytes_of ''BG5'') \<and>
      (slice (EncodeDraARLv1 ''BG6'' '''' 3 5 1 9 '''' []) 54 86 = replicate 32 0 \<or>
       slice (EncodeDraARLv1 ''BG6'' '''' 3 5 1 9 '''' []) 54 86 = pad 32 (bytes_of ''''))"
    using relay_identity_exact [of "''BG5''" "''''" "EncodeDraARLv1 ''BG6'' '''' 3 5 1 9 '''' []" 3] by simp
  moreover have "pad 32 (bytes_of ''BG6'') \<noteq> pad 32 (bytes_of ''BG5'')" by code_simp
  ultimately show ?thesis by simp
qed

text \<open>On other names it is not: the comparison loop ranges over the runes of the expected name and
  compares only the first byte of each, so a packet of one user passes as a packet of another
  whose name differs in the trailing bytes of an accented letter.\<close>

theorem relay_identity_confuses_names:
  "string_of [0xC3, 0xA9] \<noteq> string_of [0xC3, 0xA8] \<and>
   RelayInnerIdentityMatches (EncodeDraARLv1 (string_of [0xC3, 0xA9]) '''' 3 5 1 9 '''' [])
     (string_of [0xC3, 0xA8]) '''' 3"
  by code_simp

end
