(* ===== verification/Go_Crypto.thy ===== *)
theory Go_Crypto
  imports Go_Base
begin

unbundle bit_operations_syntax

section \<open>SHA-256, HMAC and hexadecimal text\<close>

text \<open>
  What the interconnect uses of \<^verbatim>\<open>crypto/sha256\<close>, \<^verbatim>\<open>crypto/hmac\<close> and \<^verbatim>\<open>encoding/hex\<close>,
  as executable functions on byte lists (FIPS 180-4 and RFC 2104).  The component proofs
  use the length of a digest only.
\<close>

definition sha256_k :: "u32 list" where
  "sha256_k =
    [1116352408, 1899447441, 3049323471, 3921009573, 961987163, 1508970993, 2453635748, 2870763221,
     3624381080, 310598401, 607225278, 1426881987, 1925078388, 2162078206, 2614888103, 3248222580,
     3835390401, 4022224774, 264347078, 604807628, 770255983, 1249150122, 1555081692, 1996064986,
     2554220882, 2821834349, 2952996808, 3210313671, 3336571891, 3584528711, 113926993, 338241895,
     666307205, 773529912, 1294757372, 1396182291, 1695183700, 1986661051, 2177026350, 2456956037,
     2730485921, 2820302411, 3259730800, 3345764771, 3516065817, 3600352804, 4094571909, 275423344,
     430227734, 506948616, 659060556, 883997877, 958139571, 1322822218, 1537002063, 1747873779,
     1955562222, 2024104815, 2227730452, 2361852424, 2428436474, 2756734187, 3204031479, 3329325298]"

definition sha256_init :: "u32 list" where
  "sha256_init =
    [0x6a09e667, 0xbb67ae85, 0x3c6ef372, 0xa54ff53a, 0x510e527f, 0x9b05688c, 0x1f83d9ab, 0x5be0cd19]"

definition rotr :: "nat \<Rightarrow> u32 \<Rightarrow> u32" where
  "rotr n w = drop_bit n w OR push_bit (32 - n) w"

fun words_of :: "bytes \<Rightarrow> u32 list" where
  "words_of (a # b # c # d # rest) = getUint32 [a, b, c, d] # words_of rest"
| "words_of _ = []"

text \<open>The message schedule, most recent word first.\<close>

fun sha256_schedule :: "nat \<Rightarrow> u32 list \<Rightarrow> u32 list" where
  "sha256_schedule 0 ws = ws"
| "sha256_schedule (Suc n) ws =
     (let x = ws ! 14; y = ws ! 1;
          s0 = rotr 7 x XOR rotr 18 x XOR drop_bit 3 x;
          s1 = rotr 17 y XOR rotr 19 y XOR drop_bit 10 y
      in sha256_schedule n ((ws ! 15 + s0 + ws ! 6 + s1) # ws))"

fun sha256_round :: "u32 list \<Rightarrow> u32 \<times> u32 \<Rightarrow> u32 list" where
  "sha256_round [a, b, c, d, e, f, g, h] (k, w) =
     (let s1 = rotr 6 e XOR rotr 11 e XOR rotr 25 e;
          ch = (e AND f) XOR (NOT e AND g);
          t1 = h + s1 + ch + k + w;
          s0 = rotr 2 a XOR rotr 13 a XOR rotr 22 a;
          maj = (a AND b) XOR (a AND c) XOR (b AND c)
      in [t1 + (s0 + maj), a, b, c, d + t1, e, f, g])"
| "sha256_round st _ = st"

definition sha256_block :: "u32 list \<Rightarrow> bytes \<Rightarrow> u32 list" where
  "sha256_block st block =
     map2 (+) st (foldl sha256_round st (zip sha256_k (rev (sha256_schedule 48 (rev (words_of block))))))"

fun sha256_blocks :: "nat \<Rightarrow> u32 list \<Rightarrow> bytes \<Rightarrow> u32 list" where
  "sha256_blocks 0 st bs = st"
| "sha256_blocks (Suc n) st bs = sha256_blocks n (sha256_block st (take 64 bs)) (drop 64 bs)"

definition sha256_pad :: "bytes \<Rightarrow> bytes" where
  "sha256_pad msg =
     msg @ [0x80] @ replicate ((119 - length msg mod 64) mod 64) 0 @ be_put 8 (8 * length msg)"

definition sha256 :: "bytes \<Rightarrow> bytes" where
  "sha256 msg =
     (let m = sha256_pad msg
      in concat (map putUint32 (sha256_blocks (length m div 64) sha256_init m)))"

definition hmac_sha256 :: "bytes \<Rightarrow> bytes \<Rightarrow> bytes" where
  "hmac_sha256 key msg =
     (let k = (if 64 < length key then sha256 key else key);
          k = k @ replicate (64 - length k) 0
      in sha256 (map (\<lambda>b. b XOR 0x5C) k @ sha256 (map (\<lambda>b. b XOR 0x36) k @ msg)))"

definition hex_encode :: "bytes \<Rightarrow> string" where
  "hex_encode bs =
     concat (map (\<lambda>b. [''0123456789abcdef'' ! (unat b div 16), ''0123456789abcdef'' ! (unat b mod 16)]) bs)"

definition is_hex_digit :: "char \<Rightarrow> bool" where
  "is_hex_digit c \<longleftrightarrow> c \<in> set ''0123456789abcdefABCDEF''"

subsection \<open>Lengths\<close>

lemma length_sha256_round [simp]: "length (sha256_round st kw) = length st"
  by (induction st kw rule: sha256_round.induct) (simp_all add: Let_def)

lemma length_foldl_round [simp]: "length (foldl sha256_round st kws) = length st"
  by (induction kws arbitrary: st) simp_all

lemma length_sha256_blocks [simp]: "length (sha256_blocks n st bs) = length st"
  by (induction n arbitrary: st bs) (simp_all add: sha256_block_def)

lemma length_concat_put [simp]: "length (concat (map putUint32 ws)) = 4 * length ws"
  by (induction ws) (simp_all add: u32.length_enc)

lemma length_sha256 [simp]: "length (sha256 msg) = 32"
  by (simp add: sha256_def Let_def sha256_init_def)

lemma length_hmac_sha256 [simp]: "length (hmac_sha256 key msg) = 32"
  by (simp add: hmac_sha256_def Let_def)

lemma length_hex_encode [simp]: "length (hex_encode bs) = 2 * length bs"
  by (induction bs) (simp_all add: hex_encode_def)

lemma nth_hex_digit: "n < 16 \<Longrightarrow> is_hex_digit (''0123456789abcdef'' ! n)"
proof -
  assume "n < 16"
  then have "''0123456789abcdef'' ! n \<in> set ''0123456789abcdef''" by (intro nth_mem) simp
  then show ?thesis by (auto simp: is_hex_digit_def)
qed

lemma hex_encode_digits: "list_all is_hex_digit (hex_encode bs)"
proof (induction bs)
  case (Cons b bs)
  have "unat b < 256" using unsigned_less [of b, where ?'a = nat] by simp
  then have "unat b div 16 < 16" "unat b mod 16 < 16" by simp_all
  with Cons show ?case by (simp add: hex_encode_def nth_hex_digit)
qed (simp add: hex_encode_def)

subsection \<open>Random integers (\<^verbatim>\<open>crypto/rand.Int\<close>)\<close>

text \<open>The source is the bytes it will deliver; a read past its end fails.  Candidates of the width of
  \<open>limit - 1\<close> are drawn until one is below the limit.\<close>

fun bit_len :: "nat \<Rightarrow> nat" where
  "bit_len n = (if n = 0 then 0 else Suc (bit_len (n div 2)))"

declare bit_len.simps [simp del]

function rand_int :: "nat \<Rightarrow> bytes \<Rightarrow> (nat \<times> bytes) option" where
  "rand_int limit source =
     (let bitLen = bit_len (limit - 1); k = (bitLen + 7) div 8
      in if bitLen = 0 then Some (0, source)
         else if length source < k then None
         else
           let n = be_get (take k source) mod 2 ^ bitLen
           in if n < limit then Some (n, drop k source) else rand_int limit (drop k source))"
  by auto
termination by (relation "measure (\<lambda>(limit, source). length source)") auto

declare rand_int.simps [simp del]

lemma bit_len_pos: "1 < limit \<Longrightarrow> 0 < bit_len (limit - 1)"
  by (simp add: bit_len.simps)

lemma rand_int_draw:
  assumes "1 < limit" and "rand_int limit source = Some (n, rest)"
  shows "n < limit \<and> length rest < length source"
  using assms
proof (induction limit source rule: rand_int.induct)
  case (1 limit source)
  define k where "k = (bit_len (limit - 1) + 7) div 8"
  have bl: "0 < bit_len (limit - 1)" using bit_len_pos 1 by blast
  then have k: "0 < k" by (simp add: k_def)
  have step: "rand_int limit source =
      (if length source < k then None
       else if be_get (take k source) mod 2 ^ bit_len (limit - 1) < limit
       then Some (be_get (take k source) mod 2 ^ bit_len (limit - 1), drop k source)
       else rand_int limit (drop k source))"
    using bl by (subst rand_int.simps) (simp add: Let_def k_def)
  show ?case
  proof (cases "length source < k \<or> be_get (take k source) mod 2 ^ bit_len (limit - 1) < limit")
    case True
    then show ?thesis using 1(3) k unfolding step by (auto split: if_splits)
  next
    case False
    then have "rand_int limit (drop k source) = Some (n, rest)" using 1(3) unfolding step by simp
    from 1(1) [OF refl k_def _ _ refl _ 1(2) this] bl False k show ?thesis by auto
  qed
qed

end
