(* ===== verification/Node_Envelope.thy ===== *)
theory Node_Envelope
  imports Draarl_Packet Go_Crypto
begin

unbundle bit_operations_syntax

section \<open>The node envelope (\<open>internal/interconnect/protocol.go\<close>)\<close>

text \<open>
  The private Type 0 datagram between a centre and its edges: a DraARL header of type 0,
  a 53-byte data header, the payload and an HMAC-SHA256 tag over all of it.  An
  \<^verbatim>\<open>int64\<close> field is kept as its 64-bit pattern; \<^const>\<open>sint\<close> reads its value.
\<close>

abbreviation (input) NodeMagic :: string where "NodeMagic \<equiv> ''DraA''"
abbreviation (input) NodePacketType :: byte where "NodePacketType \<equiv> 0"
abbreviation (input) NodeProtocolVersion :: byte where "NodeProtocolVersion \<equiv> 1"
abbreviation (input) NodeIDSize :: nat where "NodeIDSize \<equiv> 32"
abbreviation (input) NodeAuthTagSize :: nat where "NodeAuthTagSize \<equiv> 32"
abbreviation (input) DraARLHeaderSize :: nat where "DraARLHeaderSize \<equiv> 90"
abbreviation (input) NodeHeaderSize :: nat where "NodeHeaderSize \<equiv> 143"
abbreviation (input) NodeMaxDatagramSize :: nat where "NodeMaxDatagramSize \<equiv> 1400"
abbreviation (input) NodeMaxControlSize :: nat where "NodeMaxControlSize \<equiv> 65535"

definition IsKnownSubtype :: "byte \<Rightarrow> bool" where
  "IsKnownSubtype subtype \<longleftrightarrow>
     subtype \<in> {0x01, 0x03, 0x05, 0x06, 0x07, 0x10, 0x11, 0x12, 0x13, 0x14, 0x15,
                0x20, 0x21, 0x22, 0x23, 0x24, 0x25, 0x28, 0x30, 0x31, 0x40, 0x41}"

record envelope =
  env_Version :: byte
  env_Subtype :: byte
  env_Flags :: u16
  env_ClusterEpoch :: u64
  env_ProjectionVersion :: u64
  env_SourceNodeID :: string
  env_NodeSessionID :: u64
  env_MessageID :: u64
  env_SentAtMillis :: u64
  env_HopCount :: byte
  env_KeyEpoch :: u32
  env_Payload :: bytes
  env_AuthTag :: bytes
  env_Duplicate :: bool
  env_receivedAt :: time

datatype node_error =
    NodeKeyTooShort
  | NodeIDInvalid
  | NodeVersionUnsupported byte
  | NodePayloadTooLarge
  | NodeHopCount
  | NodeTagPreset
  | NodePacketSize
  | NodePacketMagic
  | NodePacketLength
  | NodeNotType0
  | NodePacketMarker
  | NodePayloadLength
  | NodeAuthTag

definition NewEnvelope :: "time \<Rightarrow> byte \<Rightarrow> string \<Rightarrow> u64 \<Rightarrow> u64 \<Rightarrow> bytes \<Rightarrow> envelope" where
  "NewEnvelope clock subtype sourceNode sessionID messageID payload =
     \<lparr>env_Version = NodeProtocolVersion, env_Subtype = subtype, env_Flags = 0, env_ClusterEpoch = 0,
      env_ProjectionVersion = 0, env_SourceNodeID = sourceNode, env_NodeSessionID = sessionID,
      env_MessageID = messageID, env_SentAtMillis = of_int (clock div 1000000), env_HopCount = 0,
      env_KeyEpoch = 0, env_Payload = payload, env_AuthTag = [], env_Duplicate = False,
      env_receivedAt = zero_time\<rparr>"

definition validateForEncode :: "envelope \<Rightarrow> nat \<Rightarrow> node_error option" where
  "validateForEncode e maxSize =
     (if length (env_SourceNodeID e) = 0 \<or> NodeIDSize < length (env_SourceNodeID e) then Some NodeIDInvalid
      else if env_Version e \<noteq> NodeProtocolVersion then Some (NodeVersionUnsupported (env_Version e))
      else if maxSize < NodeHeaderSize + NodeAuthTagSize \<or>
              maxSize - NodeHeaderSize - NodeAuthTagSize < length (env_Payload e) then Some NodePayloadTooLarge
      else if 2 < env_HopCount e then Some NodeHopCount
      else if length (env_AuthTag e) \<noteq> 0 then Some NodeTagPreset
      else None)"

definition envelope_body :: "envelope \<Rightarrow> bytes" where
  "envelope_body e =
     (let n = NodeHeaderSize + length (env_Payload e);
          out = replicate (n + NodeAuthTagSize) 0;
          out = go_copy out 0 4 (bytes_of NodeMagic);
          out = go_copy out 4 6 (putUint16 (of_nat (length out)));
          out = go_copy out 6 38 (bytes_of (env_SourceNodeID e));
          out = out[48 := NodePacketType];
          out = go_copy out 86 90 (bytes_of ''NOD0'');
          out = out[90 := env_Version e, 91 := env_Subtype e];
          out = go_copy out 92 94 (putUint16 (env_Flags e));
          out = go_copy out 94 102 (putUint64 (env_ClusterEpoch e));
          out = go_copy out 102 110 (putUint64 (env_ProjectionVersion e));
          out = go_copy out 110 118 (putUint64 (env_NodeSessionID e));
          out = go_copy out 118 126 (putUint64 (env_MessageID e));
          out = go_copy out 126 134 (putUint64 (env_SentAtMillis e));
          out = out[134 := env_HopCount e];
          out = go_copy out 135 139 (putUint32 (env_KeyEpoch e));
          out = go_copy out 139 143 (putUint32 (of_nat (length (env_Payload e))))
      in go_copy out NodeHeaderSize (length out) (env_Payload e))"

definition marshal :: "envelope \<Rightarrow> bytes \<Rightarrow> nat \<Rightarrow> node_error + bytes" where
  "marshal e key maxSize =
     (if length key < 8 then Inl NodeKeyTooShort
      else case validateForEncode e maxSize of
        Some err \<Rightarrow> Inl err
      | None \<Rightarrow>
          let out = envelope_body e; n = NodeHeaderSize + length (env_Payload e);
              tag = hmac_sha256 key (take n out)
          in Inr (go_copy out n (length out) tag))"

definition Marshal :: "envelope \<Rightarrow> bytes \<Rightarrow> node_error + bytes" where
  "Marshal e key = marshal e key NodeMaxDatagramSize"

definition MarshalControl :: "envelope \<Rightarrow> bytes \<Rightarrow> node_error + bytes" where
  "MarshalControl e key = marshal e key NodeMaxControlSize"

definition unmarshal :: "bytes \<Rightarrow> bytes \<Rightarrow> nat \<Rightarrow> node_error + envelope" where
  "unmarshal data key maxSize =
     (if length key < 8 then Inl NodeKeyTooShort
      else if length data < NodeHeaderSize + NodeAuthTagSize \<or> maxSize < length data then Inl NodePacketSize
      else if string_of (slice data 0 4) \<noteq> NodeMagic then Inl NodePacketMagic
      else if unat (getUint16 (slice data 4 6)) \<noteq> length data then Inl NodePacketLength
      else if data ! 48 \<noteq> NodePacketType then Inl NodeNotType0
      else if string_of (slice data 86 90) \<noteq> ''NOD0'' then Inl NodePacketMarker
      else
        let sourceNodeID = string_of (takeWhile (\<lambda>b. b \<noteq> 0) (slice data 6 38))
        in if sourceNodeID = '''' then Inl NodeIDInvalid
        else if data ! 90 \<noteq> NodeProtocolVersion then Inl (NodeVersionUnsupported (data ! 90))
        else
          let payloadLen = unat (getUint32 (slice data 139 143))
          in if maxSize - NodeHeaderSize - NodeAuthTagSize < payloadLen \<or>
                NodeHeaderSize + payloadLen + NodeAuthTagSize \<noteq> length data then Inl NodePayloadLength
          else
            let authTag = drop (NodeHeaderSize + payloadLen) data
            in if authTag \<noteq> hmac_sha256 key (take (NodeHeaderSize + payloadLen) data) then Inl NodeAuthTag
            else if 2 < data ! 134 then Inl NodeHopCount
            else Inr
              \<lparr>env_Version = data ! 90, env_Subtype = data ! 91, env_Flags = getUint16 (slice data 92 94),
               env_ClusterEpoch = getUint64 (slice data 94 102),
               env_ProjectionVersion = getUint64 (slice data 102 110), env_SourceNodeID = sourceNodeID,
               env_NodeSessionID = getUint64 (slice data 110 118), env_MessageID = getUint64 (slice data 118 126),
               env_SentAtMillis = getUint64 (slice data 126 134), env_HopCount = data ! 134,
               env_KeyEpoch = getUint32 (slice data 135 139),
               env_Payload = slice data NodeHeaderSize (NodeHeaderSize + payloadLen), env_AuthTag = authTag,
               env_Duplicate = False, env_receivedAt = zero_time\<rparr>)"

definition Unmarshal :: "bytes \<Rightarrow> bytes \<Rightarrow> node_error + envelope" where
  "Unmarshal data key = unmarshal data key NodeMaxDatagramSize"

definition UnmarshalControl :: "bytes \<Rightarrow> bytes \<Rightarrow> node_error + envelope" where
  "UnmarshalControl data key = unmarshal data key NodeMaxControlSize"

definition Expired :: "envelope \<Rightarrow> time \<Rightarrow> duration \<Rightarrow> bool" where
  "Expired e now maxAge =
     (let maxAge = (if maxAge \<le> 0 then seconds 2 else maxAge);
          age = time_sub now (millis (sint (env_SentAtMillis e)))
      in age < - maxAge \<or> maxAge < age)"

definition locallyExpired :: "envelope \<Rightarrow> time \<Rightarrow> duration \<Rightarrow> bool" where
  "locallyExpired e now maxAge =
     (let maxAge = (if maxAge \<le> 0 then seconds 2 else maxAge)
      in if env_receivedAt e = zero_time then Expired e now maxAge
         else let age = time_sub now (env_receivedAt e) in age < 0 \<or> maxAge < age)"

subsection \<open>The layout of a marshalled envelope\<close>

lemma validateForEncode_None:
  "validateForEncode e maxSize = None \<longleftrightarrow>
     0 < length (env_SourceNodeID e) \<and> length (env_SourceNodeID e) \<le> 32 \<and> env_Version e = 1 \<and>
     175 + length (env_Payload e) \<le> maxSize \<and> env_HopCount e \<le> 2 \<and> env_AuthTag e = []"
  by (auto simp: validateForEncode_def not_less)

lemma marshal_Inr:
  "marshal e key maxSize = Inr out \<longleftrightarrow>
     8 \<le> length key \<and> validateForEncode e maxSize = None \<and>
     (let n = 143 + length (env_Payload e) in
      out = go_copy (envelope_body e) n (length (envelope_body e)) (hmac_sha256 key (take n (envelope_body e))))"
  by (auto simp: marshal_def Let_def split: option.split)

lemma length_envelope_body [simp]: "length (envelope_body e) = 175 + length (env_Payload e)"
  by (simp add: envelope_body_def Let_def)

lemma body_layout [simp]:
  shows "slice (envelope_body e) 0 4 = bytes_of ''DraA''"
    and "slice (envelope_body e) 4 6 = putUint16 (of_nat (175 + length (env_Payload e)))"
    and "slice (envelope_body e) 6 38 = pad 32 (bytes_of (env_SourceNodeID e))"
    and "envelope_body e ! 48 = 0"
    and "slice (envelope_body e) 86 90 = bytes_of ''NOD0''"
    and "envelope_body e ! 90 = env_Version e"
    and "envelope_body e ! 91 = env_Subtype e"
    and "slice (envelope_body e) 92 94 = putUint16 (env_Flags e)"
    and "slice (envelope_body e) 94 102 = putUint64 (env_ClusterEpoch e)"
    and "slice (envelope_body e) 102 110 = putUint64 (env_ProjectionVersion e)"
    and "slice (envelope_body e) 110 118 = putUint64 (env_NodeSessionID e)"
    and "slice (envelope_body e) 118 126 = putUint64 (env_MessageID e)"
    and "slice (envelope_body e) 126 134 = putUint64 (env_SentAtMillis e)"
    and "envelope_body e ! 134 = env_HopCount e"
    and "slice (envelope_body e) 135 139 = putUint32 (env_KeyEpoch e)"
    and "slice (envelope_body e) 139 143 = putUint32 (of_nat (length (env_Payload e)))"
  by (simp_all add: envelope_body_def Let_def buffer_simps u16.length_enc u32.length_enc u64.length_enc
      pad_def min_def del: of_nat_add)

lemma slice_go_copy_prefix:
  assumes "hi \<le> length dst" and "lo + length src \<le> hi"
  shows "slice (go_copy dst lo hi src) lo (lo + length src) = src"
  using assms by (intro nth_equalityI) (auto simp: nth_slice nth_go_copy)

lemma body_payload [simp]:
  "slice (envelope_body e) 143 (143 + length (env_Payload e)) = env_Payload e"
  by (simp add: envelope_body_def Let_def slice_go_copy_prefix)


text \<open>Writing the tag leaves everything before it as it was.\<close>

lemma tagged_slice [buffer_simps]:
  assumes "b \<le> 143"
  shows "slice (go_copy (envelope_body e) (143 + length (env_Payload e)) (175 + length (env_Payload e)) tag) a b =
    slice (envelope_body e) a b"
  using assms by (simp add: buffer_simps)

lemma tagged_nth [buffer_simps]:
  assumes "i < 143"
  shows "go_copy (envelope_body e) (143 + length (env_Payload e)) (175 + length (env_Payload e)) tag ! i =
    envelope_body e ! i"
  using assms by (simp add: buffer_simps)

lemma takeWhile_pad_nonzero:
  assumes "length s \<le> n" and "CHR 0x00 \<notin> set s"
  shows "takeWhile (\<lambda>b. b \<noteq> 0) (pad n (bytes_of s)) = bytes_of s"
proof -
  have "b \<noteq> 0" if "b \<in> set (bytes_of s)" for b
    using that assms(2) byte_of_0 by (auto simp: bytes_of_def) (metis char_at_byte_of)
  then have "takeWhile (\<lambda>b. b \<noteq> 0) (bytes_of s @ replicate (n - length s) 0) = bytes_of s"
    by (cases "n - length s") (simp_all add: takeWhile_append2 takeWhile_eq_all_conv [THEN iffD2])
  with assms(1) show ?thesis by (simp add: pad_def)
qed

lemma unmarshal_marshal:
  assumes out: "marshal e key maxSize = Inr out" and max: "maxSize \<le> 65535"
    and id: "CHR 0x00 \<notin> set (env_SourceNodeID e)"
  shows "unmarshal out key maxSize = Inr (e\<lparr>env_AuthTag := drop (143 + length (env_Payload e)) out,
    env_Duplicate := False, env_receivedAt := zero_time\<rparr>)"
proof -
  let ?n = "143 + length (env_Payload e)"
  let ?tag = "hmac_sha256 key (take ?n (envelope_body e))"
  from out have key: "8 \<le> length key" and ok: "validateForEncode e maxSize = None"
    and eq: "out = go_copy (envelope_body e) ?n (175 + length (env_Payload e)) ?tag"
    by (simp_all add: marshal_Inr Let_def)
  from ok have size: "175 + length (env_Payload e) \<le> maxSize" and id': "env_SourceNodeID e \<noteq> []"
    "length (env_SourceNodeID e) \<le> 32" and "env_Version e = 1" "env_HopCount e \<le> 2"
    by (simp_all add: validateForEncode_None)
  have len: "length out = 175 + length (env_Payload e)" by (simp add: eq)
  have take: "take ?n out = take ?n (envelope_body e)"
    by (simp add: eq buffer_simps flip: slice_0)
  have drop: "drop ?n out = ?tag"
    by (simp add: eq drop_go_copy_all)
  have u: "unat (of_nat (175 + length (env_Payload e)) :: u16) = 175 + length (env_Payload e)"
    using size max by (simp add: unat_of_nat del: of_nat_add)
  have p: "unat (of_nat (length (env_Payload e)) :: u32) = length (env_Payload e)"
    using size max by (simp add: unat_of_nat)
  have payload: "slice out 143 ?n = env_Payload e"
    using body_payload [of e] by (simp add: eq buffer_simps)
  have sl: "slice out a b = slice (envelope_body e) a b" if "b \<le> 143" for a b
    using that by (simp add: eq tagged_slice)
  have nt: "out ! i = envelope_body e ! i" if "i < 143" for i
    using that by (simp add: eq tagged_nth)
  note dec = u16.dec_enc u32.dec_enc u64.dec_enc
  show ?thesis
    using key size id' \<open>env_Version e = 1\<close> \<open>env_HopCount e \<le> 2\<close>
    by (simp add: unmarshal_def Let_def len take drop payload u p dec string_of_def [of "[]"] takeWhile_pad_nonzero id not_less
        sl nt del: of_nat_add)
qed

lemma marshal_header:
  assumes "marshal e key maxSize = Inr out" and "maxSize \<le> 65535"
  shows "length out = 175 + length (env_Payload e)" and "has_magic out" and "out ! 48 = 0"
    and "unat (getUint16 (slice out 4 6)) = length out"
proof -
  from assms(1) have ok: "validateForEncode e maxSize = None"
    and eq: "out = go_copy (envelope_body e) (143 + length (env_Payload e)) (175 + length (env_Payload e))
      (hmac_sha256 key (take (143 + length (env_Payload e)) (envelope_body e)))"
    by (simp_all add: marshal_Inr Let_def)
  show len: "length out = 175 + length (env_Payload e)" by (simp add: eq)
  from len show "has_magic out" by (simp add: has_magic_iff eq tagged_slice)
  show "out ! 48 = 0" by (simp add: eq tagged_nth)
  from ok assms(2) show "unat (getUint16 (slice out 4 6)) = length out"
    by (simp add: eq tagged_slice validateForEncode_None u16.dec_enc unat_of_nat del: of_nat_add)
qed

lemma unmarshal_InrD:
  assumes "unmarshal data key maxSize = Inr e"
  shows "length data \<le> maxSize" and "175 \<le> length data" and "env_Version e = 1" and "env_HopCount e \<le> 2"
    and "env_SourceNodeID e \<noteq> []" and "length data = 175 + length (env_Payload e)" and "data ! 48 = 0"
    and "env_AuthTag e = hmac_sha256 key (take (length data - 32) data)"
    and "drop (length data - 32) data = env_AuthTag e"
    and "env_SourceNodeID e = string_of (takeWhile (\<lambda>b. b \<noteq> 0) (slice data 6 38))"
    and "env_NodeSessionID e = getUint64 (slice data 110 118)"
    and "env_MessageID e = getUint64 (slice data 118 126)"
proof -
  let ?p = "unat (getUint32 (slice data 139 143))"
  from assms have g: "175 \<le> length data" "length data \<le> maxSize" "data ! 48 = 0"
    "143 + ?p + 32 = length data" "drop (143 + ?p) data = hmac_sha256 key (take (143 + ?p) data)"
    "data ! 90 = 1" "\<not> 2 < data ! 134" "takeWhile (\<lambda>b. b \<noteq> 0) (slice data 6 38) \<noteq> []"
    and e: "e = \<lparr>env_Version = data ! 90, env_Subtype = data ! 91, env_Flags = getUint16 (slice data 92 94),
               env_ClusterEpoch = getUint64 (slice data 94 102),
               env_ProjectionVersion = getUint64 (slice data 102 110),
               env_SourceNodeID = string_of (takeWhile (\<lambda>b. b \<noteq> 0) (slice data 6 38)),
               env_NodeSessionID = getUint64 (slice data 110 118), env_MessageID = getUint64 (slice data 118 126),
               env_SentAtMillis = getUint64 (slice data 126 134), env_HopCount = data ! 134,
               env_KeyEpoch = getUint32 (slice data 135 139),
               env_Payload = slice data 143 (143 + ?p), env_AuthTag = drop (143 + ?p) data,
               env_Duplicate = False, env_receivedAt = zero_time\<rparr>"
    by (auto simp: unmarshal_def Let_def string_of_def split: if_splits)
  from g(4) have "length data - 32 = 143 + ?p" by linarith
  with g show "length data \<le> maxSize" "175 \<le> length data" "env_Version e = 1" "env_HopCount e \<le> 2"
    "env_SourceNodeID e \<noteq> []" "length data = 175 + length (env_Payload e)" "data ! 48 = 0"
    "env_AuthTag e = hmac_sha256 key (take (length data - 32) data)"
    "drop (length data - 32) data = env_AuthTag e"
    "env_SourceNodeID e = string_of (takeWhile (\<lambda>b. b \<noteq> 0) (slice data 6 38))"
    "env_NodeSessionID e = getUint64 (slice data 110 118)"
    "env_MessageID e = getUint64 (slice data 118 126)"
    by (simp_all add: e string_of_def not_less)
qed

lemma Decode_node_envelope:
  assumes "marshal e key maxSize = Inr out" and "maxSize \<le> 65535"
  shows "snd (Decode p out) = Some (UnsupportedType 0)"
  using marshal_header [OF assms]
  by (simp add: Decode_def decodeEnvelope_def Let_def IsSupportedDraARLType_def)

lemma Decode_ok_type: "Decode p data = (q, None) \<Longrightarrow> 90 \<le> length data \<and> data ! 48 \<noteq> 0"
  by (auto simp: Decode_def decodeEnvelope_def Let_def IsSupportedDraARLType_def split: if_splits prod.splits option.splits)

lemma sample_envelope:
  "177 \<le> maxSize \<Longrightarrow>
     \<exists>out. marshal (NewEnvelope 5000000 3 ''edge-1'' 7 9 [1, 2]) (replicate 32 1) maxSize = Inr out"
  unfolding marshal_Inr validateForEncode_None by (simp add: NewEnvelope_def Let_def)

subsection \<open>Properties\<close>

text \<open>A marshalled node envelope whose source node ID contains no NUL unmarshals, under the same key, to
  the envelope that was sent, with its authentication tag filled in.\<close>

theorem envelope_round_trip:
  assumes "Marshal e key = Inr out" and "CHR 0x00 \<notin> set (env_SourceNodeID e)"
  shows "Unmarshal out key = Inr (e\<lparr>env_AuthTag := drop (143 + length (env_Payload e)) out,
    env_Duplicate := False, env_receivedAt := zero_time\<rparr>)"
  using unmarshal_marshal [of e key NodeMaxDatagramSize out] assms by (simp add: Marshal_def Unmarshal_def)

theorem envelope_round_trip_witness:
  "\<exists>out. Marshal (NewEnvelope 5000000 3 ''edge-1'' 7 9 [1, 2]) (replicate 32 1) = Inr out \<and>
     Unmarshal out (replicate 32 1) = Inr ((NewEnvelope 5000000 3 ''edge-1'' 7 9 [1, 2])\<lparr>env_AuthTag := drop 145 out\<rparr>)"
proof -
  let ?e = "NewEnvelope 5000000 3 ''edge-1'' 7 9 [1, 2]"
  have "\<exists>out. Marshal ?e (replicate 32 1) = Inr out"
    by (simp add: Marshal_def sample_envelope)
  then obtain out where "Marshal ?e (replicate 32 1) = Inr out" by blast
  with envelope_round_trip [of ?e "replicate 32 1" out] show ?thesis by (simp add: NewEnvelope_def)
qed

text \<open>What unmarshalling accepts is authentic and within bounds: the packet fits the datagram
  limit, it ends in the HMAC of everything before it under the session key, and the envelope
  has a known version, a source and a hop count of at most 2.\<close>

theorem unmarshal_authentic:
  assumes "Unmarshal data key = Inr e"
  shows "8 \<le> length key \<and> length data \<le> NodeMaxDatagramSize \<and> length data = 175 + length (env_Payload e) \<and>
    drop (length data - 32) data = hmac_sha256 key (take (length data - 32) data) \<and>
    env_Version e = NodeProtocolVersion \<and> env_SourceNodeID e \<noteq> '''' \<and> env_HopCount e \<le> 2"
proof -
  have "8 \<le> length key" using assms by (auto simp: Unmarshal_def unmarshal_def split: if_splits)
  with unmarshal_InrD [OF assms [unfolded Unmarshal_def]] show ?thesis by simp
qed

theorem unmarshal_authentic_witness:
  "\<exists>out. drop (length out - 32) out = hmac_sha256 (replicate 32 1) (take (length out - 32) out) \<and> length out = 177"
proof -
  let ?e = "NewEnvelope 5000000 3 ''edge-1'' 7 9 [1, 2]"
  have "\<exists>out. Marshal ?e (replicate 32 1) = Inr out"
    by (simp add: Marshal_def sample_envelope)
  then obtain out where m: "marshal ?e (replicate 32 1) NodeMaxDatagramSize = Inr out" by (auto simp: Marshal_def)
  have "\<exists>e'. Unmarshal out (replicate 32 1) = Inr e' \<and> env_Payload e' = [1, 2]"
    using unmarshal_marshal [OF m] by (simp add: Unmarshal_def NewEnvelope_def)
  then obtain e' where "Unmarshal out (replicate 32 1) = Inr e'" "env_Payload e' = [1, 2]" by blast
  with unmarshal_authentic [of out "replicate 32 1" e'] show ?thesis by auto
qed

text \<open>Device packets and node envelopes share a port and a magic number but are never confused:
  the device decoder refuses every envelope a node marshals, as type 0, and unmarshalling
  refuses, under any key, every packet the device decoder accepts.\<close>

theorem node_and_device_packets_disjoint:
  assumes "MarshalControl e key = Inr out" and "NewDraARLv1Packet clock addr data = Inr p"
  shows "NewDraARLv1Packet clock addr out = Inl (UnsupportedType 0) \<and> (\<exists>err. UnmarshalControl data key' = Inl err)"
proof
  have "snd (Decode q out) = Some (UnsupportedType 0)" for q
    using Decode_node_envelope assms(1) by (simp add: MarshalControl_def)
  then show "NewDraARLv1Packet clock addr out = Inl (UnsupportedType 0)"
    by (simp add: NewDraARLv1Packet_def split_beta split: option.split)
  from assms(2) obtain q where "Decode q data = (p, None)"
    by (auto simp: NewDraARLv1Packet_def split: prod.splits option.splits)
  then have "data ! 48 \<noteq> 0" using Decode_ok_type by blast
  then show "\<exists>err. UnmarshalControl data key' = Inl err"
    using unmarshal_InrD(7) [of data key'] by (cases "UnmarshalControl data key'") (auto simp: UnmarshalControl_def)
qed

theorem node_and_device_packets_disjoint_witness:
  "\<exists>err. UnmarshalControl (EncodeDraARLv1 ''BG5'' '''' 3 5 1 9 ''BG5XYZ'' [1, 2, 3]) (replicate 32 1) = Inl err"
proof -
  let ?e = "NewEnvelope 5000000 3 ''edge-1'' 7 9 [1, 2]" and ?d = "EncodeDraARLv1 ''BG5'' '''' 3 5 1 9 ''BG5XYZ'' [1, 2, 3]"
  have "\<exists>out. MarshalControl ?e (replicate 32 1) = Inr out"
    by (simp add: MarshalControl_def sample_envelope)
  moreover have "\<exists>p. NewDraARLv1Packet 7 None ?d = Inr p"
    by (simp add: NewDraARLv1Packet_def Decode_Encode IsSupportedDraARLType_def)
  ultimately show ?thesis using node_and_device_packets_disjoint by blast
qed

end
