(* ===== verification/Replay_Window.thy ===== *)
theory Replay_Window
  imports Go_Base
begin

unbundle bit_operations_syntax

section \<open>The replay window (\<open>internal/interconnect/replay_window.go\<close>)\<close>

text \<open>
  A circular bitmap of 16384 message IDs below the highest ID seen.  The bitmap, its word
  and mask arithmetic and the word-wise clearing loop are modelled at their 64-bit width;
  the contract proved is that of a set of accepted IDs.
\<close>

abbreviation (input) replayWindowBits :: nat where "replayWindowBits \<equiv> 16384"
abbreviation (input) replayWindowWords :: nat where "replayWindowWords \<equiv> 256"

record replayWindow =
  rw_maxID :: u64
  rw_seenAny :: bool
  rw_bits :: "u64 list"

definition new_replayWindow :: replayWindow where
  "new_replayWindow = \<lparr>rw_maxID = 0, rw_seenAny = False, rw_bits = replicate replayWindowWords 0\<rparr>"

definition rw_bit :: "u64 \<Rightarrow> nat \<times> u64" where
  "rw_bit messageID =
     (let index = messageID AND (16384 - 1)
      in (unat (drop_bit 6 index), push_bit (unat (index AND 63)) 1))"

definition rw_contains :: "u64 list \<Rightarrow> u64 \<Rightarrow> bool" where
  "rw_contains bits messageID \<longleftrightarrow>
     (let (word, mask) = rw_bit messageID in bits ! word AND mask \<noteq> 0)"

definition rw_set :: "u64 list \<Rightarrow> u64 \<Rightarrow> u64 list" where
  "rw_set bits messageID = (let (word, mask) = rw_bit messageID in bits[word := bits ! word OR mask])"

text \<open>The body of the loop of \<open>clearRange\<close>, and the loop.\<close>

definition clear_length :: "u64 \<Rightarrow> u64 \<Rightarrow> u64" where
  "clear_length index count = min count (64 - (index AND 63))"

definition clear_word :: "u64 list \<Rightarrow> u64 \<Rightarrow> u64 \<Rightarrow> u64 list" where
  "clear_word bits index length' =
     (let offset = index AND 63;
          mask = push_bit (unat offset) (drop_bit (unat (64 - length')) (NOT 0));
          word = unat (drop_bit 6 index)
      in bits[word := bits ! word AND NOT mask])"

lemma offset_le: "unat (index AND (63 :: u64)) \<le> 63"
  using word_and_le1 [of index 63] by (simp add: word_le_nat_alt)

lemma unat_sub_offset: "unat (64 - (index AND (63 :: u64))) = 64 - unat (index AND 63)"
  using offset_le [of index] by (simp add: unat_sub word_le_nat_alt)

lemma unat_clear_length: "unat (clear_length index count) = min (unat count) (64 - unat (index AND 63))"
  by (simp add: clear_length_def unat_sub_offset min_def word_le_nat_alt)

function clearRange_loop :: "u64 list \<Rightarrow> u64 \<Rightarrow> u64 \<Rightarrow> u64 list" where
  "clearRange_loop bits index count =
     (if count = 0 then bits
      else let length' = clear_length index count
           in clearRange_loop (clear_word bits index length') ((index + length') AND (16384 - 1)) (count - length'))"
  by pat_completeness auto
termination
proof (relation "measure (\<lambda>(bits, index, count). unat count)")
  fix bits :: "u64 list" and index count len' :: u64
  assume "count \<noteq> 0" and len: "len' = clear_length index count"
  then have "0 < unat len'" and "len' \<le> count"
    using offset_le [of index] by (auto simp: unat_clear_length word_le_nat_alt unat_gt_0)
  then show "((clear_word bits index len', (index + len') AND (16384 - 1), count - len'), bits, index, count)
      \<in> measure (\<lambda>(bits, index, count). unat count)"
    by (simp add: unat_sub word_le_nat_alt)
qed simp

declare clearRange_loop.simps [simp del]

definition clearRange :: "u64 list \<Rightarrow> u64 \<Rightarrow> u64 \<Rightarrow> u64 list" where
  "clearRange bits first count = clearRange_loop bits (first AND (16384 - 1)) count"

definition rw_accept :: "replayWindow \<Rightarrow> u64 \<Rightarrow> replayWindow \<times> bool" where
  "rw_accept w messageID =
     (if messageID = 0 then (w, False)
      else if \<not> rw_seenAny w then
        (w\<lparr>rw_seenAny := True, rw_maxID := messageID, rw_bits := rw_set (rw_bits w) messageID\<rparr>, True)
      else if rw_maxID w < messageID then
        let delta = messageID - rw_maxID w;
            bits = (if 16384 \<le> delta then replicate replayWindowWords 0
                    else clearRange (rw_bits w) (rw_maxID w + 1) delta);
            w = w\<lparr>rw_bits := bits, rw_maxID := messageID\<rparr>
        in if rw_contains (rw_bits w) messageID then (w, False)
           else (w\<lparr>rw_bits := rw_set (rw_bits w) messageID\<rparr>, True)
      else if 16384 \<le> rw_maxID w - messageID then (w, False)
      else if rw_contains (rw_bits w) messageID then (w, False)
      else (w\<lparr>rw_bits := rw_set (rw_bits w) messageID\<rparr>, True))"

subsection \<open>The bitmap as a set of positions\<close>

definition bit_at :: "u64 list \<Rightarrow> nat \<Rightarrow> bool" where
  "bit_at bits i \<longleftrightarrow> bit (bits ! (i div 64)) (i mod 64)"

lemma unat_and_mask: "unat (x AND mask n) = unat (x :: u64) mod 2 ^ n"
  unfolding take_bit_eq_mask [symmetric] unsigned_take_bit_eq by (simp add: take_bit_eq_mod)

lemma and_63: "unat (x AND (63 :: u64)) = unat x mod 64"
  using unat_and_mask [of x 6] by (simp add: mask_eq_exp_minus_1)

lemma and_16383: "unat (x AND (16383 :: u64)) = unat x mod 16384"
  using unat_and_mask [of x 14] by (simp add: mask_eq_exp_minus_1)

lemma unat_shift_6: "unat (drop_bit 6 (x :: u64)) = unat x div 64"
  unfolding unat_drop_bit_eq by (simp add: drop_bit_eq_div)

definition position :: "u64 \<Rightarrow> nat" where
  "position messageID = unat messageID mod 16384"

lemma position_less: "position x < 16384"
  by (simp add: position_def)

lemma rw_bit_eq: "rw_bit x = (position x div 64, push_bit (position x mod 64) 1)"
  by (simp add: rw_bit_def position_def unat_shift_6 and_63 and_16383)

lemma and_push_bit_1: "x AND 2 ^ n \<noteq> 0 \<longleftrightarrow> bit (x :: u64) n"
proof
  assume "x AND 2 ^ n \<noteq> 0"
  then obtain m where "bit (x AND 2 ^ n) m" by (auto simp: bit_eq_iff)
  then show "bit x n" by (auto simp: bit_simps)
next
  assume x: "bit x n"
  then have "n < 64" using bit_imp_le_length [OF x] by simp
  with x have "bit (x AND 2 ^ n) n" by (simp add: bit_simps)
  then show "x AND 2 ^ n \<noteq> 0" by (metis bit_0_eq bot_apply bot_bool_def)
qed

lemma rw_contains_bit_at: "rw_contains bits x \<longleftrightarrow> bit_at bits (position x)"
  by (simp add: rw_contains_def rw_bit_eq bit_at_def and_push_bit_1)

lemma bit_at_rw_set:
  assumes "length bits = 256" and "i < 16384"
  shows "bit_at (rw_set bits x) i \<longleftrightarrow> bit_at bits i \<or> i = position x"
proof (cases "i div 64 = position x div 64")
  case True
  then have "i = position x \<longleftrightarrow> i mod 64 = position x mod 64"
    by (metis div_mult_mod_eq)
  moreover have "i mod 64 < 64" by simp
  moreover have "position x div 64 < 256" using position_less [of x] by (simp add: less_mult_imp_div_less)
  ultimately show ?thesis
    using True assms by (auto simp: rw_set_def rw_bit_eq bit_at_def bit_simps)
qed (use assms in \<open>auto simp: rw_set_def rw_bit_eq bit_at_def\<close>)

lemma length_rw_set [simp]: "length (rw_set bits x) = length bits"
  by (simp add: rw_set_def split_beta)

lemma bit_at_zero: "i < 16384 \<Longrightarrow> \<not> bit_at (replicate 256 0) i"
  by (simp add: bit_at_def less_mult_imp_div_less)

text \<open>One iteration clears a run of bits inside one word; the loop clears the \<open>count\<close>
  positions from \<open>first\<close> on, around the end of the bitmap.\<close>

lemma bit_clear_mask:
  assumes "off + len' \<le> 64" and "n < 64"
  shows "bit (push_bit off (drop_bit (64 - len') (NOT 0 :: u64))) n \<longleftrightarrow> off \<le> n \<and> n < off + len'"
  using assms by (auto simp: bit_push_bit_iff bit_drop_bit_eq bit_not_iff possible_bit_def bit_mask_iff)

lemma same_block:
  assumes "i div 64 = j div (64 :: nat)"
  shows "j mod 64 \<le> i mod 64 \<longleftrightarrow> j \<le> i" and "i mod 64 < j mod 64 + l \<longleftrightarrow> i < j + l"
proof -
  have "i = 64 * (j div 64) + i mod 64" "j = 64 * (j div 64) + j mod 64"
    using assms mult_div_mod_eq [of 64 i] mult_div_mod_eq [of 64 j] by metis+
  then show "j mod 64 \<le> i mod 64 \<longleftrightarrow> j \<le> i" "i mod 64 < j mod 64 + l \<longleftrightarrow> i < j + l"
    by (metis add_le_cancel_left) (metis \<open>i = _\<close> \<open>j = _\<close> add.assoc add_less_cancel_left)
qed

lemma run_in_block:
  assumes "j mod 64 + l \<le> 64" and "j \<le> i" and "i < j + l"
  shows "i div 64 = j div (64 :: nat)"
proof (rule div_nat_eqI)
  show "64 * (j div 64) \<le> i" using assms(2) div_times_less_eq_dividend [of j 64] by simp
  show "i < 64 * Suc (j div 64)" using assms mult_div_mod_eq [of 64 j] by (simp only: mult_Suc_right)
qed

lemma block_end:
  assumes "j < 16384" and "j mod 64 + l \<le> 64"
  shows "j + l \<le> (16384 :: nat)"
proof -
  have "j div 64 < 256" using assms(1) by (simp add: less_mult_imp_div_less)
  then have "64 * Suc (j div 64) \<le> 16384" by simp
  then show ?thesis using assms(2) mult_div_mod_eq [of 64 j] by (simp only: mult_Suc_right)
qed

lemma length_clear_word [simp]: "length (clear_word bits index len') = length bits"
  by (simp add: clear_word_def Let_def)

lemma bit_at_clear_word:
  assumes "length bits = 256" and "i < 16384" and "unat index < 16384"
    and len: "unat index mod 64 + unat len' \<le> 64"
  shows "bit_at (clear_word bits index len') i \<longleftrightarrow>
    bit_at bits i \<and> \<not> (unat index \<le> i \<and> i < unat index + unat len')"
proof (cases "i div 64 = unat index div 64")
  case True
  have "unat (64 - len') = 64 - unat len'"
    using len by (simp add: unat_sub word_le_nat_alt)
  moreover have "unat index div 64 < 256" using assms(3) by (simp add: less_mult_imp_div_less)
  moreover note same_block [OF True]
  ultimately show ?thesis
    using True assms bit_clear_mask [OF len, of "i mod 64"]
    by (simp add: clear_word_def Let_def bit_at_def and_63 unat_shift_6 bit_and_iff bit_not_iff)
next
  case False
  have "\<not> (unat index \<le> i \<and> i < unat index + unat len')"
    using False run_in_block [OF len, of i] by blast
  then show ?thesis using False
    by (simp add: clear_word_def Let_def bit_at_def and_63 unat_shift_6)
qed

lemma length_clearRange_loop [simp]: "length (clearRange_loop bits index count) = length bits"
proof (induction bits index count rule: clearRange_loop.induct)
  case (1 bits index count)
  then show ?case by (subst clearRange_loop.simps) (simp add: Let_def)
qed

lemma wrapped_run:
  assumes "j + l \<le> (16384 :: nat)" and "l \<le> c" and "i < 16384"
  shows "(\<exists>k<c. i = (j + k) mod 16384) \<longleftrightarrow>
    (j \<le> i \<and> i < j + l) \<or> (\<exists>k<c - l. i = ((j + l) mod 16384 + k) mod 16384)"
proof
  assume "\<exists>k<c. i = (j + k) mod 16384"
  then obtain k where k: "k < c" "i = (j + k) mod 16384" by blast
  show "(j \<le> i \<and> i < j + l) \<or> (\<exists>k<c - l. i = ((j + l) mod 16384 + k) mod 16384)"
  proof (cases "k < l")
    case True
    then show ?thesis using k assms by simp
  next
    case False
    then have "k - l < c - l" "i = ((j + l) mod 16384 + (k - l)) mod 16384"
      using k mod_add_left_eq [of "j + l" 16384 "k - l"] by simp_all
    then show ?thesis by blast
  qed
next
  assume "(j \<le> i \<and> i < j + l) \<or> (\<exists>k<c - l. i = ((j + l) mod 16384 + k) mod 16384)"
  then consider "j \<le> i" "i < j + l" | k where "k < c - l" "i = ((j + l) mod 16384 + k) mod 16384" by blast
  then show "\<exists>k<c. i = (j + k) mod 16384"
  proof cases
    case 1
    then show ?thesis using assms by (intro exI [of _ "i - j"]) simp
  next
    case 2
    then show ?thesis by (intro exI [of _ "l + k"]) (simp add: mod_add_left_eq add.assoc)
  qed
qed

lemma clear_length_fits: "unat index mod 64 + unat (clear_length index count) \<le> 64"
  by (simp add: unat_clear_length and_63 min.coboundedI2 add.commute flip: le_diff_conv2)

lemma bit_at_clearRange_loop:
  assumes "length bits = 256" and "i < 16384" and "unat index < 16384"
  shows "bit_at (clearRange_loop bits index count) i \<longleftrightarrow>
    bit_at bits i \<and> \<not> (\<exists>k<unat count. i = (unat index + k) mod 16384)"
  using assms
proof (induction bits index count rule: clearRange_loop.induct)
  case (1 bits index count)
  show ?case
  proof (cases "count = 0")
    case True
    then show ?thesis by (subst clearRange_loop.simps) simp
  next
    case False
    define l where "l = clear_length index count"
    have fits: "unat index mod 64 + unat l \<le> 64" unfolding l_def by (rule clear_length_fits)
    then have ends: "unat index + unat l \<le> 16384" using 1 block_end by blast
    have le: "unat l \<le> unat count" by (simp add: l_def unat_clear_length)
    then have sub: "unat (count - l) = unat count - unat l" by (simp add: unat_sub word_le_nat_alt)
    have next_i: "unat ((index + l) AND 16383) = (unat index + unat l) mod 16384"
      using ends by (simp add: and_16383 unat_plus_if')
    have "bit_at (clearRange_loop bits index count) i \<longleftrightarrow>
        bit_at (clearRange_loop (clear_word bits index l) ((index + l) AND 16383) (count - l)) i"
      using False by (subst clearRange_loop.simps) (simp add: l_def Let_def)
    also have "\<dots> \<longleftrightarrow> bit_at (clear_word bits index l) i \<and>
        \<not> (\<exists>k<unat count - unat l. i = ((unat index + unat l) mod 16384 + k) mod 16384)"
      using 1 False by (simp add: l_def [symmetric] next_i sub)
    also have "\<dots> \<longleftrightarrow> bit_at bits i \<and> \<not> (\<exists>k<unat count. i = (unat index + k) mod 16384)"
      using bit_at_clear_word [OF 1(2,3,4) fits] wrapped_run [OF ends le 1(3)] by blast
    finally show ?thesis .
  qed
qed

lemma bit_at_clearRange:
  assumes "length bits = 256" and "i < 16384"
  shows "bit_at (clearRange bits first count) i \<longleftrightarrow>
    bit_at bits i \<and> \<not> (\<exists>k<unat count. i = (unat first + k) mod 16384)"
  using assms
  by (simp add: clearRange_def bit_at_clearRange_loop and_16383 mod_add_left_eq)

lemma length_clearRange [simp]: "length (clearRange bits first count) = length bits"
  by (simp add: clearRange_def)

subsection \<open>The contract of a replay filter\<close>

text \<open>
  A filter promises to behave as the set \<open>S\<close> of the IDs it has accepted so far: an ID is
  accepted exactly when it is valid, new, and not expired by an accepted one.  Everything a
  session relies on follows from these laws.
\<close>

locale replay_filter =
  fixes initial :: 'w
    and accept :: "'w \<Rightarrow> 'i \<Rightarrow> 'w \<times> bool"
    and valid :: "'i \<Rightarrow> bool"
    and expired :: "'i \<Rightarrow> 'i \<Rightarrow> bool"
    and rel :: "'w \<Rightarrow> 'i set \<Rightarrow> bool"
  assumes rel_initial: "rel initial {}"
    and accept_iff: "rel w S \<Longrightarrow> snd (accept w i) \<longleftrightarrow> valid i \<and> i \<notin> S \<and> (\<forall>j\<in>S. \<not> expired j i)"
    and rel_accept: "rel w S \<Longrightarrow> rel (fst (accept w i)) (if snd (accept w i) then insert i S else S)"
begin

primrec run_spec :: "'i set \<Rightarrow> 'i list \<Rightarrow> bool list" where
  "run_spec S [] = []"
| "run_spec S (i # is) =
     (let ok = valid i \<and> i \<notin> S \<and> (\<forall>j\<in>S. \<not> expired j i)
      in ok # run_spec (if ok then insert i S else S) is)"

lemma run_refines: "rel w S \<Longrightarrow> snd (accept_all accept w is) = run_spec S is"
proof (induction "is" arbitrary: w S)
  case (Cons i "is")
  have "snd (accept_all accept (fst (accept w i)) is) = run_spec (if snd (accept w i) then insert i S else S) is"
    using Cons.IH [OF rel_accept [OF Cons.prems]] by simp
  then show ?case using accept_iff [OF Cons.prems, of i]
    by (simp add: split_beta Let_def)
qed simp

lemma taken_spec:
  "distinct (taken is (run_spec S is)) \<and> set (taken is (run_spec S is)) \<inter> S = {} \<and>
   (\<forall>i\<in>set (taken is (run_spec S is)). valid i)"
proof (induction "is" arbitrary: S)
  case (Cons i "is")
  show ?case using Cons [of S] Cons [of "insert i S"]
    by (auto simp: Let_def taken_def)
qed (simp add: taken_def)

lemma accepted_once:
  "distinct (taken is (snd (accept_all accept initial is)))"
  "i \<in> set (taken is (snd (accept_all accept initial is))) \<Longrightarrow> valid i"
  using taken_spec [of "is" "{}"] by (auto simp: run_refines [OF rel_initial])

lemma rel_run: "rel w S \<Longrightarrow> rel (fst (accept_all accept w is)) (S \<union> set (taken is (snd (accept_all accept w is))))"
proof (induction "is" arbitrary: w S)
  case (Cons i "is")
  show ?case using Cons.IH [OF rel_accept [OF Cons.prems, of i]]
    by (auto simp: split_beta Let_def taken_def insert_commute split: if_splits)
qed (simp add: taken_def)

lemma accept_after_run:
  "snd (accept (fst (accept_all accept initial is)) i) \<longleftrightarrow> valid i \<and> i \<notin> set (taken is (snd (accept_all accept initial is))) \<and>
     (\<forall>j\<in>set (taken is (snd (accept_all accept initial is))). \<not> expired j i)"
  using accept_iff [OF rel_run [OF rel_initial]] by simp

end

definition windowed :: "u64 list \<Rightarrow> u64 \<Rightarrow> u64 set \<Rightarrow> bool" where
  "windowed bits m S \<longleftrightarrow> length bits = 256 \<and>
     (\<forall>i. i \<le> m \<and> unat m - unat i < 16384 \<longrightarrow> (bit_at bits (position i) \<longleftrightarrow> i \<in> S))"

definition rw_rel :: "replayWindow \<Rightarrow> u64 set \<Rightarrow> bool" where
  "rw_rel w S \<longleftrightarrow>
     (if rw_seenAny w then
        rw_maxID w \<in> S \<and> (\<forall>j\<in>S. j \<le> rw_maxID w) \<and> windowed (rw_bits w) (rw_maxID w) S
      else S = {} \<and> (\<forall>m. windowed (rw_bits w) m {}))"

definition rw_expired :: "u64 \<Rightarrow> u64 \<Rightarrow> bool" where
  "rw_expired j i \<longleftrightarrow> i < j \<and> 16384 \<le> j - i"

lemma mod_window_inject: "a \<le> b \<Longrightarrow> b - a < n \<Longrightarrow> a mod n = b mod n \<Longrightarrow> a = (b :: nat)"
  by (metis diff_is_0_eq dvd_imp_le le_antisym linorder_not_less mod_eq_dvd_iff_nat not_gr_zero)

lemma position_inject:
  assumes "a \<le> m" "b \<le> m" "unat m - unat a < 16384" "unat m - unat b < 16384"
    and "position a = position b"
  shows "a = b"
proof -
  have *: "unat b - unat a < 16384" "unat a - unat b < 16384"
    using assms(1-4) by (simp_all add: word_le_nat_alt)
  have "unat a = unat b"
  proof (cases "unat a \<le> unat b")
    case True
    then show ?thesis using mod_window_inject [OF True *(1)] assms(5) by (simp add: position_def)
  next
    case False
    then have "unat b \<le> unat a" by simp
    from mod_window_inject [OF this *(2)] show ?thesis using assms(5) by (simp add: position_def)
  qed
  then show ?thesis by (simp add: word_unat_eq_iff)
qed

lemma windowed_empty: "windowed (replicate 256 0) m {}"
  by (simp add: windowed_def bit_at_zero position_less)

lemma windowed_set:
  assumes "windowed bits m S" and "x \<le> m" and "unat m - unat x < 16384"
  shows "windowed (rw_set bits x) m (insert x S)"
  using assms position_inject [of _ m x]
  by (auto simp: windowed_def bit_at_rw_set position_less)

lemma windowed_contains:
  "windowed bits m S \<Longrightarrow> x \<le> m \<Longrightarrow> unat m - unat x < 16384 \<Longrightarrow> rw_contains bits x \<longleftrightarrow> x \<in> S"
  by (simp add: windowed_def rw_contains_bit_at)

lemma position_in_run:
  assumes "m < x" and "unat x - unat m < 16384" and "i \<le> x" and "unat x - unat i < 16384"
  shows "(\<exists>k<unat (x - m). position i = (unat (m + 1) + k) mod 16384) \<longleftrightarrow> m < i"
proof -
  have xm: "unat (x - m) = unat x - unat m"
    using assms(1) by (simp add: unat_sub word_le_nat_alt word_less_nat_alt)
  have "unat m + 1 < 2 ^ 64"
    using assms(1) unsigned_less [of x, where ?'a = nat] by (simp add: word_less_nat_alt)
  then have m1: "unat (m + 1) = unat m + 1" by (simp add: unat_plus_if')
  show ?thesis
  proof
    assume "m < i"
    then have "unat i - unat m - 1 < unat x - unat m" "unat i = unat m + 1 + (unat i - unat m - 1)"
      using assms by (auto simp: word_le_nat_alt word_less_nat_alt)
    then show "\<exists>k<unat (x - m). position i = (unat (m + 1) + k) mod 16384"
      unfolding xm m1 position_def by metis
  next
    assume "\<exists>k<unat (x - m). position i = (unat (m + 1) + k) mod 16384"
    then obtain k where k: "k < unat x - unat m" "unat i mod 16384 = (unat m + 1 + k) mod 16384"
      unfolding xm m1 position_def by blast
    show "m < i"
    proof (rule ccontr)
      assume "\<not> m < i"
      then have "unat i \<le> unat m + 1 + k" "unat m + 1 + k - unat i < 16384"
        using k assms by (auto simp: word_le_nat_alt word_less_nat_alt)
      from mod_window_inject [OF this k(2)] show False
        using \<open>\<not> m < i\<close> by (simp add: word_less_nat_alt)
    qed
  qed
qed

lemma windowed_advance:
  assumes w: "windowed bits m S" and S: "\<forall>j\<in>S. j \<le> m" and x: "m < x"
  shows "windowed (if 16384 \<le> x - m then replicate 256 0 else clearRange bits (m + 1) (x - m)) x S"
proof (cases "16384 \<le> x - m")
  case True
  then have far: "unat m + 16384 \<le> unat x"
    using x by (simp add: word_le_nat_alt unat_sub word_less_nat_alt)
  have "i \<notin> S" if "unat x - unat i < 16384" for i
    using that far S by (force simp: word_le_nat_alt)
  then show ?thesis using True by (simp add: windowed_def bit_at_zero position_less)
next
  case False
  then have near: "unat x - unat m < 16384"
    using x by (simp add: word_le_nat_alt unat_sub word_less_nat_alt)
  have "bit_at (clearRange bits (m + 1) (x - m)) (position i) \<longleftrightarrow> i \<in> S"
    if i: "i \<le> x" "unat x - unat i < 16384" for i
  proof -
    have "bit_at (clearRange bits (m + 1) (x - m)) (position i) \<longleftrightarrow>
        bit_at bits (position i) \<and> \<not> m < i"
      using w position_in_run [OF x near i]
        bit_at_clearRange [of bits "position i" "m + 1" "x - m"] position_less [of i]
      unfolding windowed_def by blast
    also have "\<dots> \<longleftrightarrow> i \<in> S"
    proof (cases "m < i")
      case False
      then have "unat m - unat i < 16384" using i x by (simp add: word_less_nat_alt)
      then show ?thesis using w False by (simp add: windowed_def)
    qed (use S in auto)
    finally show ?thesis .
  qed
  then show ?thesis using False w by (simp add: windowed_def)
qed

lemma rw_rel_initial: "rw_rel new_replayWindow {}"
  by (simp add: rw_rel_def new_replayWindow_def windowed_empty)

lemma not_expired_near:
  "m \<in> S \<Longrightarrow> \<forall>j\<in>S. j \<le> m \<Longrightarrow> x \<le> m \<Longrightarrow>
   (\<forall>j\<in>S. \<not> rw_expired j x) \<longleftrightarrow> unat m - unat x < 16384"
  by (fastforce simp: rw_expired_def word_le_nat_alt word_less_nat_alt unat_sub)

lemma rw_accept_spec:
  assumes "rw_rel w S"
  shows "snd (rw_accept w x) \<longleftrightarrow> x \<noteq> 0 \<and> x \<notin> S \<and> (\<forall>j\<in>S. \<not> rw_expired j x)"
    and "rw_rel (fst (rw_accept w x)) (if snd (rw_accept w x) then insert x S else S)"
proof -
  have "(snd (rw_accept w x) \<longleftrightarrow> x \<noteq> 0 \<and> x \<notin> S \<and> (\<forall>j\<in>S. \<not> rw_expired j x)) \<and>
    rw_rel (fst (rw_accept w x)) (if snd (rw_accept w x) then insert x S else S)"
  proof (cases "x = 0 \<or> \<not> rw_seenAny w")
    case True
    then show ?thesis using assms windowed_set [of "rw_bits w" x "{}" x]
      by (auto simp: rw_accept_def rw_rel_def)
  next
    case seen: False
    then have rel: "rw_maxID w \<in> S" "\<forall>j\<in>S. j \<le> rw_maxID w" "windowed (rw_bits w) (rw_maxID w) S"
      using assms by (auto simp: rw_rel_def)
    show ?thesis
    proof (cases "rw_maxID w < x")
      case True
      define bits where "bits = (if 16384 \<le> x - rw_maxID w then replicate 256 0
        else clearRange (rw_bits w) (rw_maxID w + 1) (x - rw_maxID w))"
      have adv: "windowed bits x S"
        using windowed_advance [OF rel(3,2) True] by (simp add: bits_def)
      have new: "x \<notin> S" "\<forall>j\<in>S. \<not> rw_expired j x" and older: "\<forall>j\<in>S. j \<le> x"
        using rel(2) True by (auto simp: rw_expired_def)
      have acc: "rw_accept w x = (w\<lparr>rw_bits := rw_set bits x, rw_maxID := x\<rparr>, True)"
        using seen True new windowed_contains [OF adv, of x]
        by (simp add: rw_accept_def bits_def [symmetric] Let_def)
      show ?thesis
        using seen new older windowed_set [OF adv, of x] by (simp add: acc rw_rel_def)
    next
      case False
      then have x: "x \<le> rw_maxID w" by simp
      note near = not_expired_near [OF rel(1,2) x]
      have far: "16384 \<le> rw_maxID w - x \<longleftrightarrow> \<not> unat (rw_maxID w) - unat x < 16384"
        using x by (simp add: word_le_nat_alt unat_sub linorder_not_less)
      show ?thesis
      proof (cases "unat (rw_maxID w) - unat x < 16384 \<and> x \<notin> S")
        case True
        then show ?thesis
          using seen False rel near x far windowed_contains [OF rel(3) x] windowed_set [OF rel(3) x]
          by (auto simp: rw_accept_def rw_rel_def)
      next
        case rejected: False
        then have "rw_accept w x = (w, False)"
          using seen False far windowed_contains [OF rel(3) x] by (auto simp: rw_accept_def)
        then show ?thesis using assms near rejected by auto
      qed
    qed
  qed
  then show "snd (rw_accept w x) \<longleftrightarrow> x \<noteq> 0 \<and> x \<notin> S \<and> (\<forall>j\<in>S. \<not> rw_expired j x)"
    and "rw_rel (fst (rw_accept w x)) (if snd (rw_accept w x) then insert x S else S)"
    by blast+
qed

interpretation rw: replay_filter new_replayWindow rw_accept "\<lambda>i. i \<noteq> 0" rw_expired rw_rel
  by unfold_locales (fact rw_rel_initial, fact rw_accept_spec, fact rw_accept_spec)

subsection \<open>Properties\<close>

text \<open>No message is accepted twice: in any sequence of arriving message IDs, in any order and with
  any repetitions, the accepted IDs are pairwise different, and 0 is never accepted.\<close>

theorem replay_at_most_once:
  "distinct (taken ids (snd (accept_all rw_accept new_replayWindow ids))) \<and>
   0 \<notin> set (taken ids (snd (accept_all rw_accept new_replayWindow ids)))"
  using rw.accepted_once(1) rw.accepted_once(2) by blast

text \<open>C3: The circular bitmap is exact: after any sequence of messages, an ID is accepted precisely when
  it is not 0, was not accepted before, and lies less than 16384 below every accepted ID.  In
  particular a session is never stuck: an ID above all accepted ones is always accepted.\<close>

theorem replay_window_exact:
  "snd (rw_accept (fst (accept_all rw_accept new_replayWindow ids)) x) \<longleftrightarrow>
     x \<noteq> 0 \<and> x \<notin> set (taken ids (snd (accept_all rw_accept new_replayWindow ids))) \<and>
     \<not> (\<exists>j\<in>set (taken ids (snd (accept_all rw_accept new_replayWindow ids))). x < j \<and> 16384 \<le> j - x)"
  unfolding rw.accept_after_run by (simp add: rw_expired_def)

end
