(* ===== verification/Credential.thy ===== *)
theory Credential
  imports Node_Envelope
begin

unbundle bit_operations_syntax

section \<open>Node credentials (\<open>internal/interconnect/credential.go\<close>)\<close>

text \<open>
  Credentials have the shape \<^verbatim>\<open>prefix.nodeID.secret\<close> with 32 secret bytes in unpadded URL
  base64.  The bytes \<^verbatim>\<open>rand.Read\<close> delivers are an argument, \<^const>\<open>None\<close> when it fails.
  \<^verbatim>\<open>base64.RawURLEncoding\<close> is modelled as the library implements it: decoding skips line
  breaks and ignores the unused low bits of the last character.
\<close>

subsection \<open>Unpadded URL base64\<close>

definition base64_alphabet :: string where
  "base64_alphabet = ''ABCDEFGHIJKLMNOPQRSTUVWXYZabcdefghijklmnopqrstuvwxyz0123456789-_''"

definition sextet_char :: "nat \<Rightarrow> char" where
  "sextet_char n = base64_alphabet ! n"

definition char_sextet :: "char \<Rightarrow> nat option" where
  "char_sextet c = map_of (zip base64_alphabet [0..<64]) c"

fun rawurl_encode :: "bytes \<Rightarrow> string" where
  "rawurl_encode [] = ''''"
| "rawurl_encode [a] =
     (let n = unat a * 65536 in [sextet_char (n div 262144), sextet_char (n div 4096 mod 64)])"
| "rawurl_encode [a, b] =
     (let n = unat a * 65536 + unat b * 256
      in [sextet_char (n div 262144), sextet_char (n div 4096 mod 64), sextet_char (n div 64 mod 64)])"
| "rawurl_encode (a # b # c # rest) =
     (let n = unat a * 65536 + unat b * 256 + unat c
      in [sextet_char (n div 262144), sextet_char (n div 4096 mod 64), sextet_char (n div 64 mod 64),
          sextet_char (n mod 64)] @ rawurl_encode rest)"

definition octets :: "nat \<Rightarrow> nat \<Rightarrow> bytes" where
  "octets k n = take k [of_nat (n div 65536 mod 256), of_nat (n div 256 mod 256), of_nat (n mod 256)]"

fun sextets_decode :: "nat list \<Rightarrow> bytes option" where
  "sextets_decode [] = Some []"
| "sextets_decode [w] = None"
| "sextets_decode [w, x] = Some (octets 1 (w * 262144 + x * 4096))"
| "sextets_decode [w, x, y] = Some (octets 2 (w * 262144 + x * 4096 + y * 64))"
| "sextets_decode (w # x # y # z # rest) =
     map_option (\<lambda>bs. octets 3 (w * 262144 + x * 4096 + y * 64 + z) @ bs) (sextets_decode rest)"

definition rawurl_decode :: "string \<Rightarrow> bytes option" where
  "rawurl_decode s =
     (let cs = filter (\<lambda>c. c \<noteq> CHR 0x0D \<and> c \<noteq> CHR 0x0A) s
      in case those (map char_sextet cs) of None \<Rightarrow> None | Some ns \<Rightarrow> sextets_decode ns)"

subsection \<open>Splitting at a character (\<open>strings.Split\<close>)\<close>

fun split_at :: "char \<Rightarrow> string \<Rightarrow> string list" where
  "split_at c [] = [[]]"
| "split_at c (x # xs) =
     (if x = c then [] # split_at c xs
      else case split_at c xs of p # ps \<Rightarrow> (x # p) # ps | [] \<Rightarrow> [[x]])"

subsection \<open>The operations\<close>

abbreviation (input) registrationCredentialPrefix :: string where "registrationCredentialPrefix \<equiv> ''draarl-enroll''"
abbreviation (input) nodeCredentialPrefix :: string where "nodeCredentialPrefix \<equiv> ''draarl-node''"

datatype credential_error = RandomFailed | InvalidCredentialNodeID

definition NewNodeID :: "bytes option \<Rightarrow> credential_error + string" where
  "NewNodeID random = (case random of None \<Rightarrow> Inl RandomFailed | Some value \<Rightarrow> Inr (''edge-'' @ hex_encode value))"

definition newCredential :: "bytes option \<Rightarrow> string \<Rightarrow> string \<Rightarrow> credential_error + string" where
  "newCredential random prefix' nodeID =
     (let nodeID = trim_space nodeID
      in if nodeID = '''' \<or> NodeIDSize < length nodeID \<or> CHR ''.'' \<in> set nodeID then Inl InvalidCredentialNodeID
         else case random of
           None \<Rightarrow> Inl RandomFailed
         | Some secret \<Rightarrow> Inr (prefix' @ ''.'' @ nodeID @ ''.'' @ rawurl_encode secret))"

definition NewRegistrationCredential :: "bytes option \<Rightarrow> string \<Rightarrow> credential_error + string" where
  "NewRegistrationCredential random nodeID = newCredential random registrationCredentialPrefix nodeID"

definition NewLongTermCredential :: "bytes option \<Rightarrow> string \<Rightarrow> credential_error + string" where
  "NewLongTermCredential random nodeID = newCredential random nodeCredentialPrefix nodeID"

definition CredentialNodeID :: "string \<Rightarrow> string" where
  "CredentialNodeID credential =
     (case split_at (CHR ''.'') credential of
        [p0, p1, p2] \<Rightarrow>
          if p0 \<noteq> registrationCredentialPrefix \<and> p0 \<noteq> nodeCredentialPrefix then ''''
          else if p1 = '''' \<or> NodeIDSize < length p1 then ''''
          else (case rawurl_decode p2 of
                  None \<Rightarrow> '''' | Some secret \<Rightarrow> if length secret \<noteq> 32 then '''' else p1)
      | _ \<Rightarrow> '''')"

definition HashCredential :: "string \<Rightarrow> string" where
  "HashCredential credential = hex_encode (sha256 (bytes_of credential))"

subsection \<open>The codec round trip\<close>

lemma char_sextet_sextet_char: "n < 64 \<Longrightarrow> char_sextet (sextet_char n) = Some n"
proof -
  assume "n < 64"
  moreover have "list_all (\<lambda>n. char_sextet (sextet_char n) = Some n) [0..<64]" by code_simp
  ultimately show ?thesis by (simp add: list_all_iff)
qed

lemma sextet_char_plain: "n < 64 \<Longrightarrow> sextet_char n \<notin> {CHR 0x0D, CHR 0x0A, CHR ''.''}"
proof -
  assume "n < 64"
  moreover have "list_all (\<lambda>n. sextet_char n \<noteq> CHR 0x0D \<and> sextet_char n \<noteq> CHR 0x0A \<and> sextet_char n \<noteq> CHR ''.'')
    [0..<64]" by code_simp
  ultimately show ?thesis by (simp add: list_all_iff)
qed

text \<open>The encoder writes the sextets of the input, and those decode to it.\<close>

fun sextets :: "bytes \<Rightarrow> nat list" where
  "sextets [] = []"
| "sextets [a] = (let n = unat a * 65536 in [n div 262144, n div 4096 mod 64])"
| "sextets [a, b] = (let n = unat a * 65536 + unat b * 256 in [n div 262144, n div 4096 mod 64, n div 64 mod 64])"
| "sextets (a # b # c # rest) =
     (let n = unat a * 65536 + unat b * 256 + unat c
      in [n div 262144, n div 4096 mod 64, n div 64 mod 64, n mod 64] @ sextets rest)"

lemma rawurl_encode_sextets: "rawurl_encode bs = map sextet_char (sextets bs)"
  by (induction bs rule: sextets.induct) (simp_all add: Let_def)

lemma sextets_less: "n \<in> set (sextets bs) \<Longrightarrow> n < 64"
proof (induction bs rule: sextets.induct)
  case (2 a)
  then show ?case using unat_byte_less [of a] by (auto simp: Let_def)
next
  case (3 a b)
  then show ?case using unat_byte_less [of a] unat_byte_less [of b] by (auto simp: Let_def)
next
  case (4 a b c rest)
  then show ?case using unat_byte_less [of a] unat_byte_less [of b] unat_byte_less [of c]
    by (auto simp: Let_def)
qed simp

lemma regroup:
  fixes n :: nat
  shows "n div 262144 * 262144 + n div 4096 mod 64 * 4096 + n div 64 mod 64 * 64 + n mod 64 = n"
proof -
  have "n mod 262144 = n div 4096 mod 64 * 4096 + n mod 4096"
    using mod_mult2_eq [of n 4096 64] by simp
  moreover have "n mod 4096 = n div 64 mod 64 * 64 + n mod 64"
    using mod_mult2_eq [of n 64 64] by simp
  ultimately show ?thesis using div_mult_mod_eq [of n 262144] by linarith
qed

lemma regroup_short:
  fixes n :: nat
  shows "n mod 64 = 0 \<Longrightarrow> n div 262144 * 262144 + n div 4096 mod 64 * 4096 + n div 64 mod 64 * 64 = n"
    and "n mod 64 = 0 \<Longrightarrow> n div 64 mod 64 = 0 \<Longrightarrow> n div 262144 * 262144 + n div 4096 mod 64 * 4096 = n"
  using regroup [of n] by simp_all

lemma div_mod_256: "c < 256 \<Longrightarrow> (q * 256 + c) div 256 = q \<and> (q * 256 + c) mod (256 :: nat) = c"
  by simp

lemma octets_bytes3: "octets 3 (unat a * 65536 + unat b * 256 + unat c) = [a, b, c]"
proof -
  let ?q = "unat a * 256 + unat b"
  have n: "unat a * 65536 + unat b * 256 + unat c = ?q * 256 + unat c" by simp
  have "(?q * 256 + unat c) div 65536 = ?q div 256"
    using div_mult2_eq [of "?q * 256 + unat c" 256 256] div_mod_256 [OF unat_byte_less [of c], of ?q] by simp
  then show ?thesis
    using div_mod_256 [OF unat_byte_less [of c], of ?q] div_mod_256 [OF unat_byte_less [of b], of "unat a"]
      unat_byte_less [of a]
    unfolding n by (simp add: octets_def numeral_3_eq_3)
qed

lemma octets_bytes2: "octets 2 (unat a * 65536 + unat b * 256) = [a, b]"
  using octets_bytes3 [of a b 0] by (simp add: octets_def numeral_2_eq_2 numeral_3_eq_3)

lemma octets_bytes1: "octets 1 (unat a * 65536) = [a]"
  using octets_bytes3 [of a 0 0] by (simp add: octets_def numeral_3_eq_3)

lemma mod_64_multiples:
  "(a * 65536 + b * 256) mod 64 = (0 :: nat)" "(a * 65536) mod 64 = (0 :: nat)" "(a * 65536) div 64 mod 64 = (0 :: nat)"
proof -
  have "a * 65536 + b * 256 = 64 * (a * 1024 + b * 4)" "a * 65536 = 64 * (64 * (a * 16))" by simp_all
  then show "(a * 65536 + b * 256) mod 64 = 0" "(a * 65536) mod 64 = 0" "(a * 65536) div 64 mod 64 = 0"
    by (metis mod_mult_self1_is_0, metis mod_mult_self1_is_0,
        metis mod_mult_self1_is_0 nonzero_mult_div_cancel_left zero_neq_numeral)
qed

lemma sextets_decode_sextets: "sextets_decode (sextets bs) = Some bs"
proof (induction bs rule: sextets.induct)
  case (2 a)
  have "octets 1 (unat a * 65536 div 262144 * 262144 + unat a * 65536 div 4096 mod 64 * 4096) = [a]"
    by (subst regroup_short(2)) (use mod_64_multiples(2,3) [of "unat a"] octets_bytes1 in simp_all)
  then show ?case by (simp only: sextets.simps Let_def sextets_decode.simps)
next
  case (3 a b)
  let ?n = "unat a * 65536 + unat b * 256"
  have "octets 2 (?n div 262144 * 262144 + ?n div 4096 mod 64 * 4096 + ?n div 64 mod 64 * 64) = [a, b]"
    by (subst regroup_short(1)) (use mod_64_multiples(1) [of "unat a" "unat b"] octets_bytes2 in simp_all)
  then show ?case by (simp only: sextets.simps Let_def sextets_decode.simps)
next
  case (4 a b c rest)
  let ?n = "unat a * 65536 + unat b * 256 + unat c"
  have "octets 3 (?n div 262144 * 262144 + ?n div 4096 mod 64 * 4096 + ?n div 64 mod 64 * 64 + ?n mod 64) = [a, b, c]"
    unfolding regroup by (rule octets_bytes3)
  then show ?case
    by (simp only: sextets.simps Let_def append.simps sextets_decode.simps 4 option.map)
qed simp

lemma those_map_Some: "(\<And>x. x \<in> set xs \<Longrightarrow> f x = Some (g x)) \<Longrightarrow> those (map f xs) = Some (map g xs)"
  by (induction xs) simp_all

lemma rawurl_decode_encode: "rawurl_decode (rawurl_encode bs) = Some bs"
proof -
  have "filter (\<lambda>c. c \<noteq> CHR 0x0D \<and> c \<noteq> CHR 0x0A) (rawurl_encode bs) = rawurl_encode bs"
    using sextets_less sextet_char_plain by (auto simp: rawurl_encode_sextets filter_id_conv)
  moreover have "those (map char_sextet (rawurl_encode bs)) = Some (sextets bs)"
    using those_map_Some [of "sextets bs" "char_sextet \<circ> sextet_char" "\<lambda>n. n"] sextets_less [of _ bs]
    by (simp add: rawurl_encode_sextets char_sextet_sextet_char)
  ultimately show ?thesis by (simp add: rawurl_decode_def Let_def sextets_decode_sextets)
qed

lemma split_at_no: "c \<notin> set s \<Longrightarrow> split_at c s = [s]"
  by (induction s) auto

lemma split_at_sep: "c \<notin> set s \<Longrightarrow> split_at c (s @ c # t) = s # split_at c t"
  by (induction s) auto

lemma dot_not_in_encode: "CHR ''.'' \<notin> set (rawurl_encode bs)"
  using sextet_char_plain [OF sextets_less] by (fastforce simp: rawurl_encode_sextets)

lemma CredentialNodeID_newCredential:
  assumes "p \<in> {registrationCredentialPrefix, nodeCredentialPrefix}"
    and "newCredential (Some secret) p nodeID = Inr credential" and "length secret = 32"
  shows "CredentialNodeID credential = trim_space nodeID"
proof -
  let ?n = "trim_space nodeID"
  from assms(2) have n: "?n \<noteq> ''''" "length ?n \<le> 32" "CHR ''.'' \<notin> set ?n"
    and c: "credential = p @ CHR ''.'' # ?n @ CHR ''.'' # rawurl_encode secret"
    by (auto simp: newCredential_def Let_def split: if_splits)
  have "CHR ''.'' \<notin> set p" using assms(1) by auto
  then have "split_at (CHR ''.'') credential = [p, ?n, rawurl_encode secret]"
    using n by (simp add: c split_at_sep split_at_no dot_not_in_encode)
  with n assms(1,3) show ?thesis
    by (auto simp: CredentialNodeID_def rawurl_decode_encode)
qed

subsection \<open>Properties\<close>

text \<open>The node ID can be read back from every credential that is issued, registration or long-term,
  for every 32 secret bytes.\<close>

theorem credential_round_trip:
  assumes "NewLongTermCredential (Some secret) nodeID = Inr c \<or> NewRegistrationCredential (Some secret) nodeID = Inr c"
    and "length secret = 32"
  shows "CredentialNodeID c = trim_space nodeID"
  using assms CredentialNodeID_newCredential [of nodeCredentialPrefix secret nodeID c]
    CredentialNodeID_newCredential [of registrationCredentialPrefix secret nodeID c]
  by (auto simp: NewLongTermCredential_def NewRegistrationCredential_def)

theorem credential_round_trip_witness:
  "\<exists>c. NewLongTermCredential (Some (replicate 32 255)) '' edge-1 '' = Inr c \<and> CredentialNodeID c = ''edge-1''"
proof -
  have t: "trim_space '' edge-1 '' = ''edge-1''" by code_simp
  then have "\<exists>c. NewLongTermCredential (Some (replicate 32 255)) '' edge-1 '' = Inr c"
    by (simp add: NewLongTermCredential_def newCredential_def)
  with credential_round_trip [of "replicate 32 255" "'' edge-1 ''"] t show ?thesis by fastforce
qed

end
