(* ===== verification/Projection.thy ===== *)
theory Projection
  imports Go_Base Go_Crypto "HOL-Library.Finite_Map"
begin

section \<open>Route projections (\<open>internal/interconnect/projection.go\<close>)\<close>

text \<open>
  The centre's view of the devices of a node, versioned by an epoch and a counter, and the
  deltas that advance it.  Pointers that may be nil and maps that may be nil are options.
  \<^verbatim>\<open>json.Marshal\<close> is the argument \<open>enc\<close> of the operations that use it.  Slices are copied
  by \<open>clone\<close>, so as values a clone is the original.
\<close>

record DeviceRoute =
  rt_SessionID :: u64
  rt_DeviceID :: int
  rt_Username :: string
  rt_CallSign :: string
  rt_Nickname :: string
  rt_SSID :: byte
  rt_DevModel :: byte
  rt_GroupID :: int
  rt_DomainID :: u64
  rt_RxGroupIDs :: "int list"
  rt_RxDomainIDs :: "u64 list"
  rt_GhostSessionID :: string
  rt_ClientInstanceID :: string
  rt_SessionTag :: u32
  rt_GhostProtocolVersion :: u16
  rt_SourceGroupV1 :: bool
  rt_SessionEpoch :: u64
  rt_DisableSend :: bool
  rt_DisableRecv :: bool

definition clone_route :: "DeviceRoute \<Rightarrow> DeviceRoute" where
  "clone_route r = r\<lparr>rt_RxGroupIDs := [] @ rt_RxGroupIDs r, rt_RxDomainIDs := [] @ rt_RxDomainIDs r\<rparr>"

record Projection =
  prj_ClusterEpoch :: u64
  prj_Version :: u64
  prj_Devices :: "(u64, DeviceRoute) fmap option"

definition NewProjection :: "u64 \<Rightarrow> Projection" where
  "NewProjection epoch = \<lparr>prj_ClusterEpoch = epoch, prj_Version = 0, prj_Devices = Some fmempty\<rparr>"

definition devices_of :: "Projection \<Rightarrow> (u64, DeviceRoute) fmap" where
  "devices_of p = (case prj_Devices p of None \<Rightarrow> fmempty | Some m \<Rightarrow> m)"

definition Clone :: "Projection option \<Rightarrow> Projection" where
  "Clone p =
     (case p of
        None \<Rightarrow> NewProjection 0
      | Some p \<Rightarrow> \<lparr>prj_ClusterEpoch = prj_ClusterEpoch p, prj_Version = prj_Version p,
                   prj_Devices = Some (fmmap clone_route (devices_of p))\<rparr>)"

record DeltaOperation =
  op_Kind :: string
  op_Route :: "DeviceRoute option"
  op_SessionID :: u64

record RouteDelta =
  dl_ClusterEpoch :: u64
  dl_BaseVersion :: u64
  dl_NewVersion :: u64
  dl_Operations :: "DeltaOperation list"
  dl_Checksum :: string

datatype delta_error =
    DeltaNotAdvancing
  | DeltaNoEpoch
  | DeltaNoChecksum
  | DeltaChecksumMismatch
  | DeltaUpsertWithoutRoute
  | DeltaRemoveWithoutSession
  | DeltaUnknownOperation string
  | NilProjection
  | DeltaEpochMismatch u64 u64
  | DeltaVersionMismatch u64 u64
  | InvalidProjection

definition withChecksum :: "(RouteDelta \<Rightarrow> bytes) \<Rightarrow> RouteDelta \<Rightarrow> RouteDelta" where
  "withChecksum enc d =
     (let d = d\<lparr>dl_Checksum := ''''\<rparr>; data = enc d; sum = sha256 data
      in d\<lparr>dl_Checksum := hex_encode sum\<rparr>)"

fun validate_operations :: "DeltaOperation list \<Rightarrow> delta_error option" where
  "validate_operations [] = None"
| "validate_operations (op # ops) =
     (if op_Kind op = ''upsert'' then
        (case op_Route op of
           None \<Rightarrow> Some DeltaUpsertWithoutRoute
         | Some route \<Rightarrow> if rt_SessionID route = 0 then Some DeltaUpsertWithoutRoute else validate_operations ops)
      else if op_Kind op = ''remove'' then
        (if op_SessionID op = 0 then Some DeltaRemoveWithoutSession else validate_operations ops)
      else Some (DeltaUnknownOperation (op_Kind op)))"

definition RouteDelta_Validate :: "(RouteDelta \<Rightarrow> bytes) \<Rightarrow> RouteDelta \<Rightarrow> delta_error option" where
  "RouteDelta_Validate enc d =
     (if dl_NewVersion d \<le> dl_BaseVersion d then Some DeltaNotAdvancing
      else if dl_ClusterEpoch d = 0 then Some DeltaNoEpoch
      else if dl_Checksum d = '''' then Some DeltaNoChecksum
      else if dl_Checksum (withChecksum enc d) \<noteq> dl_Checksum d then Some DeltaChecksumMismatch
      else validate_operations (dl_Operations d))"

definition NewRouteDelta ::
  "(RouteDelta \<Rightarrow> bytes) \<Rightarrow> u64 \<Rightarrow> u64 \<Rightarrow> u64 \<Rightarrow> DeltaOperation list \<Rightarrow> RouteDelta" where
  "NewRouteDelta enc epoch base next' operations =
     withChecksum enc \<lparr>dl_ClusterEpoch = epoch, dl_BaseVersion = base, dl_NewVersion = next',
       dl_Operations = operations, dl_Checksum = ''''\<rparr>"

text \<open>
  One operation of a delta on the cloned device map.  An \<open>upsert\<close> reads \<^verbatim>\<open>op.Route\<close>, which
  validation has shown not to be nil; without a route the model leaves the map alone.
\<close>

definition apply_operation :: "DeltaOperation \<Rightarrow> (u64, DeviceRoute) fmap \<Rightarrow> (u64, DeviceRoute) fmap" where
  "apply_operation op devices =
     (if op_Kind op = ''upsert'' then
        (case op_Route op of
           None \<Rightarrow> devices | Some route \<Rightarrow> fmupd (rt_SessionID route) (clone_route route) devices)
      else fmdrop (op_SessionID op) devices)"

definition ApplyDelta ::
  "(RouteDelta \<Rightarrow> bytes) \<Rightarrow> Projection option \<Rightarrow> RouteDelta \<Rightarrow> Projection option \<times> delta_error option" where
  "ApplyDelta enc p d =
     (case p of
        None \<Rightarrow> (p, Some NilProjection)
      | Some q \<Rightarrow>
          (case RouteDelta_Validate enc d of
             Some e \<Rightarrow> (p, Some e)
           | None \<Rightarrow>
               if prj_ClusterEpoch q \<noteq> dl_ClusterEpoch d
               then (p, Some (DeltaEpochMismatch (prj_ClusterEpoch q) (dl_ClusterEpoch d)))
               else if prj_Version q \<noteq> dl_BaseVersion d
               then (p, Some (DeltaVersionMismatch (prj_Version q) (dl_BaseVersion d)))
               else
                 let next' = Clone p;
                     next' = next'\<lparr>prj_Devices := Some (fold apply_operation (dl_Operations d) (devices_of next'))\<rparr>;
                     next' = next'\<lparr>prj_Version := dl_NewVersion d\<rparr>
                 in (Some (q\<lparr>prj_ClusterEpoch := prj_ClusterEpoch next', prj_Version := prj_Version next',
                             prj_Devices := prj_Devices next'\<rparr>), None)))"

text \<open>The decoder of a projection: \<open>dec\<close> is \<^verbatim>\<open>json.Unmarshal\<close> into a \<open>Projection\<close>.\<close>

definition UnmarshalProjection :: "(bytes \<Rightarrow> Projection option) \<Rightarrow> bytes \<Rightarrow> Projection option" where
  "UnmarshalProjection dec data =
     (case dec data of
        None \<Rightarrow> None
      | Some p \<Rightarrow> if prj_ClusterEpoch p = 0 \<or> prj_Devices p = None then None else Some p)"

subsection \<open>The copy-on-write store\<close>

record ProjectionStore =
  ps_current :: "Projection option"

definition NewProjectionStore :: "Projection option \<Rightarrow> ProjectionStore" where
  "NewProjectionStore p = \<lparr>ps_current = Some (Clone p)\<rparr>"

definition Snapshot :: "ProjectionStore \<Rightarrow> Projection" where
  "Snapshot s = Clone (ps_current s)"

definition Store_ApplyDelta ::
  "(RouteDelta \<Rightarrow> bytes) \<Rightarrow> ProjectionStore \<Rightarrow> RouteDelta \<Rightarrow> ProjectionStore \<times> delta_error option" where
  "Store_ApplyDelta enc s d =
     (case ApplyDelta enc (Some (Clone (ps_current s))) d of
        (next', Some e) \<Rightarrow> (s, Some e)
      | (next', None) \<Rightarrow> (s\<lparr>ps_current := next'\<rparr>, None))"

definition Replace :: "ProjectionStore \<Rightarrow> Projection option \<Rightarrow> ProjectionStore \<times> delta_error option" where
  "Replace s p =
     (case p of
        None \<Rightarrow> (s, Some InvalidProjection)
      | Some q \<Rightarrow> if prj_ClusterEpoch q = 0 then (s, Some InvalidProjection)
                  else (s\<lparr>ps_current := Some (Clone p)\<rparr>, None))"

subsection \<open>Clones and single operations\<close>

lemma clone_route_id [simp]: "clone_route r = r"
  by (simp add: clone_route_def)

lemma clone_route_eq_id: "clone_route = (\<lambda>r. r)"
  by (simp add: fun_eq_iff)

lemma fmmap_id [simp]: "fmmap (\<lambda>r. r) m = m"
  by (rule fmap_ext) (simp add: option.map_ident)

lemma devices_of_Clone [simp]: "devices_of (Clone (Some p)) = devices_of p"
  by (simp add: devices_of_def Clone_def clone_route_eq_id)

lemma Clone_Some:
  "Clone (Some p) = \<lparr>prj_ClusterEpoch = prj_ClusterEpoch p, prj_Version = prj_Version p, prj_Devices = Some (devices_of p)\<rparr>"
  by (simp add: Clone_def clone_route_eq_id)

lemma Clone_idem: "Clone (Some (Clone p)) = Clone p"
  by (cases p) (simp_all add: Clone_Some Clone_def NewProjection_def devices_of_def clone_route_eq_id)

text \<open>The session an operation is about, and the route it leaves there.\<close>

definition op_target :: "DeltaOperation \<Rightarrow> u64" where
  "op_target op = (if op_Kind op = ''upsert'' then rt_SessionID (the (op_Route op)) else op_SessionID op)"

definition op_result :: "DeltaOperation \<Rightarrow> DeviceRoute option" where
  "op_result op = (if op_Kind op = ''upsert'' then op_Route op else None)"

lemma validate_operations_None:
  "validate_operations ops = None \<longleftrightarrow>
     (\<forall>op\<in>set ops. (op_Kind op = ''upsert'' \<and> op_Route op \<noteq> None \<or> op_Kind op = ''remove'') \<and> op_target op \<noteq> 0)"
  by (induction ops rule: validate_operations.induct) (auto simp: op_target_def split: option.splits)

lemma lookup_apply_operation:
  assumes "op_Kind op = ''upsert'' \<longrightarrow> op_Route op \<noteq> None"
  shows "fmlookup (apply_operation op m) s = (if s = op_target op then op_result op else fmlookup m s)"
  using assms by (auto simp: apply_operation_def op_target_def op_result_def split: option.splits)

lemma lookup_fold_operations:
  assumes "validate_operations ops = None"
  shows "fmlookup (fold apply_operation ops m) s =
    (case find (\<lambda>op. op_target op = s) (rev ops) of None \<Rightarrow> fmlookup m s | Some op \<Rightarrow> op_result op)"
  using assms
proof (induction ops rule: rev_induct)
  case (snoc op ops)
  then have "validate_operations ops = None" "op_Kind op = ''upsert'' \<longrightarrow> op_Route op \<noteq> None"
    by (auto simp: validate_operations_None)
  with snoc.IH show ?case by (auto simp: lookup_apply_operation)
qed simp

lemma ApplyDelta_ok:
  assumes "ApplyDelta enc p d = (p', None)"
  obtains q where "p = Some q" and "RouteDelta_Validate enc d = None"
    and "prj_ClusterEpoch q = dl_ClusterEpoch d" and "prj_Version q = dl_BaseVersion d"
    and "p' = Some (q\<lparr>prj_Version := dl_NewVersion d,
      prj_Devices := Some (fold apply_operation (dl_Operations d) (devices_of q))\<rparr>)"
  using assms
  by (auto simp: ApplyDelta_def Let_def Clone_Some devices_of_def split: option.splits if_splits)

lemma ApplyDelta_error: "ApplyDelta enc p d = (p', Some e) \<Longrightarrow> p' = p"
  by (auto simp: ApplyDelta_def Let_def split: option.splits if_splits)

lemma RouteDelta_Validate_None:
  "RouteDelta_Validate enc d = None \<longleftrightarrow>
     dl_BaseVersion d < dl_NewVersion d \<and> dl_ClusterEpoch d \<noteq> 0 \<and>
     dl_Checksum d = hex_encode (sha256 (enc (d\<lparr>dl_Checksum := ''''\<rparr>))) \<and>
     validate_operations (dl_Operations d) = None"
proof -
  have "hex_encode (sha256 bs) \<noteq> ''''" for bs
    using length_hex_encode [of "sha256 bs"] by (metis length_sha256 list.size(3) mult_eq_0_iff zero_neq_numeral)
  then show ?thesis by (auto simp: RouteDelta_Validate_def withChecksum_def Let_def not_le)
qed

subsection \<open>Properties\<close>

text \<open>A delta that is applied leaves each session with the route of the last operation on it, or
  without a route if that operation removed it, and every other session as it was; the
  version becomes the new version of the delta and the epoch stays.\<close>

theorem apply_delta_last_operation_wins:
  assumes "ApplyDelta enc (Some p) d = (Some p', None)"
  shows "fmlookup (devices_of p') s =
      (case find (\<lambda>op. op_target op = s) (rev (dl_Operations d)) of
         None \<Rightarrow> fmlookup (devices_of p) s
       | Some op \<Rightarrow> if op_Kind op = ''upsert'' then op_Route op else None) \<and>
    prj_Version p' = dl_NewVersion d \<and> prj_ClusterEpoch p' = prj_ClusterEpoch p"
proof -
  from assms obtain ok: "RouteDelta_Validate enc d = None"
    and p': "p' = p\<lparr>prj_Version := dl_NewVersion d,
      prj_Devices := Some (fold apply_operation (dl_Operations d) (devices_of p))\<rparr>"
    by (auto elim!: ApplyDelta_ok)
  have "validate_operations (dl_Operations d) = None" using ok by (simp add: RouteDelta_Validate_None)
  from lookup_fold_operations [OF this] show ?thesis
    by (simp add: p' devices_of_def [of "p\<lparr>prj_Version := _, prj_Devices := _\<rparr>"] op_result_def split: option.split)
qed

definition sample_route :: DeviceRoute where
  "sample_route = \<lparr>rt_SessionID = 5, rt_DeviceID = 1, rt_Username = ''u'', rt_CallSign = '''', rt_Nickname = '''', rt_SSID = 1,
     rt_DevModel = 1, rt_GroupID = 2, rt_DomainID = 3, rt_RxGroupIDs = [], rt_RxDomainIDs = [], rt_GhostSessionID = '''',
     rt_ClientInstanceID = '''', rt_SessionTag = 0, rt_GhostProtocolVersion = 0, rt_SourceGroupV1 = False,
     rt_SessionEpoch = 1, rt_DisableSend = False, rt_DisableRecv = False\<rparr>"

definition sample_delta :: RouteDelta where
  "sample_delta = NewRouteDelta (\<lambda>_. [1, 2]) 7 0 1
     [\<lparr>op_Kind = ''upsert'', op_Route = Some sample_route, op_SessionID = 0\<rparr>]"

lemma sample_delta_applies: "\<exists>p'. ApplyDelta (\<lambda>_. [1, 2]) (Some (NewProjection 7)) sample_delta = (Some p', None)"
proof -
  have "RouteDelta_Validate (\<lambda>_. [1, 2]) sample_delta = None"
    unfolding RouteDelta_Validate_None by (simp add: sample_delta_def NewRouteDelta_def withChecksum_def sample_route_def)
  then show ?thesis
    by (simp add: ApplyDelta_def NewProjection_def sample_delta_def NewRouteDelta_def withChecksum_def Let_def)
qed

theorem apply_delta_last_operation_wins_witness:
  "\<exists>p'. ApplyDelta (\<lambda>_. [1, 2]) (Some (NewProjection 7)) sample_delta = (Some p', None) \<and>
     fmlookup (devices_of p') 5 = Some sample_route"
proof -
  obtain p' where p': "ApplyDelta (\<lambda>_. [1, 2]) (Some (NewProjection 7)) sample_delta = (Some p', None)"
    using sample_delta_applies by blast
  from apply_delta_last_operation_wins [OF p', of 5] have "fmlookup (devices_of p') 5 = Some sample_route"
    by (simp add: sample_delta_def NewRouteDelta_def withChecksum_def op_target_def sample_route_def)
  with p' show ?thesis by blast
qed

text \<open>Applying a delta is all or nothing and never repeats: a store that refuses a delta is unchanged,
  and once it has applied a delta it refuses the same delta for a version mismatch.\<close>

theorem store_delta_atomic:
  assumes "Store_ApplyDelta enc s d = (s', result)"
  shows "case result of
      Some e \<Rightarrow> s' = s
    | None \<Rightarrow> prj_Version (Snapshot s) < prj_Version (Snapshot s') \<and>
        Store_ApplyDelta enc s' d = (s', Some (DeltaVersionMismatch (dl_NewVersion d) (dl_BaseVersion d)))"
proof (cases result)
  case (Some e)
  with assms show ?thesis by (auto simp: Store_ApplyDelta_def split: prod.splits option.splits)
next
  case None
  with assms obtain p' where p': "ApplyDelta enc (Some (Clone (ps_current s))) d = (p', None)" "s' = s\<lparr>ps_current := p'\<rparr>"
    by (auto simp: Store_ApplyDelta_def split: prod.splits option.splits)
  from p'(1) obtain q where q: "RouteDelta_Validate enc d = None" "prj_Version (Clone (ps_current s)) = dl_BaseVersion d"
    "prj_ClusterEpoch (Clone (ps_current s)) = dl_ClusterEpoch d"
    "p' = Some q" "prj_Version q = dl_NewVersion d" "prj_ClusterEpoch q = dl_ClusterEpoch d"
    by (elim ApplyDelta_ok) auto
  have "dl_BaseVersion d < dl_NewVersion d" using q(1) by (simp add: RouteDelta_Validate_None)
  with q p'(2) None show ?thesis
    by (auto simp: Snapshot_def Store_ApplyDelta_def ApplyDelta_def Clone_Some)
qed

theorem store_delta_atomic_witness:
  "\<exists>s'. Store_ApplyDelta (\<lambda>_. [1, 2]) (NewProjectionStore (Some (NewProjection 7))) sample_delta = (s', None) \<and>
     prj_Version (Snapshot (NewProjectionStore (Some (NewProjection 7)))) < prj_Version (Snapshot s')"
proof -
  let ?s = "NewProjectionStore (Some (NewProjection 7))"
  have "Clone (Some (NewProjection 7)) = NewProjection 7" by (simp add: Clone_Some NewProjection_def devices_of_def)
  then have "\<exists>s'. Store_ApplyDelta (\<lambda>_. [1, 2]) ?s sample_delta = (s', None)"
    using sample_delta_applies by (auto simp: Store_ApplyDelta_def NewProjectionStore_def)
  with store_delta_atomic [of "\<lambda>_. [1, 2]" ?s sample_delta _ None] show ?thesis by auto
qed

text \<open>A delta built by the centre validates on the node exactly when its version advances, its epoch is
  not 0 and each operation names a session: the checksum never stands in the way, however the
  encoder renders the delta.\<close>

theorem new_delta_validates:
  "RouteDelta_Validate enc (NewRouteDelta enc epoch base next' ops) = None \<longleftrightarrow>
     base < next' \<and> epoch \<noteq> 0 \<and>
     list_all (\<lambda>op. (op_Kind op = ''upsert'' \<and> op_Route op \<noteq> None \<or> op_Kind op = ''remove'') \<and> op_target op \<noteq> 0) ops"
  by (simp add: RouteDelta_Validate_None NewRouteDelta_def withChecksum_def Let_def validate_operations_None list_all_iff)

end
