(* ===== verification/Node_Messages.thy ===== *)
theory Node_Messages
  imports Node_Envelope Credential Projection
begin

section \<open>Control and relay messages between nodes (\<open>internal/interconnect/messages.go\<close>)\<close>

text \<open>
  The message structures of the node control plane with their validation, the chunked
  transfer of a projection snapshot, and the binary frame that relays a device packet.
\<close>

datatype message_error = MessageError string

subsection \<open>Credential rotation\<close>

record NodeCredentialControl =
  cc_Kind :: string
  cc_Credential :: string
  cc_CredentialEpoch :: u32
  cc_PreviousValidUntilMillis :: int
  cc_AckForMessageID :: u64
  cc_Success :: bool
  cc_Error :: string

definition NodeCredentialControl_Validate :: "NodeCredentialControl \<Rightarrow> string \<Rightarrow> message_error option" where
  "NodeCredentialControl_Validate m nodeID =
     (if cc_CredentialEpoch m = 0 \<or> 128 < length (cc_Error m)
      then Some (MessageError ''invalid node credential control metadata'')
      else if cc_Kind m = ''rotate'' then
        (if cc_AckForMessageID m \<noteq> 0 \<or> cc_PreviousValidUntilMillis m \<le> 0 \<or> CredentialNodeID (cc_Credential m) \<noteq> nodeID
         then Some (MessageError ''invalid node credential rotation'') else None)
      else if cc_Kind m = ''result'' then
        (if cc_Credential m \<noteq> '''' \<or> cc_PreviousValidUntilMillis m \<noteq> 0 \<or> cc_AckForMessageID m = 0
         then Some (MessageError ''invalid node credential rotation result'') else None)
      else Some (MessageError ''unknown node credential control kind''))"

subsection \<open>Device grants\<close>

record DeviceGrant =
  gr_SessionID :: u64
  gr_SessionEpoch :: u64
  gr_DeviceID :: int
  gr_OwnerID :: int
  gr_Username :: string
  gr_CallSign :: string
  gr_Nickname :: string
  gr_SSID :: byte
  gr_DevModel :: byte
  gr_DMRID :: u32
  gr_GroupID :: int
  gr_DomainID :: u64
  gr_RxGroupIDs :: "int list"
  gr_RxDomainIDs :: "u64 list"
  gr_GhostSessionID :: string
  gr_ClientInstanceID :: string
  gr_SessionTag :: u32
  gr_GhostProtocolVersion :: u16
  gr_SourceGroupV1 :: bool
  gr_RecoveryTicket :: string
  gr_DisableSend :: bool
  gr_DisableRecv :: bool
  gr_ExpiresAtMillis :: int

definition Route :: "DeviceGrant \<Rightarrow> DeviceRoute" where
  "Route g =
     \<lparr>rt_SessionID = gr_SessionID g, rt_DeviceID = gr_DeviceID g, rt_Username = gr_Username g,
      rt_CallSign = gr_CallSign g, rt_Nickname = gr_Nickname g, rt_SSID = gr_SSID g, rt_DevModel = gr_DevModel g,
      rt_GroupID = gr_GroupID g, rt_DomainID = gr_DomainID g, rt_RxGroupIDs = gr_RxGroupIDs g,
      rt_RxDomainIDs = gr_RxDomainIDs g, rt_GhostSessionID = gr_GhostSessionID g,
      rt_ClientInstanceID = gr_ClientInstanceID g, rt_SessionTag = gr_SessionTag g,
      rt_GhostProtocolVersion = gr_GhostProtocolVersion g, rt_SourceGroupV1 = gr_SourceGroupV1 g,
      rt_SessionEpoch = gr_SessionEpoch g, rt_DisableSend = gr_DisableSend g, rt_DisableRecv = gr_DisableRecv g\<rparr>"

subsection \<open>Session confirmation batches\<close>

abbreviation (input) MaxDeviceSessionConfirmBatch :: nat where "MaxDeviceSessionConfirmBatch \<equiv> 128"

record DeviceSessionConfirmItem =
  ci_SessionID :: u64
  ci_SessionEpoch :: u64
  ci_ControlSessionID :: u64
  ci_DeviceID :: int
  ci_OwnerID :: int
  ci_SSID :: byte
  ci_DevModel :: byte
  ci_GhostSessionID :: string
  ci_ClientInstanceID :: string
  ci_RecoveryTicket :: string

record DeviceSessionConfirmRequest =
  cq_RequestID :: u64
  cq_Sessions :: "DeviceSessionConfirmItem list"

definition confirm_owner_key :: "DeviceSessionConfirmItem \<Rightarrow> string" where
  "confirm_owner_key item =
     (let ownerKey = itoa (ci_OwnerID item) @ '':'' @ itoa (uint (ci_SSID item))
      in if ci_ClientInstanceID item \<noteq> '''' then ownerKey @ '':'' @ ci_ClientInstanceID item else ownerKey)"

fun confirm_items ::
  "u64 fset \<Rightarrow> int fset \<Rightarrow> string fset \<Rightarrow> DeviceSessionConfirmItem list \<Rightarrow> message_error option" where
  "confirm_items seen seenDevices seenOwners [] = None"
| "confirm_items seen seenDevices seenOwners (item # items) =
     (let ghost = ci_GhostSessionID item \<noteq> ''''; ownerKey = confirm_owner_key item
      in if ci_SessionID item = 0 \<or> ci_SessionEpoch item = 0 \<or> ci_ControlSessionID item = 0 \<or>
            ci_DeviceID item < 0 \<or> ci_OwnerID item \<le> 0 \<or> ci_SSID item = 0
         then Some (MessageError ''invalid device session confirmation identity'')
         else if ci_DeviceID item = 0 \<and>
            (\<not> ghost \<or> ci_DevModel item = 0 \<or> trim_space (ci_RecoveryTicket item) = '''' \<or>
             1024 < length (ci_RecoveryTicket item))
         then Some (MessageError ''invalid ghost session confirmation identity'')
         else if 0 < ci_DeviceID item \<and> (ghost \<or> ci_ClientInstanceID item \<noteq> '''' \<or> ci_RecoveryTicket item \<noteq> '''')
         then Some (MessageError ''physical session confirmation contains ghost identity'')
         else if ci_SessionID item |\<in>| seen
         then Some (MessageError ''duplicate device session confirmation identity'')
         else if 0 < ci_DeviceID item \<and> ci_DeviceID item |\<in>| seenDevices
         then Some (MessageError ''duplicate device in session confirmation batch'')
         else if ownerKey |\<in>| seenOwners
         then Some (MessageError ''duplicate owner identity in session confirmation batch'')
         else confirm_items (finsert (ci_SessionID item) seen)
                (if 0 < ci_DeviceID item then finsert (ci_DeviceID item) seenDevices else seenDevices)
                (finsert ownerKey seenOwners) items)"

definition ConfirmRequest_Validate :: "DeviceSessionConfirmRequest \<Rightarrow> message_error option" where
  "ConfirmRequest_Validate m =
     (if cq_RequestID m = 0 \<or> length (cq_Sessions m) = 0 \<or> MaxDeviceSessionConfirmBatch < length (cq_Sessions m)
      then Some (MessageError ''invalid device session confirmation batch'')
      else confirm_items {||} {||} {||} (cq_Sessions m))"

record DeviceSessionConfirmResult =
  cr_SessionID :: u64
  cr_SessionEpoch :: u64
  cr_Success :: bool
  cr_Error :: string
  cr_Grant :: "DeviceGrant option"

record DeviceSessionConfirmResponse =
  cs_RequestID :: u64
  cs_Results :: "DeviceSessionConfirmResult list"

fun confirm_results :: "u64 fset \<Rightarrow> DeviceSessionConfirmResult list \<Rightarrow> message_error option" where
  "confirm_results seen [] = None"
| "confirm_results seen (result # results) =
     (if cr_SessionID result = 0 \<or> cr_SessionEpoch result = 0 \<or> 128 < length (cr_Error result)
      then Some (MessageError ''invalid device session confirmation result'')
      else if cr_SessionID result |\<in>| seen
      then Some (MessageError ''duplicate device session confirmation result'')
      else if cr_Success result then
        (case cr_Grant result of
           None \<Rightarrow> Some (MessageError ''invalid successful device session confirmation'')
         | Some grant \<Rightarrow>
             if cr_Error result \<noteq> '''' \<or> gr_SessionID grant = 0 \<or> gr_SessionEpoch grant = 0 \<or> gr_ExpiresAtMillis grant \<le> 0
             then Some (MessageError ''invalid successful device session confirmation'')
             else if gr_GhostSessionID grant \<noteq> '''' \<and> trim_space (gr_RecoveryTicket grant) = ''''
             then Some (MessageError ''ghost session confirmation is missing its recovery ticket'')
             else confirm_results (finsert (cr_SessionID result) seen) results)
      else if cr_Grant result \<noteq> None
      then Some (MessageError ''failed device session confirmation contains a grant'')
      else confirm_results (finsert (cr_SessionID result) seen) results)"

definition ConfirmResponse_Validate :: "DeviceSessionConfirmResponse \<Rightarrow> message_error option" where
  "ConfirmResponse_Validate m =
     (if cs_RequestID m = 0 \<or> length (cs_Results m) = 0 \<or> MaxDeviceSessionConfirmBatch < length (cs_Results m)
      then Some (MessageError ''invalid device session confirmation response'')
      else confirm_results {||} (cs_Results m))"

subsection \<open>Speaker leases\<close>

abbreviation (input) SpeakerLeaseActionClaim :: string where "SpeakerLeaseActionClaim \<equiv> ''claim''"
abbreviation (input) SpeakerLeaseActionGrant :: string where "SpeakerLeaseActionGrant \<equiv> ''grant''"
abbreviation (input) SpeakerLeaseActionDeny :: string where "SpeakerLeaseActionDeny \<equiv> ''deny''"
abbreviation (input) SpeakerLeaseActionRelease :: string where "SpeakerLeaseActionRelease \<equiv> ''release''"

record SpeakerLeaseControl =
  sl_Action :: string
  sl_RequestID :: u64
  sl_SessionID :: u64
  sl_SessionEpoch :: u64
  sl_DomainID :: u64
  sl_LeaseID :: u64
  sl_TTLMillis :: int
  sl_RetryAfterMillis :: int

definition SpeakerLeaseControl_Validate :: "SpeakerLeaseControl \<Rightarrow> message_error option" where
  "SpeakerLeaseControl_Validate m =
     (if sl_SessionID m = 0 \<or> sl_SessionEpoch m = 0 \<or> sl_DomainID m = 0
      then Some (MessageError ''speaker lease identity is incomplete'')
      else if sl_Action m = SpeakerLeaseActionClaim then
        (if sl_RequestID m = 0 \<or> sl_TTLMillis m \<noteq> 0 \<or> sl_RetryAfterMillis m \<noteq> 0
         then Some (MessageError ''invalid speaker lease claim'') else None)
      else if sl_Action m = SpeakerLeaseActionGrant then
        (if sl_RequestID m = 0 \<or> sl_LeaseID m = 0 \<or> sl_TTLMillis m \<le> 0 \<or> sl_RetryAfterMillis m \<noteq> 0
         then Some (MessageError ''invalid speaker lease grant'') else None)
      else if sl_Action m = SpeakerLeaseActionDeny then
        (if sl_RequestID m = 0 \<or> sl_TTLMillis m \<noteq> 0 \<or> sl_RetryAfterMillis m < 0
         then Some (MessageError ''invalid speaker lease denial'') else None)
      else if sl_Action m = SpeakerLeaseActionRelease then
        (if sl_LeaseID m = 0 \<or> sl_TTLMillis m \<noteq> 0 \<or> sl_RetryAfterMillis m \<noteq> 0
         then Some (MessageError ''invalid speaker lease release'') else None)
      else Some (MessageError ''unknown speaker lease action''))"

subsection \<open>Device configuration\<close>

record DeviceConfigControl =
  dc_Kind :: string
  dc_SessionID :: u64
  dc_SessionEpoch :: u64
  dc_DeviceID :: int
  dc_Data :: bytes
  dc_Packet :: bytes
  dc_AckForMessageID :: u64
  dc_Success :: bool
  dc_Error :: string

definition DeviceConfigControl_Validate :: "DeviceConfigControl \<Rightarrow> message_error option" where
  "DeviceConfigControl_Validate m =
     (if dc_SessionID m = 0 \<or> dc_SessionEpoch m = 0 \<or> dc_DeviceID m \<le> 0
      then Some (MessageError ''device config session identity is incomplete'')
      else if 128 < length (dc_Error m) then Some (MessageError ''device config error is too long'')
      else if dc_Kind m = ''sync'' then
        (if length (dc_Data m) \<noteq> 0 \<or> length (dc_Packet m) \<noteq> 0 \<or> dc_AckForMessageID m \<noteq> 0
         then Some (MessageError ''invalid device config sync request'') else None)
      else if dc_Kind m = ''report'' then
        (if length (dc_Data m) = 0 \<or> 800 - DraARLHeaderSize < length (dc_Data m) \<or> length (dc_Packet m) \<noteq> 0 \<or>
            dc_AckForMessageID m \<noteq> 0
         then Some (MessageError ''invalid device config report'') else None)
      else if dc_Kind m = ''down'' then
        (if length (dc_Packet m) < DraARLHeaderSize \<or> 800 < length (dc_Packet m) \<or> length (dc_Data m) \<noteq> 0 \<or>
            dc_AckForMessageID m \<noteq> 0
         then Some (MessageError ''invalid device config delivery'') else None)
      else if dc_Kind m = ''result'' then
        (if dc_AckForMessageID m = 0 \<or> length (dc_Data m) \<noteq> 0 \<or> length (dc_Packet m) \<noteq> 0
         then Some (MessageError ''invalid device config result'') else None)
      else Some (MessageError ''unknown device config kind''))"

subsection \<open>Snapshot transfer\<close>

record SnapshotBegin =
  sb_SnapshotID :: u64
  sb_ClusterEpoch :: u64
  sb_ProjectionVersion :: u64
  sb_Chunks :: int
  sb_TotalBytes :: int
  sb_Checksum :: string

record SnapshotChunk =
  sc_SnapshotID :: u64
  sc_Index :: int
  sc_Data :: bytes

record SnapshotCommit =
  sm_SnapshotID :: u64

abbreviation (input) SnapshotRawChunkSize :: nat where "SnapshotRawChunkSize \<equiv> 32768"

definition chunk_count :: "nat \<Rightarrow> nat" where
  "chunk_count n =
     (let count = (n + SnapshotRawChunkSize - 1) div SnapshotRawChunkSize in if count = 0 then 1 else count)"

definition chunk_bytes :: "bytes \<Rightarrow> nat \<Rightarrow> bytes" where
  "chunk_bytes data i =
     (let start = i * SnapshotRawChunkSize; end = (i + 1) * SnapshotRawChunkSize;
          start = (if length data < start then length data else start);
          end = (if length data < end then length data else end)
      in slice data start end)"

definition SplitProjection ::
  "(Projection \<Rightarrow> bytes option) \<Rightarrow> u64 \<Rightarrow> Projection \<Rightarrow> (SnapshotBegin \<times> SnapshotChunk list) option" where
  "SplitProjection enc snapshotID p =
     (case enc p of
        None \<Rightarrow> None
      | Some data \<Rightarrow>
          let sum = sha256 data; count = chunk_count (length data);
              chunks = map (\<lambda>i. \<lparr>sc_SnapshotID = snapshotID, sc_Index = int i, sc_Data = chunk_bytes data i\<rparr>) [0..<count]
          in Some (\<lparr>sb_SnapshotID = snapshotID, sb_ClusterEpoch = prj_ClusterEpoch p,
                    sb_ProjectionVersion = prj_Version p, sb_Chunks = int count, sb_TotalBytes = int (length data),
                    sb_Checksum = hex_encode sum\<rparr>, chunks))"

record SnapshotAssembler =
  sa_Begin :: SnapshotBegin
  sa_chunks :: "(int, bytes) fmap"
  sa_receivedBytes :: int
  sa_startedAt :: time

definition NewSnapshotAssembler :: "time \<Rightarrow> SnapshotBegin \<Rightarrow> message_error + SnapshotAssembler" where
  "NewSnapshotAssembler clock begin =
     (if sb_SnapshotID begin = 0 \<or> sb_ClusterEpoch begin = 0 \<or> sb_TotalBytes begin < 0 \<or> 67108864 < sb_TotalBytes begin
      then Inl (MessageError ''invalid snapshot begin'')
      else
        let expectedChunks = int (chunk_count (nat (sb_TotalBytes begin)))
        in if length (sb_Checksum begin) \<noteq> 64 then Inl (MessageError ''invalid snapshot begin'')
           else if sb_Chunks begin \<noteq> expectedChunks \<or> \<not> list_all is_hex_digit (sb_Checksum begin)
           then Inl (MessageError ''invalid snapshot begin'')
           else Inr \<lparr>sa_Begin = begin, sa_chunks = fmempty, sa_receivedBytes = 0, sa_startedAt = clock\<rparr>)"

definition Assembler_Add :: "SnapshotAssembler \<Rightarrow> SnapshotChunk \<Rightarrow> SnapshotAssembler \<times> message_error option" where
  "Assembler_Add a chunk =
     (if sc_SnapshotID chunk \<noteq> sb_SnapshotID (sa_Begin a) \<or> sc_Index chunk < 0 \<or> sb_Chunks (sa_Begin a) \<le> sc_Index chunk
      then (a, Some (MessageError ''invalid snapshot chunk''))
      else
        let start = sc_Index chunk * int SnapshotRawChunkSize;
            remaining = sb_TotalBytes (sa_Begin a) - start;
            expectedBytes = (if remaining < int SnapshotRawChunkSize then remaining else int SnapshotRawChunkSize)
        in if expectedBytes < 0 \<or> int (length (sc_Data chunk)) \<noteq> expectedBytes
           then (a, Some (MessageError ''invalid snapshot chunk length''))
           else (case fmlookup (sa_chunks a) (sc_Index chunk) of
              Some existing \<Rightarrow>
                if existing \<noteq> sc_Data chunk
                then (a, Some (MessageError ''conflicting duplicate snapshot chunk'')) else (a, None)
            | None \<Rightarrow>
                if sb_TotalBytes (sa_Begin a) < sa_receivedBytes a + int (length (sc_Data chunk))
                then (a, Some (MessageError ''snapshot chunks exceed declared length''))
                else (a\<lparr>sa_chunks := fmupd (sc_Index chunk) (sc_Data chunk) (sa_chunks a),
                        sa_receivedBytes := sa_receivedBytes a + int (length (sc_Data chunk))\<rparr>, None)))"

definition assembled :: "SnapshotAssembler \<Rightarrow> bytes" where
  "assembled a =
     concat (map (\<lambda>i. case fmlookup (sa_chunks a) (int i) of None \<Rightarrow> [] | Some bs \<Rightarrow> bs)
       [0..<nat (sb_Chunks (sa_Begin a))])"

definition Assembler_Commit ::
  "(bytes \<Rightarrow> Projection option) \<Rightarrow> SnapshotAssembler \<Rightarrow> SnapshotCommit \<Rightarrow> message_error + Projection" where
  "Assembler_Commit dec a commit =
     (if sm_SnapshotID commit \<noteq> sb_SnapshotID (sa_Begin a) \<or> int (fcard (fmdom (sa_chunks a))) \<noteq> sb_Chunks (sa_Begin a) \<or>
         sa_receivedBytes a \<noteq> sb_TotalBytes (sa_Begin a)
      then Inl (MessageError ''snapshot is incomplete'')
      else
        let data = assembled a
        in if int (length data) \<noteq> sb_TotalBytes (sa_Begin a) then Inl (MessageError ''snapshot length mismatch'')
           else if hex_encode (sha256 data) \<noteq> sb_Checksum (sa_Begin a)
           then Inl (MessageError ''snapshot checksum mismatch'')
           else (case UnmarshalProjection dec data of
              None \<Rightarrow> Inl (MessageError ''invalid route projection'')
            | Some p \<Rightarrow>
                if prj_ClusterEpoch p \<noteq> sb_ClusterEpoch (sa_Begin a) \<or>
                   prj_Version p \<noteq> sb_ProjectionVersion (sa_Begin a)
                then Inl (MessageError ''snapshot metadata mismatch'') else Inr p))"

subsection \<open>Relay frames\<close>

abbreviation (input) relayHeaderSize :: nat where "relayHeaderSize \<equiv> 42"

record RelayFrame =
  rf_SessionID :: u64
  rf_SessionEpoch :: u64
  rf_DomainID :: u64
  rf_RequiredProjectionVersion :: u64
  rf_SpeakerLeaseID :: u64
  rf_InnerPacket :: bytes

definition MarshalBinary :: "RelayFrame \<Rightarrow> message_error + bytes" where
  "MarshalBinary f =
     (if rf_SessionID f = 0 \<or> rf_SessionEpoch f = 0 \<or> rf_DomainID f = 0
      then Inl (MessageError ''relay identity is incomplete'')
      else if length (rf_InnerPacket f) < DraARLHeaderSize \<or> 800 < length (rf_InnerPacket f)
      then Inl (MessageError ''invalid relay inner packet size'')
      else
        let out = replicate (relayHeaderSize + length (rf_InnerPacket f)) 0;
            out = go_copy out 0 8 (putUint64 (rf_SessionID f));
            out = go_copy out 8 16 (putUint64 (rf_SessionEpoch f));
            out = go_copy out 16 24 (putUint64 (rf_DomainID f));
            out = go_copy out 24 32 (putUint64 (rf_RequiredProjectionVersion f));
            out = go_copy out 32 40 (putUint64 (rf_SpeakerLeaseID f));
            out = go_copy out 40 42 (putUint16 (of_nat (length (rf_InnerPacket f))))
        in Inr (go_copy out 42 (length out) (rf_InnerPacket f)))"

definition UnmarshalRelayFrame :: "bytes \<Rightarrow> message_error + RelayFrame" where
  "UnmarshalRelayFrame data =
     (if length data < relayHeaderSize then Inl (MessageError ''relay frame too short'')
      else
        let n = unat (getUint16 (slice data 40 42))
        in if n < DraARLHeaderSize \<or> 800 < n \<or> relayHeaderSize + n \<noteq> length data
           then Inl (MessageError (''invalid relay inner length '' @ itoa (int n)))
           else
             let f = \<lparr>rf_SessionID = getUint64 (slice data 0 8), rf_SessionEpoch = getUint64 (slice data 8 16),
                      rf_DomainID = getUint64 (slice data 16 24),
                      rf_RequiredProjectionVersion = getUint64 (slice data 24 32),
                      rf_SpeakerLeaseID = getUint64 (slice data 32 40), rf_InnerPacket = []\<rparr>
             in if rf_SessionID f = 0 \<or> rf_SessionEpoch f = 0 \<or> rf_DomainID f = 0
                then Inl (MessageError ''relay identity is incomplete'')
                else Inr (f\<lparr>rf_InnerPacket := drop 42 data\<rparr>))"

subsection \<open>The relay frame codec\<close>

lemma relay_layout:
  assumes "MarshalBinary f = Inr out"
  shows "length out = 42 + length (rf_InnerPacket f)"
    and "slice out 0 8 = putUint64 (rf_SessionID f)" and "slice out 8 16 = putUint64 (rf_SessionEpoch f)"
    and "slice out 16 24 = putUint64 (rf_DomainID f)"
    and "slice out 24 32 = putUint64 (rf_RequiredProjectionVersion f)"
    and "slice out 32 40 = putUint64 (rf_SpeakerLeaseID f)"
    and "slice out 40 42 = putUint16 (of_nat (length (rf_InnerPacket f)))"
    and "drop 42 out = rf_InnerPacket f"
    and "90 \<le> length (rf_InnerPacket f)" and "length (rf_InnerPacket f) \<le> 800"
    and "rf_SessionID f \<noteq> 0" and "rf_SessionEpoch f \<noteq> 0" and "rf_DomainID f \<noteq> 0"
  using assms
  by (auto simp: MarshalBinary_def Let_def buffer_simps u16.length_enc u64.length_enc split: if_splits)

lemma UnmarshalRelayFrame_MarshalBinary:
  assumes "MarshalBinary f = Inr out"
  shows "UnmarshalRelayFrame out = Inr f"
proof -
  note layout = relay_layout [OF assms]
  have "unat (of_nat (length (rf_InnerPacket f)) :: u16) = length (rf_InnerPacket f)"
    using layout(10) by (simp add: unat_of_nat)
  with layout show ?thesis
    by (simp add: UnmarshalRelayFrame_def u16.dec_enc u64.dec_enc not_less)
qed

lemma relay_slices:
  assumes "42 \<le> length xs"
  shows "xs = slice xs 0 8 @ slice xs 8 16 @ slice xs 16 24 @ slice xs 24 32 @ slice xs 32 40 @ slice xs 40 42 @ drop 42 xs"
proof -
  have "xs = slice xs 0 42 @ drop 42 xs" by (simp add: slice_0)
  then show ?thesis by (simp add: slice_slice_append flip: append_assoc)
qed

lemma putUint64_getUint64: "length bs = 8 \<Longrightarrow> putUint64 (getUint64 bs) = bs"
  using be_get_less [of bs] be_put_get [of bs] by (simp add: be_defs unat_of_nat)

lemma MarshalBinary_UnmarshalRelayFrame:
  assumes "UnmarshalRelayFrame data = Inr f"
  shows "MarshalBinary f = Inr data"
proof -
  let ?n = "unat (getUint16 (slice data 40 42))"
  from assms have n: "90 \<le> ?n" "?n \<le> 800" "42 + ?n = length data"
    and id: "rf_SessionID f \<noteq> 0" "rf_SessionEpoch f \<noteq> 0" "rf_DomainID f \<noteq> 0"
    and f: "f = \<lparr>rf_SessionID = getUint64 (slice data 0 8), rf_SessionEpoch = getUint64 (slice data 8 16),
                 rf_DomainID = getUint64 (slice data 16 24),
                 rf_RequiredProjectionVersion = getUint64 (slice data 24 32),
                 rf_SpeakerLeaseID = getUint64 (slice data 32 40), rf_InnerPacket = drop 42 data\<rparr>"
    by (auto simp: UnmarshalRelayFrame_def Let_def split: if_splits)
  have "90 \<le> length (rf_InnerPacket f)" "length (rf_InnerPacket f) \<le> 800" using n by (simp_all add: f)
  with id obtain out where out: "MarshalBinary f = Inr out"
    by (simp add: MarshalBinary_def Let_def)
  note layout = relay_layout [OF out]
  have "(of_nat (length data - 42) :: u16) = getUint16 (slice data 40 42)"
    using n(3) by (metis add_diff_cancel_left' word_of_nat_eq_iff word_unat_eq_iff unat_of_nat of_nat_unat ucast_id)
  then have "out = data"
    using relay_slices [of out] relay_slices [of data] n layout
    by (simp add: f putUint64_getUint64 putUint16_getUint16)
  with out show ?thesis by simp
qed

subsection \<open>Reassembling a snapshot\<close>

lemma chunk_bytes_eq: "chunk_bytes data i = take SnapshotRawChunkSize (drop (i * SnapshotRawChunkSize) data)"
  by (auto simp: chunk_bytes_def Let_def slice_def min_def take_drop add.commute intro: arg_cong2 [where f = take])

lemma concat_chunks: "concat (map (chunk_bytes data) [0..<n]) = take (n * SnapshotRawChunkSize) data"
proof (induction n)
  case (Suc n)
  have "Suc n * SnapshotRawChunkSize = n * SnapshotRawChunkSize + SnapshotRawChunkSize" by simp
  with Suc show ?case by (simp only: take_add) (simp add: chunk_bytes_eq)
qed simp

lemma chunk_count_enough: "n \<le> chunk_count n * SnapshotRawChunkSize"
proof -
  have "n \<le> (n + 32767) div 32768 * 32768"
    using div_mult_mod_eq [of "n + 32767" 32768] mod_less_divisor [of 32768 "n + 32767"] by linarith
  then show ?thesis by (auto simp: chunk_count_def Let_def)
qed

lemma chunk_start_le: "i < chunk_count n \<Longrightarrow> i * SnapshotRawChunkSize \<le> n"
proof -
  assume "i < chunk_count n"
  then have "i \<le> (n + 32767) div 32768 - 1" by (auto simp: chunk_count_def Let_def split: if_splits)
  moreover have "(n + 32767) div 32768 * 32768 \<le> n + 32767" by (rule div_times_less_eq_dividend)
  ultimately show ?thesis by (cases "(n + 32767) div 32768") auto
qed

lemma concat_all_chunks: "concat (map (chunk_bytes data) [0..<chunk_count (length data)]) = data"
  using chunk_count_enough [of "length data"] by (simp add: concat_chunks)

lemma sum_chunk_lengths: "(\<Sum>i<chunk_count (length data). length (chunk_bytes data i)) = length data"
proof -
  have "(\<Sum>i<n. length (chunk_bytes data i)) = length (concat (map (chunk_bytes data) [0..<n]))" for n
    by (induction n) simp_all
  then show ?thesis by (simp add: concat_all_chunks)
qed

text \<open>The state of an assembler that holds the chunks of \<open>data\<close> with the indices in \<open>I\<close>.\<close>

definition holds_chunks :: "bytes \<Rightarrow> nat set \<Rightarrow> SnapshotAssembler \<Rightarrow> bool" where
  "holds_chunks data I a \<longleftrightarrow>
     I \<subseteq> {..<chunk_count (length data)} \<and>
     sb_Chunks (sa_Begin a) = int (chunk_count (length data)) \<and> sb_TotalBytes (sa_Begin a) = int (length data) \<and>
     (\<forall>i. fmlookup (sa_chunks a) i = (if 0 \<le> i \<and> nat i \<in> I then Some (chunk_bytes data (nat i)) else None)) \<and>
     sa_receivedBytes a = int (\<Sum>i\<in>I. length (chunk_bytes data i))"

lemma received_le:
  assumes "I \<subseteq> {..<chunk_count (length data)}"
  shows "(\<Sum>i\<in>I. length (chunk_bytes data i)) \<le> length data"
  using sum_mono2 [OF _ assms, of "\<lambda>i. length (chunk_bytes data i)"] by (simp add: sum_chunk_lengths)

lemma Assembler_Add_chunk:
  assumes a: "holds_chunks data I a" and i: "i < chunk_count (length data)"
    and c: "chunk = \<lparr>sc_SnapshotID = sb_SnapshotID (sa_Begin a), sc_Index = int i, sc_Data = chunk_bytes data i\<rparr>"
  shows "snd (Assembler_Add a chunk) = None" and "holds_chunks data (insert i I) (fst (Assembler_Add a chunk))"
    and "sa_Begin (fst (Assembler_Add a chunk)) = sa_Begin a"
proof -
  have len: "int (length (chunk_bytes data i)) =
      (if int (length data) - int i * 32768 < 32768 then int (length data) - int i * 32768 else 32768)"
    using chunk_start_le [OF i] by (auto simp: chunk_bytes_eq)
  have start: "0 \<le> int (length data) - int i * 32768" using chunk_start_le [OF i] by simp
  have I: "insert i I \<subseteq> {..<chunk_count (length data)}" "finite I"
    using a i by (auto simp: holds_chunks_def intro: finite_subset)
  have eq: "Assembler_Add a chunk =
    (if i \<in> I then a
     else a\<lparr>sa_chunks := fmupd (int i) (chunk_bytes data i) (sa_chunks a),
            sa_receivedBytes := sa_receivedBytes a + int (length (chunk_bytes data i))\<rparr>, None)"
  proof (cases "i \<in> I")
    case True
    then show ?thesis using a i len start by (auto simp: Assembler_Add_def c Let_def holds_chunks_def)
  next
    case False
    then have "int (\<Sum>i\<in>I. length (chunk_bytes data i)) + int (length (chunk_bytes data i)) \<le> int (length data)"
      using received_le [OF I(1)] I(2) by (simp del: of_nat_sum)
    then show ?thesis using False a i len start by (auto simp: Assembler_Add_def c Let_def holds_chunks_def)
  qed
  show "snd (Assembler_Add a chunk) = None" and "sa_Begin (fst (Assembler_Add a chunk)) = sa_Begin a"
    by (simp_all add: eq)
  show "holds_chunks data (insert i I) (fst (Assembler_Add a chunk))"
    using a I by (auto simp: eq holds_chunks_def insert_absorb)
qed

primrec add_all :: "SnapshotAssembler \<Rightarrow> SnapshotChunk list \<Rightarrow> SnapshotAssembler \<times> message_error option" where
  "add_all a [] = (a, None)"
| "add_all a (c # cs) = (case Assembler_Add a c of (a', Some e) \<Rightarrow> (a', Some e) | (a', None) \<Rightarrow> add_all a' cs)"

lemma add_all_chunks:
  assumes "holds_chunks data I a" and "set is \<subseteq> {..<chunk_count (length data)}" and "sid = sb_SnapshotID (sa_Begin a)"
  shows "\<exists>a'. add_all a (map (\<lambda>i. \<lparr>sc_SnapshotID = sid, sc_Index = int i, sc_Data = chunk_bytes data i\<rparr>) is) =
    (a', None) \<and> holds_chunks data (I \<union> set is) a' \<and> sa_Begin a' = sa_Begin a"
  using assms
proof (induction "is" arbitrary: a I)
  case (Cons i "is")
  let ?c = "\<lparr>sc_SnapshotID = sid, sc_Index = int i, sc_Data = chunk_bytes data i\<rparr>"
  have i: "i < chunk_count (length data)" using Cons.prems(2) by simp
  have c: "?c = \<lparr>sc_SnapshotID = sb_SnapshotID (sa_Begin a), sc_Index = int i, sc_Data = chunk_bytes data i\<rparr>"
    using Cons.prems(3) by simp
  note step = Assembler_Add_chunk [OF Cons.prems(1) i c]
  obtain a1 where a1: "Assembler_Add a ?c = (a1, None)" using step(1) by (metis prod.collapse)
  then have "holds_chunks data (insert i I) a1" "sa_Begin a1 = sa_Begin a" using step(2,3) by simp_all
  with Cons.IH [OF this(1)] Cons.prems(2,3) have "\<exists>a'. add_all a1 (map (\<lambda>i. \<lparr>sc_SnapshotID = sid,
      sc_Index = int i, sc_Data = chunk_bytes data i\<rparr>) is) = (a', None) \<and>
      holds_chunks data (insert i I \<union> set is) a' \<and> sa_Begin a' = sa_Begin a" by simp
  then show ?case by (simp add: a1)
qed simp

lemma Assembler_Commit_all:
  assumes a: "holds_chunks data {..<chunk_count (length data)} a"
    and "sm_SnapshotID commit = sb_SnapshotID (sa_Begin a)"
    and "sb_Checksum (sa_Begin a) = hex_encode (sha256 data)" and "UnmarshalProjection dec data = Some p"
    and "sb_ClusterEpoch (sa_Begin a) = prj_ClusterEpoch p" and "sb_ProjectionVersion (sa_Begin a) = prj_Version p"
  shows "Assembler_Commit dec a commit = Inr p"
proof -
  let ?n = "chunk_count (length data)"
  have "fset (fmdom (sa_chunks a)) = {0..<int ?n}"
    using a by (auto simp: holds_chunks_def fmlookup_dom_iff nat_less_iff split: if_splits)
  then have "fcard (fmdom (sa_chunks a)) = ?n"
    by (simp add: fcard.rep_eq)
  moreover have "assembled a = concat (map (chunk_bytes data) [0..<?n])"
    using a by (auto simp: assembled_def holds_chunks_def intro!: arg_cong [where f = concat])
  ultimately show ?thesis
    using assms by (simp add: Assembler_Commit_def holds_chunks_def concat_all_chunks sum_chunk_lengths Let_def)
qed

subsection \<open>Confirmation batches\<close>

definition confirm_item_ok :: "DeviceSessionConfirmItem \<Rightarrow> bool" where
  "confirm_item_ok item \<longleftrightarrow>
     ci_SessionID item \<noteq> 0 \<and> ci_SessionEpoch item \<noteq> 0 \<and> ci_ControlSessionID item \<noteq> 0 \<and>
     0 < ci_OwnerID item \<and> ci_SSID item \<noteq> 0 \<and>
     (ci_DeviceID item = 0 \<and> ci_GhostSessionID item \<noteq> '''' \<and> ci_DevModel item \<noteq> 0 \<and>
        trim_space (ci_RecoveryTicket item) \<noteq> '''' \<and> length (ci_RecoveryTicket item) \<le> 1024 \<or>
      0 < ci_DeviceID item \<and> ci_GhostSessionID item = '''' \<and> ci_ClientInstanceID item = '''' \<and>
        ci_RecoveryTicket item = '''')"

definition confirm_owner :: "DeviceSessionConfirmItem \<Rightarrow> int \<times> byte \<times> string" where
  "confirm_owner item = (ci_OwnerID item, ci_SSID item, ci_ClientInstanceID item)"

lemma uint_inject_byte: "uint (a :: byte) = uint b \<longleftrightarrow> a = b"
  by (simp add: word_uint_eq_iff)

lemma confirm_owner_key_inject: "confirm_owner_key a = confirm_owner_key b \<longleftrightarrow> confirm_owner a = confirm_owner b"
proof -
  have key: "confirm_owner_key i = itoa (ci_OwnerID i) @ CHR '':'' # itoa (uint (ci_SSID i)) @
      (if ci_ClientInstanceID i = '''' then '''' else CHR '':'' # ci_ClientInstanceID i)" for i
    by (simp add: confirm_owner_key_def Let_def)
  have tail: "itoa x @ (if s = '''' then '''' else CHR '':'' # s) = itoa y @ (if t = '''' then '''' else CHR '':'' # t)
      \<longleftrightarrow> x = y \<and> s = t" for x y s t
  proof -
    have no: "itoa x \<noteq> itoa y @ CHR '':'' # t" for x y t
      using colon_not_in_itoa [of x] by (metis in_set_conv_decomp)
    show ?thesis
      using append_sep_inject [OF colon_not_in_itoa colon_not_in_itoa, of x s y t] no [of x y t] no [of y x s]
      by (auto simp del: append_eq_append_conv)
  qed
  show ?thesis
    unfolding key append_sep_inject [OF colon_not_in_itoa colon_not_in_itoa] tail
    by (auto simp: confirm_owner_def uint_inject_byte)
qed

lemma confirm_items_None:
  "confirm_items seen seenDevices seenOwners items = None \<longleftrightarrow>
     list_all confirm_item_ok items \<and> distinct (map ci_SessionID items) \<and>
     distinct (filter (\<lambda>d. 0 < d) (map ci_DeviceID items)) \<and> distinct (map confirm_owner_key items) \<and>
     (\<forall>i\<in>set items. ci_SessionID i |\<notin>| seen \<and> (0 < ci_DeviceID i \<longrightarrow> ci_DeviceID i |\<notin>| seenDevices) \<and>
        confirm_owner_key i |\<notin>| seenOwners)"
proof (induction items arbitrary: seen seenDevices seenOwners)
  case (Cons item items)
  have step: "confirm_items seen seenDevices seenOwners (item # items) = None \<longleftrightarrow>
      confirm_item_ok item \<and> ci_SessionID item |\<notin>| seen \<and>
      (0 < ci_DeviceID item \<longrightarrow> ci_DeviceID item |\<notin>| seenDevices) \<and> confirm_owner_key item |\<notin>| seenOwners \<and>
      confirm_items (finsert (ci_SessionID item) seen)
        (if 0 < ci_DeviceID item then finsert (ci_DeviceID item) seenDevices else seenDevices)
        (finsert (confirm_owner_key item) seenOwners) items = None"
    by (auto simp: Let_def confirm_item_ok_def not_less)
  have outside: "x \<notin> f ` S \<longleftrightarrow> (\<forall>i\<in>S. f i \<noteq> x)" for x :: 'b and f :: "'a \<Rightarrow> 'b" and S by auto
  have ins: "(\<forall>i\<in>insert a S. Q i) \<longleftrightarrow> Q a \<and> (\<forall>i\<in>S. Q i)" for a :: 'a and S Q by simp
  show ?case
  proof (cases "0 < ci_DeviceID item")
    case True
    have "(\<forall>i\<in>set items. ci_SessionID i |\<notin>| finsert (ci_SessionID item) seen \<and>
        (0 < ci_DeviceID i \<longrightarrow> ci_DeviceID i |\<notin>| finsert (ci_DeviceID item) seenDevices) \<and>
        confirm_owner_key i |\<notin>| finsert (confirm_owner_key item) seenOwners) \<longleftrightarrow>
      ci_SessionID item \<notin> ci_SessionID ` set items \<and> ci_DeviceID item \<notin> ci_DeviceID ` set items \<and>
      confirm_owner_key item \<notin> confirm_owner_key ` set items \<and>
      (\<forall>i\<in>set items. ci_SessionID i |\<notin>| seen \<and> (0 < ci_DeviceID i \<longrightarrow> ci_DeviceID i |\<notin>| seenDevices) \<and>
        confirm_owner_key i |\<notin>| seenOwners)"
      unfolding outside using True by auto
    then show ?thesis unfolding step Cons.IH using True by (simp only: if_True list.pred_inject distinct.simps
      list.map filter.simps list.set ins set_map set_filter mem_Collect_eq simp_thms) argo
  next
    case False
    have "(\<forall>i\<in>set items. ci_SessionID i |\<notin>| finsert (ci_SessionID item) seen \<and>
        (0 < ci_DeviceID i \<longrightarrow> ci_DeviceID i |\<notin>| seenDevices) \<and>
        confirm_owner_key i |\<notin>| finsert (confirm_owner_key item) seenOwners) \<longleftrightarrow>
      ci_SessionID item \<notin> ci_SessionID ` set items \<and> confirm_owner_key item \<notin> confirm_owner_key ` set items \<and>
      (\<forall>i\<in>set items. ci_SessionID i |\<notin>| seen \<and> (0 < ci_DeviceID i \<longrightarrow> ci_DeviceID i |\<notin>| seenDevices) \<and>
        confirm_owner_key i |\<notin>| seenOwners)"
      unfolding outside by auto
    then show ?thesis unfolding step Cons.IH using False by (simp only: if_False list.pred_inject distinct.simps
      list.map filter.simps list.set ins set_map simp_thms) argo
  qed
qed simp

subsection \<open>Properties\<close>

text \<open>Relay frames have one encoding: marshalling a frame gives certain bytes exactly when those bytes
  unmarshal to the frame, so both directions round trip and no frame is accepted that a peer
  could not have sent.\<close>

theorem relay_frame_codec: "MarshalBinary f = Inr out \<longleftrightarrow> UnmarshalRelayFrame out = Inr f"
  using UnmarshalRelayFrame_MarshalBinary MarshalBinary_UnmarshalRelayFrame by blast

text \<open>C31: A projection survives the chunked transfer.  The chunks of a split snapshot may arrive in any
  order and any number of times: if all of them arrive, each is accepted and the commit
  returns the projection that was split.  The JSON text of the projection has at most 64 MiB, and
  the hypothesis on \<open>dec\<close> is that of the JSON codec, that decoding this text gives the projection back.\<close>

theorem snapshot_transfer:
  assumes "enc p = Some data" and "dec data = Some p" and "prj_ClusterEpoch p \<noteq> 0" and "prj_Devices p \<noteq> None"
    and "length data \<le> 67108864" and "snapshotID \<noteq> 0"
    and "SplitProjection enc snapshotID p = Some (start, chunks)" and "set received = set chunks"
  shows "\<exists>a a'. NewSnapshotAssembler clock start = Inr a \<and> add_all a received = (a', None) \<and>
    Assembler_Commit dec a' \<lparr>sm_SnapshotID = snapshotID\<rparr> = Inr p"
proof -
  let ?n = "chunk_count (length data)" and ?c = "\<lambda>i. \<lparr>sc_SnapshotID = snapshotID, sc_Index = int i, sc_Data = chunk_bytes data i\<rparr>"
  from assms(1,7) have start: "start = \<lparr>sb_SnapshotID = snapshotID, sb_ClusterEpoch = prj_ClusterEpoch p,
      sb_ProjectionVersion = prj_Version p, sb_Chunks = int ?n, sb_TotalBytes = int (length data),
      sb_Checksum = hex_encode (sha256 data)\<rparr>" and chunks: "set chunks = ?c ` {..<?n}"
    by (auto simp: SplitProjection_def Let_def)
  define a where "a = \<lparr>sa_Begin = start, sa_chunks = fmempty, sa_receivedBytes = 0, sa_startedAt = clock\<rparr>"
  have new: "NewSnapshotAssembler clock start = Inr a"
    using assms(3,5,6) hex_encode_digits [of "sha256 data"] by (simp add: NewSnapshotAssembler_def a_def start)
  have "set received \<subseteq> ?c ` {..<?n}" using assms(8) chunks by simp
  define "is" where "is = map (nat \<circ> sc_Index) received"
  have "?c (nat (sc_Index c)) = c \<and> nat (sc_Index c) < ?n" if "c \<in> set received" for c
    using that \<open>set received \<subseteq> ?c ` {..<?n}\<close> by auto
  then have r: "received = map ?c is" and "set is \<subseteq> {..<?n}"
    by (auto simp: is_def intro!: map_idI [symmetric])
  moreover have "{..<?n} \<subseteq> set is"
  proof
    fix i assume "i \<in> {..<?n}"
    then have "?c i \<in> set received" using assms(8) chunks by blast
    then show "i \<in> set is" by (auto simp: r)
  qed
  ultimately have all: "set is = {..<?n}" by blast
  have "holds_chunks data {} a" by (simp add: holds_chunks_def a_def start)
  from add_all_chunks [OF this, of "is" snapshotID] obtain a' where
    a': "add_all a received = (a', None)" "holds_chunks data {..<?n} a'" "sa_Begin a' = start"
    using all by (auto simp: r a_def start)
  have "Assembler_Commit dec a' \<lparr>sm_SnapshotID = snapshotID\<rparr> = Inr p"
    by (rule Assembler_Commit_all [OF a'(2)]) (use assms(2,3,4) in \<open>auto simp: a'(3) start UnmarshalProjection_def\<close>)
  with new a'(1) show ?thesis by blast
qed

theorem snapshot_transfer_witness:
  "\<exists>start chunks a a'. SplitProjection (\<lambda>_. Some [1, 2]) 4 (NewProjection 7) = Some (start, chunks) \<and>
     NewSnapshotAssembler 0 start = Inr a \<and> add_all a (chunks @ chunks) = (a', None) \<and>
     Assembler_Commit (\<lambda>_. Some (NewProjection 7)) a' \<lparr>sm_SnapshotID = 4\<rparr> = Inr (NewProjection 7)"
proof -
  have "\<exists>start chunks. SplitProjection (\<lambda>_. Some [1, 2]) 4 (NewProjection 7) = Some (start, chunks)"
    by (simp add: SplitProjection_def Let_def)
  then obtain start chunks where "SplitProjection (\<lambda>_. Some [1, 2]) 4 (NewProjection 7) = Some (start, chunks)" by blast
  with snapshot_transfer [of "\<lambda>_. Some [1, 2]" "NewProjection 7" "[1, 2]" "\<lambda>_. Some (NewProjection 7)" 4 start chunks
      "chunks @ chunks" 0]
  show ?thesis by (simp add: NewProjection_def)
qed

text \<open>A session confirmation batch is accepted exactly when it has a request ID, 1 to 128 items that are
  each well-formed, and no two items share a session, a physical device, or an owner identity
  (owner, SSID and client instance; the textual key the code compares never confuses two).\<close>

theorem confirm_batch_valid:
  "ConfirmRequest_Validate m = None \<longleftrightarrow>
     cq_RequestID m \<noteq> 0 \<and> cq_Sessions m \<noteq> [] \<and> length (cq_Sessions m) \<le> 128 \<and>
     list_all confirm_item_ok (cq_Sessions m) \<and> distinct (map ci_SessionID (cq_Sessions m)) \<and>
     distinct (filter (\<lambda>d. 0 < d) (map ci_DeviceID (cq_Sessions m))) \<and> distinct (map confirm_owner (cq_Sessions m))"
proof -
  have "distinct (map confirm_owner_key items) \<longleftrightarrow> distinct (map confirm_owner items)" for items
    by (simp add: distinct_map inj_on_def confirm_owner_key_inject)
  then show ?thesis by (auto simp: ConfirmRequest_Validate_def confirm_items_None not_less)
qed

end
