(* ===== verification/Rate_Contract.thy ===== *)
theory Rate_Contract
  imports Go_Base
begin

section \<open>The contract of a rate limiter\<close>

text \<open>
  Every limiter of the program charges accepted requests to the time slot (a second, a
  minute) of the request and forgets older slots.  The laws below speak about one budget;
  a limiter with several budgets satisfies them once for each.
\<close>

locale slot_budget =
  fixes step :: "'s \<Rightarrow> 'r \<Rightarrow> 's \<times> bool"
    and slot :: "'r \<Rightarrow> int"
    and cost :: "'r \<Rightarrow> int"
    and charged :: "'s \<Rightarrow> int \<Rightarrow> int"
    and limit :: int
    and ok :: "'s \<Rightarrow> bool"
  assumes ok_step: "ok s \<Longrightarrow> ok (fst (step s r))"
    and charged_step: "ok s \<Longrightarrow> \<forall>k>slot r. charged s k = 0 \<Longrightarrow> slot r \<le> k \<Longrightarrow>
      charged (fst (step s r)) k = charged s k + (if snd (step s r) \<and> slot r = k then cost r else 0)"
    and bounded: "ok s \<Longrightarrow> charged s k \<le> limit"
begin

definition spent :: "int \<Rightarrow> 's \<Rightarrow> 'r list \<Rightarrow> int" where
  "spent k s rs = sum_list (map cost (filter (\<lambda>r. slot r = k) (taken rs (snd (accept_all step s rs)))))"

lemma spent_Nil [simp]: "spent k s [] = 0"
  by (simp add: spent_def taken_def)

lemma spent_Cons:
  "spent k s (r # rs) = (if snd (step s r) \<and> slot r = k then cost r else 0) + spent k (fst (step s r)) rs"
  by (simp add: spent_def taken_def split_beta Let_def)

lemma spent_later: "\<forall>r\<in>set rs. k < slot r \<Longrightarrow> spent k s rs = 0"
  by (induction rs arbitrary: s) (simp_all add: spent_Cons)

lemma spent_charged:
  assumes "ok s" and "sorted (map slot rs)" and "rs \<noteq> [] \<longrightarrow> (\<forall>k>slot (hd rs). charged s k = 0)"
  shows "spent k s rs + charged s k \<le> limit"
  using assms
proof (induction rs arbitrary: s)
  case (Cons r rs)
  show ?case
  proof (cases "slot r \<le> k")
    case True
    have "\<forall>j>slot r'. charged (fst (step s r)) j = 0" if "r' \<in> set rs" for r'
      using Cons.prems that charged_step [OF Cons.prems(1), of r] by fastforce
    then have "rs \<noteq> [] \<longrightarrow> (\<forall>j>slot (hd rs). charged (fst (step s r)) j = 0)"
      using hd_in_set by blast
    then have "spent k (fst (step s r)) rs + charged (fst (step s r)) k \<le> limit"
      using Cons.prems by (intro Cons.IH) (auto intro: ok_step)
    then show ?thesis using Cons.prems True charged_step [OF Cons.prems(1) _ True]
      by (simp add: spent_Cons split: if_splits)
  next
    case False
    then have "spent k (fst (step s r)) rs = 0" using Cons.prems(2) by (intro spent_later) auto
    with False show ?thesis using bounded [OF Cons.prems(1)] by (simp add: spent_Cons)
  qed
qed (simp add: bounded)

lemma budget_kept:
  assumes "ok s" and "\<And>k. charged s k = 0" and "sorted (map slot rs)"
  shows "sum_list (map cost (filter (\<lambda>r. slot r = k) (taken rs (snd (accept_all step s rs))))) \<le> limit"
  using spent_charged [of s rs k] assms by (simp add: spent_def)

end

end
