(* ===== verification/Resource_Guard.thy ===== *)
theory Resource_Guard
  imports Rate_Contract
begin

section \<open>Per-node resource protection (\<open>internal/interconnect/resource_guard.go\<close>, \<open>metrics.go\<close>)\<close>

text \<open>
  The limits of an authenticated node, the per-second windows that enforce them, the data
  queue reservation and the counters.  The methods are modelled on a receiver that is not
  nil.  \<^verbatim>\<open>runtime.GOMAXPROCS(0)\<close> is an argument.  A method that holds the mutex or works
  on one atomic is one step; the retry loop of \<open>reserveQueue\<close> has no other effect than its
  last round.
\<close>

subsection \<open>Limits\<close>

record ResourceLimits =
  MaxNodes :: int
  MaxPendingHandshakes :: int
  AuthAttemptsPerMinutePerIP :: int
  DataSoftPPSPerNode :: int
  DataHardPPSPerNode :: int
  DataHardMbpsPerNode :: int
  DataQueuePerNode :: int
  DataQueueGlobal :: int
  DataWorkers :: int
  DataMaxQueueAge :: duration
  ControlSoftPPSPerNode :: int
  ControlHardPPSPerNode :: int
  ControlHardMbpsPerNode :: int
  DeviceAuthPPSPerNode :: int
  MaxDeviceSessionsPerNode :: int

definition zero_limits :: ResourceLimits where
  "zero_limits =
     \<lparr>MaxNodes = 0, MaxPendingHandshakes = 0, AuthAttemptsPerMinutePerIP = 0, DataSoftPPSPerNode = 0,
      DataHardPPSPerNode = 0, DataHardMbpsPerNode = 0, DataQueuePerNode = 0, DataQueueGlobal = 0, DataWorkers = 0,
      DataMaxQueueAge = 0, ControlSoftPPSPerNode = 0, ControlHardPPSPerNode = 0, ControlHardMbpsPerNode = 0,
      DeviceAuthPPSPerNode = 0, MaxDeviceSessionsPerNode = 0\<rparr>"

datatype limits_error =
    MaxNodesRange | MaxPendingHandshakesRange | AuthAttemptsRange | DataPPSInvalid | DataMbpsRange
  | DataQueueInvalid | DataWorkersRange | DataMaxQueueAgeRange | ControlPPSInvalid | ControlMbpsRange
  | DeviceAuthRange | MaxDeviceSessionsRange

definition or_default :: "int \<Rightarrow> int \<Rightarrow> int" where
  "or_default d v = (if v = 0 then d else v)"

definition with_defaults :: "int \<Rightarrow> ResourceLimits \<Rightarrow> ResourceLimits" where
  "with_defaults gomaxprocs l =
     \<lparr>MaxNodes = or_default 256 (MaxNodes l),
      MaxPendingHandshakes = or_default 64 (MaxPendingHandshakes l),
      AuthAttemptsPerMinutePerIP = or_default 30 (AuthAttemptsPerMinutePerIP l),
      DataSoftPPSPerNode = or_default 50000 (DataSoftPPSPerNode l),
      DataHardPPSPerNode = or_default 100000 (DataHardPPSPerNode l),
      DataHardMbpsPerNode = or_default 1000 (DataHardMbpsPerNode l),
      DataQueuePerNode = or_default 512 (DataQueuePerNode l),
      DataQueueGlobal = or_default 4096 (DataQueueGlobal l),
      DataWorkers =
        (if DataWorkers l = 0
         then (let w = (if gomaxprocs < 2 then 2 else gomaxprocs) in if 16 < w then 16 else w)
         else DataWorkers l),
      DataMaxQueueAge = or_default (millis 200) (DataMaxQueueAge l),
      ControlSoftPPSPerNode = or_default 1000 (ControlSoftPPSPerNode l),
      ControlHardPPSPerNode = or_default 2000 (ControlHardPPSPerNode l),
      ControlHardMbpsPerNode = or_default 256 (ControlHardMbpsPerNode l),
      DeviceAuthPPSPerNode = or_default 500 (DeviceAuthPPSPerNode l),
      MaxDeviceSessionsPerNode = or_default 25000 (MaxDeviceSessionsPerNode l)\<rparr>"

definition check_limits :: "ResourceLimits \<Rightarrow> limits_error option" where
  "check_limits l =
     (if MaxNodes l < 1 \<or> 1000000 < MaxNodes l then Some MaxNodesRange
      else if MaxPendingHandshakes l < 1 \<or> 4096 < MaxPendingHandshakes l then Some MaxPendingHandshakesRange
      else if AuthAttemptsPerMinutePerIP l < 1 \<or> 10000000 < AuthAttemptsPerMinutePerIP l then Some AuthAttemptsRange
      else if DataSoftPPSPerNode l < 1 \<or> DataHardPPSPerNode l < DataSoftPPSPerNode l \<or> 10000000 < DataHardPPSPerNode l
      then Some DataPPSInvalid
      else if DataHardMbpsPerNode l < 1 \<or> 100000 < DataHardMbpsPerNode l then Some DataMbpsRange
      else if DataQueueGlobal l < 1 \<or> 65536 < DataQueueGlobal l \<or> DataQueuePerNode l < 1 \<or>
              DataQueueGlobal l < DataQueuePerNode l then Some DataQueueInvalid
      else if DataWorkers l < 1 \<or> 64 < DataWorkers l then Some DataWorkersRange
      else if DataMaxQueueAge l < millis 1 \<or> seconds 10 < DataMaxQueueAge l then Some DataMaxQueueAgeRange
      else if ControlSoftPPSPerNode l < 1 \<or> ControlHardPPSPerNode l < ControlSoftPPSPerNode l \<or>
              10000000 < ControlHardPPSPerNode l then Some ControlPPSInvalid
      else if ControlHardMbpsPerNode l < 1 \<or> 100000 < ControlHardMbpsPerNode l then Some ControlMbpsRange
      else if DeviceAuthPPSPerNode l < 1 \<or> ControlHardPPSPerNode l < DeviceAuthPPSPerNode l then Some DeviceAuthRange
      else if MaxDeviceSessionsPerNode l < 1 \<or> 1000000 < MaxDeviceSessionsPerNode l then Some MaxDeviceSessionsRange
      else None)"

definition normalized :: "int \<Rightarrow> ResourceLimits \<Rightarrow> ResourceLimits \<times> limits_error option" where
  "normalized gomaxprocs limits =
     (let limits = with_defaults gomaxprocs limits in (limits, check_limits limits))"

definition DefaultResourceLimits :: "int \<Rightarrow> ResourceLimits" where
  "DefaultResourceLimits gomaxprocs = fst (normalized gomaxprocs zero_limits)"

definition megabitsPerSecondBytes :: "int \<Rightarrow> int" where
  "megabitsPerSecondBytes value = value * 1000000 div 8"

subsection \<open>Protection state\<close>

record nodeResourceWindow =
  win_second :: int
  win_dataPackets :: int
  win_dataBytes :: int
  win_controlPackets :: int
  win_controlBytes :: int
  win_deviceAuthRequests :: int
  win_dataSoftReported :: bool
  win_controlSoftReported :: bool

definition new_window :: "int \<Rightarrow> nodeResourceWindow" where
  "new_window second =
     \<lparr>win_second = second, win_dataPackets = 0, win_dataBytes = 0, win_controlPackets = 0, win_controlBytes = 0,
      win_deviceAuthRequests = 0, win_dataSoftReported = False, win_controlSoftReported = False\<rparr>"

record nodeProtection =
  np_limits :: ResourceLimits
  np_window :: nodeResourceWindow
  np_queued :: int
  np_dataSoftLimitEvents :: u64
  np_dataHardLimitDrops :: u64
  np_dataQueueDrops :: u64
  np_dataStaleDrops :: u64
  np_controlSoftLimitEvents :: u64
  np_controlHardLimitDrops :: u64
  np_deviceAuthLimitDrops :: u64
  np_sessionLimitRejects :: u64
  np_invalidAuthTags :: u64
  np_identityRejects :: u64
  np_expiredDrops :: u64
  np_replayDrops :: u64
  np_unboundAddressDrops :: u64
  np_dataBindRejects :: u64

definition newNodeProtection :: "int \<Rightarrow> ResourceLimits \<Rightarrow> nodeProtection" where
  "newNodeProtection gomaxprocs limits =
     (let l = (case normalized gomaxprocs limits of
                 (l, None) \<Rightarrow> l | (_, Some _) \<Rightarrow> DefaultResourceLimits gomaxprocs)
      in \<lparr>np_limits = l, np_window = new_window 0, np_queued = 0, np_dataSoftLimitEvents = 0, np_dataHardLimitDrops = 0,
          np_dataQueueDrops = 0, np_dataStaleDrops = 0, np_controlSoftLimitEvents = 0, np_controlHardLimitDrops = 0,
          np_deviceAuthLimitDrops = 0, np_sessionLimitRejects = 0, np_invalidAuthTags = 0, np_identityRejects = 0,
          np_expiredDrops = 0, np_replayDrops = 0, np_unboundAddressDrops = 0, np_dataBindRejects = 0\<rparr>)"

definition resetWindowLocked :: "nodeProtection \<Rightarrow> time \<Rightarrow> nodeProtection" where
  "resetWindowLocked p now =
     (let second = unix now
      in if win_second (np_window p) = second then p else p\<lparr>np_window := new_window second\<rparr>)"

definition allowData :: "nodeProtection \<Rightarrow> int \<Rightarrow> time \<Rightarrow> nodeProtection \<times> bool" where
  "allowData p size' now =
     (if size' < 0 then (p, False)
      else
        let p = resetWindowLocked p now;
            nextPackets = win_dataPackets (np_window p) + 1;
            nextBytes = win_dataBytes (np_window p) + size'
        in if DataHardPPSPerNode (np_limits p) < nextPackets \<or>
              megabitsPerSecondBytes (DataHardMbpsPerNode (np_limits p)) < nextBytes
           then (p\<lparr>np_dataHardLimitDrops := np_dataHardLimitDrops p + 1\<rparr>, False)
           else
             let w = (np_window p)\<lparr>win_dataPackets := nextPackets, win_dataBytes := nextBytes\<rparr>;
                 soft = DataSoftPPSPerNode (np_limits p) < nextPackets \<and> \<not> win_dataSoftReported w;
                 w = (if soft then w\<lparr>win_dataSoftReported := True\<rparr> else w);
                 p = p\<lparr>np_window := w\<rparr>
             in (if soft then p\<lparr>np_dataSoftLimitEvents := np_dataSoftLimitEvents p + 1\<rparr> else p, True))"

definition allowControl :: "nodeProtection \<Rightarrow> int \<Rightarrow> time \<Rightarrow> nodeProtection \<times> bool" where
  "allowControl p size' now =
     (if size' < 0 then (p, False)
      else
        let p = resetWindowLocked p now;
            nextPackets = win_controlPackets (np_window p) + 1;
            nextBytes = win_controlBytes (np_window p) + size'
        in if ControlHardPPSPerNode (np_limits p) < nextPackets \<or>
              megabitsPerSecondBytes (ControlHardMbpsPerNode (np_limits p)) < nextBytes
           then (p\<lparr>np_controlHardLimitDrops := np_controlHardLimitDrops p + 1\<rparr>, False)
           else
             let w = (np_window p)\<lparr>win_controlPackets := nextPackets, win_controlBytes := nextBytes\<rparr>;
                 soft = ControlSoftPPSPerNode (np_limits p) < nextPackets \<and> \<not> win_controlSoftReported w;
                 w = (if soft then w\<lparr>win_controlSoftReported := True\<rparr> else w);
                 p = p\<lparr>np_window := w\<rparr>
             in (if soft then p\<lparr>np_controlSoftLimitEvents := np_controlSoftLimitEvents p + 1\<rparr> else p, True))"

definition allowDeviceAuth :: "nodeProtection \<Rightarrow> time \<Rightarrow> nodeProtection \<times> bool" where
  "allowDeviceAuth p now =
     (let p = resetWindowLocked p now
      in if DeviceAuthPPSPerNode (np_limits p) \<le> win_deviceAuthRequests (np_window p)
         then (p\<lparr>np_deviceAuthLimitDrops := np_deviceAuthLimitDrops p + 1\<rparr>, False)
         else (p\<lparr>np_window := (np_window p)\<lparr>win_deviceAuthRequests := win_deviceAuthRequests (np_window p) + 1\<rparr>\<rparr>, True))"

definition reserveQueue :: "nodeProtection \<Rightarrow> nodeProtection \<times> bool" where
  "reserveQueue p =
     (let queued = np_queued p
      in if DataQueuePerNode (np_limits p) \<le> queued then (p\<lparr>np_dataQueueDrops := np_dataQueueDrops p + 1\<rparr>, False)
         else (p\<lparr>np_queued := queued + 1\<rparr>, True))"

definition releaseQueue :: "nodeProtection \<Rightarrow> nodeProtection" where
  "releaseQueue p = p\<lparr>np_queued := np_queued p - 1\<rparr>"

definition recordQueueDrop :: "nodeProtection \<Rightarrow> nodeProtection" where
  "recordQueueDrop p = p\<lparr>np_dataQueueDrops := np_dataQueueDrops p + 1\<rparr>"

definition recordStaleDrop :: "nodeProtection \<Rightarrow> nodeProtection" where
  "recordStaleDrop p = p\<lparr>np_dataStaleDrops := np_dataStaleDrops p + 1\<rparr>"

definition recordSessionLimitReject :: "nodeProtection \<Rightarrow> nodeProtection" where
  "recordSessionLimitReject p = p\<lparr>np_sessionLimitRejects := np_sessionLimitRejects p + 1\<rparr>"

definition recordInvalidAuthTag :: "nodeProtection \<Rightarrow> nodeProtection" where
  "recordInvalidAuthTag p = p\<lparr>np_invalidAuthTags := np_invalidAuthTags p + 1\<rparr>"

definition recordIdentityReject :: "nodeProtection \<Rightarrow> nodeProtection" where
  "recordIdentityReject p = p\<lparr>np_identityRejects := np_identityRejects p + 1\<rparr>"

definition recordExpiredDrop :: "nodeProtection \<Rightarrow> nodeProtection" where
  "recordExpiredDrop p = p\<lparr>np_expiredDrops := np_expiredDrops p + 1\<rparr>"

definition recordReplayDrop :: "nodeProtection \<Rightarrow> nodeProtection" where
  "recordReplayDrop p = p\<lparr>np_replayDrops := np_replayDrops p + 1\<rparr>"

definition recordUnboundAddressDrop :: "nodeProtection \<Rightarrow> nodeProtection" where
  "recordUnboundAddressDrop p = p\<lparr>np_unboundAddressDrops := np_unboundAddressDrops p + 1\<rparr>"

definition recordDataBindReject :: "nodeProtection \<Rightarrow> nodeProtection" where
  "recordDataBindReject p = p\<lparr>np_dataBindRejects := np_dataBindRejects p + 1\<rparr>"

record NodeProtectionSnapshot =
  nps_DataSoftLimitEvents :: u64
  nps_DataHardLimitDrops :: u64
  nps_DataQueueDrops :: u64
  nps_DataStaleDrops :: u64
  nps_ControlSoftLimitEvents :: u64
  nps_ControlHardLimitDrops :: u64
  nps_DeviceAuthLimitDrops :: u64
  nps_SessionLimitRejects :: u64
  nps_InvalidAuthTags :: u64
  nps_IdentityRejects :: u64
  nps_ExpiredDrops :: u64
  nps_ReplayDrops :: u64
  nps_UnboundAddressDrops :: u64
  nps_DataBindRejects :: u64
  nps_QueuedData :: int

definition snapshot :: "nodeProtection \<Rightarrow> NodeProtectionSnapshot" where
  "snapshot p =
     \<lparr>nps_DataSoftLimitEvents = np_dataSoftLimitEvents p, nps_DataHardLimitDrops = np_dataHardLimitDrops p,
      nps_DataQueueDrops = np_dataQueueDrops p, nps_DataStaleDrops = np_dataStaleDrops p,
      nps_ControlSoftLimitEvents = np_controlSoftLimitEvents p, nps_ControlHardLimitDrops = np_controlHardLimitDrops p,
      nps_DeviceAuthLimitDrops = np_deviceAuthLimitDrops p, nps_SessionLimitRejects = np_sessionLimitRejects p,
      nps_InvalidAuthTags = np_invalidAuthTags p, nps_IdentityRejects = np_identityRejects p,
      nps_ExpiredDrops = np_expiredDrops p, nps_ReplayDrops = np_replayDrops p,
      nps_UnboundAddressDrops = np_unboundAddressDrops p, nps_DataBindRejects = np_dataBindRejects p,
      nps_QueuedData = np_queued p\<rparr>"

subsection \<open>Traffic counters\<close>

record Metrics =
  inPackets :: u64
  inBytes :: u64
  outPackets :: u64
  outBytes :: u64
  drops :: u64
  errors :: u64

definition zero_metrics :: Metrics where
  "zero_metrics = \<lparr>inPackets = 0, inBytes = 0, outPackets = 0, outBytes = 0, drops = 0, errors = 0\<rparr>"

definition AddIn :: "Metrics \<Rightarrow> int \<Rightarrow> Metrics" where
  "AddIn m n = (if 0 \<le> n then m\<lparr>inPackets := inPackets m + 1, inBytes := inBytes m + of_int n\<rparr> else m)"

definition AddOut :: "Metrics \<Rightarrow> int \<Rightarrow> Metrics" where
  "AddOut m n = (if 0 \<le> n then m\<lparr>outPackets := outPackets m + 1, outBytes := outBytes m + of_int n\<rparr> else m)"

definition AddOutBulk :: "Metrics \<Rightarrow> u64 \<Rightarrow> u64 \<Rightarrow> Metrics" where
  "AddOutBulk m packets bytes =
     (if packets = 0 then m else m\<lparr>outPackets := outPackets m + packets, outBytes := outBytes m + bytes\<rparr>)"

definition AddErrorBulk :: "Metrics \<Rightarrow> u64 \<Rightarrow> Metrics" where
  "AddErrorBulk m count = (if 0 < count then m\<lparr>errors := errors m + count\<rparr> else m)"

definition AddDropBulk :: "Metrics \<Rightarrow> u64 \<Rightarrow> Metrics" where
  "AddDropBulk m count = (if 0 < count then m\<lparr>drops := drops m + count\<rparr> else m)"

definition AddDrop :: "Metrics \<Rightarrow> Metrics" where
  "AddDrop m = m\<lparr>drops := drops m + 1\<rparr>"

definition AddError :: "Metrics \<Rightarrow> Metrics" where
  "AddError m = m\<lparr>errors := errors m + 1\<rparr>"

text \<open>A \<open>MetricsSnapshot\<close> has the fields of the counters.\<close>

definition add_snapshot :: "Metrics \<Rightarrow> Metrics \<Rightarrow> Metrics" where
  "add_snapshot acc value =
     \<lparr>inPackets = inPackets acc + inPackets value, inBytes = inBytes acc + inBytes value,
      outPackets = outPackets acc + outPackets value, outBytes = outBytes acc + outBytes value,
      drops = drops acc + drops value, errors = errors acc + errors value\<rparr>"

definition AddMetricsSnapshots :: "Metrics list \<Rightarrow> Metrics" where
  "AddMetricsSnapshots values = foldl add_snapshot zero_metrics values"

subsection \<open>The limits that normalization accepts\<close>

lemma check_limits_None:
  assumes "check_limits l = None"
  shows "1 \<le> DataSoftPPSPerNode l" and "DataSoftPPSPerNode l \<le> DataHardPPSPerNode l"
    and "DataHardPPSPerNode l \<le> 10000000" and "1 \<le> DataHardMbpsPerNode l" and "DataHardMbpsPerNode l \<le> 100000"
    and "1 \<le> DataQueuePerNode l" and "DataQueuePerNode l \<le> DataQueueGlobal l" and "DataQueueGlobal l \<le> 65536"
    and "1 \<le> ControlSoftPPSPerNode l" and "ControlSoftPPSPerNode l \<le> ControlHardPPSPerNode l"
    and "ControlHardPPSPerNode l \<le> 10000000" and "1 \<le> ControlHardMbpsPerNode l"
    and "ControlHardMbpsPerNode l \<le> 100000" and "1 \<le> DeviceAuthPPSPerNode l"
    and "DeviceAuthPPSPerNode l \<le> ControlHardPPSPerNode l" and "1 \<le> DataWorkers l"
    and "0 < DataMaxQueueAge l"
  using assms by (simp_all add: check_limits_def split: if_splits)

lemma check_default: "check_limits (DefaultResourceLimits gomaxprocs) = None"
  by (auto simp: DefaultResourceLimits_def normalized_def Let_def with_defaults_def zero_limits_def
      or_default_def check_limits_def)

lemma check_newNodeProtection: "check_limits (np_limits (newNodeProtection gomaxprocs limits)) = None"
  by (auto simp: newNodeProtection_def normalized_def Let_def check_default split: option.splits)

subsection \<open>The budgets of a node\<close>

datatype guard_request = DataRequest int time | ControlRequest int time | DeviceAuthRequest time

definition guard_step :: "nodeProtection \<Rightarrow> guard_request \<Rightarrow> nodeProtection \<times> bool" where
  "guard_step p r =
     (case r of
        DataRequest size' now \<Rightarrow> allowData p size' now
      | ControlRequest size' now \<Rightarrow> allowControl p size' now
      | DeviceAuthRequest now \<Rightarrow> allowDeviceAuth p now)"

definition guard_second :: "guard_request \<Rightarrow> int" where
  "guard_second r = unix (case r of DataRequest _ now \<Rightarrow> now | ControlRequest _ now \<Rightarrow> now | DeviceAuthRequest now \<Rightarrow> now)"

definition data_packet :: "guard_request \<Rightarrow> int" where
  "data_packet r = (case r of DataRequest _ _ \<Rightarrow> 1 | _ \<Rightarrow> 0)"

definition data_size :: "guard_request \<Rightarrow> int" where
  "data_size r = (case r of DataRequest size' _ \<Rightarrow> size' | _ \<Rightarrow> 0)"

definition control_packet :: "guard_request \<Rightarrow> int" where
  "control_packet r = (case r of ControlRequest _ _ \<Rightarrow> 1 | _ \<Rightarrow> 0)"

definition control_size :: "guard_request \<Rightarrow> int" where
  "control_size r = (case r of ControlRequest size' _ \<Rightarrow> size' | _ \<Rightarrow> 0)"

definition device_auth :: "guard_request \<Rightarrow> int" where
  "device_auth r = (case r of DeviceAuthRequest _ \<Rightarrow> 1 | _ \<Rightarrow> 0)"

definition in_window :: "(nodeResourceWindow \<Rightarrow> int) \<Rightarrow> nodeProtection \<Rightarrow> int \<Rightarrow> int" where
  "in_window f p k = (if win_second (np_window p) = k then f (np_window p) else 0)"

definition within_limits :: "ResourceLimits \<Rightarrow> nodeProtection \<Rightarrow> bool" where
  "within_limits l p \<longleftrightarrow> np_limits p = l \<and> check_limits l = None \<and>
     win_dataPackets (np_window p) \<le> DataHardPPSPerNode l \<and>
     win_dataBytes (np_window p) \<le> megabitsPerSecondBytes (DataHardMbpsPerNode l) \<and>
     win_controlPackets (np_window p) \<le> ControlHardPPSPerNode l \<and>
     win_controlBytes (np_window p) \<le> megabitsPerSecondBytes (ControlHardMbpsPerNode l) \<and>
     win_deviceAuthRequests (np_window p) \<le> DeviceAuthPPSPerNode l"

lemma megabits_nonneg: "1 \<le> v \<Longrightarrow> 0 \<le> megabitsPerSecondBytes v"
  by (simp add: megabitsPerSecondBytes_def)

lemma limits_pos:
  assumes "check_limits l = None"
  shows "0 \<le> DataHardPPSPerNode l" and "0 \<le> megabitsPerSecondBytes (DataHardMbpsPerNode l)"
    and "0 \<le> ControlHardPPSPerNode l" and "0 \<le> megabitsPerSecondBytes (ControlHardMbpsPerNode l)"
    and "0 \<le> DeviceAuthPPSPerNode l"
  using check_limits_None [OF assms] by (simp_all add: megabits_nonneg)

lemmas guard_defs = guard_step_def allowData_def allowControl_def allowDeviceAuth_def resetWindowLocked_def
  new_window_def Let_def

lemma within_limits_step: "within_limits l p \<Longrightarrow> within_limits l (fst (guard_step p r))"
  using limits_pos [of l]
  by (cases r) (auto simp: within_limits_def guard_defs)

text \<open>The window a request is charged to, and what the request does to it.\<close>

definition current_window :: "nodeProtection \<Rightarrow> guard_request \<Rightarrow> nodeResourceWindow" where
  "current_window p r =
     (if win_second (np_window p) = guard_second r then np_window p else new_window (guard_second r))"

lemma guard_accept:
  assumes "snd (guard_step p r)"
  defines "w \<equiv> np_window (fst (guard_step p r))" and "w0 \<equiv> current_window p r"
  shows "win_second w = guard_second r"
    and "win_dataPackets w = win_dataPackets w0 + data_packet r" and "win_dataBytes w = win_dataBytes w0 + data_size r"
    and "win_controlPackets w = win_controlPackets w0 + control_packet r"
    and "win_controlBytes w = win_controlBytes w0 + control_size r"
    and "win_deviceAuthRequests w = win_deviceAuthRequests w0 + device_auth r"
  using assms(1) unfolding w_def w0_def
  by (cases r; auto simp: guard_defs guard_second_def current_window_def data_packet_def data_size_def
      control_packet_def control_size_def device_auth_def split: if_splits)+

lemma guard_reject:
  "\<not> snd (guard_step p r) \<Longrightarrow>
     np_window (fst (guard_step p r)) = np_window p \<or> np_window (fst (guard_step p r)) = current_window p r"
  by (cases r) (auto simp: guard_defs guard_second_def current_window_def split: if_splits)

lemma in_window_step:
  fixes p :: nodeProtection and r :: guard_request
  assumes "\<forall>k>guard_second r. in_window f p k = 0" and "guard_second r \<le> k"
    and f: "(f, cost) \<in> {(win_dataPackets, data_packet), (win_dataBytes, data_size), (win_controlPackets, control_packet),
      (win_controlBytes, control_size), (win_deviceAuthRequests, device_auth)}"
  shows "in_window f (fst (guard_step p r)) k =
    in_window f p k + (if snd (guard_step p r) \<and> guard_second r = k then cost r else 0)"
proof -
  have late: "win_second (np_window p) \<le> guard_second r \<or> f (np_window p) = 0"
    using assms(1) [rule_format, of "win_second (np_window p)"] by (force simp: in_window_def not_le)
  have zero: "f (new_window k) = 0" for k using f by (auto simp: new_window_def)
  show ?thesis
  proof (cases "snd (guard_step p r)")
    case True
    have w: "f (np_window (fst (guard_step p r))) = f (current_window p r) + cost r"
      using f by (elim insertE emptyE) (simp_all add: guard_accept [OF True])
    show ?thesis
    proof (cases "win_second (np_window p) = guard_second r")
      case same: True
      with True show ?thesis by (simp add: in_window_def w guard_accept(1) [OF True] current_window_def)
    next
      case False
      with True late assms(2) show ?thesis
        by (auto simp: in_window_def w guard_accept(1) [OF True] current_window_def zero)
    qed
  next
    case False
    from guard_reject [OF False] show ?thesis
    proof
      assume "np_window (fst (guard_step p r)) = np_window p"
      with False show ?thesis by (simp add: in_window_def)
    next
      assume "np_window (fst (guard_step p r)) = current_window p r"
      with False late assms(2) show ?thesis
        by (cases "win_second (np_window p) = guard_second r")
          (auto simp: in_window_def current_window_def zero)
    qed
  qed
qed

lemma in_window_bounded:
  assumes "within_limits l p"
  shows "in_window win_dataPackets p k \<le> DataHardPPSPerNode l"
    and "in_window win_dataBytes p k \<le> megabitsPerSecondBytes (DataHardMbpsPerNode l)"
    and "in_window win_controlPackets p k \<le> ControlHardPPSPerNode l"
    and "in_window win_controlBytes p k \<le> megabitsPerSecondBytes (ControlHardMbpsPerNode l)"
    and "in_window win_deviceAuthRequests p k \<le> DeviceAuthPPSPerNode l"
  using assms limits_pos [of l] by (auto simp: in_window_def within_limits_def)

lemmas budget_laws = within_limits_step in_window_step in_window_bounded

interpretation data_pps: slot_budget guard_step guard_second data_packet "in_window win_dataPackets"
  "DataHardPPSPerNode l" "within_limits l" for l
  by unfold_locales (simp_all add: budget_laws)

interpretation data_bps: slot_budget guard_step guard_second data_size "in_window win_dataBytes"
  "megabitsPerSecondBytes (DataHardMbpsPerNode l)" "within_limits l" for l
  by unfold_locales (simp_all add: budget_laws)

interpretation control_pps: slot_budget guard_step guard_second control_packet "in_window win_controlPackets"
  "ControlHardPPSPerNode l" "within_limits l" for l
  by unfold_locales (simp_all add: budget_laws)

interpretation control_bps: slot_budget guard_step guard_second control_size "in_window win_controlBytes"
  "megabitsPerSecondBytes (ControlHardMbpsPerNode l)" "within_limits l" for l
  by unfold_locales (simp_all add: budget_laws)

interpretation device_auth: slot_budget guard_step guard_second device_auth "in_window win_deviceAuthRequests"
  "DeviceAuthPPSPerNode l" "within_limits l" for l
  by unfold_locales (simp_all add: budget_laws)

lemma newNodeProtection_fresh:
  assumes p_def: "p = newNodeProtection gomaxprocs limits"
  shows "within_limits (np_limits p) p" and "in_window win_dataPackets p k = 0" and "in_window win_dataBytes p k = 0"
    and "in_window win_controlPackets p k = 0" and "in_window win_controlBytes p k = 0"
    and "in_window win_deviceAuthRequests p k = 0"
  using limits_pos [OF check_newNodeProtection [of gomaxprocs limits]] check_newNodeProtection [of gomaxprocs limits]
  by (simp_all add: p_def within_limits_def in_window_def newNodeProtection_def Let_def new_window_def)

subsection \<open>Properties\<close>

text \<open>C27: The hard limits of a node hold in every second: however data, control and device
  authentication requests are mixed, as long as the clock does not run backwards, the packets
  and bytes admitted within one second stay within the limits of the node.\<close>

theorem node_budgets_hold:
  assumes "p = newNodeProtection gomaxprocs limits" and "sorted (map guard_second rs)"
    and "admitted = filter (\<lambda>r. guard_second r = k) (taken rs (snd (accept_all guard_step p rs)))"
  shows "sum_list (map data_packet admitted) \<le> DataHardPPSPerNode (np_limits p) \<and>
    sum_list (map data_size admitted) \<le> megabitsPerSecondBytes (DataHardMbpsPerNode (np_limits p)) \<and>
    sum_list (map control_packet admitted) \<le> ControlHardPPSPerNode (np_limits p) \<and>
    sum_list (map control_size admitted) \<le> megabitsPerSecondBytes (ControlHardMbpsPerNode (np_limits p)) \<and>
    sum_list (map device_auth admitted) \<le> DeviceAuthPPSPerNode (np_limits p)"
  unfolding assms(3)
  using newNodeProtection_fresh [OF assms(1)] assms(2)
  by (intro conjI data_pps.budget_kept data_bps.budget_kept control_pps.budget_kept control_bps.budget_kept
      device_auth.budget_kept)

theorem node_budgets_hold_witness:
  "sum_list (map data_packet (filter (\<lambda>r. guard_second r = 3) (taken [DataRequest 100 3000000000, ControlRequest 9 3500000000]
     (snd (accept_all guard_step (newNodeProtection 4 zero_limits) [DataRequest 100 3000000000, ControlRequest 9 3500000000])))))
   \<le> DataHardPPSPerNode (np_limits (newNodeProtection 4 zero_limits))"
  using node_budgets_hold [OF refl _ refl, of "[DataRequest 100 3000000000, ControlRequest 9 3500000000]" 3 4 zero_limits]
  by (simp add: guard_second_def unix_def)

text \<open>Limits that normalization accepts are consistent, and no deployment can be left without
  protection: a node whose configured limits are refused gets the default ones, which
  normalization accepts on every machine.\<close>

theorem node_limits_consistent:
  "check_limits (np_limits (newNodeProtection gomaxprocs limits)) = None \<and>
   (snd (normalized gomaxprocs limits) = None \<and> np_limits (newNodeProtection gomaxprocs limits) = fst (normalized gomaxprocs limits) \<or>
    snd (normalized gomaxprocs limits) \<noteq> None \<and> np_limits (newNodeProtection gomaxprocs limits) = DefaultResourceLimits gomaxprocs)"
  using check_newNodeProtection by (auto simp: newNodeProtection_def Let_def split: prod.split option.split)

end
