(* ===== verification/Handshake_Limiter.thy ===== *)
theory Handshake_Limiter
  imports Rate_Contract "HOL-Library.Finite_Map"
begin

section \<open>The handshake limiter (\<open>internal/interconnect/handshake_limiter.go\<close>)\<close>

text \<open>
  Attempts per minute and key, in a table of at most 4096 keys with an ordered index for
  incremental cleanup.  An address is the text its \<open>String\<close> method returns.  The cleanup
  loop could spin on an inconsistent index, so it is a partial function; that it always
  returns is part of what is proved.
\<close>

subsection \<open>\<open>net.SplitHostPort\<close>\<close>

fun last_index :: "char \<Rightarrow> string \<Rightarrow> nat option" where
  "last_index c [] = None"
| "last_index c (x # xs) =
     (case last_index c xs of Some i \<Rightarrow> Some (Suc i) | None \<Rightarrow> if x = c then Some 0 else None)"

fun first_index :: "char \<Rightarrow> string \<Rightarrow> nat option" where
  "first_index c [] = None"
| "first_index c (x # xs) = (if x = c then Some 0 else map_option Suc (first_index c xs))"

definition SplitHost :: "string \<Rightarrow> string option" where
  "SplitHost hostport =
     (case last_index (CHR '':'') hostport of
        None \<Rightarrow> None
      | Some i \<Rightarrow>
          if hd hostport = CHR ''['' then
            (case first_index (CHR '']'') hostport of
               None \<Rightarrow> None
             | Some e \<Rightarrow>
                 if e + 1 \<noteq> i then None
                 else if CHR ''['' \<in> set (drop 1 hostport) \<or> CHR '']'' \<in> set (drop (e + 1) hostport) then None
                 else Some (slice hostport 1 e))
          else if CHR '':'' \<in> set (take i hostport) \<or> CHR ''['' \<in> set hostport \<or> CHR '']'' \<in> set hostport then None
          else Some (take i hostport))"

subsection \<open>The limiter\<close>

abbreviation (input) maxTrackedHandshakeIPs :: nat where "maxTrackedHandshakeIPs \<equiv> 4096"

record handshakeAttempt =
  ha_minute :: int
  ha_attempts :: int

record handshakeLimiter =
  hl_limit :: int
  hl_entries :: "(string, handshakeAttempt) fmap"
  hl_order :: "string list"
  hl_orderIndex :: "(string, nat) fmap"
  hl_cleanupCursor :: nat

definition newHandshakeLimiter :: "int \<Rightarrow> handshakeLimiter" where
  "newHandshakeLimiter limit =
     \<lparr>hl_limit = limit, hl_entries = fmempty, hl_order = [], hl_orderIndex = fmempty, hl_cleanupCursor = 0\<rparr>"

definition deleteEntryLocked :: "handshakeLimiter \<Rightarrow> string \<Rightarrow> handshakeLimiter" where
  "deleteEntryLocked l key =
     (let l = l\<lparr>hl_entries := fmdrop key (hl_entries l)\<rparr>
      in case fmlookup (hl_orderIndex l) key of
           None \<Rightarrow> l
         | Some idx \<Rightarrow>
             let last' = length (hl_order l) - 1;
                 l = (if idx \<noteq> last' then
                        let lastKey = hl_order l ! last'
                        in l\<lparr>hl_order := (hl_order l)[idx := lastKey],
                             hl_orderIndex := fmupd lastKey idx (hl_orderIndex l)\<rparr>
                      else l);
                 l = l\<lparr>hl_order := take last' (hl_order l)\<rparr>;
                 l = l\<lparr>hl_orderIndex := fmdrop key (hl_orderIndex l)\<rparr>;
                 l = (if idx < hl_cleanupCursor l then l\<lparr>hl_cleanupCursor := hl_cleanupCursor l - 1\<rparr> else l)
             in if length (hl_order l) \<le> hl_cleanupCursor l then l\<lparr>hl_cleanupCursor := 0\<rparr> else l)"

partial_function (option) prune_loop :: "handshakeLimiter \<Rightarrow> int \<Rightarrow> nat \<Rightarrow> nat \<Rightarrow> handshakeLimiter option" where
  "prune_loop l minute max' scanned =
     (if scanned < max' \<and> hl_order l \<noteq> [] then
        let l = (if length (hl_order l) \<le> hl_cleanupCursor l then l\<lparr>hl_cleanupCursor := 0\<rparr> else l);
            key = hl_order l ! hl_cleanupCursor l
        in case fmlookup (hl_entries l) key of
             None \<Rightarrow> prune_loop (deleteEntryLocked l key) minute max' scanned
           | Some entry \<Rightarrow>
               if ha_minute entry \<noteq> minute
               then prune_loop (deleteEntryLocked l key) minute max' (scanned + 1)
               else prune_loop (l\<lparr>hl_cleanupCursor := hl_cleanupCursor l + 1\<rparr>) minute max' (scanned + 1)
      else Some l)"

definition pruneStaleLocked :: "handshakeLimiter \<Rightarrow> int \<Rightarrow> nat \<Rightarrow> handshakeLimiter option" where
  "pruneStaleLocked l minute max' = prune_loop l minute max' 0"

definition limiter_key :: "string option \<Rightarrow> string \<Rightarrow> string" where
  "limiter_key addr nodeID =
     (let host = (case addr of
                    None \<Rightarrow> ''unknown''
                  | Some a \<Rightarrow>
                      (case SplitHost a of
                         Some parsed \<Rightarrow> if parsed \<noteq> '''' then parsed else if a \<noteq> '''' then a else ''unknown''
                       | None \<Rightarrow> if a \<noteq> '''' then a else ''unknown''))
      in if nodeID \<noteq> '''' then host @ ''|'' @ nodeID else host)"

text \<open>The table part of \<open>allow\<close>, under the mutex; the result is \<^const>\<open>None\<close> if the cleanup does not return.\<close>

definition allow_key :: "handshakeLimiter \<Rightarrow> string \<Rightarrow> int \<Rightarrow> (handshakeLimiter \<times> bool) option" where
  "allow_key l host minute =
     (let exists = fmlookup (hl_entries l) host \<noteq> None;
          entry = (case fmlookup (hl_entries l) host of Some e \<Rightarrow> e | None \<Rightarrow> \<lparr>ha_minute = 0, ha_attempts = 0\<rparr>);
          entry = (if ha_minute entry \<noteq> minute then \<lparr>ha_minute = minute, ha_attempts = 0\<rparr> else entry)
      in if hl_limit l \<le> ha_attempts entry then Some (l, False)
         else
           let full = maxTrackedHandshakeIPs \<le> fcard (fmdom (hl_entries l))
           in case (if full then pruneStaleLocked l minute maxTrackedHandshakeIPs else Some l) of
                None \<Rightarrow> None
              | Some l \<Rightarrow>
                  if full \<and> maxTrackedHandshakeIPs \<le> fcard (fmdom (hl_entries l)) \<and> fmlookup (hl_entries l) host = None
                  then Some (l, False)
                  else
                    let exists = exists \<and> fmlookup (hl_entries l) host \<noteq> None;
                        entry = entry\<lparr>ha_attempts := ha_attempts entry + 1\<rparr>;
                        l = (if \<not> exists
                             then l\<lparr>hl_orderIndex := fmupd host (length (hl_order l)) (hl_orderIndex l),
                                    hl_order := hl_order l @ [host]\<rparr>
                             else l)
                    in Some (l\<lparr>hl_entries := fmupd host entry (hl_entries l)\<rparr>, True))"

definition allow :: "handshakeLimiter \<Rightarrow> string option \<Rightarrow> string \<Rightarrow> time \<Rightarrow> (handshakeLimiter \<times> bool) option" where
  "allow l addr nodeID now =
     (if hl_limit l \<le> 0 then Some (l, False) else allow_key l (limiter_key addr nodeID) (unix now div 60))"

subsection \<open>The index stays consistent\<close>

definition hl_inv :: "handshakeLimiter \<Rightarrow> bool" where
  "hl_inv l \<longleftrightarrow> distinct (hl_order l) \<and> set (hl_order l) = fset (fmdom (hl_entries l)) \<and>
     (\<forall>k i. fmlookup (hl_orderIndex l) k = Some i \<longleftrightarrow> i < length (hl_order l) \<and> hl_order l ! i = k) \<and>
     hl_cleanupCursor l \<le> length (hl_order l)"

lemma hl_inv_new: "hl_inv (newHandshakeLimiter limit)"
  by (simp add: hl_inv_def newHandshakeLimiter_def)

lemma card_entries: "hl_inv l \<Longrightarrow> fcard (fmdom (hl_entries l)) = length (hl_order l)"
  by (simp add: hl_inv_def fcard.rep_eq flip: distinct_card)

text \<open>Deleting by moving the last element into the gap.\<close>

definition swap_out :: "'a list \<Rightarrow> nat \<Rightarrow> 'a list" where
  "swap_out xs i = take (length xs - 1) (xs[i := last xs])"

lemma length_swap_out: "length (swap_out xs i) = length xs - 1"
  by (simp add: swap_out_def)

lemma nth_swap_out:
  "i < length xs \<Longrightarrow> j < length xs - 1 \<Longrightarrow> swap_out xs i ! j = (if j = i then last xs else xs ! j)"
  by (simp add: swap_out_def nth_list_update)

lemma set_swap_out:
  assumes "distinct xs" and "i < length xs"
  shows "set (swap_out xs i) = set xs - {xs ! i}" and "distinct (swap_out xs i)"
proof -
  have last: "last xs = xs ! (length xs - 1)" using assms(2) by (intro last_conv_nth) auto
  have inj: "xs ! a = xs ! b \<longleftrightarrow> a = b" if "a < length xs" "b < length xs" for a b
    using assms(1) that by (simp add: nth_eq_iff_index_eq)
  show "distinct (swap_out xs i)"
    using assms by (auto simp: distinct_conv_nth length_swap_out nth_swap_out last inj)
  show "set (swap_out xs i) = set xs - {xs ! i}"
  proof (intro set_eqI iffI)
    fix x assume "x \<in> set (swap_out xs i)"
    then obtain j where "j < length xs - 1" "x = swap_out xs i ! j"
      by (auto simp: in_set_conv_nth length_swap_out)
    with assms show "x \<in> set xs - {xs ! i}" by (auto simp: nth_swap_out last inj)
  next
    fix x assume x: "x \<in> set xs - {xs ! i}"
    then obtain j where j: "j < length xs" "x = xs ! j" "j \<noteq> i" by (auto simp: in_set_conv_nth)
    show "x \<in> set (swap_out xs i)"
    proof (cases "j = length xs - 1")
      case True
      with j assms have "swap_out xs i ! i = x" "i < length xs - 1" by (simp_all add: nth_swap_out last)
      then show ?thesis by (metis length_swap_out nth_mem)
    next
      case False
      with j assms have "swap_out xs i ! j = x" "j < length xs - 1" by (simp_all add: nth_swap_out)
      then show ?thesis by (metis length_swap_out nth_mem)
    qed
  qed
qed

lemma take_update_last: "xs \<noteq> [] \<Longrightarrow> take (length xs - 1) (xs[length xs - 1 := v]) = take (length xs - 1) xs"
  by (rule nth_equalityI) auto

lemma deleteEntryLocked_order:
  assumes "hl_inv l" and "i < length (hl_order l)" and "key = hl_order l ! i"
  shows "hl_order (deleteEntryLocked l key) = swap_out (hl_order l) i"
    and "hl_entries (deleteEntryLocked l key) = fmdrop key (hl_entries l)"
    and "hl_limit (deleteEntryLocked l key) = hl_limit l"
    and "hl_orderIndex (deleteEntryLocked l key) =
      fmdrop key (if i \<noteq> length (hl_order l) - 1 then fmupd (last (hl_order l)) i (hl_orderIndex l) else hl_orderIndex l)"
    and "hl_cleanupCursor (deleteEntryLocked l key) \<le> length (hl_order l) - 1"
proof -
  have idx: "fmlookup (hl_orderIndex l) key = Some i" using assms by (auto simp: hl_inv_def)
  have last: "last (hl_order l) = hl_order l ! (length (hl_order l) - 1)"
    using assms(2) by (intro last_conv_nth) auto
  show "hl_order (deleteEntryLocked l key) = swap_out (hl_order l) i"
    and "hl_entries (deleteEntryLocked l key) = fmdrop key (hl_entries l)"
    and "hl_limit (deleteEntryLocked l key) = hl_limit l"
    and "hl_orderIndex (deleteEntryLocked l key) =
      fmdrop key (if i \<noteq> length (hl_order l) - 1 then fmupd (last (hl_order l)) i (hl_orderIndex l) else hl_orderIndex l)"
    using assms(2) take_update_last [of "hl_order l"]
    by (auto simp: deleteEntryLocked_def Let_def idx last swap_out_def)
  show "hl_cleanupCursor (deleteEntryLocked l key) \<le> length (hl_order l) - 1"
    using assms(1,2) by (auto simp: deleteEntryLocked_def Let_def idx hl_inv_def)
qed

lemma index_after_delete:
  assumes l: "hl_inv l" and i: "i < length (hl_order l)" and key: "key = hl_order l ! i"
  shows "fmlookup (hl_orderIndex (deleteEntryLocked l key)) k = Some j \<longleftrightarrow>
    j < length (hl_order l) - 1 \<and> swap_out (hl_order l) i ! j = k"
proof -
  let ?o = "hl_order l" and ?n = "length (hl_order l)"
  have idx: "fmlookup (hl_orderIndex l) k = Some j \<longleftrightarrow> j < ?n \<and> ?o ! j = k" for k j
    using l by (simp add: hl_inv_def)
  have last: "last ?o = ?o ! (?n - 1)" using i by (intro last_conv_nth) auto
  have inj: "?o ! a = ?o ! b \<longleftrightarrow> a = b" if "a < ?n" "b < ?n" for a b
    using l that by (simp add: hl_inv_def nth_eq_iff_index_eq)
  have look: "fmlookup (hl_orderIndex (deleteEntryLocked l key)) k =
      (if k = ?o ! i then None else if i \<noteq> ?n - 1 \<and> k = ?o ! (?n - 1) then Some i else fmlookup (hl_orderIndex l) k)"
    unfolding deleteEntryLocked_order(4) [OF l i key] by (simp add: last key)
  show ?thesis
  proof (cases "j < ?n - 1")
    case True
    then have "swap_out ?o i ! j = (if j = i then ?o ! (?n - 1) else ?o ! j)" "j < ?n"
      using nth_swap_out [OF i True] last by simp_all
    moreover have "?n - 1 < ?n" using i by simp
    ultimately show ?thesis using True i inj [of i "?n - 1"] inj [of j "?n - 1"] inj [of i j]
      unfolding look by (auto simp: idx)
  next
    case False
    then show ?thesis using i unfolding look by (auto simp: idx) (metis Suc_pred le_imp_less_Suc
        length_greater_0_conv less_SucE list.size(3) not_less_zero not_less One_nat_def le_less_Suc_eq)+
  qed
qed

lemma hl_inv_delete:
  assumes "hl_inv l" and "i < length (hl_order l)" and "key = hl_order l ! i"
  shows "hl_inv (deleteEntryLocked l key)"
proof -
  have "distinct (hl_order l)" "set (hl_order l) = fset (fmdom (hl_entries l))"
    using assms(1) by (simp_all add: hl_inv_def)
  then show ?thesis
    using set_swap_out [of "hl_order l" i] deleteEntryLocked_order [OF assms] index_after_delete [OF assms] assms(2,3)
    unfolding hl_inv_def [of "deleteEntryLocked l key"] by (simp add: length_swap_out)
qed

subsection \<open>Cleanup returns, keeps the fresh entries and finds a stale one\<close>

definition fresh_entry :: "handshakeLimiter \<Rightarrow> int \<Rightarrow> string \<Rightarrow> bool" where
  "fresh_entry l minute k \<longleftrightarrow> (\<exists>e. fmlookup (hl_entries l) k = Some e \<and> ha_minute e = minute)"

definition pruned :: "handshakeLimiter \<Rightarrow> int \<Rightarrow> handshakeLimiter \<Rightarrow> bool" where
  "pruned l minute l' \<longleftrightarrow> hl_inv l' \<and> hl_limit l' = hl_limit l \<and> length (hl_order l') \<le> length (hl_order l) \<and>
     (\<forall>k. fmlookup (hl_entries l') k = fmlookup (hl_entries l) k \<or>
          fmlookup (hl_entries l') k = None \<and> \<not> fresh_entry l minute k)"

lemma pruned_refl: "hl_inv l \<Longrightarrow> pruned l minute l"
  by (simp add: pruned_def)

lemma pruned_trans:
  assumes "pruned l minute l1" and "pruned l1 minute l2"
  shows "pruned l minute l2"
proof -
  have "fmlookup (hl_entries l2) k = fmlookup (hl_entries l) k \<or>
      fmlookup (hl_entries l2) k = None \<and> \<not> fresh_entry l minute k" for k
    using assms unfolding pruned_def fresh_entry_def by metis
  with assms show ?thesis by (simp add: pruned_def)
qed

lemma pruned_delete:
  assumes "hl_inv l" and "i < length (hl_order l)" and "key = hl_order l ! i" and "\<not> fresh_entry l minute key"
  shows "pruned l minute (deleteEntryLocked l key)"
  using assms(4) hl_inv_delete [OF assms(1-3)]
  unfolding pruned_def deleteEntryLocked_order [OF assms(1-3)] by (simp add: length_swap_out)

definition wrap_cursor :: "handshakeLimiter \<Rightarrow> handshakeLimiter" where
  "wrap_cursor l = (if length (hl_order l) \<le> hl_cleanupCursor l then l\<lparr>hl_cleanupCursor := 0\<rparr> else l)"

lemma wrap_cursor_simps [simp]:
  "hl_order (wrap_cursor l) = hl_order l" "hl_entries (wrap_cursor l) = hl_entries l"
  "hl_limit (wrap_cursor l) = hl_limit l" "hl_orderIndex (wrap_cursor l) = hl_orderIndex l"
  by (simp_all add: wrap_cursor_def)

lemma wrap_cursor_less: "hl_order l \<noteq> [] \<Longrightarrow> hl_cleanupCursor (wrap_cursor l) < length (hl_order l)"
  by (auto simp: wrap_cursor_def)

lemma hl_inv_cursor:
  "hl_inv l \<Longrightarrow> c \<le> length (hl_order l) \<Longrightarrow> hl_inv ((wrap_cursor l)\<lparr>hl_cleanupCursor := c\<rparr>)"
  "hl_inv l \<Longrightarrow> hl_order l \<noteq> [] \<Longrightarrow> hl_inv (wrap_cursor l)"
  using wrap_cursor_less [of l] by (simp_all add: hl_inv_def)

text \<open>The positions a scan of \<open>n\<close> steps visits while it finds nothing to delete.\<close>

definition scanned_fresh :: "handshakeLimiter \<Rightarrow> int \<Rightarrow> nat \<Rightarrow> bool" where
  "scanned_fresh l minute n \<longleftrightarrow>
     (\<forall>j<n. fresh_entry l minute (hl_order l ! ((hl_cleanupCursor l + j) mod length (hl_order l))))"

lemma prune_loop_step:
  assumes "hl_inv l" and "scanned < max'" and "hl_order l \<noteq> []"
    and c: "c = hl_cleanupCursor (wrap_cursor l)" and key: "key = hl_order l ! c"
  shows "prune_loop l minute max' scanned =
    (if fresh_entry l minute key
     then prune_loop ((wrap_cursor l)\<lparr>hl_cleanupCursor := c + 1\<rparr>) minute max' (scanned + 1)
     else prune_loop (deleteEntryLocked (wrap_cursor l) key) minute max' (scanned + 1))"
proof -
  have "key \<in> fset (fmdom (hl_entries l))"
    using assms wrap_cursor_less [of l] by (auto simp: hl_inv_def)
  then obtain e where e: "fmlookup (hl_entries l) key = Some e" by (auto simp: fmlookup_dom_iff)
  have "prune_loop l minute max' scanned =
      (case fmlookup (hl_entries (wrap_cursor l)) key of
         None \<Rightarrow> prune_loop (deleteEntryLocked (wrap_cursor l) key) minute max' scanned
       | Some entry \<Rightarrow>
           if ha_minute entry \<noteq> minute
           then prune_loop (deleteEntryLocked (wrap_cursor l) key) minute max' (scanned + 1)
           else prune_loop ((wrap_cursor l)\<lparr>hl_cleanupCursor := c + 1\<rparr>) minute max' (scanned + 1))"
    using assms(2,3) unfolding key c
    by (subst prune_loop.simps) (simp add: Let_def split: option.split flip: wrap_cursor_def)
  then show ?thesis by (auto simp: e fresh_entry_def)
qed

lemma prune_loop_spec:
  assumes "hl_inv l"
  shows "\<exists>l'. prune_loop l minute max' scanned = Some l' \<and> pruned l minute l' \<and>
    (length (hl_order l') = length (hl_order l) \<and> hl_order l \<noteq> [] \<longrightarrow> scanned_fresh l minute (max' - scanned))"
  using assms
proof (induction "max' - scanned" arbitrary: l scanned)
  case 0
  then show ?case
    by (subst prune_loop.simps) (simp add: pruned_refl scanned_fresh_def)
next
  case (Suc n)
  show ?case
  proof (cases "hl_order l = []")
    case True
    then show ?thesis using Suc.prems by (subst prune_loop.simps) (simp add: pruned_refl)
  next
    case False
    define c where "c = hl_cleanupCursor (wrap_cursor l)"
    define key where "key = hl_order l ! c"
    have lt: "scanned < max'" and n: "n = max' - (scanned + 1)" using Suc.hyps(2) by simp_all
    have c: "c < length (hl_order l)" using wrap_cursor_less [OF False] by (simp add: c_def)
    have cmod: "(hl_cleanupCursor l + j) mod length (hl_order l) = (c + j) mod length (hl_order l)" for j
      using Suc.prems by (auto simp: c_def wrap_cursor_def hl_inv_def)
    note step = prune_loop_step [OF Suc.prems lt False c_def key_def]
    have w: "hl_inv (wrap_cursor l)" using hl_inv_cursor(2) [OF Suc.prems False] .
    show ?thesis
    proof (cases "fresh_entry l minute key")
      case True
      let ?l1 = "(wrap_cursor l)\<lparr>hl_cleanupCursor := c + 1\<rparr>"
      have "hl_inv ?l1" using hl_inv_cursor(1) [OF Suc.prems] c by simp
      from Suc.hyps(1) [OF n this] obtain l' where
        l': "prune_loop ?l1 minute max' (scanned + 1) = Some l'" "pruned ?l1 minute l'"
        "length (hl_order l') = length (hl_order ?l1) \<and> hl_order ?l1 \<noteq> [] \<longrightarrow> scanned_fresh ?l1 minute n"
        by (auto simp: n)
      have "scanned_fresh l minute (max' - scanned)" if "scanned_fresh ?l1 minute n"
      proof -
        have "fresh_entry l minute (hl_order l ! ((c + j) mod length (hl_order l)))" if "j < Suc n" for j
          using that \<open>scanned_fresh ?l1 minute n\<close> True c
          by (cases j) (auto simp: scanned_fresh_def fresh_entry_def key_def)
        then show ?thesis by (simp add: scanned_fresh_def cmod flip: Suc.hyps(2))
      qed
      moreover have "pruned l minute l'" using l'(2) by (simp add: pruned_def fresh_entry_def)
      ultimately show ?thesis using l' True False by (simp add: step)
    next
      case stale: False
      let ?l1 = "deleteEntryLocked (wrap_cursor l) key"
      have c': "c < length (hl_order (wrap_cursor l))" and k': "key = hl_order (wrap_cursor l) ! c"
        using c by (simp_all add: key_def)
      have p1: "pruned l minute ?l1"
        using pruned_delete [OF w c' k', of minute] stale by (simp add: pruned_def fresh_entry_def)
      have "hl_inv ?l1" by (rule hl_inv_delete [OF w c' k'])
      from Suc.hyps(1) [OF n this] obtain l' where
        l': "prune_loop ?l1 minute max' (scanned + 1) = Some l'" "pruned ?l1 minute l'" by auto
      have "length (hl_order l') < length (hl_order l)"
        using l'(2) c by (simp add: pruned_def deleteEntryLocked_order(1) [OF w c' k'] length_swap_out)
          linarith
      with l' stale pruned_trans [OF p1 l'(2)] show ?thesis by (simp add: step)
    qed
  qed
qed

lemma scanned_fresh_all:
  assumes "scanned_fresh l minute n" and "length (hl_order l) \<le> n" and "k \<in> set (hl_order l)"
    and "hl_cleanupCursor l \<le> length (hl_order l)"
  shows "fresh_entry l minute k"
proof -
  let ?n = "length (hl_order l)"
  from assms(3) obtain i where i: "i < ?n" "k = hl_order l ! i" by (auto simp: in_set_conv_nth)
  define j where "j = (i + (?n - hl_cleanupCursor l)) mod ?n"
  have "(hl_cleanupCursor l + j) mod ?n = (hl_cleanupCursor l + (i + (?n - hl_cleanupCursor l))) mod ?n"
    unfolding j_def by (rule mod_add_right_eq)
  also have "\<dots> = i" using assms(4) i(1) by simp
  finally have "(hl_cleanupCursor l + j) mod ?n = i" .
  moreover have "j < ?n" unfolding j_def using i(1) by (intro mod_less_divisor) auto
  then have "j < n" using assms(2) by simp
  ultimately show ?thesis using assms(1) i(2) by (auto simp: scanned_fresh_def)
qed

lemma pruneStaleLocked_spec:
  assumes "hl_inv l" and "length (hl_order l) \<le> max'"
  obtains l' where "pruneStaleLocked l minute max' = Some l'" and "pruned l minute l'"
    and "length (hl_order l') = length (hl_order l) \<Longrightarrow> k \<in> set (hl_order l) \<Longrightarrow> fresh_entry l minute k"
proof -
  obtain l' where l': "prune_loop l minute max' 0 = Some l'" "pruned l minute l'"
    "length (hl_order l') = length (hl_order l) \<and> hl_order l \<noteq> [] \<longrightarrow> scanned_fresh l minute max'"
    using prune_loop_spec [OF assms(1), of minute max' 0] by auto
  have "hl_cleanupCursor l \<le> length (hl_order l)" using assms(1) by (simp add: hl_inv_def)
  then have "fresh_entry l minute k" if "length (hl_order l') = length (hl_order l)" "k \<in> set (hl_order l)"
    using that l'(3) assms(2) scanned_fresh_all by fastforce
  with l' that show thesis by (simp add: pruneStaleLocked_def)
qed

subsection \<open>What a call of the limiter does\<close>

definition attempts :: "handshakeLimiter \<Rightarrow> string \<Rightarrow> int \<Rightarrow> int" where
  "attempts l k minute =
     (case fmlookup (hl_entries l) k of None \<Rightarrow> 0 | Some e \<Rightarrow> if ha_minute e = minute then ha_attempts e else 0)"

definition hl_ok :: "int \<Rightarrow> handshakeLimiter \<Rightarrow> bool" where
  "hl_ok limit l \<longleftrightarrow> hl_inv l \<and> hl_limit l = limit \<and> 0 \<le> limit \<and> length (hl_order l) \<le> maxTrackedHandshakeIPs \<and>
     (\<forall>k e. fmlookup (hl_entries l) k = Some e \<longrightarrow> ha_attempts e \<le> limit)"

text \<open>Storing the entry of the host, appended to the order when it is not tracked.\<close>

definition put_entry :: "handshakeLimiter \<Rightarrow> string \<Rightarrow> handshakeAttempt \<Rightarrow> handshakeLimiter" where
  "put_entry l host entry =
     (let l = (if fmlookup (hl_entries l) host = None
               then l\<lparr>hl_orderIndex := fmupd host (length (hl_order l)) (hl_orderIndex l), hl_order := hl_order l @ [host]\<rparr>
               else l)
      in l\<lparr>hl_entries := fmupd host entry (hl_entries l)\<rparr>)"

lemma hl_inv_put_entry:
  assumes "hl_inv l"
  shows "hl_inv (put_entry l host entry)"
proof (cases "fmlookup (hl_entries l) host = None")
  case True
  then have "host \<notin> set (hl_order l)" using assms by (simp add: hl_inv_def fmlookup_dom_iff)
  then show ?thesis
    using assms True by (auto simp: hl_inv_def put_entry_def nth_append less_Suc_eq)
next
  case False
  then have "host \<in> set (hl_order l)" using assms by (auto simp: hl_inv_def fmlookup_dom_iff)
  then show ?thesis using assms False by (auto simp: hl_inv_def put_entry_def)
qed

lemma prune_if_full:
  assumes inv: "hl_inv l" and le: "length (hl_order l) \<le> n"
  obtains l1 where "(if n \<le> fcard (fmdom (hl_entries l)) then pruneStaleLocked l minute n else Some l) = Some l1"
    and "pruned l minute l1"
    and "\<And>k. length (hl_order l1) = length (hl_order l) \<Longrightarrow> n \<le> length (hl_order l) \<Longrightarrow> k \<in> set (hl_order l) \<Longrightarrow>
      fresh_entry l minute k"
proof (cases "n \<le> fcard (fmdom (hl_entries l))")
  case True
  obtain l1 where "pruneStaleLocked l minute n = Some l1" "pruned l minute l1"
    "\<And>k. length (hl_order l1) = length (hl_order l) \<Longrightarrow> k \<in> set (hl_order l) \<Longrightarrow> fresh_entry l minute k"
    using pruneStaleLocked_spec [OF inv le] by (metis option.inject)
  with True that show thesis by simp
next
  case False
  with that [of l] inv card_entries [OF inv] show thesis by (simp add: pruned_refl)
qed

lemma allow_key_cases:
  assumes ok: "hl_ok limit l"
  obtains (limited) "limit \<le> attempts l host minute" "allow_key l host minute = Some (l, False)"
  | (full) l1 where "attempts l host minute < limit" "pruned l minute l1" "allow_key l host minute = Some (l1, False)"
      "fmlookup (hl_entries l) host = None" "length (hl_order l) = maxTrackedHandshakeIPs"
      "\<And>k. k \<in> set (hl_order l) \<Longrightarrow> fresh_entry l minute k"
  | (allowed) l1 where "attempts l host minute < limit" "pruned l minute l1"
      "length (hl_order l1) < maxTrackedHandshakeIPs \<or> fmlookup (hl_entries l1) host \<noteq> None"
      "allow_key l host minute =
        Some (put_entry l1 host \<lparr>ha_minute = minute, ha_attempts = attempts l host minute + 1\<rparr>, True)"
proof -
  have inv: "hl_inv l" and lim: "hl_limit l = limit" and le: "length (hl_order l) \<le> 4096"
    using ok by (simp_all add: hl_ok_def)
  define entry where "entry = (case fmlookup (hl_entries l) host of Some e \<Rightarrow> e | None \<Rightarrow> \<lparr>ha_minute = 0, ha_attempts = 0\<rparr>)"
  have att: "(if ha_minute entry \<noteq> minute then \<lparr>ha_minute = minute, ha_attempts = 0\<rparr> else entry) =
      \<lparr>ha_minute = minute, ha_attempts = attempts l host minute\<rparr>"
    by (auto simp: entry_def attempts_def split: option.splits)
  note unfold = allow_key_def [of l host minute, folded entry_def, unfolded Let_def, unfolded att]
  obtain l1 where l1: "(if 4096 \<le> fcard (fmdom (hl_entries l)) then pruneStaleLocked l minute 4096 else Some l) = Some l1"
    "pruned l minute l1"
    "\<And>k. length (hl_order l1) = length (hl_order l) \<Longrightarrow> 4096 \<le> length (hl_order l) \<Longrightarrow> k \<in> set (hl_order l) \<Longrightarrow>
      fresh_entry l minute k"
    by (rule prune_if_full [OF inv le, of minute]) blast
  have cards: "fcard (fmdom (hl_entries l)) = length (hl_order l)" "fcard (fmdom (hl_entries l1)) = length (hl_order l1)"
    using card_entries inv l1(2) by (auto simp: pruned_def)
  have keep: "fmlookup (hl_entries l1) host \<noteq> None \<Longrightarrow> fmlookup (hl_entries l) host \<noteq> None"
    using l1(2) unfolding pruned_def by metis
  show thesis
  proof (cases "limit \<le> attempts l host minute")
    case True
    then show thesis using limited by (simp add: unfold lim)
  next
    case False
    show thesis
    proof (cases "4096 \<le> length (hl_order l) \<and> 4096 \<le> length (hl_order l1) \<and> fmlookup (hl_entries l1) host = None")
      case True
      then have eq: "length (hl_order l1) = length (hl_order l)" "length (hl_order l) = 4096"
        using l1(2) le by (simp_all add: pruned_def)
      have fresh: "k \<in> set (hl_order l) \<Longrightarrow> fresh_entry l minute k" for k using l1(3) eq by simp
      have "fmlookup (hl_entries l) host = None"
      proof (rule ccontr)
        assume "fmlookup (hl_entries l) host \<noteq> None"
        then have "host \<in> set (hl_order l)" using inv by (auto simp: hl_inv_def fmlookup_dom_iff)
        with fresh True l1(2) show False unfolding pruned_def fresh_entry_def by (metis option.distinct(1))
      qed
      then show thesis using full [of l1] False True l1 eq fresh by (simp add: unfold lim cards)
    next
      case room: False
      have "allow_key l host minute =
          Some (put_entry l1 host \<lparr>ha_minute = minute, ha_attempts = attempts l host minute + 1\<rparr>, True)"
        using False room l1(1) keep by (auto simp: unfold lim cards put_entry_def)
      moreover have "length (hl_order l1) < 4096 \<or> fmlookup (hl_entries l1) host \<noteq> None"
        using room l1(2) le by (auto simp: pruned_def)
      ultimately show thesis using allowed [of l1] False l1(2) by simp
    qed
  qed
qed

lemma pruned_attempts:
  assumes "pruned l minute l1" and "minute \<le> m" and "\<forall>m>minute. attempts l k m = 0"
  shows "attempts l1 k m = attempts l k m"
proof -
  have "fmlookup (hl_entries l1) k = fmlookup (hl_entries l) k \<or>
      fmlookup (hl_entries l1) k = None \<and> \<not> fresh_entry l minute k"
    using assms(1) by (simp add: pruned_def)
  then show ?thesis
  proof
    assume "fmlookup (hl_entries l1) k = None \<and> \<not> fresh_entry l minute k"
    then have "attempts l1 k m = 0" "attempts l k minute = 0"
      by (auto simp: attempts_def fresh_entry_def split: option.split)
    then show ?thesis using assms(2,3) by (cases "m = minute") simp_all
  qed (simp add: attempts_def)
qed

lemma pruned_ok:
  assumes "hl_ok limit l" and "pruned l minute l1"
  shows "hl_ok limit l1"
proof -
  have "fmlookup (hl_entries l1) k = Some e \<Longrightarrow> fmlookup (hl_entries l) k = Some e" for k e
    using assms(2) unfolding pruned_def by (metis option.distinct(1))
  then have "fmlookup (hl_entries l1) k = Some e \<longrightarrow> ha_attempts e \<le> limit" for k e
    using assms(1) unfolding hl_ok_def by blast
  moreover have "length (hl_order l1) \<le> maxTrackedHandshakeIPs"
    using assms unfolding hl_ok_def pruned_def by (meson order_trans)
  ultimately show ?thesis using assms unfolding hl_ok_def pruned_def by auto
qed

lemma put_entry_ok:
  assumes "hl_ok limit l" and "length (hl_order l) < maxTrackedHandshakeIPs \<or> fmlookup (hl_entries l) host \<noteq> None"
    and "ha_attempts entry \<le> limit"
  shows "hl_ok limit (put_entry l host entry)"
proof -
  have "fmlookup (hl_entries (put_entry l host entry)) k = (if k = host then Some entry else fmlookup (hl_entries l) k)"
    and "hl_limit (put_entry l host entry) = hl_limit l" for k
    by (simp_all add: put_entry_def Let_def)
  moreover have "length (hl_order (put_entry l host entry)) \<le> maxTrackedHandshakeIPs"
    using assms(1,2) by (cases "fmlookup (hl_entries l) host = None") (auto simp: put_entry_def hl_ok_def)
  ultimately show ?thesis
    using assms(1,3) hl_inv_put_entry [of l host entry] unfolding hl_ok_def by simp
qed

lemma allow_key_returns:
  assumes "hl_ok limit l"
  obtains l' b where "allow_key l host minute = Some (l', b)" and "hl_ok limit l'"
    and "\<And>k m. \<forall>m>minute. attempts l k m = 0 \<Longrightarrow> minute \<le> m \<Longrightarrow>
      attempts l' k m = attempts l k m + (if b \<and> minute = m \<and> host = k then 1 else 0)"
  using assms
proof (cases rule: allow_key_cases [of limit l host minute])
  case limited
  then show thesis using that [of l False] assms by simp
next
  case (full l1)
  then show thesis using that [of l1 False] pruned_ok [OF assms] pruned_attempts by simp
next
  case (allowed l1)
  let ?l' = "put_entry l1 host \<lparr>ha_minute = minute, ha_attempts = attempts l host minute + 1\<rparr>"
  have "hl_ok limit ?l'"
    using put_entry_ok [OF pruned_ok [OF assms allowed(2)] allowed(3)] allowed(1) by simp
  moreover have "attempts ?l' k m = attempts l k m + (if True \<and> minute = m \<and> host = k then 1 else 0)"
    if "\<forall>m>minute. attempts l k m = 0" "minute \<le> m" for k m
    using pruned_attempts [OF allowed(2) that(2,1)] that by (auto simp: attempts_def put_entry_def Let_def)
  ultimately show thesis using that [of ?l' True] allowed(4) by simp
qed

text \<open>The limiter as a rate limiter on attempts: address, node ID and time.\<close>

type_synonym handshake_request = "string option \<times> string \<times> time"

definition request_key :: "handshake_request \<Rightarrow> string" where
  "request_key = (\<lambda>(addr, nodeID, now). limiter_key addr nodeID)"

definition request_minute :: "handshake_request \<Rightarrow> int" where
  "request_minute = (\<lambda>(addr, nodeID, now). unix now div 60)"

definition limiter_step :: "handshakeLimiter \<Rightarrow> handshake_request \<Rightarrow> handshakeLimiter \<times> bool" where
  "limiter_step l = (\<lambda>(addr, nodeID, now). case allow l addr nodeID now of Some res \<Rightarrow> res | None \<Rightarrow> (l, False))"

definition one_attempt :: "string \<Rightarrow> handshake_request \<Rightarrow> int" where
  "one_attempt k r = (if request_key r = k then 1 else 0)"

lemma limiter_step_eq:
  "limiter_step l r =
     (if hl_limit l \<le> 0 then (l, False)
      else case allow_key l (request_key r) (request_minute r) of Some res \<Rightarrow> res | None \<Rightarrow> (l, False))"
  by (cases r) (simp add: limiter_step_def allow_def request_key_def request_minute_def)

interpretation handshake: slot_budget limiter_step request_minute "one_attempt k" "\<lambda>l. attempts l k" limit "hl_ok limit"
  for k limit
proof unfold_locales
  fix l r assume ok: "hl_ok limit l"
  obtain l' b where step: "allow_key l (request_key r) (request_minute r) = Some (l', b)" "hl_ok limit l'"
    "\<And>k m. \<forall>m>request_minute r. attempts l k m = 0 \<Longrightarrow> request_minute r \<le> m \<Longrightarrow>
      attempts l' k m = attempts l k m + (if b \<and> request_minute r = m \<and> request_key r = k then 1 else 0)"
    by (rule allow_key_returns [OF ok, of "request_key r" "request_minute r"]) blast
  show "hl_ok limit (fst (limiter_step l r))" using step ok by (simp add: limiter_step_eq)
  show "attempts (fst (limiter_step l r)) k m =
      attempts l k m + (if snd (limiter_step l r) \<and> request_minute r = m then one_attempt k r else 0)"
    if "\<forall>m>request_minute r. attempts l k m = 0" "request_minute r \<le> m" for m
    using step(1) step(3) [OF that] by (auto simp: limiter_step_eq one_attempt_def)
next
  fix l m assume "hl_ok limit l"
  then show "attempts l k m \<le> limit" by (auto simp: hl_ok_def attempts_def split: option.splits)
qed

lemma hl_ok_new: "0 \<le> limit \<Longrightarrow> hl_ok limit (newHandshakeLimiter limit)"
  by (simp add: hl_ok_def hl_inv_new newHandshakeLimiter_def) (use hl_inv_new [of limit] in \<open>simp add: newHandshakeLimiter_def\<close>)

subsection \<open>Properties\<close>

text \<open>C38: In every minute a key (the remote host, with the node ID if it is known) is allowed at most the
  configured number of handshakes, whatever other keys do, however often the table is cleaned
  up, as long as the clock does not run backwards.\<close>

theorem handshake_limit_holds:
  assumes "0 \<le> limit" and "sorted (map request_minute rs)"
  shows "length (filter (\<lambda>r. request_key r = key \<and> request_minute r = minute)
      (taken rs (snd (accept_all limiter_step (newHandshakeLimiter limit) rs)))) \<le> nat limit"
proof -
  let ?l = "newHandshakeLimiter limit"
  have "attempts ?l key k = 0" for k by (simp add: attempts_def newHandshakeLimiter_def)
  from handshake.budget_kept [OF hl_ok_new [OF assms(1)] this assms(2), of minute]
  have "sum_list (map (one_attempt key) (filter (\<lambda>r. request_minute r = minute)
      (taken rs (snd (accept_all limiter_step ?l rs))))) \<le> limit" .
  moreover have "sum_list (map (one_attempt key) (filter (\<lambda>r. request_minute r = minute) xs)) =
      int (length (filter (\<lambda>r. request_key r = key \<and> request_minute r = minute) xs))" for xs
    by (induction xs) (simp_all add: one_attempt_def)
  ultimately show ?thesis by simp
qed

theorem handshake_limit_holds_witness:
  "length (filter (\<lambda>r. request_key r = ''1.2.3.4'' \<and> request_minute r = 1)
     (taken (replicate 3 (Some ''1.2.3.4:5'', '''', 60000000000))
       (snd (accept_all limiter_step (newHandshakeLimiter 2) (replicate 3 (Some ''1.2.3.4:5'', '''', 60000000000)))))) \<le> 2"
  using handshake_limit_holds [of 2 "replicate 3 (Some ''1.2.3.4:5'', '''', 60000000000)" "''1.2.3.4''" 1]
  by (simp add: sorted_replicate)

text \<open>C40: The limiter always answers, keeps at most 4096 keys with a consistent index, and refuses a
  handshake only for cause: the key has used its attempts of this minute, or it is new and the
  table holds 4096 other keys that were all active in this very minute.\<close>

theorem handshake_limiter_answers:
  assumes "hl_ok limit l"
  shows "\<exists>l' verdict. allow_key l host minute = Some (l', verdict) \<and> hl_ok limit l' \<and>
    (verdict \<or> limit \<le> attempts l host minute \<or>
     fmlookup (hl_entries l) host = None \<and> length (hl_order l) = maxTrackedHandshakeIPs \<and>
     list_all (fresh_entry l minute) (hl_order l))"
  using assms
proof (cases rule: allow_key_cases [of limit l host minute])
  case limited
  with assms show ?thesis by blast
next
  case (full l1)
  with pruned_ok [OF assms full(2)] show ?thesis unfolding list_all_iff by blast
next
  case (allowed l1)
  then show ?thesis using put_entry_ok [OF pruned_ok [OF assms allowed(2)] allowed(3),
      of "\<lparr>ha_minute = minute, ha_attempts = attempts l host minute + 1\<rparr>"] by auto
qed

theorem handshake_limiter_answers_witness:
  "\<exists>l' verdict. allow_key (newHandshakeLimiter 2) ''a'' 1 = Some (l', verdict) \<and> hl_ok 2 l'"
  using handshake_limiter_answers [OF hl_ok_new, of 2 "''a''" 1] by auto

end
