(* ===== verification/Shards.thy ===== *)
theory Shards
  imports Go_Base "HOL-Library.Finite_Map"
begin

section \<open>Tables split into shards\<close>

text \<open>
  Several tables of the program are arrays of maps, each with its own lock, and a key picks
  its map by a hash.  The three accesses below are the ones the code makes.  The contract is
  that of a single map: as long as every key lives in its own shard, an access sees exactly
  the last update of that key.
\<close>

definition sh_get :: "('k \<Rightarrow> nat) \<Rightarrow> ('k, 'v) fmap list \<Rightarrow> 'k \<Rightarrow> 'v option" where
  "sh_get idx shards k = fmlookup (shards ! idx k) k"

definition sh_put :: "('k \<Rightarrow> nat) \<Rightarrow> ('k, 'v) fmap list \<Rightarrow> 'k \<Rightarrow> 'v \<Rightarrow> ('k, 'v) fmap list" where
  "sh_put idx shards k v = shards[idx k := fmupd k v (shards ! idx k)]"

definition sh_del :: "('k \<Rightarrow> nat) \<Rightarrow> ('k, 'v) fmap list \<Rightarrow> 'k \<Rightarrow> ('k, 'v) fmap list" where
  "sh_del idx shards k = shards[idx k := fmdrop k (shards ! idx k)]"

text \<open>A sweep over all shards that deletes the entries satisfying \<open>P\<close> and counts them.\<close>

definition fm_filter_out :: "('k \<Rightarrow> 'v \<Rightarrow> bool) \<Rightarrow> ('k, 'v) fmap \<Rightarrow> ('k, 'v) fmap" where
  "fm_filter_out P m = fmfilter (\<lambda>k. case fmlookup m k of Some v \<Rightarrow> \<not> P k v | None \<Rightarrow> True) m"

definition fm_size :: "('k, 'v) fmap \<Rightarrow> nat" where
  "fm_size m = fcard (fmdom m)"

definition sh_sweep :: "('k \<Rightarrow> 'v \<Rightarrow> bool) \<Rightarrow> ('k, 'v) fmap list \<Rightarrow> ('k, 'v) fmap list \<times> nat" where
  "sh_sweep P shards =
     (map (fm_filter_out P) shards, sum_list (map (\<lambda>m. fm_size m - fm_size (fm_filter_out P m)) shards))"

lemma lookup_filter_out:
  "fmlookup (fm_filter_out P m) k = (case fmlookup m k of Some v \<Rightarrow> if P k v then None else Some v | None \<Rightarrow> None)"
  by (auto simp: fm_filter_out_def split: option.split)

locale sharding =
  fixes idx :: "'k \<Rightarrow> nat" and n :: nat
  assumes idx_less: "idx k < n"
begin

definition well_sharded :: "('k, 'v) fmap list \<Rightarrow> bool" where
  "well_sharded shards \<longleftrightarrow> length shards = n \<and> (\<forall>i<n. \<forall>k. idx k \<noteq> i \<longrightarrow> fmlookup (shards ! i) k = None)"

lemma well_sharded_empty: "well_sharded (replicate n fmempty)"
  by (simp add: well_sharded_def)

lemma well_sharded_put: "well_sharded s \<Longrightarrow> well_sharded (sh_put idx s k v)"
  using idx_less [of k] unfolding well_sharded_def sh_put_def by (auto simp: nth_list_update)

lemma well_sharded_del: "well_sharded s \<Longrightarrow> well_sharded (sh_del idx s k)"
  using idx_less [of k] unfolding well_sharded_def sh_del_def by (auto simp: nth_list_update)

lemma well_sharded_sweep: "well_sharded s \<Longrightarrow> well_sharded (fst (sh_sweep P s))"
  by (auto simp: well_sharded_def sh_sweep_def lookup_filter_out split: option.splits if_splits)

lemma get_put: "well_sharded s \<Longrightarrow> sh_get idx (sh_put idx s k v) k' = (if k' = k then Some v else sh_get idx s k')"
  using idx_less [of k] by (auto simp: well_sharded_def sh_get_def sh_put_def nth_list_update)

lemma get_del: "well_sharded s \<Longrightarrow> sh_get idx (sh_del idx s k) k' = (if k' = k then None else sh_get idx s k')"
  using idx_less [of k] by (auto simp: well_sharded_def sh_get_def sh_del_def nth_list_update)

lemma get_sweep:
  "well_sharded s \<Longrightarrow> sh_get idx (fst (sh_sweep P s)) k =
     (case sh_get idx s k of Some v \<Rightarrow> if P k v then None else Some v | None \<Rightarrow> None)"
  using idx_less [of k] by (simp add: well_sharded_def sh_get_def sh_sweep_def lookup_filter_out)

lemma get_empty: "sh_get idx (replicate n fmempty) k = None"
  using idx_less [of k] by (simp add: sh_get_def)

text \<open>The number of entries of all shards is the number of keys.\<close>

definition keys :: "('k, 'v) fmap list \<Rightarrow> 'k set" where
  "keys s = {k. sh_get idx s k \<noteq> None}"

lemma keys_Union:
  assumes "well_sharded s"
  shows "keys s = (\<Union>i<n. fset (fmdom (s ! i)))"
proof (intro set_eqI iffI)
  fix k assume "k \<in> keys s"
  then have "k \<in> fset (fmdom (s ! idx k))" by (auto simp: keys_def sh_get_def fmlookup_dom_iff)
  then show "k \<in> (\<Union>i<n. fset (fmdom (s ! i)))" using idx_less by blast
next
  fix k assume "k \<in> (\<Union>i<n. fset (fmdom (s ! i)))"
  then obtain i where "i < n" "fmlookup (s ! i) k \<noteq> None" by (auto simp: fmlookup_dom_iff)
  moreover from this have "idx k = i"
    using assms unfolding well_sharded_def by (metis (no_types, lifting))
  ultimately show "k \<in> keys s" by (auto simp: keys_def sh_get_def)
qed

lemma keys_put: "well_sharded s \<Longrightarrow> keys (sh_put idx s k v) = insert k (keys s)"
  by (auto simp: keys_def get_put split: if_splits)

lemma keys_del: "well_sharded s \<Longrightarrow> keys (sh_del idx s k) = keys s - {k}"
  by (auto simp: keys_def get_del split: if_splits)

lemma finite_keys: "well_sharded s \<Longrightarrow> finite (keys s)"
  by (simp add: keys_Union)

lemma total_size: "well_sharded s \<Longrightarrow> sum_list (map fm_size s) = card (keys s)"
proof -
  assume s: "well_sharded s"
  have disj: "fset (fmdom (s ! i)) \<inter> fset (fmdom (s ! j)) = {}" if "i < n" "j < n" "i \<noteq> j" for i j
    using s that unfolding well_sharded_def by (auto simp: fmlookup_dom_iff) (metis option.distinct(1))
  have "sum_list (map fm_size s) = (\<Sum>i<n. card (fset (fmdom (s ! i))))"
    using s by (simp add: well_sharded_def fm_size_def fcard.rep_eq sum_list_sum_nth atLeast0LessThan)
  also have "\<dots> = card (\<Union>i<n. fset (fmdom (s ! i)))"
    by (rule card_UN_disjoint [symmetric]) (use disj in auto)
  finally show ?thesis using keys_Union [OF s] by simp
qed

lemma sum_diff:
  "(\<And>m. g m \<le> (f m :: nat)) \<Longrightarrow>
    int (sum_list (map (\<lambda>m. f m - g m) xs)) = int (sum_list (map f xs)) - int (sum_list (map g xs))"
proof (induction xs)
  case (Cons a xs)
  then have "int (f a - g a) = int (f a) - int (g a)" by (simp add: of_nat_diff)
  with Cons.IH [OF Cons.prems] show ?case by (simp only: list.map sum_list.Cons of_nat_add)
qed simp

lemma sweep_count:
  fixes s :: "('k, 'v) fmap list"
  assumes s: "well_sharded s"
  shows "int (snd (sh_sweep P s)) = int (card (keys s)) - int (card (keys (fst (sh_sweep P s))))"
proof -
  have le: "fm_size (fm_filter_out P m) \<le> fm_size m" for m :: "('k, 'v) fmap"
    unfolding fm_size_def fcard.rep_eq
    by (intro card_mono) (auto simp: fmlookup_dom_iff lookup_filter_out split: option.splits if_splits)
  have "int (snd (sh_sweep P s)) = int (sum_list (map fm_size s)) - int (sum_list (map fm_size (fst (sh_sweep P s))))"
    using sum_diff [of "\<lambda>m. fm_size (fm_filter_out P m)" fm_size s, OF le] by (simp add: sh_sweep_def comp_def)
  then show ?thesis using total_size [OF s] total_size [OF well_sharded_sweep [OF s]] by simp
qed

lemma well_sharded_filter:
  "well_sharded s \<Longrightarrow> i < n \<Longrightarrow> well_sharded (s[i := fm_filter_out P (s ! i)])"
  by (auto simp: well_sharded_def nth_list_update lookup_filter_out split: option.splits)

lemma get_filter:
  "well_sharded s \<Longrightarrow> i < n \<Longrightarrow> sh_get idx (s[i := fm_filter_out P (s ! i)]) k =
     (case sh_get idx s k of Some v \<Rightarrow> if idx k = i \<and> P k v then None else Some v | None \<Rightarrow> None)"
  by (auto simp: well_sharded_def sh_get_def nth_list_update lookup_filter_out split: option.splits)

lemma filter_count:
  assumes s: "well_sharded s" and i: "i < n"
  shows "int (card (keys (s[i := fm_filter_out P (s ! i)]))) =
    int (card (keys s)) - (int (fm_size (s ! i)) - int (fm_size (fm_filter_out P (s ! i))))"
proof -
  have len: "i < length (map fm_size s)" using s i by (simp add: well_sharded_def)
  have "map fm_size (s[i := fm_filter_out P (s ! i)]) = (map fm_size s)[i := fm_size (fm_filter_out P (s ! i))]"
    by (simp add: map_update)
  then have "int (sum_list (map fm_size (s[i := fm_filter_out P (s ! i)]))) =
      int (sum_list (map fm_size s) + fm_size (fm_filter_out P (s ! i)) - fm_size (s ! i))"
    using sum_list_update [OF len] len by simp
  moreover have "fm_size (s ! i) \<le> sum_list (map fm_size s)"
    using elem_le_sum_list [OF len] len by simp
  ultimately show ?thesis
    using total_size [OF s] total_size [OF well_sharded_filter [OF s i, of P]] by (simp add: of_nat_diff)
qed

end

end
