(* ===== verification/Voice_Contract.thy ===== *)
theory Voice_Contract
  imports Go_Base
begin

section \<open>The contract of a half-duplex arbiter\<close>

text \<open>
  One domain, many speakers: the arbiter lets a speaker in when nobody holds the domain or
  the speaker holds it already.  Having spoken, a speaker keeps the domain for \<open>hold\<close>
  nanoseconds.  Both arbiters of the program, the centre's lease manager and the hub's
  local one, satisfy these laws for the requests that concern the domain (\<open>valid\<close>).
\<close>

locale voice_arbiter =
  fixes attempt :: "'s \<Rightarrow> 'r \<Rightarrow> 's \<times> bool"
    and speaker :: "'r \<Rightarrow> 'o"
    and moment :: "'r \<Rightarrow> time"
    and holder :: "'s \<Rightarrow> time \<Rightarrow> 'o option"
    and hold :: duration
    and ok :: "'s \<Rightarrow> bool"
    and valid :: "'r \<Rightarrow> bool"
  assumes ok_try: "ok s \<Longrightarrow> ok (fst (attempt s r))"
    and try_allowed: "ok s \<Longrightarrow> valid r \<Longrightarrow> snd (attempt s r) \<Longrightarrow> holder s (moment r) \<in> {None, Some (speaker r)}"
    and try_free: "ok s \<Longrightarrow> valid r \<Longrightarrow> holder s (moment r) = None \<Longrightarrow> snd (attempt s r)"
    and try_holds: "ok s \<Longrightarrow> valid r \<Longrightarrow> snd (attempt s r) \<Longrightarrow> moment r \<le> t \<Longrightarrow>
      holder (fst (attempt s r)) t = (if t - moment r \<le> hold then Some (speaker r) else None)"
    and try_denied: "ok s \<Longrightarrow> \<not> snd (attempt s r) \<Longrightarrow> holder (fst (attempt s r)) t = holder s t"
begin

lemma ok_accept_all: "ok s \<Longrightarrow> ok (fst (accept_all attempt s rs))"
  by (induction rs arbitrary: s) (simp_all add: split_beta Let_def ok_try)

lemma holder_rejected_run:
  "ok s \<Longrightarrow> taken rs (snd (accept_all attempt s rs)) = [] \<Longrightarrow> holder (fst (accept_all attempt s rs)) t = holder s t"
proof (induction rs arbitrary: s)
  case (Cons r rs)
  then have no: "\<not> snd (attempt s r)" "taken rs (snd (accept_all attempt (fst (attempt s r)) rs)) = []"
    by (auto simp: taken_def split_beta Let_def split: if_splits)
  show ?case using Cons.IH [OF ok_try [OF Cons.prems(1)] no(2)] try_denied [OF Cons.prems(1) no(1)]
    by (simp add: split_beta Let_def)
qed simp

text \<open>
  The heart of half duplex: after a speaker got in, and while everyone else is turned away, another
  one gets in precisely when \<open>hold\<close> has passed since.
\<close>

lemma exclusive:
  assumes "ok s" and "valid r" and "snd (attempt s r)"
    and "taken rs (snd (accept_all attempt (fst (attempt s r)) rs)) = []"
    and "valid r'" and "moment r \<le> moment r'" and "speaker r' \<noteq> speaker r"
  shows "snd (attempt (fst (accept_all attempt (fst (attempt s r)) rs)) r') \<longleftrightarrow> hold < moment r' - moment r"
proof -
  let ?s = "fst (accept_all attempt (fst (attempt s r)) rs)"
  have ok: "ok ?s" using ok_accept_all [OF ok_try [OF assms(1)]] by simp
  have "holder ?s (moment r') = (if moment r' - moment r \<le> hold then Some (speaker r) else None)"
    using try_holds [OF assms(1-3,6)] holder_rejected_run [OF ok_try [OF assms(1)] assms(4)] by simp
  with try_allowed [OF ok assms(5)] try_free [OF ok assms(5)] assms(7) show ?thesis
    by (auto split: if_splits)
qed

end

end
