(* ===== verification/Speaker_Lease.thy ===== *)
theory Speaker_Lease
  imports Node_Messages Shards Voice_Contract
begin

unbundle bit_operations_syntax

section \<open>Speaker leases (\<open>internal/interconnect/speaker_lease.go\<close>)\<close>

text \<open>
  The centre's half-duplex arbiter: at most one unexpired lease per communication domain, in
  64 shards.  Each operation holds the lock of the one shard it touches, so it is a step on
  the whole table.  The clock \<^verbatim>\<open>time.Now\<close> reads is the first argument.
\<close>

abbreviation (input) SpeakerLeaseTTL :: duration where "SpeakerLeaseTTL \<equiv> millis 1200"
abbreviation (input) SpeakerLeaseIdleTimeout :: duration where "SpeakerLeaseIdleTimeout \<equiv> millis 900"
abbreviation (input) SpeakerLeaseRenewBefore :: duration where "SpeakerLeaseRenewBefore \<equiv> millis 450"
abbreviation (input) CenterLocalNodeID :: string where "CenterLocalNodeID \<equiv> ''center''"

record speakerLeaseOwner =
  own_nodeID :: string
  own_controlSessionID :: u64
  own_sessionID :: u64
  own_sessionEpoch :: u64

record speakerLeaseState =
  ls_owner :: speakerLeaseOwner
  ls_leaseID :: u64
  ls_lastVoiceAt :: time
  ls_expiresAt :: time

record SpeakerLeaseManager =
  slm_shards :: "(u64, speakerLeaseState) fmap list"
  slm_nextID :: u64

definition NewSpeakerLeaseManager :: SpeakerLeaseManager where
  "NewSpeakerLeaseManager = \<lparr>slm_shards = replicate 64 fmempty, slm_nextID = 0\<rparr>"

definition lease_shard :: "u64 \<Rightarrow> nat" where
  "lease_shard domainID =
     (let mixed = domainID XOR drop_bit 32 domainID XOR drop_bit 16 domainID in unat (mixed AND (64 - 1)))"

definition leaseOwner :: "string \<Rightarrow> u64 \<Rightarrow> u64 \<Rightarrow> u64 \<Rightarrow> speakerLeaseOwner" where
  "leaseOwner nodeID controlSessionID sessionID sessionEpoch =
     \<lparr>own_nodeID = nodeID, own_controlSessionID = controlSessionID, own_sessionID = sessionID,
      own_sessionEpoch = sessionEpoch\<rparr>"

text \<open>The atomic counter skips 0 when it wraps.\<close>

function nextLeaseID :: "u64 \<Rightarrow> u64" where
  "nextLeaseID n = (let id = n + 1 in if id \<noteq> 0 then id else nextLeaseID id)"
  by pat_completeness auto
termination
proof (relation "measure (\<lambda>n. if n + 1 = 0 then 1 else 0)")
  fix n id :: u64
  assume "id = n + 1" and "\<not> id \<noteq> 0"
  then have "n + 1 = 0" "id = 0" by simp_all
  then show "(id, n) \<in> measure (\<lambda>n :: u64. if n + 1 = 0 then 1 else 0)" by simp
qed simp

declare nextLeaseID.simps [simp del]

definition speakerLeaseExpired :: "speakerLeaseState \<Rightarrow> time \<Rightarrow> bool" where
  "speakerLeaseExpired state now \<longleftrightarrow>
     \<not> now < ls_expiresAt state \<or> SpeakerLeaseIdleTimeout < time_sub now (ls_lastVoiceAt state)"

definition lease_get :: "SpeakerLeaseManager \<Rightarrow> u64 \<Rightarrow> speakerLeaseState option" where
  "lease_get m domainID = sh_get lease_shard (slm_shards m) domainID"

definition lease_put :: "SpeakerLeaseManager \<Rightarrow> u64 \<Rightarrow> speakerLeaseState \<Rightarrow> SpeakerLeaseManager" where
  "lease_put m domainID state = m\<lparr>slm_shards := sh_put lease_shard (slm_shards m) domainID state\<rparr>"

definition lease_del :: "SpeakerLeaseManager \<Rightarrow> u64 \<Rightarrow> SpeakerLeaseManager" where
  "lease_del m domainID = m\<lparr>slm_shards := sh_del lease_shard (slm_shards m) domainID\<rparr>"

definition retry_wait :: "speakerLeaseState \<Rightarrow> time \<Rightarrow> duration" where
  "retry_wait state now =
     (let wait = time_sub (ls_lastVoiceAt state + SpeakerLeaseIdleTimeout) now;
          expiryWait = time_sub (ls_expiresAt state) now;
          wait = (if expiryWait < wait then expiryWait else wait)
      in if wait < 0 then 0 else wait)"

definition Claim ::
  "time \<Rightarrow> SpeakerLeaseManager \<Rightarrow> string \<Rightarrow> u64 \<Rightarrow> SpeakerLeaseControl \<Rightarrow> time \<Rightarrow>
     SpeakerLeaseManager \<times> SpeakerLeaseControl" where
  "Claim clock m nodeID controlSessionID claim now =
     (let response = claim\<lparr>sl_LeaseID := 0, sl_TTLMillis := 0, sl_RetryAfterMillis := 0\<rparr>;
          now = or_now clock now;
          owner = leaseOwner nodeID controlSessionID (sl_SessionID claim) (sl_SessionEpoch claim);
          found = lease_get m (sl_DomainID claim);
          expired = (case found of Some state \<Rightarrow> speakerLeaseExpired state now | None \<Rightarrow> False);
          m = (if expired then lease_del m (sl_DomainID claim) else m);
          current = (if expired then None else found)
      in case current of
           Some state \<Rightarrow>
             if ls_owner state \<noteq> owner then
               (m, response\<lparr>sl_Action := SpeakerLeaseActionDeny,
                            sl_RetryAfterMillis := milliseconds (retry_wait state now)\<rparr>)
             else if sl_LeaseID claim \<noteq> 0 \<and> sl_LeaseID claim \<noteq> ls_leaseID state then
               (m, response\<lparr>sl_Action := SpeakerLeaseActionDeny,
                            sl_RetryAfterMillis := milliseconds SpeakerLeaseRenewBefore\<rparr>)
             else
               let state = state\<lparr>ls_lastVoiceAt := now, ls_expiresAt := now + SpeakerLeaseTTL\<rparr>
               in (lease_put m (sl_DomainID claim) state,
                   response\<lparr>sl_Action := SpeakerLeaseActionGrant, sl_LeaseID := ls_leaseID state,
                            sl_TTLMillis := milliseconds SpeakerLeaseTTL\<rparr>)
         | None \<Rightarrow>
             let id = nextLeaseID (slm_nextID m);
                 state = \<lparr>ls_owner = owner, ls_leaseID = id, ls_lastVoiceAt = now, ls_expiresAt = now + SpeakerLeaseTTL\<rparr>
             in (lease_put (m\<lparr>slm_nextID := id\<rparr>) (sl_DomainID claim) state,
                 response\<lparr>sl_Action := SpeakerLeaseActionGrant, sl_LeaseID := ls_leaseID state,
                          sl_TTLMillis := milliseconds SpeakerLeaseTTL\<rparr>))"

definition AcceptFrame ::
  "time \<Rightarrow> SpeakerLeaseManager \<Rightarrow> string \<Rightarrow> u64 \<Rightarrow> RelayFrame \<Rightarrow> time \<Rightarrow> SpeakerLeaseManager \<times> bool" where
  "AcceptFrame clock m nodeID controlSessionID frame now =
     (if rf_SpeakerLeaseID frame = 0 \<or> rf_DomainID frame = 0 then (m, False)
      else
        let now = or_now clock now;
            owner = leaseOwner nodeID controlSessionID (rf_SessionID frame) (rf_SessionEpoch frame)
        in case lease_get m (rf_DomainID frame) of
             None \<Rightarrow> (m, False)
           | Some state \<Rightarrow>
               if speakerLeaseExpired state now \<or> ls_leaseID state \<noteq> rf_SpeakerLeaseID frame \<or> ls_owner state \<noteq> owner
               then (if speakerLeaseExpired state now then lease_del m (rf_DomainID frame) else m, False)
               else (lease_put m (rf_DomainID frame)
                       (state\<lparr>ls_lastVoiceAt := now, ls_expiresAt := now + SpeakerLeaseTTL\<rparr>), True))"

definition AcquireLocal ::
  "time \<Rightarrow> SpeakerLeaseManager \<Rightarrow> u64 \<Rightarrow> u64 \<Rightarrow> u64 \<Rightarrow> time \<Rightarrow> SpeakerLeaseManager \<times> u64 \<times> bool" where
  "AcquireLocal clock m sessionID sessionEpoch domainID now =
     (let claim = \<lparr>sl_Action = SpeakerLeaseActionClaim, sl_RequestID = 1, sl_SessionID = sessionID,
                    sl_SessionEpoch = sessionEpoch, sl_DomainID = domainID, sl_LeaseID = 0, sl_TTLMillis = 0,
                    sl_RetryAfterMillis = 0\<rparr>;
          (m, response) = Claim clock m CenterLocalNodeID sessionID claim now
      in (m, sl_LeaseID response, sl_Action response = SpeakerLeaseActionGrant))"

definition CurrentLocal ::
  "time \<Rightarrow> SpeakerLeaseManager \<Rightarrow> u64 \<Rightarrow> u64 \<Rightarrow> u64 \<Rightarrow> time \<Rightarrow> SpeakerLeaseManager \<times> u64 \<times> bool" where
  "CurrentLocal clock m sessionID sessionEpoch domainID now =
     (let now = or_now clock now; owner = leaseOwner CenterLocalNodeID sessionID sessionID sessionEpoch
      in case lease_get m domainID of
           None \<Rightarrow> (m, 0, False)
         | Some state \<Rightarrow>
             if speakerLeaseExpired state now \<or> ls_owner state \<noteq> owner
             then (if speakerLeaseExpired state now then lease_del m domainID else m, 0, False)
             else (lease_put m domainID (state\<lparr>ls_lastVoiceAt := now, ls_expiresAt := now + SpeakerLeaseTTL\<rparr>),
                   ls_leaseID state, True))"

definition Release :: "SpeakerLeaseManager \<Rightarrow> string \<Rightarrow> u64 \<Rightarrow> SpeakerLeaseControl \<Rightarrow> SpeakerLeaseManager \<times> bool" where
  "Release m nodeID controlSessionID release =
     (let owner = leaseOwner nodeID controlSessionID (sl_SessionID release) (sl_SessionEpoch release)
      in case lease_get m (sl_DomainID release) of
           None \<Rightarrow> (m, False)
         | Some state \<Rightarrow>
             if ls_leaseID state \<noteq> sl_LeaseID release \<or> ls_owner state \<noteq> owner then (m, False)
             else (lease_del m (sl_DomainID release), True))"

definition ReleaseLocal :: "SpeakerLeaseManager \<Rightarrow> u64 \<Rightarrow> u64 \<Rightarrow> u64 \<Rightarrow> SpeakerLeaseManager \<times> bool" where
  "ReleaseLocal m sessionID sessionEpoch domainID =
     (let owner = leaseOwner CenterLocalNodeID sessionID sessionID sessionEpoch
      in case lease_get m domainID of
           None \<Rightarrow> (m, False)
         | Some state \<Rightarrow> if ls_owner state \<noteq> owner then (m, False) else (lease_del m domainID, True))"

definition lease_sweep ::
  "(speakerLeaseState \<Rightarrow> bool) \<Rightarrow> SpeakerLeaseManager \<Rightarrow> SpeakerLeaseManager \<times> nat" where
  "lease_sweep P m =
     (let (shards, released) = sh_sweep (\<lambda>_ state. P state) (slm_shards m) in (m\<lparr>slm_shards := shards\<rparr>, released))"

definition ReleaseSession :: "SpeakerLeaseManager \<Rightarrow> u64 \<Rightarrow> u64 \<Rightarrow> SpeakerLeaseManager \<times> nat" where
  "ReleaseSession m sessionID sessionEpoch =
     (if sessionID = 0 then (m, 0)
      else lease_sweep (\<lambda>state. own_sessionID (ls_owner state) = sessionID \<and>
             (sessionEpoch = 0 \<or> own_sessionEpoch (ls_owner state) = sessionEpoch)) m)"

definition ReleaseNode :: "SpeakerLeaseManager \<Rightarrow> string \<Rightarrow> u64 \<Rightarrow> SpeakerLeaseManager \<times> nat" where
  "ReleaseNode m nodeID controlSessionID =
     lease_sweep (\<lambda>state. own_nodeID (ls_owner state) = nodeID \<and>
       (controlSessionID = 0 \<or> own_controlSessionID (ls_owner state) = controlSessionID)) m"

subsection \<open>The table of leases\<close>

lemma lease_shard_less: "lease_shard d < 64"
proof -
  have "lease_shard d \<le> unat (63 :: u64)"
    unfolding lease_shard_def Let_def using word_and_le1 [of _ "63 :: u64"] by (simp add: word_le_nat_alt)
  then show ?thesis by simp
qed

interpretation leases: sharding lease_shard 64
  by unfold_locales (rule lease_shard_less)

definition lease_ok :: "SpeakerLeaseManager \<Rightarrow> bool" where
  "lease_ok m \<longleftrightarrow> leases.well_sharded (slm_shards m)"

lemma lease_ok_new: "lease_ok NewSpeakerLeaseManager"
  by (simp add: lease_ok_def NewSpeakerLeaseManager_def leases.well_sharded_empty)

lemma lease_get_new: "lease_get NewSpeakerLeaseManager d = None"
  by (simp add: lease_get_def NewSpeakerLeaseManager_def leases.get_empty)

lemma lease_ok_simps [simp]:
  "lease_ok m \<Longrightarrow> lease_ok (lease_put m d state)" "lease_ok m \<Longrightarrow> lease_ok (lease_del m d)"
  "lease_ok (m\<lparr>slm_nextID := n\<rparr>) = lease_ok m" "lease_ok m \<Longrightarrow> lease_ok (fst (lease_sweep P m))"
  using leases.well_sharded_sweep [of "slm_shards m"]
  by (simp_all add: lease_ok_def lease_put_def lease_del_def lease_sweep_def split_beta
      leases.well_sharded_put leases.well_sharded_del)

lemma lease_get_simps [simp]:
  "lease_ok m \<Longrightarrow> lease_get (lease_put m d state) d' = (if d' = d then Some state else lease_get m d')"
  "lease_ok m \<Longrightarrow> lease_get (lease_del m d) d' = (if d' = d then None else lease_get m d')"
  "lease_get (m\<lparr>slm_nextID := n\<rparr>) d = lease_get m d"
  by (simp_all add: lease_ok_def lease_get_def lease_put_def lease_del_def leases.get_put leases.get_del)

lemma lease_get_sweep:
  "lease_ok m \<Longrightarrow> lease_get (fst (lease_sweep P m)) d =
     (case lease_get m d of Some state \<Rightarrow> if P state then None else Some state | None \<Rightarrow> None)"
  using leases.get_sweep [of "slm_shards m" "\<lambda>_. P" d]
  by (simp add: lease_ok_def lease_get_def lease_sweep_def split_beta)

text \<open>Who holds a domain at an instant, and what one claim does.\<close>

definition lease_holder :: "u64 \<Rightarrow> SpeakerLeaseManager \<Rightarrow> time \<Rightarrow> speakerLeaseOwner option" where
  "lease_holder d m t =
     (case lease_get m d of
        None \<Rightarrow> None | Some state \<Rightarrow> if speakerLeaseExpired state t then None else Some (ls_owner state))"

type_synonym lease_request = "time \<times> string \<times> u64 \<times> SpeakerLeaseControl \<times> time"

definition claim_owner :: "lease_request \<Rightarrow> speakerLeaseOwner" where
  "claim_owner = (\<lambda>(clock, nodeID, controlSessionID, claim, now).
     leaseOwner nodeID controlSessionID (sl_SessionID claim) (sl_SessionEpoch claim))"

definition claim_time :: "lease_request \<Rightarrow> time" where
  "claim_time = (\<lambda>(clock, nodeID, controlSessionID, claim, now). or_now clock now)"

definition claim_step :: "u64 \<Rightarrow> SpeakerLeaseManager \<Rightarrow> lease_request \<Rightarrow> SpeakerLeaseManager \<times> bool" where
  "claim_step d m = (\<lambda>(clock, nodeID, controlSessionID, claim, now).
     let (m', response) = Claim clock m nodeID controlSessionID (claim\<lparr>sl_DomainID := d\<rparr>) now
     in (m', sl_Action response = SpeakerLeaseActionGrant))"

definition renewed :: "speakerLeaseOwner \<Rightarrow> u64 \<Rightarrow> time \<Rightarrow> speakerLeaseState" where
  "renewed owner lid now =
     \<lparr>ls_owner = owner, ls_leaseID = lid, ls_lastVoiceAt = now, ls_expiresAt = now + SpeakerLeaseTTL\<rparr>"

lemma renewed_expired: "speakerLeaseExpired (renewed owner lid now) t \<longleftrightarrow> SpeakerLeaseIdleTimeout < t - now"
  by (auto simp: speakerLeaseExpired_def renewed_def)

lemma renewed_owner [simp]: "ls_owner (renewed owner lid now) = owner" "ls_leaseID (renewed owner lid now) = lid"
  by (simp_all add: renewed_def)

lemma renew_eq: "state\<lparr>ls_lastVoiceAt := now, ls_expiresAt := now + 1200000000\<rparr> =
    renewed (ls_owner (state :: speakerLeaseState)) (ls_leaseID state) now"
  by (simp add: renewed_def)

lemma milliseconds_le: "0 \<le> d \<Longrightarrow> d \<le> n * 1000000 \<Longrightarrow> milliseconds d \<le> n"
  by (cases "d = 0") (auto simp: milliseconds_def intro: zdiv_mono1 [of d "n * 1000000" 1000000, simplified])

lemma retry_wait_bounds:
  "0 \<le> milliseconds (retry_wait state now)"
  "milliseconds (retry_wait state now) \<le> 900 \<or> now < ls_lastVoiceAt state"
proof -
  have "0 \<le> retry_wait state now" by (simp add: retry_wait_def Let_def)
  moreover have "retry_wait state now \<le> 900 * 1000000" if "\<not> now < ls_lastVoiceAt state"
  proof -
    have "time_sub (ls_lastVoiceAt state + SpeakerLeaseIdleTimeout) now \<le> 900 * 1000000"
      using that by (simp add: time_sub_def)
    then show ?thesis by (simp add: retry_wait_def Let_def)
  qed
  ultimately show "0 \<le> milliseconds (retry_wait state now)"
    "milliseconds (retry_wait state now) \<le> 900 \<or> now < ls_lastVoiceAt state"
    using milliseconds_nonneg milliseconds_le [of "retry_wait state now" 900] by blast+
qed

lemma Claim_cases:
  assumes "lease_ok m"
  obtains (denied) state wait where "lease_get m (sl_DomainID claim) = Some state"
      "\<not> speakerLeaseExpired state (or_now clock now)"
      "ls_owner state \<noteq> leaseOwner nodeID cs (sl_SessionID claim) (sl_SessionEpoch claim) \<or>
       sl_LeaseID claim \<noteq> 0 \<and> sl_LeaseID claim \<noteq> ls_leaseID state"
      "0 \<le> wait" "wait \<le> 900 \<or> or_now clock now < ls_lastVoiceAt state"
      "Claim clock m nodeID cs claim now = (m, claim\<lparr>sl_Action := SpeakerLeaseActionDeny, sl_LeaseID := 0,
         sl_TTLMillis := 0, sl_RetryAfterMillis := wait\<rparr>)"
  | (granted) m' lid where "lease_holder (sl_DomainID claim) m (or_now clock now) \<in>
        {None, Some (leaseOwner nodeID cs (sl_SessionID claim) (sl_SessionEpoch claim))}"
      "lease_ok m'" "\<And>d. lease_get m' d = (if d = sl_DomainID claim
         then Some (renewed (leaseOwner nodeID cs (sl_SessionID claim) (sl_SessionEpoch claim)) lid (or_now clock now))
         else lease_get m d)"
      "Claim clock m nodeID cs claim now = (m', claim\<lparr>sl_Action := SpeakerLeaseActionGrant, sl_LeaseID := lid,
         sl_TTLMillis := 1200, sl_RetryAfterMillis := 0\<rparr>)"
proof -
  let ?d = "sl_DomainID claim" and ?now = "or_now clock now"
  let ?owner = "leaseOwner nodeID cs (sl_SessionID claim) (sl_SessionEpoch claim)"
  show thesis
  proof (cases "lease_holder ?d m ?now")
    case None
    then have *: "(case lease_get m ?d of Some state \<Rightarrow> speakerLeaseExpired state ?now | None \<Rightarrow> False) \<or> lease_get m ?d = None"
      by (auto simp: lease_holder_def split: option.splits if_splits)
    let ?m = "(if lease_get m ?d = None then m else lease_del m ?d)" and ?id = "nextLeaseID (slm_nextID m)"
    let ?m' = "lease_put (?m\<lparr>slm_nextID := ?id\<rparr>) ?d (renewed ?owner ?id ?now)"
    have eq: "Claim clock m nodeID cs claim now = (?m', claim\<lparr>sl_Action := SpeakerLeaseActionGrant,
        sl_LeaseID := ?id, sl_TTLMillis := 1200, sl_RetryAfterMillis := 0\<rparr>)"
      using * by (auto simp: Claim_def Let_def renewed_def milliseconds_def lease_del_def split: option.split)
    show thesis by (rule granted [of ?m' ?id]) (use None assms eq in simp_all)
  next
    case (Some owner)
    then obtain state where state: "lease_get m ?d = Some state" "\<not> speakerLeaseExpired state ?now" "owner = ls_owner state"
      by (auto simp: lease_holder_def split: option.splits if_splits)
    show thesis
    proof (cases "ls_owner state \<noteq> ?owner \<or> sl_LeaseID claim \<noteq> 0 \<and> sl_LeaseID claim \<noteq> ls_leaseID state")
      case True
      define wait where "wait = sl_RetryAfterMillis (snd (Claim clock m nodeID cs claim now))"
      have "Claim clock m nodeID cs claim now = (m, claim\<lparr>sl_Action := SpeakerLeaseActionDeny, sl_LeaseID := 0,
         sl_TTLMillis := 0, sl_RetryAfterMillis := wait\<rparr>)"
        using True state by (auto simp: wait_def Claim_def Let_def)
      moreover have "wait = milliseconds (retry_wait state ?now) \<or> wait = 450"
        using True state by (auto simp: wait_def Claim_def Let_def milliseconds_def)
      then have "0 \<le> wait" "wait \<le> 900 \<or> ?now < ls_lastVoiceAt state" using retry_wait_bounds [of state ?now] by auto
      ultimately show thesis using denied [of state wait] True state by simp
    next
      case False
      let ?m' = "lease_put m ?d (renewed ?owner (ls_leaseID state) ?now)"
      have eq: "Claim clock m nodeID cs claim now = (?m', claim\<lparr>sl_Action := SpeakerLeaseActionGrant,
          sl_LeaseID := ls_leaseID state, sl_TTLMillis := 1200, sl_RetryAfterMillis := 0\<rparr>)"
        using state False by (auto simp: Claim_def Let_def renew_eq milliseconds_def)
      show thesis by (rule granted [of ?m' "ls_leaseID state"]) (use Some state(3) False assms eq in simp_all)
    qed
  qed
qed

lemma claim_step_cases:
  assumes "lease_ok m"
  obtains (denied) "lease_holder d m (claim_time r) \<noteq> None" "claim_step d m r = (m, False)"
  | (granted) m' lid where "lease_holder d m (claim_time r) \<in> {None, Some (claim_owner r)}" "lease_ok m'"
      "\<And>d'. lease_get m' d' =
        (if d' = d then Some (renewed (claim_owner r) lid (claim_time r)) else lease_get m d')"
      "claim_step d m r = (m', True)"
proof -
  obtain clock nodeID cs claim now where r: "r = (clock, nodeID, cs, claim, now)" by (cases r)
  note defs = r claim_step_def claim_owner_def claim_time_def lease_holder_def
  from assms show thesis
  proof (cases rule: Claim_cases [where claim = "claim\<lparr>sl_DomainID := d\<rparr>" and clock = clock and nodeID = nodeID
          and cs = cs and now = now])
    case (denied state wait)
    then show thesis by (intro that(1)) (simp_all add: defs)
  next
    case (granted m' lid)
    then show thesis by (intro that(2) [of m' lid]) (simp_all add: defs)
  qed
qed

interpretation lease: voice_arbiter "claim_step d" claim_owner claim_time "lease_holder d" SpeakerLeaseIdleTimeout lease_ok "\<lambda>_. True"
  for d
proof unfold_locales
  fix m r t assume m: "lease_ok m"
  from m show "lease_ok (fst (claim_step d m r))"
    by (cases rule: claim_step_cases [where d = d and r = r]) (use m in simp_all)
  show "lease_holder d m (claim_time r) \<in> {None, Some (claim_owner r)}" if "snd (claim_step d m r)"
    using m that by (cases rule: claim_step_cases [where d = d and r = r]) simp_all
  show "snd (claim_step d m r)" if "lease_holder d m (claim_time r) = None"
    using m that by (cases rule: claim_step_cases [where d = d and r = r]) simp_all
  show "lease_holder d (fst (claim_step d m r)) t =
      (if t - claim_time r \<le> SpeakerLeaseIdleTimeout then Some (claim_owner r) else None)"
    if "snd (claim_step d m r)" "claim_time r \<le> t"
    using m that by (cases rule: claim_step_cases [where d = d and r = r])
      (simp_all add: lease_holder_def renewed_expired)
  show "lease_holder d (fst (claim_step d m r)) t = lease_holder d m t" if "\<not> snd (claim_step d m r)"
    using m that by (cases rule: claim_step_cases [where d = d and r = r]) simp_all
qed

lemma AcceptFrame_cases:
  assumes "lease_ok m"
  obtains (rejected) m' where "AcceptFrame clock m nodeID cs frame now = (m', False)" "lease_ok m'"
      "\<And>d t. or_now clock now \<le> t \<Longrightarrow> lease_holder d m' t = lease_holder d m t \<or>
        lease_holder d m' t = None \<and> d = rf_DomainID frame \<and> lease_holder d m (or_now clock now) = None"
  | (accepted) state m' where "AcceptFrame clock m nodeID cs frame now = (m', True)" "lease_ok m'"
      "rf_SpeakerLeaseID frame \<noteq> 0" "rf_DomainID frame \<noteq> 0"
      "lease_get m (rf_DomainID frame) = Some state" "\<not> speakerLeaseExpired state (or_now clock now)"
      "ls_leaseID state = rf_SpeakerLeaseID frame"
      "ls_owner state = leaseOwner nodeID cs (rf_SessionID frame) (rf_SessionEpoch frame)"
      "\<And>d. lease_get m' d = (if d = rf_DomainID frame
         then Some (renewed (ls_owner state) (ls_leaseID state) (or_now clock now)) else lease_get m d)"
proof (cases "snd (AcceptFrame clock m nodeID cs frame now)")
  case True
  then obtain state where "rf_SpeakerLeaseID frame \<noteq> 0" "rf_DomainID frame \<noteq> 0"
    "lease_get m (rf_DomainID frame) = Some state" "\<not> speakerLeaseExpired state (or_now clock now)"
    "ls_leaseID state = rf_SpeakerLeaseID frame"
    "ls_owner state = leaseOwner nodeID cs (rf_SessionID frame) (rf_SessionEpoch frame)"
    "AcceptFrame clock m nodeID cs frame now =
      (lease_put m (rf_DomainID frame) (renewed (ls_owner state) (ls_leaseID state) (or_now clock now)), True)"
    by (auto simp: AcceptFrame_def Let_def renew_eq split: if_splits option.splits)
  with accepted assms show thesis by simp
next
  case False
  then have "AcceptFrame clock m nodeID cs frame now = (m, False) \<or>
      AcceptFrame clock m nodeID cs frame now = (lease_del m (rf_DomainID frame), False) \<and>
      lease_holder (rf_DomainID frame) m (or_now clock now) = None"
    by (auto simp: AcceptFrame_def Let_def lease_holder_def split: if_splits option.splits)
  then show thesis
  proof
    assume "AcceptFrame clock m nodeID cs frame now = (m, False)"
    with rejected assms show thesis by simp
  next
    assume "AcceptFrame clock m nodeID cs frame now = (lease_del m (rf_DomainID frame), False) \<and>
      lease_holder (rf_DomainID frame) m (or_now clock now) = None"
    with rejected assms show thesis by (simp add: lease_holder_def)
  qed
qed

subsection \<open>Properties\<close>

text \<open>C4: Half duplex holds at the centre.  When a claim on a domain is granted and every further claim is
  turned away, a claim by a different owner is granted precisely when more than 900 milliseconds
  have passed since the first: two speakers never hold a domain at once, and a silent one does
  not hold it longer.\<close>

theorem lease_exclusive:
  assumes "lease_ok m" and "claim_step d m r = (m1, True)"
    and "accept_all (claim_step d) m1 rs = (m2, verdicts)" and "taken rs verdicts = []"
    and "claim_time r \<le> claim_time r'" and "claim_owner r' \<noteq> claim_owner r"
  shows "snd (claim_step d m2 r') \<longleftrightarrow> SpeakerLeaseIdleTimeout < claim_time r' - claim_time r"
  using lease.exclusive [of m d r rs r'] assms by simp

definition sample_claim :: "u64 \<Rightarrow> time \<Rightarrow> lease_request" where
  "sample_claim session now = (0, ''edge-1'', 4,
     \<lparr>sl_Action = SpeakerLeaseActionClaim, sl_RequestID = 1, sl_SessionID = session, sl_SessionEpoch = 1, sl_DomainID = 0,
      sl_LeaseID = 0, sl_TTLMillis = 0, sl_RetryAfterMillis = 0\<rparr>, now)"

theorem lease_exclusive_witness:
  "\<exists>m1. claim_step 9 NewSpeakerLeaseManager (sample_claim 5 1000000000) = (m1, True) \<and>
     snd (claim_step 9 m1 (sample_claim 6 2000000000)) \<and> \<not> snd (claim_step 9 m1 (sample_claim 6 1900000000))"
proof -
  let ?r = "sample_claim 5 1000000000"
  have t: "claim_time (sample_claim k 1000000000) = 1000000000" "claim_time (sample_claim k 1900000000) = 1900000000"
    "claim_time (sample_claim k 2000000000) = 2000000000" "claim_owner (sample_claim 6 u) \<noteq> claim_owner ?r" for k u
    by (simp_all add: claim_time_def claim_owner_def sample_claim_def or_now_def leaseOwner_def zero_time_def)
  have "lease_holder 9 NewSpeakerLeaseManager (claim_time ?r) = None" by (simp add: lease_holder_def lease_get_new)
  then obtain m1 where m1: "claim_step 9 NewSpeakerLeaseManager ?r = (m1, True)"
    using lease.try_free [OF lease_ok_new TrueI, of 9 ?r] by (metis prod.collapse)
  from lease_exclusive [OF lease_ok_new m1, of "[]" m1 "[]" "sample_claim 6 2000000000"]
    lease_exclusive [OF lease_ok_new m1, of "[]" m1 "[]" "sample_claim 6 1900000000"] m1 t
  show ?thesis by (simp add: taken_def)
qed

text \<open>A relayed voice frame is accepted only while its sender holds an unexpired lease of that domain with
  that lease ID, and accepting it extends the lease by exactly the idle timeout and leaves every
  other domain alone.\<close>

theorem frame_needs_lease:
  assumes "lease_ok m" and "AcceptFrame clock m nodeID cs frame now = (m', True)"
  shows "lease_holder (rf_DomainID frame) m (or_now clock now) =
      Some (leaseOwner nodeID cs (rf_SessionID frame) (rf_SessionEpoch frame)) \<and>
    map_option ls_leaseID (lease_get m (rf_DomainID frame)) = Some (rf_SpeakerLeaseID frame) \<and>
    (lease_holder (rf_DomainID frame) m' t = None \<longleftrightarrow> SpeakerLeaseIdleTimeout < t - or_now clock now) \<and>
    (d = rf_DomainID frame \<or> lease_get m' d = lease_get m d)"
  using assms(1)
proof (cases rule: AcceptFrame_cases [of m clock nodeID cs frame now])
  case (rejected m1)
  with assms(2) show ?thesis by simp
next
  case (accepted state m1)
  with assms(2) have "m' = m1" by simp
  with accepted show ?thesis by (simp add: lease_holder_def renewed_expired)
qed

definition sample_frame :: RelayFrame where
  "sample_frame = \<lparr>rf_SessionID = 5, rf_SessionEpoch = 1, rf_DomainID = 9, rf_RequiredProjectionVersion = 0,
     rf_SpeakerLeaseID = 1, rf_InnerPacket = []\<rparr>"

definition sample_leases :: SpeakerLeaseManager where
  "sample_leases = lease_put NewSpeakerLeaseManager 9 (renewed (leaseOwner ''edge-1'' 4 5 1) 1 1000000000)"

theorem frame_needs_lease_witness:
  "\<exists>m'. AcceptFrame 0 sample_leases ''edge-1'' 4 sample_frame 1100000000 = (m', True) \<and>
     lease_holder 9 m' 2000000000 = Some (leaseOwner ''edge-1'' 4 5 1)"
proof -
  have z: "or_now 0 1100000000 = 1100000000" by (simp add: or_now_def zero_time_def)
  have ok: "lease_ok sample_leases" by (simp add: sample_leases_def lease_ok_new)
  have get: "lease_get sample_leases 9 = Some (renewed (leaseOwner ''edge-1'' 4 5 1) 1 1000000000)"
    by (simp add: sample_leases_def lease_ok_new)
  have "\<exists>m'. AcceptFrame 0 sample_leases ''edge-1'' 4 sample_frame 1100000000 = (m', True)"
    by (simp add: AcceptFrame_def sample_frame_def get renewed_expired z)
  then obtain m' where m': "AcceptFrame 0 sample_leases ''edge-1'' 4 sample_frame 1100000000 = (m', True)" by blast
  then have "lease_get m' 9 = Some (renewed (leaseOwner ''edge-1'' 4 5 1) 1 1100000000)"
    using ok by (auto simp: AcceptFrame_def sample_frame_def get renewed_expired z renew_eq) (simp add: renewed_def)
  with m' frame_needs_lease [OF ok m', of 2000000000 9] show ?thesis
    by (simp add: lease_holder_def renewed_expired)
qed

text \<open>Disconnecting a session releases precisely its leases, of every epoch: afterwards every domain it held is
  free, every other lease is as it was, and the number returned is the number released.\<close>

theorem release_session_releases:
  assumes "lease_ok m" and "ReleaseSession m sessionID 0 = (m', n)" and "sessionID \<noteq> 0"
  shows "lease_get m' d = (case lease_get m d of
        Some state \<Rightarrow> if own_sessionID (ls_owner state) = sessionID then None else Some state
      | None \<Rightarrow> None) \<and>
    int n = int (card {d. lease_get m d \<noteq> None}) - int (card {d. lease_get m' d \<noteq> None})"
proof -
  let ?P = "\<lambda>state. own_sessionID (ls_owner state) = sessionID"
  have m': "m' = fst (lease_sweep ?P m)" "n = snd (sh_sweep (\<lambda>_. ?P) (slm_shards m))"
    "slm_shards m' = fst (sh_sweep (\<lambda>_. ?P) (slm_shards m))"
    using assms(2,3) by (auto simp: ReleaseSession_def lease_sweep_def split_beta)
  have "leases.well_sharded (slm_shards m)" using assms(1) by (simp add: lease_ok_def)
  from leases.sweep_count [OF this, of "\<lambda>_. ?P"] lease_get_sweep [OF assms(1), of ?P d] show ?thesis
    by (simp add: m' leases.keys_def lease_get_def) (simp add: lease_sweep_def split_beta)
qed

theorem release_session_releases_witness:
  "\<exists>m' n. ReleaseSession sample_leases 5 0 = (m', n) \<and> lease_get m' 9 = None"
proof -
  have ok: "lease_ok sample_leases" by (simp add: sample_leases_def lease_ok_new)
  obtain m' n where r: "ReleaseSession sample_leases 5 0 = (m', n)" by fastforce
  from release_session_releases [OF ok r, of 9] have "lease_get m' 9 = None"
    by (simp add: sample_leases_def lease_ok_new leaseOwner_def)
  with r show ?thesis by blast
qed

end
