(* ===== verification/Group_Links.thy ===== *)
theory Group_Links
  imports Shards
begin

section \<open>Linked groups (\<open>internal/udphub/group_link.go\<close>)\<close>

text \<open>
  Groups are linked through virtual groups: every group attached to the same enabled virtual
  group can hear the others.  The cache indexes the links of the database in both directions and
  precomputes, for each group, the groups it forwards to.  The voice domain of a group is what
  the breadth-first search of \<^verbatim>\<open>half_duplex.go\<close> finds over that relation.
\<close>

record group =
  grp_ID :: int
  grp_Status :: int
  grp_IsVirtual :: bool

record group_link =
  gl_LinkGroupID :: int
  gl_TargetGroupID :: int

record GroupLinkCache =
  glc_targetToLinks :: "(int, int list) fmap"
  glc_linkToTargets :: "(int, int list) fmap"
  glc_targetToPeers :: "(int, int list) fmap"

definition empty_link_cache :: GroupLinkCache where
  "empty_link_cache = \<lparr>glc_targetToLinks = fmempty, glc_linkToTargets = fmempty, glc_targetToPeers = fmempty\<rparr>"

text \<open>Reading a missing key of a Go map of slices gives the nil slice.\<close>

definition slice_at :: "('k, 'v list) fmap \<Rightarrow> 'k \<Rightarrow> 'v list" where
  "slice_at m k = (case fmlookup m k of Some xs \<Rightarrow> xs | None \<Rightarrow> [])"

definition append_at :: "('k, 'v list) fmap \<Rightarrow> 'k \<Rightarrow> 'v \<Rightarrow> ('k, 'v list) fmap" where
  "append_at m k v = fmupd k (slice_at m k @ [v]) m"

fun index_links ::
  "group_link list \<Rightarrow> (int, int list) fmap \<times> (int, int list) fmap \<Rightarrow> (int, int list) fmap \<times> (int, int list) fmap" where
  "index_links [] maps = maps"
| "index_links (link # links) (targetToLinks, linkToTargets) =
     index_links links
       (append_at targetToLinks (gl_TargetGroupID link) (gl_LinkGroupID link),
        append_at linkToTargets (gl_LinkGroupID link) (gl_TargetGroupID link))"

definition link_peers :: "(int, group) fmap \<Rightarrow> (int, int list) fmap \<Rightarrow> int \<Rightarrow> int \<Rightarrow> int list" where
  "link_peers groups linkToTargets sourceGroupID linkGroupID =
     (case fmlookup groups linkGroupID of
        None \<Rightarrow> []
      | Some linkGroup \<Rightarrow>
          if grp_Status linkGroup \<noteq> 1 then []
          else filter (\<lambda>targetID. targetID \<noteq> sourceGroupID) (slice_at linkToTargets linkGroupID))"

definition source_peers :: "(int, group) fmap \<Rightarrow> (int, int list) fmap \<Rightarrow> int \<Rightarrow> int list \<Rightarrow> int list" where
  "source_peers groups linkToTargets sourceGroupID linkGroupIDs =
     sort (remdups (concat (map (link_peers groups linkToTargets sourceGroupID) linkGroupIDs)))"

definition build_link_cache :: "(int, group) fmap \<Rightarrow> group_link list \<Rightarrow> GroupLinkCache" where
  "build_link_cache groups links =
     (let (targetToLinks, linkToTargets) = index_links links (fmempty, fmempty);
          targetToPeers = fm_filter_out (\<lambda>_ peers. peers = [])
            (fmmap_keys (source_peers groups linkToTargets) targetToLinks)
      in \<lparr>glc_targetToLinks = targetToLinks, glc_linkToTargets = linkToTargets, glc_targetToPeers = targetToPeers\<rparr>)"

definition GetLinkGroupsForTarget :: "GroupLinkCache \<Rightarrow> int \<Rightarrow> int list" where
  "GetLinkGroupsForTarget c targetGroupID = slice_at (glc_targetToLinks c) targetGroupID"

definition GetTargetGroupsForLink :: "GroupLinkCache \<Rightarrow> int \<Rightarrow> int list" where
  "GetTargetGroupsForLink c linkGroupID = slice_at (glc_linkToTargets c) linkGroupID"

definition GetLinkedTargetGroups :: "GroupLinkCache \<Rightarrow> int \<Rightarrow> int list" where
  "GetLinkedTargetGroups c sourceGroupID = slice_at (glc_targetToPeers c) sourceGroupID"

definition HasGroupLinks :: "GroupLinkCache \<Rightarrow> int \<Rightarrow> bool" where
  "HasGroupLinks c groupID \<longleftrightarrow> fmlookup (glc_targetToLinks c) groupID \<noteq> None"

text \<open>
  The search of \<^verbatim>\<open>collectHalfDuplexDomainGroupIDs\<close>.  The visited set is kept as a list without
  duplicates; the code turns it into a slice in the unspecified order of a Go map, and both
  callers sort that slice at once.
\<close>

fun visit_peers :: "int list \<Rightarrow> int list \<Rightarrow> int list \<Rightarrow> int list \<times> int list" where
  "visit_peers [] visited queue = (visited, queue)"
| "visit_peers (peerID # peers) visited queue =
     (if peerID \<in> set visited then visit_peers peers visited queue
      else visit_peers peers (visited @ [peerID]) (queue @ [peerID]))"

lemma visit_peers_eq:
  "\<exists>new. visit_peers peers visited queue = (visited @ new, queue @ new) \<and> set new = set peers - set visited \<and> distinct new"
proof (induction peers arbitrary: visited queue)
  case (Cons p ps)
  show ?case
  proof (cases "p \<in> set visited")
    case True
    then show ?thesis using Cons.IH [of visited queue] by auto
  next
    case False
    obtain new where new: "visit_peers ps (visited @ [p]) (queue @ [p]) = (visited @ [p] @ new, queue @ [p] @ new)"
      "set new = set ps - set (visited @ [p])" "distinct new"
      using Cons.IH [of "visited @ [p]" "queue @ [p]"] by auto
    then show ?thesis using False by (intro exI [of _ "p # new"]) auto
  qed
qed simp

definition all_peers :: "GroupLinkCache \<Rightarrow> int set" where
  "all_peers c = (\<Union>g \<in> fset (fmdom (glc_targetToPeers c)). set (GetLinkedTargetGroups c g))"

lemma finite_all_peers: "finite (all_peers c)"
  by (simp add: all_peers_def)

lemma peers_in_all: "set (GetLinkedTargetGroups c g) \<subseteq> all_peers c"
proof (cases "g \<in> fset (fmdom (glc_targetToPeers c))")
  case True
  then show ?thesis unfolding all_peers_def by blast
qed (simp add: GetLinkedTargetGroups_def slice_at_def fmdom_notD)

function collect_loop :: "GroupLinkCache \<Rightarrow> int list \<Rightarrow> int list \<Rightarrow> int list" where
  "collect_loop c visited [] = visited"
| "collect_loop c visited (current # queue) =
     (let (visited, queue) = visit_peers (GetLinkedTargetGroups c current) visited queue
      in collect_loop c visited queue)"
  by pat_completeness auto
termination
proof (relation "(\<lambda>(c, visited, queue). card (all_peers c - set visited)) <*mlex*> measure (\<lambda>(c, visited, queue). length queue)")
  fix c visited current queue x visited' queue'
  assume "x = visit_peers (GetLinkedTargetGroups c current) visited queue" "(visited', queue') = x"
  then obtain new where new: "visited' = visited @ new" "queue' = queue @ new"
      "set new = set (GetLinkedTargetGroups c current) - set visited"
    using visit_peers_eq [of "GetLinkedTargetGroups c current" visited queue] by auto
  show "((c, visited', queue'), c, visited, current # queue)
      \<in> (\<lambda>(c, visited, queue). card (all_peers c - set visited)) <*mlex*> measure (\<lambda>(c, visited, queue). length queue)"
  proof (cases "new = []")
    case True
    with new show ?thesis by (simp add: mlex_leq)
  next
    case False
    then have "hd new \<in> all_peers c - set visited" "hd new \<in> set visited'"
      using new peers_in_all [of c current] hd_in_set [of new] by auto
    then have "all_peers c - set visited' \<subset> all_peers c - set visited" using new(1) by auto
    then show ?thesis by (intro mlex_less) (simp add: psubset_card_mono finite_all_peers)
  qed
qed (simp add: wf_mlex)

definition collectHalfDuplexDomainGroupIDs :: "GroupLinkCache \<Rightarrow> int \<Rightarrow> int list" where
  "collectHalfDuplexDomainGroupIDs c groupID = collect_loop c [groupID] [groupID]"

subsection \<open>The peers of a group\<close>

text \<open>Two groups are directly linked when an enabled virtual group holds both.\<close>

definition linked :: "(int, group) fmap \<Rightarrow> group_link list \<Rightarrow> int \<Rightarrow> int \<Rightarrow> bool" where
  "linked groups links a b \<longleftrightarrow> a \<noteq> b \<and>
     (\<exists>x \<in> set links. \<exists>y \<in> set links. gl_TargetGroupID x = a \<and> gl_TargetGroupID y = b \<and>
        gl_LinkGroupID x = gl_LinkGroupID y \<and>
        (case fmlookup groups (gl_LinkGroupID x) of Some g \<Rightarrow> grp_Status g = 1 | None \<Rightarrow> False))"

lemma linked_sym: "linked groups links a b \<Longrightarrow> linked groups links b a"
  unfolding linked_def by (metis (no_types, lifting))

lemma slice_at_append [simp]: "slice_at (append_at m k v) k' = (if k' = k then slice_at m k @ [v] else slice_at m k')"
  by (simp add: slice_at_def append_at_def)

lemma index_links_eq:
  "slice_at (fst (index_links links maps)) t =
     slice_at (fst maps) t @ map gl_LinkGroupID (filter (\<lambda>x. gl_TargetGroupID x = t) links)"
  "slice_at (snd (index_links links maps)) l =
     slice_at (snd maps) l @ map gl_TargetGroupID (filter (\<lambda>x. gl_LinkGroupID x = l) links)"
  by (induction links maps rule: index_links.induct) simp_all

lemma slice_at_empty [simp]: "slice_at fmempty k = []"
  by (simp add: slice_at_def)

lemma slice_at_filter_out_nil: "slice_at (fm_filter_out (\<lambda>_ xs. xs = []) m) k = slice_at m k"
  by (simp add: slice_at_def lookup_filter_out split: option.split)

lemma slice_at_mmap_keys: "f k [] = [] \<Longrightarrow> slice_at (fmmap_keys f m) k = f k (slice_at m k)"
  by (auto simp: slice_at_def split: option.split)

lemma in_link_peers:
  "b \<in> set (link_peers groups (snd (index_links links (fmempty, fmempty))) a l) \<longleftrightarrow> a \<noteq> b \<and>
     (case fmlookup groups l of Some g \<Rightarrow> grp_Status g = 1 | None \<Rightarrow> False) \<and>
     (\<exists>y \<in> set links. gl_TargetGroupID y = b \<and> gl_LinkGroupID y = l)"
  by (auto simp: link_peers_def index_links_eq split: option.split)

theorem linked_peers: "b \<in> set (GetLinkedTargetGroups (build_link_cache groups links) a) \<longleftrightarrow> linked groups links a b"
proof -
  let ?m = "index_links links (fmempty, fmempty)"
  have "GetLinkedTargetGroups (build_link_cache groups links) a =
      source_peers groups (snd ?m) a (map gl_LinkGroupID (filter (\<lambda>x. gl_TargetGroupID x = a) links))"
    by (simp add: GetLinkedTargetGroups_def build_link_cache_def split_beta Let_def slice_at_filter_out_nil
        slice_at_mmap_keys source_peers_def index_links_eq)
  then have "b \<in> set (GetLinkedTargetGroups (build_link_cache groups links) a) \<longleftrightarrow>
      (\<exists>x \<in> set links. gl_TargetGroupID x = a \<and> b \<in> set (link_peers groups (snd ?m) a (gl_LinkGroupID x)))"
    by (auto simp: source_peers_def)
  also have "\<dots> \<longleftrightarrow> linked groups links a b" unfolding in_link_peers linked_def by metis
  finally show ?thesis .
qed

subsection \<open>The search finds the connected domain\<close>

definition forwards :: "GroupLinkCache \<Rightarrow> (int \<times> int) set" where
  "forwards c = {(a, b). b \<in> set (GetLinkedTargetGroups c a)}"

lemma collect_loop_closure:
  assumes "set queue \<subseteq> set visited" and "forwards c `` (set visited - set queue) \<subseteq> set visited" and "distinct visited"
  shows "set (collect_loop c visited queue) = (forwards c)\<^sup>* `` set visited \<and> distinct (collect_loop c visited queue)"
  using assms
proof (induction c visited queue rule: collect_loop.induct)
  case (1 c visited)
  then show ?case using Image_closed_trancl [of "forwards c" "set visited"] by simp
next
  case (2 c visited current queue)
  obtain new where new: "visit_peers (GetLinkedTargetGroups c current) visited queue = (visited @ new, queue @ new)"
      "set new = set (GetLinkedTargetGroups c current) - set visited" "distinct new"
    using visit_peers_eq by blast
  have step: "collect_loop c visited (current # queue) = collect_loop c (visited @ new) (queue @ new)"
    by (simp add: new)
  have "set new \<subseteq> (forwards c)\<^sup>* `` set visited"
    using new(2) "2.prems"(1) by (auto simp: forwards_def Image_def intro!: bexI [of _ current])
  then have "(forwards c)\<^sup>* `` set (visited @ new) = (forwards c)\<^sup>* `` set visited"
    by (auto simp: Image_Un) (meson Image_singleton_iff rtrancl_trans ImageE subsetD ImageI)
  moreover have "forwards c `` (set (visited @ new) - set (queue @ new)) \<subseteq> set (visited @ new)"
  proof
    fix y assume "y \<in> forwards c `` (set (visited @ new) - set (queue @ new))"
    then obtain x where x: "x \<in> set visited" "x \<notin> set queue" "(x, y) \<in> forwards c" by auto
    show "y \<in> set (visited @ new)"
    proof (cases "x = current")
      case True
      with x(3) new(2) show ?thesis by (auto simp: forwards_def)
    next
      case False
      with x "2.prems"(2) show ?thesis by auto
    qed
  qed
  moreover have "set (queue @ new) \<subseteq> set (visited @ new)" "distinct (visited @ new)"
    using "2.prems" new(2,3) by auto
  ultimately show ?case
    using "2.IH" [OF refl new(1) [symmetric]] step by simp
qed

theorem collect_reachable:
  "set (collectHalfDuplexDomainGroupIDs c g) = (forwards c)\<^sup>* `` {g}" "distinct (collectHalfDuplexDomainGroupIDs c g)"
  using collect_loop_closure [of "[g]" "[g]" c] by (simp_all add: collectHalfDuplexDomainGroupIDs_def)

lemma forwards_built: "forwards (build_link_cache groups links) = {(a, b). linked groups links a b}"
  by (simp add: forwards_def linked_peers)

lemma sym_forwards_built: "sym (forwards (build_link_cache groups links))"
  by (auto simp: forwards_built sym_def intro: linked_sym)

end
