(* ===== verification/Half_Duplex.thy ===== *)
theory Half_Duplex
  imports Group_Links Voice_Contract "HOL-Library.Multiset"
begin

unbundle bit_operations_syntax

section \<open>Half-duplex arbitration of the hub (\<open>internal/udphub/half_duplex.go\<close>)\<close>

text \<open>
  Linked groups form one voice domain, and in a domain one speaker is heard at a time.  The
  global variables of the code are the record \<open>hub\<close>: the group cache, the link cache, the memo
  tables from groups to domain keys and from keys to groups, the reverse table of domain IDs
  (\<^verbatim>\<open>interconnect_hooks.go\<close>), the 32 shards of occupancy states and the generation counter of the
  receiver cache.  Each operation is a function, as it runs undisturbed.  The lookup of a domain key
  reads, walks the links and stores in separate locked sections, and so does the refresh of the
  links: their sections are the steps of \<open>hub_step\<close>, which interleaves any number of calls.  One view
  of the group cache is taken for a whole refresh.
\<close>

abbreviation (input) halfDuplexVoiceHoldTimeout :: duration where "halfDuplexVoiceHoldTimeout \<equiv> millis 900"
abbreviation (input) halfDuplexBlockLogInterval :: duration where "halfDuplexBlockLogInterval \<equiv> seconds 2"

record halfDuplexSpeaker =
  spk_key :: u64
  spk_labelBase :: string
  spk_ssid :: byte

definition speaker_label :: "halfDuplexSpeaker \<Rightarrow> string" where
  "speaker_label s =
     (let base = (if spk_labelBase s = [] then ''unknown'' else spk_labelBase s)
      in base @ ''-'' @ itoa (uint (spk_ssid s)))"

record halfDuplexDomainState =
  hds_speaker :: halfDuplexSpeaker
  hds_lastVoiceAt :: time
  hds_lastBlockLogAt :: time

record hub =
  hub_groups :: "(int, group) fmap"
  hub_links :: GroupLinkCache
  hub_keyCache :: "(int, string) fmap"
  hub_groupsCache :: "(string, int list) fmap"
  hub_reverse :: "(u64, int) fmap"
  hub_shards :: "(string, halfDuplexDomainState) fmap list"
  hub_receiverGen :: u64

definition new_hub :: hub where
  "new_hub = \<lparr>hub_groups = fmempty, hub_links = empty_link_cache, hub_keyCache = fmempty, hub_groupsCache = fmempty,
     hub_reverse = fmempty, hub_shards = replicate 32 fmempty, hub_receiverGen = 0\<rparr>"

definition halfDuplexShardIndex :: "string \<Rightarrow> nat" where
  "halfDuplexShardIndex domainKey = unat (fnv32a domainKey AND (32 - 1))"

definition encodeHalfDuplexDomainKey :: "int list \<Rightarrow> string" where
  "encodeHalfDuplexDomainKey ids =
     (if length ids = 0 then []
      else if length ids = 1 then itoa (ids ! 0)
      else join '','' (map itoa ids))"

definition domain_groups :: "GroupLinkCache \<Rightarrow> int \<Rightarrow> int list" where
  "domain_groups c groupID = sort (collectHalfDuplexDomainGroupIDs c groupID)"

definition store_domain :: "hub \<Rightarrow> int list \<Rightarrow> hub" where
  "store_domain h ids =
     (let domainKey = encodeHalfDuplexDomainKey ids
      in h\<lparr>hub_keyCache := foldl (\<lambda>m id. fmupd id domainKey m) (hub_keyCache h) ids,
           hub_groupsCache := fmupd domainKey ids (hub_groupsCache h)\<rparr>)"

definition getHalfDuplexDomainKey :: "hub \<Rightarrow> int \<Rightarrow> hub \<times> string" where
  "getHalfDuplexDomainKey h groupID =
     (case fmlookup (hub_keyCache h) groupID of
        Some cached \<Rightarrow> (h, cached)
      | None \<Rightarrow>
          let ids = domain_groups (hub_links h) groupID
          in (store_domain h ids, encodeHalfDuplexDomainKey ids))"

definition GetHalfDuplexDomainGroupIDs :: "hub \<Rightarrow> int \<Rightarrow> hub \<times> int list" where
  "GetHalfDuplexDomainGroupIDs h groupID =
     (let (h, domainKey) = getHalfDuplexDomainKey h groupID
      in case fmlookup (hub_groupsCache h) domainKey of
           Some ids \<Rightarrow> (h, ids)
         | None \<Rightarrow>
             let ids = domain_groups (hub_links h) groupID
             in (h\<lparr>hub_groupsCache := fmupd domainKey ids (hub_groupsCache h)\<rparr>, ids))"

definition ActiveHalfDuplexDomainGroups :: "hub \<Rightarrow> (string, int list) fmap" where
  "ActiveHalfDuplexDomainGroups h = fm_filter_out (\<lambda>_ ids. \<not> 0 < length ids) (hub_groupsCache h)"

text \<open>The part of \<open>tryAcquireHalfDuplex\<close> that holds the lock of the domain's shard.\<close>

definition arbitrate :: "hub \<Rightarrow> string \<Rightarrow> halfDuplexSpeaker \<Rightarrow> time \<Rightarrow> hub \<times> bool" where
  "arbitrate h domainKey speaker ts =
     (let put = (\<lambda>state. h\<lparr>hub_shards := sh_put halfDuplexShardIndex (hub_shards h) domainKey state\<rparr>)
      in case sh_get halfDuplexShardIndex (hub_shards h) domainKey of
           None \<Rightarrow> (put \<lparr>hds_speaker = speaker, hds_lastVoiceAt = ts, hds_lastBlockLogAt = zero_time\<rparr>, True)
         | Some state \<Rightarrow>
             if spk_key (hds_speaker state) = spk_key speaker then (put (state\<lparr>hds_lastVoiceAt := ts\<rparr>), True)
             else if halfDuplexVoiceHoldTimeout < time_sub ts (hds_lastVoiceAt state) then
               (put (state\<lparr>hds_speaker := speaker, hds_lastVoiceAt := ts, hds_lastBlockLogAt := zero_time\<rparr>), True)
             else if halfDuplexBlockLogInterval < time_sub ts (hds_lastBlockLogAt state) then
               (put (state\<lparr>hds_lastBlockLogAt := ts\<rparr>), False)
             else (h, False))"

definition tryAcquireHalfDuplex :: "time \<Rightarrow> hub \<Rightarrow> int \<Rightarrow> halfDuplexSpeaker \<Rightarrow> time \<Rightarrow> hub \<times> bool" where
  "tryAcquireHalfDuplex clock h groupID speaker ts =
     (if groupID \<le> 0 \<or> spk_key speaker = 0 then (h, True)
      else
        let ts = or_now clock ts;
            (h, domainKey) = getHalfDuplexDomainKey h groupID
        in arbitrate h domainKey speaker ts)"

definition resetDomainGroupReverseCache :: "hub \<Rightarrow> hub" where
  "resetDomainGroupReverseCache h = h\<lparr>hub_reverse := fmempty\<rparr>"

definition resetHalfDuplexDomainCache :: "time \<Rightarrow> hub \<Rightarrow> hub" where
  "resetHalfDuplexDomainCache clock h =
     (let h = resetDomainGroupReverseCache (h\<lparr>hub_keyCache := fmempty, hub_groupsCache := fmempty\<rparr>);
          expireBefore = clock + - (3 * halfDuplexVoiceHoldTimeout)
      in h\<lparr>hub_shards := fst (sh_sweep (\<lambda>_ state. hds_lastVoiceAt state < expireBefore) (hub_shards h))\<rparr>)"

text \<open>The links come from the database, which may fail.\<close>

definition refreshGroupLinkCache :: "time \<Rightarrow> hub \<Rightarrow> 'e + group_link list \<Rightarrow> hub" where
  "refreshGroupLinkCache clock h links =
     (case links of
        Inl _ \<Rightarrow> h
      | Inr links \<Rightarrow>
          let h = resetHalfDuplexDomainCache clock (h\<lparr>hub_links := build_link_cache (hub_groups h) links\<rparr>)
          in h\<lparr>hub_receiverGen := hub_receiverGen h + 1\<rparr>)"

definition GetCommunicationDomainID :: "hub \<Rightarrow> int \<Rightarrow> hub \<times> u64" where
  "GetCommunicationDomainID h groupID =
     (let (h, key) = getHalfDuplexDomainKey h groupID
      in (h, if key = [] then 0 else ucast (fnv32a key)))"

definition GetActiveCommunicationDomainID :: "hub \<Rightarrow> int \<Rightarrow> hub \<times> u64" where
  "GetActiveCommunicationDomainID h groupID =
     (if groupID \<le> 0 then (h, 0)
      else case fmlookup (hub_groups h) groupID of
             None \<Rightarrow> (h, 0)
           | Some gp \<Rightarrow>
               if grp_Status gp \<noteq> 1 \<or> grp_IsVirtual gp then (h, 0) else GetCommunicationDomainID h groupID)"

fun active_domain_ids :: "hub \<Rightarrow> int list \<Rightarrow> u64 list \<Rightarrow> hub \<times> u64 list" where
  "active_domain_ids h [] result = (h, result)"
| "active_domain_ids h (groupID # groupIDs) result =
     (let (h, domainID) = GetActiveCommunicationDomainID h groupID
      in active_domain_ids h groupIDs (if domainID \<noteq> 0 then List.insert domainID result else result))"

definition GetActiveCommunicationDomainIDs :: "hub \<Rightarrow> int list \<Rightarrow> hub \<times> u64 list" where
  "GetActiveCommunicationDomainIDs h groupIDs =
     (let (h, result) = active_domain_ids h groupIDs [] in (h, sort result))"

text \<open>The scan over the group cache visits the groups in the order of a Go map, given as a list.\<close>

fun find_domain_group :: "hub \<Rightarrow> u64 \<Rightarrow> group list \<Rightarrow> hub \<times> int" where
  "find_domain_group h domainID [] = (h, 0)"
| "find_domain_group h domainID (gp # gps) =
     (if grp_Status gp \<noteq> 1 \<or> grp_IsVirtual gp then find_domain_group h domainID gps
      else
        let (h, found) = GetActiveCommunicationDomainID h (grp_ID gp)
        in if found = domainID then (h\<lparr>hub_reverse := fmupd domainID (grp_ID gp) (hub_reverse h)\<rparr>, grp_ID gp)
           else find_domain_group h domainID gps)"

definition GetActiveGroupIDForCommunicationDomain :: "hub \<Rightarrow> group list \<Rightarrow> u64 \<Rightarrow> hub \<times> int" where
  "GetActiveGroupIDForCommunicationDomain h order domainID =
     (if domainID = 0 then (h, 0)
      else case fmlookup (hub_reverse h) domainID of
             Some groupID \<Rightarrow> (h, groupID)
           | None \<Rightarrow> find_domain_group h domainID order)"

subsection \<open>Domains and their keys\<close>

lemma encode_eq_join: "encodeHalfDuplexDomainKey ids = join '','' (map itoa ids)"
proof (cases ids rule: list.exhaust)
  case (Cons i rest)
  then show ?thesis by (cases rest) (simp_all add: encodeHalfDuplexDomainKey_def)
qed (simp add: encodeHalfDuplexDomainKey_def)

lemma itoa_nonempty: "itoa i \<noteq> []"
  by (simp add: itoa_def)

lemma encode_inject [simp]: "encodeHalfDuplexDomainKey xs = encodeHalfDuplexDomainKey ys \<longleftrightarrow> xs = ys"
proof
  assume "encodeHalfDuplexDomainKey xs = encodeHalfDuplexDomainKey ys"
  then have "map itoa xs = map itoa ys" unfolding encode_eq_join
    by (intro join_inject [of _ "CHR '',''"]) (auto simp: itoa_nonempty comma_not_in_itoa)
  then show "xs = ys" by (simp add: inj_map_eq_map inj_def)
qed simp

lemma set_domain_groups: "set (domain_groups c g) = (forwards c)\<^sup>* `` {g}"
  by (simp add: domain_groups_def collect_reachable)

lemma domain_groups_sorted [simp]: "sorted (domain_groups c g)" "distinct (domain_groups c g)"
  by (simp_all add: domain_groups_def collect_reachable)

lemma self_in_domain: "g \<in> set (domain_groups c g)"
  by (auto simp: set_domain_groups)

lemma same_domain_iff:
  assumes "sym (forwards c)"
  shows "domain_groups c g = domain_groups c g' \<longleftrightarrow> (g, g') \<in> (forwards c)\<^sup>*"
proof
  assume "domain_groups c g = domain_groups c g'"
  then have "g' \<in> set (domain_groups c g)" using self_in_domain by metis
  then show "(g, g') \<in> (forwards c)\<^sup>*" by (simp add: set_domain_groups)
next
  assume *: "(g, g') \<in> (forwards c)\<^sup>*"
  then have "(g', g) \<in> (forwards c)\<^sup>*" using sym_rtrancl [OF assms] by (meson symD)
  with * have "set (domain_groups c g) = set (domain_groups c g')"
    by (auto simp: set_domain_groups intro: rtrancl_trans)
  then show "domain_groups c g = domain_groups c g'" by (simp add: sorted_distinct_set_unique)
qed

definition domain_key :: "GroupLinkCache \<Rightarrow> int \<Rightarrow> string" where
  "domain_key c groupID = encodeHalfDuplexDomainKey (domain_groups c groupID)"

lemma domain_key_eq [simp]: "domain_key c g = domain_key c g' \<longleftrightarrow> domain_groups c g = domain_groups c g'"
  by (simp add: domain_key_def)

subsection \<open>The invariant of the hub\<close>

lemma shard_index_less: "halfDuplexShardIndex key < 32"
proof -
  have "halfDuplexShardIndex key \<le> unat (31 :: u32)"
    unfolding halfDuplexShardIndex_def using word_and_le1 [of _ "31 :: u32"] by (simp add: word_le_nat_alt)
  then show ?thesis by simp
qed

interpretation occupancy: sharding halfDuplexShardIndex 32
  by unfold_locales (rule shard_index_less)

text \<open>
  The occupancy table is well sharded, forwarding is symmetric, and the memo tables hold what a
  fresh computation over the current links would give.
\<close>

definition caches_fresh :: "hub \<Rightarrow> bool" where
  "caches_fresh h \<longleftrightarrow>
     (\<forall>g key. fmlookup (hub_keyCache h) g = Some key \<longrightarrow> key = domain_key (hub_links h) g) \<and>
     (\<forall>key ids. fmlookup (hub_groupsCache h) key = Some ids \<longrightarrow> key = encodeHalfDuplexDomainKey ids)"

definition hub_ok :: "hub \<Rightarrow> bool" where
  "hub_ok h \<longleftrightarrow> occupancy.well_sharded (hub_shards h) \<and> sym (forwards (hub_links h)) \<and> caches_fresh h"

lemma lookup_store_keys: "fmlookup (foldl (\<lambda>m id. fmupd id key m) m ids) g = (if g \<in> set ids then Some key else fmlookup m g)"
  by (induction ids arbitrary: m) auto

lemma hub_ok_update [simp]:
  "hub_ok (h\<lparr>hub_reverse := r\<rparr>) = hub_ok h" "hub_ok (h\<lparr>hub_receiverGen := n\<rparr>) = hub_ok h"
  "hub_ok (h\<lparr>hub_groups := gs\<rparr>) = hub_ok h"
  by (simp_all add: hub_ok_def caches_fresh_def)

lemma hub_ok_store:
  assumes "hub_ok h"
  shows "hub_ok (store_domain h (domain_groups (hub_links h) g))"
proof -
  have "domain_key (hub_links h) g' = encodeHalfDuplexDomainKey (domain_groups (hub_links h) g)"
    if "g' \<in> set (domain_groups (hub_links h) g)" for g'
    using that assms same_domain_iff [of "hub_links h" g g'] by (simp add: hub_ok_def domain_key_def set_domain_groups)
  with assms show ?thesis by (auto simp: hub_ok_def caches_fresh_def store_domain_def Let_def lookup_store_keys)
qed

lemma cached_key: "hub_ok h \<Longrightarrow> fmlookup (hub_keyCache h) g = Some key \<Longrightarrow> key = domain_key (hub_links h) g"
  unfolding hub_ok_def caches_fresh_def by blast

lemma cached_groups: "hub_ok h \<Longrightarrow> fmlookup (hub_groupsCache h) (encodeHalfDuplexDomainKey ids) = Some ids' \<Longrightarrow> ids' = ids"
  unfolding hub_ok_def caches_fresh_def by (metis encode_inject)

lemma getKey_eq:
  assumes "hub_ok h"
  shows "getHalfDuplexDomainKey h g =
    (if fmlookup (hub_keyCache h) g = None then store_domain h (domain_groups (hub_links h) g) else h, domain_key (hub_links h) g)"
  using cached_key [OF assms, of g]
  by (auto simp: getHalfDuplexDomainKey_def domain_key_def Let_def split: option.split)

lemma store_domain_fields [simp]:
  "hub_links (store_domain h ids) = hub_links h" "hub_shards (store_domain h ids) = hub_shards h"
  "hub_groups (store_domain h ids) = hub_groups h" "hub_reverse (store_domain h ids) = hub_reverse h"
  by (simp_all add: store_domain_def Let_def)

lemma getKey:
  assumes "hub_ok h"
  shows "snd (getHalfDuplexDomainKey h g) = domain_key (hub_links h) g" "hub_ok (fst (getHalfDuplexDomainKey h g))"
    "hub_links (fst (getHalfDuplexDomainKey h g)) = hub_links h"
    "hub_shards (fst (getHalfDuplexDomainKey h g)) = hub_shards h"
    "hub_groups (fst (getHalfDuplexDomainKey h g)) = hub_groups h"
    "hub_reverse (fst (getHalfDuplexDomainKey h g)) = hub_reverse h"
  by (simp_all add: getKey_eq [OF assms] hub_ok_store assms)

lemma hub_ok_groupsCache:
  "hub_ok h \<Longrightarrow> hub_ok (h\<lparr>hub_groupsCache := fmupd (encodeHalfDuplexDomainKey ids) ids (hub_groupsCache h)\<rparr>)"
  by (auto simp: hub_ok_def caches_fresh_def)

lemma getGroups:
  assumes "hub_ok h"
  shows "snd (GetHalfDuplexDomainGroupIDs h g) = domain_groups (hub_links h) g"
    "hub_ok (fst (GetHalfDuplexDomainGroupIDs h g))" "hub_links (fst (GetHalfDuplexDomainGroupIDs h g)) = hub_links h"
proof -
  obtain h' where h': "getHalfDuplexDomainKey h g = (h', encodeHalfDuplexDomainKey (domain_groups (hub_links h) g))"
    "hub_ok h'" "hub_links h' = hub_links h"
    using getKey [OF assms, of g] by (cases "getHalfDuplexDomainKey h g") (simp add: domain_key_def)
  note cached = cached_groups [OF h'(2), of "domain_groups (hub_links h) g"]
  show "snd (GetHalfDuplexDomainGroupIDs h g) = domain_groups (hub_links h) g"
    "hub_ok (fst (GetHalfDuplexDomainGroupIDs h g))" "hub_links (fst (GetHalfDuplexDomainGroupIDs h g)) = hub_links h"
    using cached hub_ok_groupsCache [OF h'(2)] h'
    by (simp_all add: GetHalfDuplexDomainGroupIDs_def Let_def split: option.split)
qed

lemma tryAcquire_cases:
  assumes "hub_ok h" and "0 < g" and "spk_key speaker \<noteq> 0"
    and "key = domain_key (hub_links h) g" and "now = or_now clock ts"
  obtains (denied) state log where "sh_get halfDuplexShardIndex (hub_shards h) key = Some state"
      "spk_key (hds_speaker state) \<noteq> spk_key speaker" "\<not> halfDuplexVoiceHoldTimeout < now - hds_lastVoiceAt state"
      "tryAcquireHalfDuplex clock h g speaker ts = ((fst (getHalfDuplexDomainKey h g))\<lparr>hub_shards :=
         (if log then sh_put halfDuplexShardIndex (hub_shards h) key (state\<lparr>hds_lastBlockLogAt := now\<rparr>) else hub_shards h)\<rparr>, False)"
  | (granted) state where
      "\<And>old. sh_get halfDuplexShardIndex (hub_shards h) key = Some old \<Longrightarrow>
         spk_key (hds_speaker old) = spk_key speaker \<or> halfDuplexVoiceHoldTimeout < now - hds_lastVoiceAt old"
      "spk_key (hds_speaker state) = spk_key speaker" "hds_lastVoiceAt state = now"
      "tryAcquireHalfDuplex clock h g speaker ts = ((fst (getHalfDuplexDomainKey h g))\<lparr>hub_shards :=
         sh_put halfDuplexShardIndex (hub_shards h) key state\<rparr>, True)"
proof -
  obtain h0 where k: "getHalfDuplexDomainKey h g = (h0, key)" "hub_shards h0 = hub_shards h"
    using getKey [OF assms(1), of g] by (cases "getHalfDuplexDomainKey h g") (simp add: assms(4))
  have same: "h0\<lparr>hub_shards := hub_shards h\<rparr> = h0" using k(2) by simp
  note acq = tryAcquireHalfDuplex_def arbitrate_def assms(5) [symmetric]
  have "\<not> g \<le> 0" using assms(2) by simp
  note guard = this assms(3)
  show thesis
  proof (cases "sh_get halfDuplexShardIndex (hub_shards h) key")
    case None
    show thesis by (rule granted [of "\<lparr>hds_speaker = speaker, hds_lastVoiceAt = now, hds_lastBlockLogAt = zero_time\<rparr>"])
        (use None guard k in \<open>simp_all add: acq Let_def\<close>)
  next
    case (Some state)
    consider "spk_key (hds_speaker state) = spk_key speaker"
      | "spk_key (hds_speaker state) \<noteq> spk_key speaker" "halfDuplexVoiceHoldTimeout < now - hds_lastVoiceAt state"
      | "spk_key (hds_speaker state) \<noteq> spk_key speaker" "\<not> halfDuplexVoiceHoldTimeout < now - hds_lastVoiceAt state"
      by blast
    then show thesis
    proof cases
      case 1
      then show thesis
        by (intro granted [of "state\<lparr>hds_lastVoiceAt := now\<rparr>"]) (use Some guard k in \<open>simp_all add: acq Let_def\<close>)
    next
      case 2
      then show thesis
        by (intro granted [of "state\<lparr>hds_speaker := speaker, hds_lastVoiceAt := now, hds_lastBlockLogAt := zero_time\<rparr>"])
          (use Some guard k in \<open>simp_all add: acq Let_def\<close>)
    next
      case 3
      show thesis
        by (rule denied [of state "halfDuplexBlockLogInterval < now - hds_lastBlockLogAt state"])
          (use 3 Some guard k same in \<open>simp_all add: acq Let_def\<close>)
    qed
  qed
qed

lemma hub_ok_shards: "hub_ok h \<Longrightarrow> occupancy.well_sharded s \<Longrightarrow> hub_ok (h\<lparr>hub_shards := s\<rparr>)"
  by (simp add: hub_ok_def caches_fresh_def)

lemma hub_ok_sharded: "hub_ok h \<Longrightarrow> occupancy.well_sharded (hub_shards h)"
  by (simp add: hub_ok_def)

lemma tryAcquire_ok:
  assumes "hub_ok h"
  shows "hub_ok (fst (tryAcquireHalfDuplex clock h g speaker ts)) \<and>
    hub_links (fst (tryAcquireHalfDuplex clock h g speaker ts)) = hub_links h"
proof (cases "0 < g \<and> spk_key speaker \<noteq> 0")
  case True
  then have "0 < g" "spk_key speaker \<noteq> 0" by simp_all
  note k = getKey [OF assms, of g] and w = hub_ok_sharded [OF assms]
  from assms \<open>0 < g\<close> \<open>spk_key speaker \<noteq> 0\<close> refl refl show ?thesis
  proof (cases rule: tryAcquire_cases [of h g speaker _ _ clock ts])
    case (denied state log)
    then show ?thesis using k w by (auto intro!: hub_ok_shards occupancy.well_sharded_put)
  next
    case (granted state)
    then show ?thesis using k w by (auto intro!: hub_ok_shards occupancy.well_sharded_put)
  qed
next
  case False
  then show ?thesis using assms by (auto simp: tryAcquireHalfDuplex_def)
qed

lemma tryAcquire_open: "g \<le> 0 \<or> spk_key speaker = 0 \<Longrightarrow> tryAcquireHalfDuplex clock h g speaker ts = (h, True)"
  unfolding tryAcquireHalfDuplex_def by simp

lemma hub_ok_new: "hub_ok new_hub"
  by (simp add: hub_ok_def new_hub_def occupancy.well_sharded_empty caches_fresh_def empty_link_cache_def forwards_def
      GetLinkedTargetGroups_def sym_def)

lemma hub_ok_reset: "occupancy.well_sharded (hub_shards h) \<Longrightarrow> sym (forwards (hub_links h)) \<Longrightarrow> hub_ok (resetHalfDuplexDomainCache clock h)"
  by (simp add: hub_ok_def resetHalfDuplexDomainCache_def resetDomainGroupReverseCache_def Let_def caches_fresh_def
      occupancy.well_sharded_sweep)

lemma hub_ok_refresh: "hub_ok h \<Longrightarrow> hub_ok (refreshGroupLinkCache clock h links)"
  by (auto simp: refreshGroupLinkCache_def Let_def hub_ok_sharded sym_forwards_built intro!: hub_ok_reset split: sum.split)

lemma domainID_ok:
  assumes "hub_ok h"
  shows "hub_ok (fst (GetCommunicationDomainID h g))" "hub_links (fst (GetCommunicationDomainID h g)) = hub_links h"
    "hub_groups (fst (GetCommunicationDomainID h g)) = hub_groups h"
    "snd (GetCommunicationDomainID h g) = (let key = domain_key (hub_links h) g in if key = [] then 0 else ucast (fnv32a key))"
  using getKey [OF assms, of g] by (simp_all add: GetCommunicationDomainID_def split_beta Let_def)

lemma activeID_ok:
  assumes "hub_ok h"
  shows "hub_ok (fst (GetActiveCommunicationDomainID h g))" "hub_links (fst (GetActiveCommunicationDomainID h g)) = hub_links h"
    "hub_groups (fst (GetActiveCommunicationDomainID h g)) = hub_groups h"
  using domainID_ok [OF assms, of g] assms by (simp_all add: GetActiveCommunicationDomainID_def split: option.split)

lemma activeIDs_ok:
  "hub_ok h \<Longrightarrow> hub_ok (fst (active_domain_ids h gs r))"
  by (induction h gs r rule: active_domain_ids.induct) (simp add: Let_def split_beta activeID_ok)+

lemma find_domain_group_ok:
  "hub_ok h \<Longrightarrow> hub_ok (fst (find_domain_group h d gs))"
  by (induction gs arbitrary: h) (simp_all add: Let_def split_beta activeID_ok)

subsection \<open>The hub as a transition system\<close>

text \<open>
  A task is a call in progress, with the values its goroutine holds.  A lookup looks at the memo
  table; after a miss it walks the links, reading the peers of one group at a time, and stores what
  it found.  The walk that \<open>GetHalfDuplexDomainGroupIDs\<close> makes itself carries the key it stores under.
  With its key a caller arbitrates, asks for the groups, records the domain ID, or is done.
  A refresh swaps the link table and then clears the memo tables, the reverse table and one shard
  after the other.
\<close>

datatype hub_task =
    Look int
  | Walk int "string option" "int list" "int list"
  | Store int "string option" "int list"
  | Keyed int string
  | Refresh "group_link list"
  | ClearMemo
  | ClearReverse
  | Sweep nat time

definition clear_memo :: "hub \<Rightarrow> hub" where
  "clear_memo h = h\<lparr>hub_keyCache := fmempty, hub_groupsCache := fmempty\<rparr>"

definition sweep_shard :: "nat \<Rightarrow> time \<Rightarrow> hub \<Rightarrow> hub" where
  "sweep_shard i expireBefore h =
     h\<lparr>hub_shards := (hub_shards h)[i := fm_filter_out (\<lambda>_ state. hds_lastVoiceAt state < expireBefore) (hub_shards h ! i)]\<rparr>"

inductive task_step :: "hub \<Rightarrow> hub_task \<Rightarrow> hub \<Rightarrow> hub_task list \<Rightarrow> bool" where
  look_hit: "fmlookup (hub_keyCache h) g = Some key \<Longrightarrow> task_step h (Look g) h [Keyed g key]"
| look_miss: "fmlookup (hub_keyCache h) g = None \<Longrightarrow> task_step h (Look g) h [Walk g None [g] [g]]"
| walk: "visit_peers (GetLinkedTargetGroups (hub_links h) current) visited queue = (visited', queue') \<Longrightarrow>
    task_step h (Walk g target visited (current # queue)) h [Walk g target visited' queue']"
| walked: "task_step h (Walk g target visited []) h [Store g target (sort visited)]"
| store_key: "task_step h (Store g None ids) (store_domain h ids) [Keyed g (encodeHalfDuplexDomainKey ids)]"
| store_groups: "task_step h (Store g (Some key) ids) (h\<lparr>hub_groupsCache := fmupd key ids (hub_groupsCache h)\<rparr>) []"
| acquire: "task_step h (Keyed g key) (fst (arbitrate h key speaker ts)) []"
| groups_hit: "fmlookup (hub_groupsCache h) key = Some ids \<Longrightarrow> task_step h (Keyed g key) h []"
| groups_miss: "fmlookup (hub_groupsCache h) key = None \<Longrightarrow> task_step h (Keyed g key) h [Walk g (Some key) [g] [g]]"
| record_id: "task_step h (Keyed g key) (h\<lparr>hub_reverse := fmupd (ucast (fnv32a key)) g (hub_reverse h)\<rparr>) []"
| answered: "task_step h (Keyed g key) h []"
| swap: "task_step h (Refresh links) (h\<lparr>hub_links := build_link_cache (hub_groups h) links\<rparr>) [ClearMemo]"
| clear: "task_step h ClearMemo (clear_memo h) [ClearReverse]"
| clear_reverse: "task_step h ClearReverse (resetDomainGroupReverseCache h) [Sweep 0 (clock + - (3 * halfDuplexVoiceHoldTimeout))]"
| sweep: "i < 32 \<Longrightarrow> task_step h (Sweep i expireBefore) (sweep_shard i expireBefore h) [Sweep (Suc i) expireBefore]"
| swept: "task_step h (Sweep 32 expireBefore) (h\<lparr>hub_receiverGen := hub_receiverGen h + 1\<rparr>) []"

text \<open>Calls start at any time, the group cache is replaced at any time, and any task goes on.\<close>

inductive hub_step :: "hub \<times> hub_task multiset \<Rightarrow> hub \<times> hub_task multiset \<Rightarrow> bool" where
  call: "hub_step (h, M) (h, add_mset (Look g) M)"
| refresh: "hub_step (h, M) (h, add_mset (Refresh links) M)"
| new_groups: "hub_step (h, M) (h\<lparr>hub_groups := groups\<rparr>, M)"
| task: "task_step h t h' ts \<Longrightarrow> hub_step (h, add_mset t M) (h', mset ts + M)"

inductive_cases hub_stepE: "hub_step (h, M) (h', M')"

abbreviation hub_run :: "hub \<times> hub_task multiset \<Rightarrow> hub \<times> hub_task multiset \<Rightarrow> bool" where
  "hub_run \<equiv> hub_step\<^sup>*\<^sup>*"

text \<open>A step that leaves the links as they are.\<close>

definition still_step :: "hub \<times> hub_task multiset \<Rightarrow> hub \<times> hub_task multiset \<Rightarrow> bool" where
  "still_step s s' \<longleftrightarrow> hub_step s s' \<and> hub_links (fst s') = hub_links (fst s)"

text \<open>A lookup is under way once it has looked at the memo table.\<close>

fun under_way :: "hub_task \<Rightarrow> bool" where
  "under_way (Walk g target visited queue) = True"
| "under_way (Store g target ids) = True"
| "under_way (Keyed g key) = True"
| "under_way _ = False"

text \<open>
  The hub is settled from the moment a refresh clears the memo tables while no lookup is under way,
  and stays so until the links change.  Before the first link is loaded it is settled, too.
\<close>

inductive settled :: "hub \<times> hub_task multiset \<Rightarrow> bool" where
  start: "settled (new_hub, {#})"
| cleared: "hub_run (new_hub, {#}) (h, add_mset ClearMemo M) \<Longrightarrow> \<forall>t\<in>#M. \<not> under_way t \<Longrightarrow>
    settled (clear_memo h, add_mset ClearReverse M)"
| still: "settled s \<Longrightarrow> still_step s s' \<Longrightarrow> settled s'"

lemma settled_run: "still_step\<^sup>*\<^sup>* s s' \<Longrightarrow> settled s \<Longrightarrow> settled s'"
  by (induction rule: rtranclp_induct) (auto intro: settled.still)

lemma still_run: "still_step\<^sup>*\<^sup>* s s' \<Longrightarrow> hub_run s s'"
  by (induction rule: rtranclp_induct) (auto simp: still_step_def)

text \<open>In every run the shards stay well formed and the links symmetric.\<close>

definition hub_base :: "hub \<Rightarrow> bool" where
  "hub_base h \<longleftrightarrow> occupancy.well_sharded (hub_shards h) \<and> sym (forwards (hub_links h))"

lemma arbitrate_fields [simp]:
  "hub_links (fst (arbitrate h key speaker ts)) = hub_links h" "hub_keyCache (fst (arbitrate h key speaker ts)) = hub_keyCache h"
  "hub_groupsCache (fst (arbitrate h key speaker ts)) = hub_groupsCache h"
  by (simp_all add: arbitrate_def Let_def split: option.split)

lemma arbitrate_sharded:
  "occupancy.well_sharded (hub_shards h) \<Longrightarrow> occupancy.well_sharded (hub_shards (fst (arbitrate h key speaker ts)))"
  by (simp add: arbitrate_def Let_def occupancy.well_sharded_put split: option.split)

lemma sweep_shard_sharded:
  "occupancy.well_sharded (hub_shards h) \<Longrightarrow> occupancy.well_sharded (hub_shards (sweep_shard i t h))"
  by (cases "i < 32") (auto simp: sweep_shard_def occupancy.well_sharded_def nth_list_update lookup_filter_out)

lemma sweep_shard_fields [simp]:
  "hub_links (sweep_shard i t h) = hub_links h" "hub_keyCache (sweep_shard i t h) = hub_keyCache h"
  "hub_groupsCache (sweep_shard i t h) = hub_groupsCache h" "hub_receiverGen (sweep_shard i t h) = hub_receiverGen h"
  by (simp_all add: sweep_shard_def)

lemma task_step_base: "task_step h t h' ts \<Longrightarrow> hub_base h \<Longrightarrow> hub_base h'"
  by (induction rule: task_step.induct)
    (simp_all add: hub_base_def arbitrate_sharded sweep_shard_sharded sym_forwards_built clear_memo_def
      resetDomainGroupReverseCache_def)

lemma hub_base_update: "hub_base (h\<lparr>hub_groups := gs\<rparr>) = hub_base h"
  by (simp add: hub_base_def)

lemma hub_run_base: "hub_run (new_hub, {#}) s \<Longrightarrow> hub_base (fst s)"
proof (induction rule: rtranclp_induct)
  case base
  then show ?case using hub_ok_new by (simp add: hub_base_def hub_ok_def)
next
  case (step s s')
  from step(2,3) show ?case by (induction rule: hub_step.induct) (auto intro: task_step_base simp: hub_base_update)
qed

text \<open>While the hub is settled, what a lookup under way holds agrees with the links.\<close>

fun task_ok :: "GroupLinkCache \<Rightarrow> hub_task \<Rightarrow> bool" where
  "task_ok c (Walk g target visited queue) \<longleftrightarrow>
     collect_loop c visited queue = collectHalfDuplexDomainGroupIDs c g \<and> target \<in> {None, Some (domain_key c g)}"
| "task_ok c (Store g target ids) \<longleftrightarrow> ids = domain_groups c g \<and> target \<in> {None, Some (domain_key c g)}"
| "task_ok c (Keyed g key) \<longleftrightarrow> key = domain_key c g"
| "task_ok c _ \<longleftrightarrow> True"

lemma task_ok_idle: "\<not> under_way t \<Longrightarrow> task_ok c t"
  by (cases t) simp_all

lemma hub_ok_arbitrate: "hub_ok h \<Longrightarrow> hub_ok (fst (arbitrate h key speaker ts))"
  by (auto simp: hub_ok_def arbitrate_sharded caches_fresh_def)

lemma hub_ok_sweep_shard: "hub_ok h \<Longrightarrow> hub_ok (sweep_shard i t h)"
  using sweep_shard_sharded [of h i t] by (simp add: hub_ok_def caches_fresh_def)

lemma hub_ok_clear_memo: "hub_base h \<Longrightarrow> hub_ok (clear_memo h)"
  by (simp add: hub_base_def hub_ok_def caches_fresh_def clear_memo_def)

lemma task_step_ok:
  assumes "task_step h t h' ts" and "hub_ok h" and "task_ok (hub_links h) t" and "hub_links h' = hub_links h"
  shows "hub_ok h' \<and> (\<forall>t\<in>set ts. task_ok (hub_links h) t)"
  using assms
proof (induction rule: task_step.induct)
  case (look_hit h g key)
  then show ?case using cached_key by simp
next
  case (look_miss h g)
  then show ?case by (simp add: collectHalfDuplexDomainGroupIDs_def)
next
  case (walked h g target visited)
  then show ?case by (simp add: domain_groups_def)
next
  case (store_key h g ids)
  then show ?case using hub_ok_store by (simp add: domain_key_def)
next
  case (store_groups h g key ids)
  then show ?case using hub_ok_groupsCache by (simp add: domain_key_def)
next
  case (groups_miss h key g)
  then show ?case by (simp add: collectHalfDuplexDomainGroupIDs_def)
next
  case (swap h links)
  then show ?case by (simp add: hub_ok_def caches_fresh_def)
next
  case (clear h)
  then show ?case using hub_ok_clear_memo by (simp add: hub_base_def hub_ok_def)
qed (simp_all add: hub_ok_arbitrate hub_ok_sweep_shard resetDomainGroupReverseCache_def)

theorem settled_ok: "settled s \<Longrightarrow> hub_ok (fst s) \<and> (\<forall>t\<in>#snd s. task_ok (hub_links (fst s)) t)"
proof (induction rule: settled.induct)
  case start
  then show ?case by (simp add: hub_ok_new)
next
  case (cleared h M)
  then show ?case using hub_run_base [OF cleared(1)] by (simp add: hub_ok_clear_memo task_ok_idle)
next
  case (still s s')
  from still(2) have "hub_step s s'" "hub_links (fst s') = hub_links (fst s)" by (simp_all add: still_step_def)
  then show ?case using still.IH
    by (induction rule: hub_step.induct) (auto dest: task_step_ok simp del: task_ok.simps(1-3))
qed

definition hub_settled :: "hub \<Rightarrow> bool" where
  "hub_settled h \<longleftrightarrow> (\<exists>M. settled (h, M))"

lemma hub_settled_ok: "hub_settled h \<Longrightarrow> hub_ok h"
  using settled_ok by (auto simp: hub_settled_def)

subsection \<open>Undisturbed runs\<close>

text \<open>Run without interruption, the steps of a call are the function that models it.\<close>

lemma still_taskI: "task_step h t h' ts \<Longrightarrow> hub_links h' = hub_links h \<Longrightarrow> still_step (h, add_mset t M) (h', mset ts + M)"
  by (auto simp: still_step_def intro: hub_step.task)

lemma still_task_rtI:
  "task_step h t h' ts \<Longrightarrow> hub_links h' = hub_links h \<Longrightarrow> still_step\<^sup>*\<^sup>* (h', mset ts + M) s \<Longrightarrow> still_step\<^sup>*\<^sup>* (h, add_mset t M) s"
  using still_taskI by (meson converse_rtranclp_into_rtranclp)

lemma walk_runs: "c = hub_links h \<Longrightarrow> still_step\<^sup>*\<^sup>* (h, add_mset (Walk g target visited queue) M)
    (h, add_mset (Store g target (sort (collect_loop c visited queue))) M)"
proof (induction c visited queue rule: collect_loop.induct)
  case (1 c visited)
  show ?case by (rule still_task_rtI [OF task_step.walked]) simp_all
next
  case (2 c visited current queue)
  obtain v q where vq: "visit_peers (GetLinkedTargetGroups c current) visited queue = (v, q)" by fastforce
  show ?case
    by (rule still_task_rtI [OF task_step.walk [of h current visited queue v q]])
      (use "2.IH" [OF vq [symmetric] refl "2.prems"] "2.prems" vq in simp_all)
qed

lemma lookup_runs:
  "still_step\<^sup>*\<^sup>* (h, M) (fst (getHalfDuplexDomainKey h g), add_mset (Keyed g (snd (getHalfDuplexDomainKey h g))) M)"
proof -
  have call: "still_step\<^sup>*\<^sup>* (h, M) (h, add_mset (Look g) M)"
    by (rule r_into_rtranclp) (simp add: still_step_def hub_step.call)
  show ?thesis
  proof (cases "fmlookup (hub_keyCache h) g")
    case None
    have "still_step\<^sup>*\<^sup>* (h, add_mset (Look g) M) (h, add_mset (Store g None (domain_groups (hub_links h) g)) M)"
      by (rule still_task_rtI [OF task_step.look_miss [OF None]])
        (use walk_runs [OF refl, of h g None "[g]" "[g]" M] in
          \<open>simp_all add: domain_groups_def collectHalfDuplexDomainGroupIDs_def del: collect_loop.simps\<close>)
    moreover have "still_step\<^sup>*\<^sup>* (h, add_mset (Store g None (domain_groups (hub_links h) g)) M)
        (fst (getHalfDuplexDomainKey h g), add_mset (Keyed g (snd (getHalfDuplexDomainKey h g))) M)"
      by (rule still_task_rtI [OF task_step.store_key]) (simp_all add: getHalfDuplexDomainKey_def None Let_def)
    ultimately show ?thesis using call by (meson rtranclp_trans)
  next
    case (Some key)
    have "still_step\<^sup>*\<^sup>* (h, add_mset (Look g) M) (h, add_mset (Keyed g key) M)"
      by (rule still_task_rtI [OF task_step.look_hit [OF Some]]) simp_all
    with call show ?thesis by (simp add: getHalfDuplexDomainKey_def Some)
  qed
qed

lemma sweep_runs:
  "i \<le> 32 \<Longrightarrow> length (hub_shards h) = 32 \<Longrightarrow> still_step\<^sup>*\<^sup>* (h, add_mset (Sweep i t) M)
    (h\<lparr>hub_shards := take i (hub_shards h) @ map (fm_filter_out (\<lambda>_ state. hds_lastVoiceAt state < t)) (drop i (hub_shards h)),
      hub_receiverGen := hub_receiverGen h + 1\<rparr>, M)"
proof (induction "32 - i" arbitrary: i h)
  case 0
  then have "i = 32" by simp
  then show ?case using 0 by (auto intro: still_task_rtI [OF task_step.swept])
next
  case (Suc n)
  then have i: "i < 32" by simp
  let ?f = "fm_filter_out (\<lambda>_ state. hds_lastVoiceAt state < t)"
  have "take (Suc i) (hub_shards (sweep_shard i t h)) @ map ?f (drop (Suc i) (hub_shards (sweep_shard i t h))) =
      take i (hub_shards h) @ map ?f (drop i (hub_shards h))"
    using i Suc.prems(2) by (simp add: sweep_shard_def take_Suc_conv_app_nth Cons_nth_drop_Suc [symmetric] take_update_cancel)
  moreover note Suc.hyps(1) [of "Suc i" "sweep_shard i t h"]
  ultimately show ?case
    using Suc i by (intro still_task_rtI [OF task_step.sweep [OF i]]) (simp_all add: sweep_shard_def)
qed

lemma refresh_runs:
  assumes "length (hub_shards h) = 32"
  shows "hub_run (h, M) (h\<lparr>hub_links := build_link_cache (hub_groups h) links\<rparr>, add_mset ClearMemo M)"
    and "still_step\<^sup>*\<^sup>* (clear_memo (h\<lparr>hub_links := build_link_cache (hub_groups h) links\<rparr>), add_mset ClearReverse M)
      (refreshGroupLinkCache clock h (Inr links :: 'e + group_link list), M)"
proof -
  show "hub_run (h, M) (h\<lparr>hub_links := build_link_cache (hub_groups h) links\<rparr>, add_mset ClearMemo M)"
    using hub_step.refresh [of h M links] hub_step.task [OF task_step.swap [of h links], of M]
    by (simp add: converse_rtranclp_into_rtranclp r_into_rtranclp)
  let ?h = "clear_memo (h\<lparr>hub_links := build_link_cache (hub_groups h) links\<rparr>)"
  have "still_step\<^sup>*\<^sup>* (resetDomainGroupReverseCache ?h, add_mset (Sweep 0 (clock + - (3 * halfDuplexVoiceHoldTimeout))) M)
      (refreshGroupLinkCache clock h (Inr links :: 'e + group_link list), M)"
    using sweep_runs [of 0 "resetDomainGroupReverseCache ?h" "clock + - (3 * halfDuplexVoiceHoldTimeout)" M] assms
    by (simp add: refreshGroupLinkCache_def resetHalfDuplexDomainCache_def resetDomainGroupReverseCache_def clear_memo_def Let_def
        sh_sweep_def)
  then show "still_step\<^sup>*\<^sup>* (?h, add_mset ClearReverse M) (refreshGroupLinkCache clock h (Inr links :: 'e + group_link list), M)"
    by (intro still_task_rtI [OF task_step.clear_reverse [of _ clock]]) (simp_all add: resetDomainGroupReverseCache_def)
qed

lemma refresh_run:
  assumes "length (hub_shards h) = 32"
  shows "hub_run (h, M) (refreshGroupLinkCache clock h (Inr links :: 'e + group_link list), M)"
proof -
  note refresh_runs(1) [OF assms, of M links]
  also have "hub_run (h\<lparr>hub_links := build_link_cache (hub_groups h) links\<rparr>, add_mset ClearMemo M)
      (clear_memo (h\<lparr>hub_links := build_link_cache (hub_groups h) links\<rparr>), add_mset ClearReverse M)"
    using hub_step.task [OF task_step.clear, of "h\<lparr>hub_links := build_link_cache (hub_groups h) links\<rparr>" M] by simp
  also note still_run [OF refresh_runs(2) [OF assms, of links M clock]]
  finally show ?thesis .
qed

subsection \<open>The arbiter of a domain\<close>

type_synonym voice_request = "time \<times> int \<times> halfDuplexSpeaker \<times> time"

definition voice_step :: "hub \<Rightarrow> voice_request \<Rightarrow> hub \<times> bool" where
  "voice_step h = (\<lambda>(clock, g, speaker, ts). tryAcquireHalfDuplex clock h g speaker ts)"

definition voice_speaker :: "voice_request \<Rightarrow> u64" where
  "voice_speaker = (\<lambda>(clock, g, speaker, ts). spk_key speaker)"

definition voice_time :: "voice_request \<Rightarrow> time" where
  "voice_time = (\<lambda>(clock, g, speaker, ts). or_now clock ts)"

text \<open>The request is an identified speaker's in a group of the domain of \<open>d\<close>.\<close>

definition voice_in_domain :: "GroupLinkCache \<Rightarrow> int \<Rightarrow> voice_request \<Rightarrow> bool" where
  "voice_in_domain c d = (\<lambda>(clock, g, speaker, ts).
     0 < g \<and> spk_key speaker \<noteq> 0 \<and> domain_groups c g = domain_groups c d)"

definition voice_holder :: "GroupLinkCache \<Rightarrow> int \<Rightarrow> hub \<Rightarrow> time \<Rightarrow> u64 option" where
  "voice_holder c d h t =
     (case sh_get halfDuplexShardIndex (hub_shards h) (domain_key c d) of
        None \<Rightarrow> None
      | Some state \<Rightarrow> if halfDuplexVoiceHoldTimeout < t - hds_lastVoiceAt state then None else Some (spk_key (hds_speaker state)))"

definition hub_linked :: "GroupLinkCache \<Rightarrow> hub \<Rightarrow> bool" where
  "hub_linked c h \<longleftrightarrow> hub_ok h \<and> hub_links h = c"

lemma holder_simps:
  assumes "hub_ok h"
  shows "voice_holder c d ((fst (getHalfDuplexDomainKey h g))\<lparr>hub_shards := s\<rparr>) t =
      (case sh_get halfDuplexShardIndex s (domain_key c d) of
        None \<Rightarrow> None
      | Some state \<Rightarrow> if halfDuplexVoiceHoldTimeout < t - hds_lastVoiceAt state then None else Some (spk_key (hds_speaker state)))"
  by (simp add: voice_holder_def)

interpretation voice: voice_arbiter voice_step voice_speaker voice_time "voice_holder c d" halfDuplexVoiceHoldTimeout
  "hub_linked c" "voice_in_domain c d" for c d
proof unfold_locales
  fix c d h t and r :: voice_request
  assume h: "hub_linked c h"
  obtain clock g speaker ts where r: "r = (clock, g, speaker, ts)" by (cases r)
  note defs = r voice_step_def voice_speaker_def voice_time_def voice_in_domain_def
  have ok: "hub_ok h" "hub_links h = c" using h by (simp_all add: hub_linked_def)
  note w = hub_ok_sharded [OF ok(1)]
  show "hub_linked c (fst (voice_step h r))" using tryAcquire_ok [OF ok(1)] ok by (simp add: hub_linked_def defs)
  show "voice_holder c d (fst (voice_step h r)) t = voice_holder c d h t" if "\<not> snd (voice_step h r)"
  proof -
    have v: "0 < g" "spk_key speaker \<noteq> 0" using that tryAcquire_open [of g speaker clock h ts] by (auto simp: defs not_le [symmetric])
    from ok(1) v refl refl show ?thesis
      by (cases rule: tryAcquire_cases [of h g speaker _ _ clock ts])
        (use that w in \<open>auto simp: defs voice_holder_def occupancy.get_put getKey ok simp del: domain_key_eq\<close>)
  qed
  assume valid: "voice_in_domain c d r"
  then have v: "0 < g" "spk_key speaker \<noteq> 0" and key: "domain_key (hub_links h) g = domain_key c d"
    using ok by (simp_all add: defs)
  show "voice_holder c d h (voice_time r) \<in> {None, Some (voice_speaker r)}" if "snd (voice_step h r)"
    using ok(1) v refl refl that
    by (cases rule: tryAcquire_cases [of h g speaker _ _ clock ts])
      (use key in \<open>auto simp: defs voice_holder_def split: option.split\<close>)
  show "snd (voice_step h r)" if "voice_holder c d h (voice_time r) = None"
    using ok(1) v refl refl that
    by (cases rule: tryAcquire_cases [of h g speaker _ _ clock ts])
      (use key in \<open>auto simp: defs voice_holder_def\<close>)
  show "voice_holder c d (fst (voice_step h r)) t =
      (if t - voice_time r \<le> halfDuplexVoiceHoldTimeout then Some (voice_speaker r) else None)"
    if "snd (voice_step h r)" "voice_time r \<le> t"
    using ok(1) v refl refl that
    by (cases rule: tryAcquire_cases [of h g speaker _ _ clock ts])
      (use key w in \<open>auto simp: defs voice_holder_def occupancy.get_put\<close>)
qed

subsection \<open>Properties\<close>

text \<open>C1: Half duplex holds across linked groups.  When a voice packet of an identified speaker is let
  through in some group of a domain and every further one is blocked, a packet of a different
  speaker, from whichever group of the domain, is let through precisely when more than 900
  milliseconds have passed since the first.  The memo tables of the hub agree with its links, as
  in every settled state, and the links do not change in between.\<close>

theorem half_duplex_exclusive:
  assumes "hub_linked c h" and "voice_step h r = (h1, True)" and "accept_all voice_step h1 rs = (h2, verdicts)"
    and "taken rs verdicts = []" and "voice_in_domain c d r" and "voice_in_domain c d r'"
    and "voice_time r \<le> voice_time r'" and "voice_speaker r' \<noteq> voice_speaker r"
  shows "snd (voice_step h2 r') \<longleftrightarrow> halfDuplexVoiceHoldTimeout < voice_time r' - voice_time r"
  using voice.exclusive [of c h d r rs r'] assms by simp

definition sample_links :: "group_link list" where
  "sample_links = [\<lparr>gl_LinkGroupID = 10, gl_TargetGroupID = 1\<rparr>, \<lparr>gl_LinkGroupID = 10, gl_TargetGroupID = 2\<rparr>]"

definition sample_groups :: "(int, group) fmap" where
  "sample_groups = fmap_of_list [(1, \<lparr>grp_ID = 1, grp_Status = 1, grp_IsVirtual = False\<rparr>),
     (2, \<lparr>grp_ID = 2, grp_Status = 1, grp_IsVirtual = False\<rparr>), (10, \<lparr>grp_ID = 10, grp_Status = 1, grp_IsVirtual = True\<rparr>)]"

definition sample_hub :: hub where
  "sample_hub = refreshGroupLinkCache 0 (new_hub\<lparr>hub_groups := sample_groups\<rparr>) (Inr sample_links :: unit + group_link list)"

lemma sample_hub_links: "hub_links sample_hub = build_link_cache sample_groups sample_links"
  by (simp add: sample_hub_def refreshGroupLinkCache_def resetHalfDuplexDomainCache_def resetDomainGroupReverseCache_def Let_def)

lemma new_hub_shards [simp]: "length (hub_shards (new_hub\<lparr>hub_groups := gs\<rparr>)) = 32"
  by (simp add: new_hub_def)

lemma sample_hub_settled: "hub_settled sample_hub"
proof -
  let ?h = "new_hub\<lparr>hub_groups := sample_groups\<rparr>"
  have "hub_run (new_hub, {#}) (?h, {#})" by (rule r_into_rtranclp) (rule hub_step.new_groups)
  then have "hub_run (new_hub, {#}) (?h\<lparr>hub_links := build_link_cache (hub_groups ?h) sample_links\<rparr>, {#ClearMemo#})"
    by (rule rtranclp_trans) (rule refresh_runs(1) [OF new_hub_shards])
  then have "settled (clear_memo (?h\<lparr>hub_links := build_link_cache (hub_groups ?h) sample_links\<rparr>), {#ClearReverse#})"
    by (rule settled.cleared) simp
  then have "settled (sample_hub, {#})"
    unfolding sample_hub_def by (rule settled_run [OF refresh_runs(2) [OF new_hub_shards]])
  then show ?thesis by (auto simp: hub_settled_def)
qed

lemma sample_domain: "domain_groups (hub_links sample_hub) 1 = [1, 2]" "domain_groups (hub_links sample_hub) 2 = [1, 2]"
  unfolding sample_hub_links by code_simp+

lemma sample_hub_linked: "hub_linked (hub_links sample_hub) sample_hub"
  using hub_settled_ok [OF sample_hub_settled] by (simp add: hub_linked_def)

lemma sample_hub_silent: "voice_holder c d sample_hub t = None"
proof -
  have "hub_shards sample_hub = fst (sh_sweep (\<lambda>_ state. hds_lastVoiceAt state < - 2700000000) (replicate 32 fmempty))"
    by (simp add: sample_hub_def refreshGroupLinkCache_def resetHalfDuplexDomainCache_def resetDomainGroupReverseCache_def
        new_hub_def Let_def)
  then show ?thesis by (simp add: voice_holder_def occupancy.get_sweep occupancy.well_sharded_empty occupancy.get_empty)
qed

definition sample_voice :: "int \<Rightarrow> u64 \<Rightarrow> time \<Rightarrow> voice_request" where
  "sample_voice g key ts = (0, g, \<lparr>spk_key = key, spk_labelBase = ''BG1ABC'', spk_ssid = 7\<rparr>, ts)"

lemma sample_voice_in_domain:
  "key \<noteq> 0 \<Longrightarrow> g \<in> {1, 2} \<Longrightarrow> voice_in_domain (hub_links sample_hub) 1 (sample_voice g key ts)"
  using sample_domain by (auto simp: voice_in_domain_def sample_voice_def)

theorem half_duplex_exclusive_witness:
  "\<exists>h1. voice_step sample_hub (sample_voice 1 5 1000000000) = (h1, True) \<and>
     snd (voice_step h1 (sample_voice 2 6 2000000000)) \<and> \<not> snd (voice_step h1 (sample_voice 2 6 1900000000))"
proof -
  let ?c = "hub_links sample_hub" and ?r = "sample_voice 1 5 1000000000"
  have t: "voice_time (sample_voice g k 1000000000) = 1000000000" "voice_time (sample_voice g k 1900000000) = 1900000000"
    "voice_time (sample_voice g k 2000000000) = 2000000000" "voice_speaker (sample_voice g k ts) = k" for g k ts
    by (simp_all add: voice_time_def voice_speaker_def sample_voice_def or_now_def zero_time_def)
  have v: "voice_in_domain ?c 1 ?r" "voice_in_domain ?c 1 (sample_voice 2 6 ts)" for ts by (simp_all add: sample_voice_in_domain)
  obtain h1 where h1: "voice_step sample_hub ?r = (h1, True)"
    using voice.try_free [OF sample_hub_linked v(1)] sample_hub_silent by (metis prod.collapse)
  from half_duplex_exclusive [OF sample_hub_linked h1, of "[]" h1 "[]" 1 "sample_voice 2 6 2000000000"]
    half_duplex_exclusive [OF sample_hub_linked h1, of "[]" h1 "[]" 1 "sample_voice 2 6 1900000000"] h1 v t
  show ?thesis by (simp add: taken_def)
qed

text \<open>C14: The domain of a group is what the links say.  From the moment a refresh clears the memo tables
  while no lookup is under way, until the link table changes, however lookups and other refreshes
  are interleaved: the domain of a group consists of the groups connected to it through enabled
  virtual groups, listed in order without repetition; two groups share a domain key, hence their
  occupancy, precisely when they are connected; and every lookup that has ended holds that key.\<close>

theorem half_duplex_domains:
  assumes "settled (h, M)" and "hub_links h = build_link_cache groups links"
  shows "set (snd (GetHalfDuplexDomainGroupIDs h g)) = {g'. (linked groups links)\<^sup>*\<^sup>* g g'} \<and>
    sorted (snd (GetHalfDuplexDomainGroupIDs h g)) \<and> distinct (snd (GetHalfDuplexDomainGroupIDs h g)) \<and>
    (snd (getHalfDuplexDomainKey h g) = snd (getHalfDuplexDomainKey h g') \<longleftrightarrow> (linked groups links)\<^sup>*\<^sup>* g g') \<and>
    (\<forall>i key. Keyed i key \<in># M \<longrightarrow> key = snd (getHalfDuplexDomainKey h i))"
proof -
  note ok = settled_ok [OF assms(1), simplified, THEN conjunct1]
  have E: "(forwards (hub_links h))\<^sup>* = {(a, b). (linked groups links)\<^sup>*\<^sup>* a b}"
    using rtranclp_rtrancl_eq [of "linked groups links"] by (auto simp: assms(2) forwards_built)
  have "sym (forwards (hub_links h))" by (simp add: assms(2) sym_forwards_built)
  from same_domain_iff [OF this, of g g'] settled_ok [OF assms(1)] show ?thesis
    by (auto simp: getGroups [OF ok] getKey [OF ok] set_domain_groups E Image_def)
qed

text \<open>Two lookups of linked groups, one of them ended.\<close>

theorem half_duplex_domains_witness:
  "\<exists>h M. settled (h, M) \<and> hub_links h = build_link_cache sample_groups sample_links \<and> Keyed 1 ''1,2'' \<in># M \<and> Look 2 \<in># M \<and>
     snd (GetHalfDuplexDomainGroupIDs h 1) = [1, 2] \<and> snd (getHalfDuplexDomainKey h 2) = ''1,2'' \<and>
     (linked sample_groups sample_links)\<^sup>*\<^sup>* 1 2"
proof -
  obtain M where M: "settled (sample_hub, M)" using sample_hub_settled by (auto simp: hub_settled_def)
  have key: "encodeHalfDuplexDomainKey [1, 2] = ''1,2''"
    by (simp add: encodeHalfDuplexDomainKey_def itoa_def nat_digits.simps digit_char_def)
  let ?h = "fst (getHalfDuplexDomainKey sample_hub 1)" and ?M = "add_mset (Look 2) (add_mset (Keyed 1 ''1,2'') M)"
  note ok = hub_settled_ok [OF sample_hub_settled]
  have k: "snd (getHalfDuplexDomainKey sample_hub 1) = ''1,2''"
    using getKey(1) [OF ok, of 1] sample_domain key by (simp add: domain_key_def)
  have "settled (?h, add_mset (Keyed 1 ''1,2'') M)"
    using settled_run [OF lookup_runs M, of 1] k by simp
  then have s: "settled (?h, ?M)"
    by (rule settled.still) (simp add: still_step_def hub_step.call)
  have links: "hub_links ?h = build_link_cache sample_groups sample_links"
    using getKey(3) [OF ok] sample_hub_links by simp
  have ok': "hub_ok ?h" using settled_ok [OF s] by simp
  from half_duplex_domains [OF s links, of 1 2] s links getGroups(1) [OF ok', of 1] getKey(1) [OF ok', of 2] sample_domain key
    getKey(3) [OF ok, of 1] getKey(1) [OF ok', of 1]
  show ?thesis by (intro exI [of _ ?h] exI [of _ ?M]) (simp add: domain_key_def)
qed

text \<open>The condition is needed.  When a refresh falls between the walk of a lookup and its store, the old
  key is stored in the new tables, and with all calls ended groups that are no longer linked go
  on blocking each other, until the next refresh.\<close>

theorem stale_domain_after_refresh:
  "\<exists>h. hub_run (new_hub, {#}) (h, {#}) \<and> snd (getHalfDuplexDomainKey h 1) = snd (getHalfDuplexDomainKey h 2) \<and>
     domain_groups (hub_links h) 1 = [1] \<and> domain_groups (hub_links h) 2 = [2]"
proof -
  let ?h' = "refreshGroupLinkCache 1 sample_hub (Inr [] :: unit + group_link list)"
  let ?t = "Store 1 None (domain_groups (hub_links sample_hub) 1)"
  have shards: "length (hub_shards sample_hub) = 32"
    using hub_settled_ok [OF sample_hub_settled] by (simp add: hub_ok_def occupancy.well_sharded_def)
  have "hub_run (new_hub, {#}) (new_hub\<lparr>hub_groups := sample_groups\<rparr>, {#})" by (rule r_into_rtranclp) (rule hub_step.new_groups)
  also have "hub_run \<dots> (sample_hub, {#})" unfolding sample_hub_def by (rule refresh_run [OF new_hub_shards])
  also have "hub_run \<dots> (sample_hub, {#Look 1#})" by (rule r_into_rtranclp) (rule hub_step.call)
  also have "hub_run \<dots> (sample_hub, {#Walk 1 None [1] [1]#})"
    using hub_step.task [OF task_step.look_miss, of sample_hub 1 "{#}"]
    by (simp add: sample_hub_def refreshGroupLinkCache_def resetHalfDuplexDomainCache_def resetDomainGroupReverseCache_def Let_def)
  also have "hub_run \<dots> (sample_hub, {#?t#})"
    using still_run [OF walk_runs [OF refl, of sample_hub 1 None "[1]" "[1]" "{#}"]]
    by (simp add: domain_groups_def collectHalfDuplexDomainGroupIDs_def del: collect_loop.simps)
  also have "hub_run \<dots> (?h', {#?t#})" by (rule refresh_run [OF shards])
  also have "hub_run \<dots> (store_domain ?h' (domain_groups (hub_links sample_hub) 1), {#})"
    using hub_step.task [OF task_step.store_key, of ?h' 1 "domain_groups (hub_links sample_hub) 1" "{#}"]
      hub_step.task [OF task_step.answered, of "store_domain ?h' (domain_groups (hub_links sample_hub) 1)" 1 _ "{#}"]
    by (simp add: converse_rtranclp_into_rtranclp r_into_rtranclp)
  finally have run: "hub_run (new_hub, {#}) (store_domain ?h' (domain_groups (hub_links sample_hub) 1), {#})" .
  have "hub_links ?h' = build_link_cache (hub_groups sample_hub) []"
    by (simp add: refreshGroupLinkCache_def resetHalfDuplexDomainCache_def resetDomainGroupReverseCache_def Let_def)
  then have "\<not> linked (hub_groups sample_hub) [] a b" "forwards (hub_links ?h') = {}" for a b
    by (simp_all add: linked_def forwards_built)
  then have "set (domain_groups (hub_links ?h') g) = set [g]" for g by (simp add: set_domain_groups)
  then have "domain_groups (hub_links ?h') g = [g]" for g
    using sorted_distinct_set_unique [of "domain_groups (hub_links ?h') g" "[g]"] by simp
  with run show ?thesis
    by (intro exI [of _ "store_domain ?h' (domain_groups (hub_links sample_hub) 1)"])
      (simp add: getHalfDuplexDomainKey_def store_domain_def lookup_store_keys sample_domain Let_def)
qed

text \<open>The communication domain ID under which leases and relayed frames travel is a 32-bit hash of the
  domain key, and unrelated domains can share it.\<close>

theorem domain_id_collision:
  "snd (GetCommunicationDomainID new_hub 40189) = snd (GetCommunicationDomainID new_hub 797186) \<and>
   snd (getHalfDuplexDomainKey new_hub 40189) \<noteq> snd (getHalfDuplexDomainKey new_hub 797186)"
proof -
  have key: "domain_groups (hub_links new_hub) g = [g]" for g
  proof -
    have "set (domain_groups (hub_links new_hub) g) = set [g]"
      by (simp add: set_domain_groups new_hub_def empty_link_cache_def forwards_def GetLinkedTargetGroups_def)
    then show ?thesis using sorted_distinct_set_unique [of "domain_groups (hub_links new_hub) g" "[g]"] by simp
  qed
  have "itoa 40189 = ''40189''" "itoa 797186 = ''797186''"
    by (simp_all add: itoa_def nat_digits.simps digit_char_def)
  then have "fnv32a (itoa 40189) = fnv32a (itoa 797186)"
    by (simp add: fnv32a_def bytes_of_def byte_of_def)
  then show ?thesis
    by (simp add: domainID_ok [OF hub_ok_new] getKey [OF hub_ok_new] domain_key_def key encodeHalfDuplexDomainKey_def Let_def
        itoa_nonempty)
qed

end
