(* ===== verification/Ghost_Session.thy ===== *)
theory Ghost_Session
  imports Go_Base
begin

section \<open>Ghost sessions (\<open>internal/ghostsession/session.go\<close>)\<close>

text \<open>
  Software clients without hardware of their own ("ghosts") have sessions: an identity, a transmit
  group and a set of receive groups.  \<^verbatim>\<open>uuid.Parse\<close> is the argument \<open>parse\<close>, which returns the
  canonical text of the parsed identifier; the case tables of \<^verbatim>\<open>strings.ToLower\<close> are \<open>uni\<close>.
\<close>

datatype ghost_error =
    ErrInvalidClientInstance
  | ErrInvalidRouting
  | ErrSessionNotFound
  | ErrSessionConflict
  | ErrSessionLimit int int
  | ErrSubscriptionLimit nat int
  | ErrRequiredCapabilities string
  | ErrPTTActive
  | OwnerTransportRequired
  | SessionTagCollision
  | RandomSourceError
  | ResolverRequired
  | CallbackError string
  | JoinedError string "string option"

definition StableErrorCode :: "ghost_error \<Rightarrow> string" where
  "StableErrorCode err =
     (case err of
        ErrSessionLimit _ _ \<Rightarrow> ''ghost_session_limit''
      | ErrSubscriptionLimit _ _ \<Rightarrow> ''subscription_limit''
      | ErrRequiredCapabilities _ \<Rightarrow> ''ghost_capabilities_required''
      | ErrInvalidClientInstance \<Rightarrow> ''invalid_client_instance_id''
      | ErrInvalidRouting \<Rightarrow> ''invalid_routing''
      | ErrSessionNotFound \<Rightarrow> ''session_not_found''
      | ErrSessionConflict \<Rightarrow> ''session_conflict''
      | ErrPTTActive \<Rightarrow> ''ptt_active''
      | _ \<Rightarrow> ''ghost_session_registration_failed'')"

abbreviation (input) CapabilityMultiReceiveV1 :: string where "CapabilityMultiReceiveV1 \<equiv> ''multi_receive_v1''"
abbreviation (input) CapabilitySourceGroupV1 :: string where "CapabilitySourceGroupV1 \<equiv> ''source_group_v1''"
abbreviation (input) PTTHoldTimeout :: duration where "PTTHoldTimeout \<equiv> millis 900"
abbreviation (input) uuid_Nil :: string where "uuid_Nil \<equiv> ''00000000-0000-0000-0000-000000000000''"

record Routing =
  rt_TxGroupID :: int
  rt_RxGroupIDs :: "int list"

lemma routing_eta [simp]: "\<lparr>rt_TxGroupID = rt_TxGroupID r, rt_RxGroupIDs = rt_RxGroupIDs r\<rparr> = (r :: Routing)"
  by simp

definition NormalizeRouting :: "Routing \<Rightarrow> int \<Rightarrow> ghost_error + Routing" where
  "NormalizeRouting routing maxSubscriptions =
     (if rt_TxGroupID routing \<le> 0 then Inl ErrInvalidRouting
      else if \<exists>groupID \<in> set (rt_RxGroupIDs routing). groupID \<le> 0 then Inl ErrInvalidRouting
      else
        let groups = List.insert (rt_TxGroupID routing) (remdups (rt_RxGroupIDs routing))
        in if 0 < maxSubscriptions \<and> maxSubscriptions < int (length groups)
           then Inl (ErrSubscriptionLimit (length groups) maxSubscriptions)
           else Inr \<lparr>rt_TxGroupID = rt_TxGroupID routing, rt_RxGroupIDs = sort groups\<rparr>)"

definition NormalizeClientInstanceID ::
  "(string \<Rightarrow> string option) \<Rightarrow> (string \<Rightarrow> string) \<Rightarrow> string \<Rightarrow> ghost_error + string" where
  "NormalizeClientInstanceID parse uni raw =
     (let raw = trim_space raw
      in if raw = [] then Inl ErrInvalidClientInstance
         else case parse raw of
                None \<Rightarrow> Inl ErrInvalidClientInstance
              | Some parsed \<Rightarrow>
                  if parsed = uuid_Nil then Inl ErrInvalidClientInstance else Inr (to_lower uni parsed))"

text \<open>\<^verbatim>\<open>sort.SearchStrings\<close>: binary search for the first index whose string is not below \<open>x\<close>.\<close>

function search_loop :: "string list \<Rightarrow> string \<Rightarrow> nat \<Rightarrow> nat \<Rightarrow> nat" where
  "search_loop a x i j =
     (if i < j then
        let h = (i + j) div 2
        in if a ! h < x then search_loop a x (h + 1) j else search_loop a x i h
      else i)"
  by pat_completeness auto
termination
  by (relation "measure (\<lambda>(a, x, i, j). j - i)") auto

declare search_loop.simps [simp del]

definition SearchStrings :: "string list \<Rightarrow> string \<Rightarrow> nat" where
  "SearchStrings a x = search_loop a x 0 (length a)"

definition has_string :: "string list \<Rightarrow> string \<Rightarrow> bool" where
  "has_string a x = (let index = SearchStrings a x in index < length a \<and> a ! index = x)"

definition normalizeCapabilities :: "(string \<Rightarrow> string) \<Rightarrow> string list \<Rightarrow> string list" where
  "normalizeCapabilities uni capabilities =
     sort (remdups (filter (\<lambda>c. c \<noteq> []) (map (\<lambda>c. to_lower uni (trim_space c)) capabilities)))"

definition ValidateCapabilities :: "(string \<Rightarrow> string) \<Rightarrow> string list \<Rightarrow> ghost_error option" where
  "ValidateCapabilities uni capabilities =
     (let normalized = normalizeCapabilities uni capabilities
      in map_option ErrRequiredCapabilities
           (find (\<lambda>required. \<not> has_string normalized required) [CapabilityMultiReceiveV1, CapabilitySourceGroupV1]))"

record Session =
  ss_SessionID :: string
  ss_SessionTag :: u32
  ss_ClientInstanceID :: string
  ss_OwnerID :: int
  ss_Username :: string
  ss_CallSign :: string
  ss_Nickname :: string
  ss_DevModel :: byte
  ss_SSID :: byte
  ss_Transport :: string
  ss_Endpoint :: string
  ss_ProtocolVersion :: u16
  ss_Capabilities :: "string list"
  ss_CreatedAt :: time
  ss_LastActivity :: time
  ss_Connected :: bool
  ss_TxGroupID :: int
  ss_RxGroupIDs :: "int list"
  ss_DisableSend :: bool
  ss_DisableRecv :: bool

definition Session_Routing :: "Session \<Rightarrow> Routing" where
  "Session_Routing s = \<lparr>rt_TxGroupID = ss_TxGroupID s, rt_RxGroupIDs = ss_RxGroupIDs s\<rparr>"

definition HasCapability :: "(string \<Rightarrow> string) \<Rightarrow> Session \<Rightarrow> string \<Rightarrow> bool" where
  "HasCapability uni s capability = has_string (ss_Capabilities s) (to_lower uni (trim_space capability))"

subsection \<open>Routing and capabilities\<close>

text \<open>What every stored routing satisfies.\<close>

definition routing_ok :: "int \<Rightarrow> Routing \<Rightarrow> bool" where
  "routing_ok maxSubscriptions r \<longleftrightarrow>
     0 < rt_TxGroupID r \<and> rt_TxGroupID r \<in> set (rt_RxGroupIDs r) \<and> (\<forall>g \<in> set (rt_RxGroupIDs r). 0 < g) \<and>
     sorted (rt_RxGroupIDs r) \<and> distinct (rt_RxGroupIDs r) \<and>
     (0 < maxSubscriptions \<longrightarrow> int (length (rt_RxGroupIDs r)) \<le> maxSubscriptions)"

lemma normalized_routing:
  assumes "NormalizeRouting r n = Inr r'"
  shows "routing_ok n r'" "rt_TxGroupID r' = rt_TxGroupID r"
    "set (rt_RxGroupIDs r') = insert (rt_TxGroupID r) (set (rt_RxGroupIDs r))"
  using assms by (auto simp: NormalizeRouting_def routing_ok_def Let_def not_le split: if_splits)

lemma NormalizeRouting_id: "routing_ok n r \<Longrightarrow> NormalizeRouting r n = Inr r"
  by (auto simp: NormalizeRouting_def routing_ok_def Let_def not_less distinct_remdups_id List.insert_def sorted_sort_id)

lemma search_loop_bound:
  assumes "sorted a" and "i \<le> j" and "j \<le> length a" and "\<forall>k < i. a ! k < x" and "\<forall>k. j \<le> k \<longrightarrow> k < length a \<longrightarrow> x \<le> a ! k"
  shows "search_loop a x i j \<le> length a \<and> (\<forall>k < search_loop a x i j. a ! k < x) \<and>
    (\<forall>k. search_loop a x i j \<le> k \<longrightarrow> k < length a \<longrightarrow> x \<le> a ! k)"
  using assms
proof (induction a x i j rule: search_loop.induct)
  case (1 a x i j)
  show ?case
  proof (cases "i < j")
    case False
    with "1.prems"(2) have "search_loop a x i j = i" "i = j" by (simp_all add: search_loop.simps)
    with "1.prems"(3,4,5) show ?thesis by simp
  next
    case True
    define h where "h = (i + j) div 2"
    have h: "i \<le> h" "h < j" "h < length a" using True "1.prems"(3) by (auto simp: h_def)
    show ?thesis
    proof (cases "a ! h < x")
      case below: True
      then have "\<forall>k < h + 1. a ! k < x"
        using "1.prems"(1) h sorted_nth_mono [of a _ h] by (metis Suc_eq_plus1 le_less_trans less_Suc_eq_le)
      moreover have "search_loop a x i j = search_loop a x (h + 1) j"
        using True below by (subst search_loop.simps) (simp add: h_def [symmetric])
      ultimately show ?thesis
        using "1.IH"(1) [OF True h_def below "1.prems"(1)] "1.prems"(3,5) h(2) by simp
    next
      case above: False
      then have up: "\<forall>k. h \<le> k \<longrightarrow> k < length a \<longrightarrow> x \<le> a ! k"
        using sorted_nth_mono [OF "1.prems"(1), of h] by (meson not_less order_trans)
      have step: "search_loop a x i j = search_loop a x i h"
        using True above by (subst search_loop.simps) (simp add: h_def [symmetric])
      show ?thesis unfolding step
        by (rule "1.IH"(2) [OF True h_def above "1.prems"(1) h(1) less_imp_le [OF h(3)] "1.prems"(4) up])
    qed
  qed
qed

lemma has_string_iff: "sorted a \<Longrightarrow> has_string a x \<longleftrightarrow> x \<in> set a"
proof -
  assume a: "sorted a"
  let ?i = "SearchStrings a x"
  have b: "\<forall>k < ?i. a ! k < x" "\<forall>k. ?i \<le> k \<longrightarrow> k < length a \<longrightarrow> x \<le> a ! k"
    using search_loop_bound [OF a, of 0 "length a" x] by (simp_all add: SearchStrings_def)
  show ?thesis
  proof
    assume "x \<in> set a"
    then obtain k where k: "k < length a" "a ! k = x" by (auto simp: in_set_conv_nth)
    then have "?i \<le> k" using b(1) by (metis less_irrefl not_le)
    with k have "?i < length a" "a ! ?i \<le> x" using sorted_nth_mono [OF a, of ?i k] by auto
    with b(2) show "has_string a x" by (simp add: has_string_def Let_def order_antisym)
  qed (metis has_string_def nth_mem)
qed

lemma capabilities_sorted [simp]: "sorted (normalizeCapabilities uni cs)" "distinct (normalizeCapabilities uni cs)"
  by (simp_all add: normalizeCapabilities_def)

lemma ValidateCapabilities_iff:
  "ValidateCapabilities uni cs = None \<longleftrightarrow>
     {CapabilityMultiReceiveV1, CapabilitySourceGroupV1} \<subseteq> set (normalizeCapabilities uni cs)"
  by (auto simp: ValidateCapabilities_def Let_def has_string_iff)

end
