(* ===== verification/Ghost_Registry.thy ===== *)
theory Ghost_Registry
  imports Ghost_Session Shards "HOL-Library.Product_Lexorder"
begin

section \<open>The registry of ghost sessions (\<open>internal/ghostsession/registry.go\<close>)\<close>

text \<open>
  The registry indexes the live sessions by session ID, owner, client instance and tag.  Every
  operation that changes which sessions exist or where they are routed holds \<^verbatim>\<open>mutationMu\<close>
  throughout, so each is one step.  The callbacks a transport installs and the database callback
  of a routing update are arguments; the operations return the calls they make, in order, as
  events.  \<^verbatim>\<open>uuid.NewString\<close> is the argument \<open>newID\<close>, the random source of tags \<open>rand\<close>, whose
  i-th reading is four bytes or fails.
\<close>

abbreviation (input) DefaultMaxSessionsPerOwner :: int where "DefaultMaxSessionsPerOwner \<equiv> 8"
abbreviation (input) DefaultMaxSubscriptions :: int where "DefaultMaxSubscriptions \<equiv> 16"

text \<open>\<open>ctl_ApplyRouting\<close> fails with a message or succeeds; \<open>ctl_Disconnect\<close> tells whether the callback is set.\<close>

record Controller =
  ctl_ApplyRouting :: "(Routing \<Rightarrow> string option) option"
  ctl_Disconnect :: bool

record Registration =
  rg_ClientInstanceID :: string
  rg_OwnerID :: int
  rg_Username :: string
  rg_CallSign :: string
  rg_Nickname :: string
  rg_DevModel :: byte
  rg_SSID :: byte
  rg_Transport :: string
  rg_Endpoint :: string
  rg_ProtocolVersion :: u16
  rg_Capabilities :: "string list"
  rg_Routing :: Routing
  rg_DisableSend :: bool
  rg_DisableRecv :: bool
  rg_Now :: time

record registryEntry =
  re_session :: Session
  re_controller :: Controller

record Registry =
  reg_sessions :: "(string, registryEntry) fmap"
  reg_ownerSessions :: "(int, string fset) fmap"
  reg_instanceSessions :: "(string, string) fmap"
  reg_tagSessions :: "(u32, string) fmap"
  reg_lastTransmitAt :: "(string, time) fmap"
  reg_maxOwnerSessions :: int
  reg_maxSubscriptions :: int
  reg_registrations :: u64
  reg_replacements :: u64
  reg_removals :: u64
  reg_sessionLimitRejects :: u64
  reg_subscriptionLimitRejects :: u64
  reg_permissionRevocations :: u64

datatype registry_event =
    DisconnectCalled string string
  | PersistCalled string Routing
  | ApplyRoutingCalled string Routing

definition NewRegistry :: "int \<Rightarrow> int \<Rightarrow> Registry" where
  "NewRegistry maxOwnerSessions maxSubscriptions =
     \<lparr>reg_sessions = fmempty, reg_ownerSessions = fmempty, reg_instanceSessions = fmempty, reg_tagSessions = fmempty,
      reg_lastTransmitAt = fmempty,
      reg_maxOwnerSessions = (if maxOwnerSessions \<le> 0 then DefaultMaxSessionsPerOwner else maxOwnerSessions),
      reg_maxSubscriptions = (if maxSubscriptions \<le> 0 then DefaultMaxSubscriptions else maxSubscriptions),
      reg_registrations = 0, reg_replacements = 0, reg_removals = 0, reg_sessionLimitRejects = 0,
      reg_subscriptionLimitRejects = 0, reg_permissionRevocations = 0\<rparr>"

definition ShortID :: "string \<Rightarrow> string" where
  "ShortID sessionID = (let sessionID = trim_space sessionID in if length sessionID \<le> 8 then sessionID else take 8 sessionID)"

definition instanceKey :: "int \<Rightarrow> byte \<Rightarrow> string \<Rightarrow> string" where
  "instanceKey ownerID devModel clientInstanceID =
     itoa ownerID @ '':'' @ itoa (uint devModel) @ '':'' @ clientInstanceID"

text \<open>Reading a missing key of a map to strings gives the empty string; ranging over a nil set, nothing.\<close>

definition string_at :: "('k, string) fmap \<Rightarrow> 'k \<Rightarrow> string" where
  "string_at m k = (case fmlookup m k of Some s \<Rightarrow> s | None \<Rightarrow> [])"

definition set_at :: "('k, 'v fset) fmap \<Rightarrow> 'k \<Rightarrow> 'v fset" where
  "set_at m k = (case fmlookup m k of Some s \<Rightarrow> s | None \<Rightarrow> {||})"

fun session_tag_loop :: "nat \<Rightarrow> (nat \<Rightarrow> bytes option) \<Rightarrow> (u32, string) fmap \<Rightarrow> ghost_error + u32" where
  "session_tag_loop 0 rand existing = Inl SessionTagCollision"
| "session_tag_loop (Suc left) rand existing =
     (case rand (15 - left) of
        None \<Rightarrow> Inl RandomSourceError
      | Some buffer \<Rightarrow>
          let tag = getUint32 buffer
          in if tag = 0 then session_tag_loop left rand existing
             else if fmlookup existing tag = None then Inr tag
             else session_tag_loop left rand existing)"

definition randomSessionTag :: "(nat \<Rightarrow> bytes option) \<Rightarrow> (u32, string) fmap \<Rightarrow> ghost_error + u32" where
  "randomSessionTag rand existing = session_tag_loop 16 rand existing"

definition removeLocked :: "Registry \<Rightarrow> string \<Rightarrow> Registry \<times> registryEntry option" where
  "removeLocked r sessionID =
     (case fmlookup (reg_sessions r) sessionID of
        None \<Rightarrow> (r, None)
      | Some entry \<Rightarrow>
          let session = re_session entry;
              key = instanceKey (ss_OwnerID session) (ss_DevModel session) (ss_ClientInstanceID session);
              instances = (if string_at (reg_instanceSessions r) key = sessionID then fmdrop key (reg_instanceSessions r)
                           else reg_instanceSessions r);
              owners = (case fmlookup (reg_ownerSessions r) (ss_OwnerID session) of
                          None \<Rightarrow> reg_ownerSessions r
                        | Some ownerSet \<Rightarrow>
                            let ownerSet = ownerSet |-| {|sessionID|}
                            in if ownerSet = {||} then fmdrop (ss_OwnerID session) (reg_ownerSessions r)
                               else fmupd (ss_OwnerID session) ownerSet (reg_ownerSessions r))
          in (r\<lparr>reg_sessions := fmdrop sessionID (reg_sessions r),
                reg_lastTransmitAt := fmdrop sessionID (reg_lastTransmitAt r),
                reg_tagSessions := fmdrop (ss_SessionTag session) (reg_tagSessions r),
                reg_instanceSessions := instances, reg_ownerSessions := owners\<rparr>, Some entry))"

definition insert_entry :: "Registry \<Rightarrow> registryEntry \<Rightarrow> Registry" where
  "insert_entry r entry =
     (let session = re_session entry; sid = ss_SessionID session;
          key = instanceKey (ss_OwnerID session) (ss_DevModel session) (ss_ClientInstanceID session)
      in r\<lparr>reg_sessions := fmupd sid entry (reg_sessions r),
           reg_ownerSessions := fmupd (ss_OwnerID session)
             (finsert sid (set_at (reg_ownerSessions r) (ss_OwnerID session))) (reg_ownerSessions r),
           reg_instanceSessions := fmupd key sid (reg_instanceSessions r),
           reg_tagSessions := fmupd (ss_SessionTag session) sid (reg_tagSessions r)\<rparr>)"

definition registry_normalizeRouting :: "Registry \<Rightarrow> Routing \<Rightarrow> Registry \<times> (ghost_error + Routing)" where
  "registry_normalizeRouting r routing =
     (let result = NormalizeRouting routing (reg_maxSubscriptions r);
          r = (case result of
                 Inl (ErrSubscriptionLimit _ _) \<Rightarrow> r\<lparr>reg_subscriptionLimitRejects := reg_subscriptionLimitRejects r + 1\<rparr>
               | _ \<Rightarrow> r)
      in (r, result))"

definition new_session :: "Registration \<Rightarrow> (string \<Rightarrow> string) \<Rightarrow> string \<Rightarrow> u32 \<Rightarrow> string \<Rightarrow> Routing \<Rightarrow> time \<Rightarrow> Session" where
  "new_session registration uni newID tag clientInstanceID routing now =
     \<lparr>ss_SessionID = newID, ss_SessionTag = tag, ss_ClientInstanceID = clientInstanceID,
      ss_OwnerID = rg_OwnerID registration, ss_Username = rg_Username registration, ss_CallSign = rg_CallSign registration,
      ss_Nickname = rg_Nickname registration, ss_DevModel = rg_DevModel registration, ss_SSID = rg_SSID registration,
      ss_Transport = rg_Transport registration, ss_Endpoint = rg_Endpoint registration,
      ss_ProtocolVersion = rg_ProtocolVersion registration,
      ss_Capabilities = normalizeCapabilities uni (rg_Capabilities registration),
      ss_CreatedAt = now, ss_LastActivity = now, ss_Connected = True,
      ss_TxGroupID = rt_TxGroupID routing, ss_RxGroupIDs = rt_RxGroupIDs routing,
      ss_DisableSend = rg_DisableSend registration, ss_DisableRecv = rg_DisableRecv registration\<rparr>"

text \<open>The part of \<^verbatim>\<open>Register\<close> under the locks, after the arguments are checked.\<close>

definition register_locked ::
  "Registry \<Rightarrow> (nat \<Rightarrow> bytes option) \<Rightarrow> (string \<Rightarrow> string) \<Rightarrow> string \<Rightarrow> Registration \<Rightarrow> Controller \<Rightarrow> string \<Rightarrow> Routing \<Rightarrow> time \<Rightarrow>
     Registry \<times> registry_event list \<times> (ghost_error + Session)" where
  "register_locked r rand uni newID registration controller clientInstanceID routing now =
     (let key = instanceKey (rg_OwnerID registration) (rg_DevModel registration) clientInstanceID;
          oldSessionID = string_at (reg_instanceSessions r) key;
          ownerCount = int (fcard (set_at (reg_ownerSessions r) (rg_OwnerID registration)));
          ownerCount = (if oldSessionID \<noteq> [] then ownerCount - 1 else ownerCount)
      in if reg_maxOwnerSessions r \<le> ownerCount then
           (r\<lparr>reg_sessionLimitRejects := reg_sessionLimitRejects r + 1\<rparr>, [],
            Inl (ErrSessionLimit ownerCount (reg_maxOwnerSessions r)))
         else case randomSessionTag rand (reg_tagSessions r) of
           Inl err \<Rightarrow> (r, [], Inl err)
         | Inr tag \<Rightarrow>
             let (r, replaced) = (if oldSessionID \<noteq> [] then removeLocked r oldSessionID else (r, None));
                 session = new_session registration uni newID tag clientInstanceID routing now;
                 r = insert_entry r \<lparr>re_session = session, re_controller = controller\<rparr>;
                 events = (case replaced of
                             Some e \<Rightarrow> if ctl_Disconnect (re_controller e)
                                       then [DisconnectCalled (ss_SessionID (re_session e)) ''client_instance_reconnected''] else []
                           | None \<Rightarrow> []);
                 r = r\<lparr>reg_registrations := reg_registrations r + 1\<rparr>;
                 r = (if replaced \<noteq> None
                      then r\<lparr>reg_replacements := reg_replacements r + 1, reg_removals := reg_removals r + 1\<rparr> else r)
             in (r, events, Inr session))"

definition Register ::
  "time \<Rightarrow> Registry \<Rightarrow> (string \<Rightarrow> string option) \<Rightarrow> (string \<Rightarrow> string) \<Rightarrow> (nat \<Rightarrow> bytes option) \<Rightarrow> string \<Rightarrow>
     Registration \<Rightarrow> Controller \<Rightarrow> Registry \<times> registry_event list \<times> (ghost_error + Session)" where
  "Register clock r parse uni rand newID registration controller =
     (case NormalizeClientInstanceID parse uni (rg_ClientInstanceID registration) of
        Inl err \<Rightarrow> (r, [], Inl err)
      | Inr clientInstanceID \<Rightarrow>
          case ValidateCapabilities uni (rg_Capabilities registration) of
            Some err \<Rightarrow> (r, [], Inl err)
          | None \<Rightarrow>
              let (r, routing) = registry_normalizeRouting r (rg_Routing registration)
              in case routing of
                   Inl err \<Rightarrow> (r, [], Inl err)
                 | Inr routing \<Rightarrow>
                     if rg_OwnerID registration \<le> 0 \<or> rg_Transport registration = [] then (r, [], Inl OwnerTransportRequired)
                     else register_locked r rand uni newID registration controller clientInstanceID routing
                            (or_now clock (rg_Now registration)))"

definition restored_session :: "time \<Rightarrow> (string \<Rightarrow> string) \<Rightarrow> Session \<Rightarrow> string \<Rightarrow> string \<Rightarrow> Routing \<Rightarrow> Session" where
  "restored_session clock uni session sessionID clientInstanceID routing =
     session\<lparr>ss_SessionID := sessionID, ss_ClientInstanceID := clientInstanceID,
       ss_Capabilities := normalizeCapabilities uni (ss_Capabilities session),
       ss_TxGroupID := rt_TxGroupID routing, ss_RxGroupIDs := rt_RxGroupIDs routing, ss_Connected := True,
       ss_CreatedAt := or_now clock (ss_CreatedAt session), ss_LastActivity := or_now clock (ss_LastActivity session)\<rparr>"

definition same_identity :: "Session \<Rightarrow> Session \<Rightarrow> bool" where
  "same_identity old session \<longleftrightarrow>
     ss_OwnerID old = ss_OwnerID session \<and> ss_DevModel old = ss_DevModel session \<and>
     ss_SSID old = ss_SSID session \<and> ss_ClientInstanceID old = ss_ClientInstanceID session \<and>
     ss_SessionTag old = ss_SessionTag session \<and> ss_Transport old = ss_Transport session"

definition restore_locked :: "Registry \<Rightarrow> Session \<Rightarrow> Controller \<Rightarrow> Registry \<times> (ghost_error + Session)" where
  "restore_locked r session controller =
     (case fmlookup (reg_sessions r) (ss_SessionID session) of
        Some existing \<Rightarrow>
          if same_identity (re_session existing) session then (r, Inr (re_session existing)) else (r, Inl ErrSessionConflict)
      | None \<Rightarrow>
          let key = instanceKey (ss_OwnerID session) (ss_DevModel session) (ss_ClientInstanceID session)
          in if string_at (reg_instanceSessions r) key \<noteq> [] \<or> string_at (reg_tagSessions r) (ss_SessionTag session) \<noteq> []
             then (r, Inl ErrSessionConflict)
             else
               let count = int (fcard (set_at (reg_ownerSessions r) (ss_OwnerID session)))
               in if reg_maxOwnerSessions r \<le> count then
                    (r\<lparr>reg_sessionLimitRejects := reg_sessionLimitRejects r + 1\<rparr>,
                     Inl (ErrSessionLimit count (reg_maxOwnerSessions r)))
                  else (insert_entry r \<lparr>re_session = session, re_controller = controller\<rparr>, Inr session))"

definition Restore ::
  "time \<Rightarrow> Registry \<Rightarrow> (string \<Rightarrow> string option) \<Rightarrow> (string \<Rightarrow> string) \<Rightarrow> Session \<Rightarrow> Controller \<Rightarrow> Registry \<times> (ghost_error + Session)" where
  "Restore clock r parse uni session controller =
     (let sessionID = to_lower uni (trim_space (ss_SessionID session))
      in if parse sessionID \<noteq> Some sessionID \<or> sessionID = uuid_Nil \<or> ss_SessionTag session = 0 then (r, Inl ErrSessionConflict)
         else case NormalizeClientInstanceID parse uni (ss_ClientInstanceID session) of
           Inl err \<Rightarrow> (r, Inl err)
         | Inr clientInstanceID \<Rightarrow>
         case ValidateCapabilities uni (ss_Capabilities session) of
           Some err \<Rightarrow> (r, Inl err)
         | None \<Rightarrow>
         if ss_OwnerID session \<le> 0 \<or> ss_Transport session = [] \<or> ss_SSID session = 0 \<or> ss_DevModel session = 0 \<or>
            ss_ProtocolVersion session = 0 then (r, Inl ErrSessionConflict)
         else
           let (r, routing) = registry_normalizeRouting r (Session_Routing session)
           in case routing of
                Inl err \<Rightarrow> (r, Inl err)
              | Inr routing \<Rightarrow>
                  restore_locked r (restored_session clock uni session sessionID clientInstanceID routing) controller)"

definition ValidateRoutingForSession :: "Registry \<Rightarrow> string \<Rightarrow> Routing \<Rightarrow> Registry \<times> (ghost_error + Routing)" where
  "ValidateRoutingForSession r sessionID routing =
     (if fmlookup (reg_sessions r) sessionID = None then (r, Inl ErrSessionNotFound) else registry_normalizeRouting r routing)"

definition Remove :: "Registry \<Rightarrow> string \<Rightarrow> Registry \<times> bool" where
  "Remove r sessionID =
     (let (r, removed) = removeLocked r sessionID
      in (if removed \<noteq> None then r\<lparr>reg_removals := reg_removals r + 1\<rparr> else r, removed \<noteq> None))"

definition Get :: "Registry \<Rightarrow> string \<Rightarrow> Session option" where
  "Get r sessionID = map_option re_session (fmlookup (reg_sessions r) sessionID)"

definition FindByTag :: "Registry \<Rightarrow> u32 \<Rightarrow> Session option" where
  "FindByTag r tag = map_option re_session (fmlookup (reg_sessions r) (string_at (reg_tagSessions r) tag))"

text \<open>
  A range over a Go map has no fixed order; the lists below are sorted by keys that tell all
  sessions apart, so any order of the range gives the same list.
\<close>

definition sessions_at :: "Registry \<Rightarrow> string fset \<Rightarrow> Session list" where
  "sessions_at r ids = List.map_filter (Get r) (sorted_list_of_fset ids)"

definition session_order :: "Session \<Rightarrow> time \<times> string" where
  "session_order s = (ss_CreatedAt s, ss_SessionID s)"

definition ListOwner :: "Registry \<Rightarrow> int \<Rightarrow> Session list" where
  "ListOwner r ownerID = sort_key session_order (sessions_at r (set_at (reg_ownerSessions r) ownerID))"

definition List_sessions :: "Registry \<Rightarrow> Session list" where
  "List_sessions r = sort_key session_order (sessions_at r (fmdom (reg_sessions r)))"

definition ListByGroup :: "Registry \<Rightarrow> int \<Rightarrow> Session list" where
  "ListByGroup r groupID =
     (if groupID \<le> 0 then []
      else sort_key ss_SessionID (filter (\<lambda>s. groupID \<in> set (ss_RxGroupIDs s)) (sessions_at r (fmdom (reg_sessions r)))))"

record GhostMetrics =
  gm_OnlineSessions :: nat
  gm_OnlineOwners :: nat
  gm_Subscriptions :: nat
  gm_MaxSubscriptionsObserved :: nat
  gm_ByTransport :: "(string, nat) fmap"
  gm_ByPlatform :: "(byte, nat) fmap"
  gm_MaxSessionsPerOwner :: int
  gm_MaxSubscriptionsPerSession :: int
  gm_Registrations :: u64
  gm_Replacements :: u64
  gm_Removals :: u64
  gm_SessionLimitRejects :: u64
  gm_SubscriptionLimitRejects :: u64
  gm_PermissionRevocations :: u64

definition count_up :: "('k, nat) fmap \<Rightarrow> 'k \<Rightarrow> ('k, nat) fmap" where
  "count_up m k = fmupd k ((case fmlookup m k of Some n \<Rightarrow> n | None \<Rightarrow> 0) + 1) m"

definition count_session :: "GhostMetrics \<Rightarrow> Session \<Rightarrow> GhostMetrics" where
  "count_session m s =
     (let subscriptions = length (ss_RxGroupIDs s)
      in m\<lparr>gm_ByTransport := count_up (gm_ByTransport m) (ss_Transport s),
           gm_ByPlatform := count_up (gm_ByPlatform m) (ss_DevModel s),
           gm_Subscriptions := gm_Subscriptions m + subscriptions,
           gm_MaxSubscriptionsObserved := max (gm_MaxSubscriptionsObserved m) subscriptions\<rparr>)"

definition registry_Metrics :: "Registry \<Rightarrow> GhostMetrics" where
  "registry_Metrics r =
     foldl count_session
       \<lparr>gm_OnlineSessions = fm_size (reg_sessions r), gm_OnlineOwners = fm_size (reg_ownerSessions r), gm_Subscriptions = 0,
        gm_MaxSubscriptionsObserved = 0, gm_ByTransport = fmempty, gm_ByPlatform = fmempty,
        gm_MaxSessionsPerOwner = reg_maxOwnerSessions r, gm_MaxSubscriptionsPerSession = reg_maxSubscriptions r,
        gm_Registrations = reg_registrations r, gm_Replacements = reg_replacements r, gm_Removals = reg_removals r,
        gm_SessionLimitRejects = reg_sessionLimitRejects r, gm_SubscriptionLimitRejects = reg_subscriptionLimitRejects r,
        gm_PermissionRevocations = reg_permissionRevocations r\<rparr>
       (sessions_at r (fmdom (reg_sessions r)))"

definition update_session :: "Registry \<Rightarrow> string \<Rightarrow> (Session \<Rightarrow> Session) \<Rightarrow> Registry" where
  "update_session r sessionID f =
     (case fmlookup (reg_sessions r) sessionID of
        None \<Rightarrow> r
      | Some entry \<Rightarrow> r\<lparr>reg_sessions := fmupd sessionID (entry\<lparr>re_session := f (re_session entry)\<rparr>) (reg_sessions r)\<rparr>)"

definition UpdateActivity :: "time \<Rightarrow> Registry \<Rightarrow> string \<Rightarrow> string \<Rightarrow> time \<Rightarrow> Registry \<times> bool" where
  "UpdateActivity clock r sessionID endpoint now =
     (update_session r sessionID (\<lambda>s. s\<lparr>ss_LastActivity := or_now clock now,
         ss_Endpoint := (if endpoint \<noteq> [] then endpoint else ss_Endpoint s)\<rparr>),
      fmlookup (reg_sessions r) sessionID \<noteq> None)"

definition MarkPTTActive :: "time \<Rightarrow> Registry \<Rightarrow> string \<Rightarrow> time \<Rightarrow> Registry \<times> bool" where
  "MarkPTTActive clock r sessionID now =
     (if trim_space sessionID = [] then (r, False)
      else if fmlookup (reg_sessions r) sessionID = None then (r, False)
      else (r\<lparr>reg_lastTransmitAt := fmupd sessionID (or_now clock now) (reg_lastTransmitAt r)\<rparr>, True))"

definition IsPTTActive :: "time \<Rightarrow> Registry \<Rightarrow> string \<Rightarrow> time \<Rightarrow> Registry \<times> bool" where
  "IsPTTActive clock r sessionID now =
     (if trim_space sessionID = [] then (r, False)
      else case fmlookup (reg_lastTransmitAt r) sessionID of
             None \<Rightarrow> (r, False)
           | Some lastAt \<Rightarrow>
               if PTTHoldTimeout < time_sub (or_now clock now) lastAt
               then (r\<lparr>reg_lastTransmitAt := fmdrop sessionID (reg_lastTransmitAt r)\<rparr>, False)
               else (r, True))"

text \<open>\<open>persist i\<close> is the \<open>i\<close>-th call of the database callback.\<close>

definition UpdateRoutingPersisted ::
  "Registry \<Rightarrow> string \<Rightarrow> Routing \<Rightarrow> (nat \<Rightarrow> Session \<Rightarrow> Routing \<Rightarrow> string option) option \<Rightarrow>
     Registry \<times> registry_event list \<times> (ghost_error + Session)" where
  "UpdateRoutingPersisted r sessionID routing persist =
     (case fmlookup (reg_sessions r) sessionID of
        None \<Rightarrow> (r, [], Inl ErrSessionNotFound)
      | Some entry \<Rightarrow>
          let current = re_session entry; (r, normalized) = registry_normalizeRouting r routing
          in case normalized of
               Inl err \<Rightarrow> (r, [], Inl err)
             | Inr routing \<Rightarrow>
                 let previous = Session_Routing current;
                     persist_events = (if persist = None then [] else [PersistCalled sessionID routing])
                 in case (case persist of None \<Rightarrow> None | Some p \<Rightarrow> p 0 current routing) of
                      Some err \<Rightarrow> (r, persist_events, Inl (CallbackError err))
                    | None \<Rightarrow>
                        let apply_events = (if ctl_ApplyRouting (re_controller entry) = None then []
                                            else [ApplyRoutingCalled sessionID routing])
                        in case (case ctl_ApplyRouting (re_controller entry) of None \<Rightarrow> None | Some apply \<Rightarrow> apply routing) of
                             Some err \<Rightarrow>
                               (r, persist_events @ apply_events @
                                     (if persist = None then [] else [PersistCalled sessionID previous]),
                                Inl (JoinedError err (case persist of None \<Rightarrow> None | Some p \<Rightarrow> p 1 current previous)))
                           | None \<Rightarrow>
                               let f = (\<lambda>s. s\<lparr>ss_TxGroupID := rt_TxGroupID routing, ss_RxGroupIDs := rt_RxGroupIDs routing\<rparr>)
                               in (update_session r sessionID f, persist_events @ apply_events, Inr (f current)))"

definition UpdateRouting :: "Registry \<Rightarrow> string \<Rightarrow> Routing \<Rightarrow> Registry \<times> registry_event list \<times> (ghost_error + Session)" where
  "UpdateRouting r sessionID routing = UpdateRoutingPersisted r sessionID routing None"

definition RefreshRouting ::
  "Registry \<Rightarrow> string \<Rightarrow> (Session \<Rightarrow> string + Routing) option \<Rightarrow> Registry \<times> registry_event list \<times> (ghost_error + Session)" where
  "RefreshRouting r sessionID resolve =
     (case resolve of
        None \<Rightarrow> (r, [], Inl ResolverRequired)
      | Some resolve \<Rightarrow>
      case fmlookup (reg_sessions r) sessionID of
        None \<Rightarrow> (r, [], Inl ErrSessionNotFound)
      | Some entry \<Rightarrow>
      case resolve (re_session entry) of
        Inl err \<Rightarrow> (r, [], Inl (CallbackError err))
      | Inr routing \<Rightarrow>
          let (r, normalized) = registry_normalizeRouting r routing
          in case normalized of
               Inl err \<Rightarrow> (r, [], Inl err)
             | Inr routing \<Rightarrow>
                 let events = (if ctl_ApplyRouting (re_controller entry) = None then []
                               else [ApplyRoutingCalled sessionID routing])
                 in case (case ctl_ApplyRouting (re_controller entry) of None \<Rightarrow> None | Some apply \<Rightarrow> apply routing) of
                      Some err \<Rightarrow> (r, events, Inl (CallbackError err))
                    | None \<Rightarrow>
                        let f = (\<lambda>s. s\<lparr>ss_TxGroupID := rt_TxGroupID routing, ss_RxGroupIDs := rt_RxGroupIDs routing\<rparr>)
                        in (update_session r sessionID f, events, Inr (f (re_session entry))))"

definition disconnect ::
  "(string \<Rightarrow> string) \<Rightarrow> Registry \<Rightarrow> int \<Rightarrow> bool \<Rightarrow> string \<Rightarrow> string \<Rightarrow> Registry \<times> registry_event list \<times> ghost_error option" where
  "disconnect uni r ownerID enforceOwner sessionID reason =
     (case fmlookup (reg_sessions r) sessionID of
        None \<Rightarrow> (r, [], Some ErrSessionNotFound)
      | Some entry \<Rightarrow>
          if enforceOwner \<and> ss_OwnerID (re_session entry) \<noteq> ownerID then (r, [], Some ErrSessionNotFound)
          else
            let (r, removed) = removeLocked r sessionID;
                events = (case removed of
                            Some e \<Rightarrow> if ctl_Disconnect (re_controller e) then [DisconnectCalled sessionID reason] else []
                          | None \<Rightarrow> []);
                r = (if removed \<noteq> None then r\<lparr>reg_removals := reg_removals r + 1\<rparr> else r);
                r = (if removed \<noteq> None \<and> contains_sub ''permission'' (to_lower uni reason)
                     then r\<lparr>reg_permissionRevocations := reg_permissionRevocations r + 1\<rparr> else r)
            in (r, events, None))"

definition DisconnectOwned ::
  "(string \<Rightarrow> string) \<Rightarrow> Registry \<Rightarrow> int \<Rightarrow> string \<Rightarrow> string \<Rightarrow> Registry \<times> registry_event list \<times> ghost_error option" where
  "DisconnectOwned uni r ownerID sessionID reason = disconnect uni r ownerID True sessionID reason"

definition Disconnect ::
  "(string \<Rightarrow> string) \<Rightarrow> Registry \<Rightarrow> string \<Rightarrow> string \<Rightarrow> Registry \<times> registry_event list \<times> ghost_error option" where
  "Disconnect uni r sessionID reason = disconnect uni r 0 False sessionID reason"

definition UpdateOwnerCallSign :: "Registry \<Rightarrow> int \<Rightarrow> string \<Rightarrow> Registry" where
  "UpdateOwnerCallSign r ownerID callSign =
     r\<lparr>reg_sessions := fmmap_keys (\<lambda>sid entry.
         if sid |\<in>| set_at (reg_ownerSessions r) ownerID
         then entry\<lparr>re_session := (re_session entry)\<lparr>ss_CallSign := callSign\<rparr>\<rparr> else entry) (reg_sessions r)\<rparr>"

subsection \<open>Indexes\<close>

text \<open>
  A unique index from a key of the sessions to their IDs: it holds exactly the keys in use, so no
  two sessions share one.
\<close>

definition index_ok :: "('v \<Rightarrow> 'k) \<Rightarrow> ('k, string) fmap \<Rightarrow> (string \<rightharpoonup> 'v) \<Rightarrow> bool" where
  "index_ok key idx sess \<longleftrightarrow> (\<forall>k sid. fmlookup idx k = Some sid \<longleftrightarrow> (\<exists>s. sess sid = Some s \<and> key s = k))"

lemma index_ok_lookup: "index_ok key idx sess \<Longrightarrow> sess sid = Some s \<Longrightarrow> fmlookup idx (key s) = Some sid"
  by (auto simp: index_ok_def)

lemma index_ok_insert:
  "index_ok key idx sess \<Longrightarrow> sess sid = None \<Longrightarrow> fmlookup idx (key s) = None \<Longrightarrow>
    index_ok key (fmupd (key s) sid idx) (sess(sid \<mapsto> s))"
  unfolding index_ok_def by (auto split: if_splits) (metis option.distinct(1))+

lemma index_ok_remove:
  "index_ok key idx sess \<Longrightarrow> sess sid = Some s \<Longrightarrow> index_ok key (fmdrop (key s) idx) (sess(sid := None))"
  unfolding index_ok_def by (auto split: if_splits) (metis option.inject)+

lemma index_ok_update:
  "index_ok key idx sess \<Longrightarrow> sess sid = Some s \<Longrightarrow> key s' = key s \<Longrightarrow> index_ok key idx (sess(sid \<mapsto> s'))"
  unfolding index_ok_def by auto

text \<open>The index from owners to the sets of their sessions, without empty sets.\<close>

definition owners_ok :: "(int, string fset) fmap \<Rightarrow> (string \<rightharpoonup> Session) \<Rightarrow> bool" where
  "owners_ok owners sess \<longleftrightarrow>
     (\<forall>owner. fset (set_at owners owner) = {sid. \<exists>s. sess sid = Some s \<and> ss_OwnerID s = owner}) \<and>
     (\<forall>owner. fmlookup owners owner \<noteq> Some {||})"

lemma set_at_upd [simp]: "set_at (fmupd k v m) k' = (if k' = k then v else set_at m k')"
  by (simp add: set_at_def)

lemma set_at_drop [simp]: "set_at (fmdrop k m) k' = (if k' = k then {||} else set_at m k')"
  by (simp add: set_at_def)

lemma string_at_eq: "fmlookup m k = Some s \<Longrightarrow> string_at m k = s" "fmlookup m k = None \<Longrightarrow> string_at m k = []"
  by (simp_all add: string_at_def)

lemma owners_ok_insert:
  assumes "owners_ok owners sess" and "sess sid = None"
  shows "owners_ok (fmupd (ss_OwnerID s) (finsert sid (set_at owners (ss_OwnerID s))) owners) (sess(sid \<mapsto> s))"
  using assms unfolding owners_ok_def by auto

definition drop_owner :: "(int, string fset) fmap \<Rightarrow> int \<Rightarrow> string \<Rightarrow> (int, string fset) fmap" where
  "drop_owner owners owner sid =
     (case fmlookup owners owner of
        None \<Rightarrow> owners
      | Some ownerSet \<Rightarrow>
          let ownerSet = ownerSet |-| {|sid|} in if ownerSet = {||} then fmdrop owner owners else fmupd owner ownerSet owners)"

lemma set_at_drop_owner: "set_at (drop_owner owners owner sid) k = (if k = owner then set_at owners owner |-| {|sid|} else set_at owners k)"
  by (auto simp: drop_owner_def Let_def set_at_def split: option.splits)

lemma owners_ok_remove:
  assumes "owners_ok owners sess" and "sess sid = Some s"
  shows "owners_ok (drop_owner owners (ss_OwnerID s) sid) (sess(sid := None))"
proof -
  have "fmlookup (drop_owner owners (ss_OwnerID s) sid) k \<noteq> Some {||}" for k
    using assms by (auto simp: drop_owner_def owners_ok_def Let_def split: option.splits)
  with assms show ?thesis by (auto simp: owners_ok_def set_at_drop_owner)
qed

lemma owners_ok_update:
  "owners_ok owners sess \<Longrightarrow> sess sid = Some s \<Longrightarrow> ss_OwnerID s' = ss_OwnerID s \<Longrightarrow> owners_ok owners (sess(sid \<mapsto> s'))"
  unfolding owners_ok_def by (auto split: if_splits)

lemma index_ok_map:
  "index_ok key idx sess \<Longrightarrow> (\<And>sid s. key (f sid s) = key s) \<Longrightarrow> index_ok key idx (\<lambda>sid. map_option (f sid) (sess sid))"
  by (auto simp: index_ok_def)

lemma owners_ok_map:
  "owners_ok owners sess \<Longrightarrow> (\<And>sid s. ss_OwnerID (f sid s) = ss_OwnerID s) \<Longrightarrow>
    owners_ok owners (\<lambda>sid. map_option (f sid) (sess sid))"
  by (auto simp: owners_ok_def)

subsection \<open>The invariant of the registry\<close>

definition session_key :: "Session \<Rightarrow> string" where
  "session_key s = instanceKey (ss_OwnerID s) (ss_DevModel s) (ss_ClientInstanceID s)"

definition session_ok :: "int \<Rightarrow> string \<Rightarrow> Session \<Rightarrow> bool" where
  "session_ok maxSubscriptions sid s \<longleftrightarrow>
     ss_SessionID s = sid \<and> sid \<noteq> [] \<and> ss_SessionTag s \<noteq> 0 \<and> 0 < ss_OwnerID s \<and>
     routing_ok maxSubscriptions (Session_Routing s) \<and>
     {CapabilityMultiReceiveV1, CapabilitySourceGroupV1} \<subseteq> set (ss_Capabilities s) \<and> sorted (ss_Capabilities s)"

definition reg_inv :: "Registry \<Rightarrow> bool" where
  "reg_inv r \<longleftrightarrow>
     (\<forall>sid s. Get r sid = Some s \<longrightarrow> session_ok (reg_maxSubscriptions r) sid s) \<and>
     owners_ok (reg_ownerSessions r) (Get r) \<and>
     index_ok session_key (reg_instanceSessions r) (Get r) \<and>
     index_ok ss_SessionTag (reg_tagSessions r) (Get r) \<and>
     (\<forall>sid. fmlookup (reg_lastTransmitAt r) sid \<noteq> None \<longrightarrow> Get r sid \<noteq> None) \<and>
     (\<forall>owner. int (fcard (set_at (reg_ownerSessions r) owner)) \<le> reg_maxOwnerSessions r) \<and>
     0 < reg_maxOwnerSessions r \<and> 0 < reg_maxSubscriptions r"

lemma instanceKey_inject:
  "instanceKey o1 m1 i1 = instanceKey o2 m2 i2 \<longleftrightarrow> o1 = o2 \<and> m1 = m2 \<and> i1 = i2"
  by (simp add: instanceKey_def append_sep_inject colon_not_in_itoa word_uint_eq_iff)

lemma Get_updates [simp]:
  "Get (r\<lparr>reg_registrations := n\<rparr>) = Get r" "Get (r\<lparr>reg_replacements := n\<rparr>) = Get r" "Get (r\<lparr>reg_removals := n\<rparr>) = Get r"
  "Get (r\<lparr>reg_sessionLimitRejects := n\<rparr>) = Get r" "Get (r\<lparr>reg_subscriptionLimitRejects := n\<rparr>) = Get r"
  "Get (r\<lparr>reg_permissionRevocations := n\<rparr>) = Get r" "Get (r\<lparr>reg_lastTransmitAt := l\<rparr>) = Get r"
  by (simp_all add: Get_def fun_eq_iff)

lemma reg_inv_counters [simp]:
  "reg_inv (r\<lparr>reg_registrations := n\<rparr>) = reg_inv r" "reg_inv (r\<lparr>reg_replacements := n\<rparr>) = reg_inv r"
  "reg_inv (r\<lparr>reg_removals := n\<rparr>) = reg_inv r" "reg_inv (r\<lparr>reg_sessionLimitRejects := n\<rparr>) = reg_inv r"
  "reg_inv (r\<lparr>reg_subscriptionLimitRejects := n\<rparr>) = reg_inv r"
  "reg_inv (r\<lparr>reg_permissionRevocations := n\<rparr>) = reg_inv r"
  by (simp_all add: reg_inv_def)

lemma reg_inv_new: "reg_inv (NewRegistry m n)"
  by (auto simp: reg_inv_def NewRegistry_def Get_def owners_ok_def index_ok_def set_at_def fcard_fempty)

lemma removeLocked_missing: "Get r sid = None \<Longrightarrow> removeLocked r sid = (r, None)"
  by (simp add: removeLocked_def Get_def)

lemma removeLocked_found:
  assumes "reg_inv r" and "Get r sid = Some s"
  shows "reg_inv (fst (removeLocked r sid)) \<and> Get (fst (removeLocked r sid)) = (Get r)(sid := None) \<and>
    map_option re_session (snd (removeLocked r sid)) = Some s \<and>
    reg_maxSubscriptions (fst (removeLocked r sid)) = reg_maxSubscriptions r \<and>
    reg_maxOwnerSessions (fst (removeLocked r sid)) = reg_maxOwnerSessions r \<and>
    reg_ownerSessions (fst (removeLocked r sid)) = drop_owner (reg_ownerSessions r) (ss_OwnerID s) sid \<and>
    reg_instanceSessions (fst (removeLocked r sid)) = fmdrop (session_key s) (reg_instanceSessions r) \<and>
    reg_tagSessions (fst (removeLocked r sid)) = fmdrop (ss_SessionTag s) (reg_tagSessions r)"
proof -
  obtain e where e: "fmlookup (reg_sessions r) sid = Some e" "re_session e = s" using assms(2) by (auto simp: Get_def)
  have "string_at (reg_instanceSessions r) (session_key s) = sid"
    using assms index_ok_lookup [of session_key] by (auto simp: reg_inv_def intro: string_at_eq)
  then have eq: "removeLocked r sid =
    (r\<lparr>reg_sessions := fmdrop sid (reg_sessions r), reg_lastTransmitAt := fmdrop sid (reg_lastTransmitAt r),
       reg_tagSessions := fmdrop (ss_SessionTag s) (reg_tagSessions r),
       reg_instanceSessions := fmdrop (session_key s) (reg_instanceSessions r),
       reg_ownerSessions := drop_owner (reg_ownerSessions r) (ss_OwnerID s) sid\<rparr>, Some e)"
    using e by (simp add: removeLocked_def Let_def session_key_def drop_owner_def)
  have get: "Get (fst (removeLocked r sid)) = (Get r)(sid := None)" by (simp add: eq Get_def fun_eq_iff)
  have "fcard (set_at (drop_owner (reg_ownerSessions r) (ss_OwnerID s) sid) owner) \<le> fcard (set_at (reg_ownerSessions r) owner)" for owner
    by (auto simp: set_at_drop_owner intro!: fcard_mono)
  then have "int (fcard (set_at (drop_owner (reg_ownerSessions r) (ss_OwnerID s) sid) owner)) \<le> reg_maxOwnerSessions r" for owner
    using assms(1) unfolding reg_inv_def by (meson of_nat_mono order_trans)
  then have "reg_inv (fst (removeLocked r sid))"
    using assms get unfolding reg_inv_def
    by (auto simp: eq owners_ok_remove index_ok_remove)
  with get e show ?thesis by (simp add: eq)
qed

lemma insert_entry_ok:
  assumes "reg_inv r" and "Get r (ss_SessionID (re_session e)) = None"
    and "fmlookup (reg_instanceSessions r) (session_key (re_session e)) = None"
    and "fmlookup (reg_tagSessions r) (ss_SessionTag (re_session e)) = None"
    and "int (fcard (set_at (reg_ownerSessions r) (ss_OwnerID (re_session e)))) < reg_maxOwnerSessions r"
    and "session_ok (reg_maxSubscriptions r) (ss_SessionID (re_session e)) (re_session e)"
  shows "reg_inv (insert_entry r e) \<and> Get (insert_entry r e) = (Get r)(ss_SessionID (re_session e) \<mapsto> re_session e)"
proof -
  have get: "Get (insert_entry r e) = (Get r)(ss_SessionID (re_session e) \<mapsto> re_session e)"
    by (auto simp: insert_entry_def Let_def Get_def fun_eq_iff)
  have "fcard (finsert (ss_SessionID (re_session e)) S) \<le> Suc (fcard S)" for S
    by (simp add: fcard_finsert_if)
  then have "int (fcard (finsert (ss_SessionID (re_session e)) (set_at (reg_ownerSessions r) (ss_OwnerID (re_session e)))))
      \<le> reg_maxOwnerSessions r"
    using assms(5) by (smt (verit) of_nat_Suc of_nat_mono)
  then have "reg_inv (insert_entry r e)" using assms get unfolding reg_inv_def
    by (auto simp: insert_entry_def Let_def owners_ok_insert session_key_def [symmetric] index_ok_insert)
  with get show ?thesis by simp
qed

lemma reg_invD:
  assumes "reg_inv r"
  shows "Get r sid = Some s \<Longrightarrow> session_ok (reg_maxSubscriptions r) sid s" "owners_ok (reg_ownerSessions r) (Get r)"
    "index_ok session_key (reg_instanceSessions r) (Get r)" "index_ok ss_SessionTag (reg_tagSessions r) (Get r)"
    "int (fcard (set_at (reg_ownerSessions r) owner)) \<le> reg_maxOwnerSessions r"
  using assms unfolding reg_inv_def by blast+

lemma index_string_at:
  assumes "reg_inv r" and "index_ok key idx (Get r)"
  shows "string_at idx k = [] \<longleftrightarrow> fmlookup idx k = None"
proof (cases "fmlookup idx k")
  case (Some sid)
  then obtain s where "Get r sid = Some s" using assms(2) unfolding index_ok_def by blast
  then have "sid \<noteq> []" using reg_invD(1) [OF assms(1)] unfolding session_ok_def by blast
  with Some show ?thesis by (simp add: string_at_def)
qed (simp add: string_at_def)

lemma randomSessionTag_fresh:
  assumes "randomSessionTag rand existing = Inr tag"
  shows "tag \<noteq> 0 \<and> fmlookup existing tag = None"
proof -
  have "session_tag_loop n rand existing = Inr tag \<Longrightarrow> tag \<noteq> 0 \<and> fmlookup existing tag = None" for n
    by (induction n) (auto simp: Let_def split: option.splits if_splits)
  with assms show ?thesis by (simp add: randomSessionTag_def)
qed

lemma registry_normalizeRouting_eq:
  obtains n where "registry_normalizeRouting r rt = (r\<lparr>reg_subscriptionLimitRejects := n\<rparr>, NormalizeRouting rt (reg_maxSubscriptions r))"
proof -
  have "\<exists>n. fst (registry_normalizeRouting r rt) = r\<lparr>reg_subscriptionLimitRejects := n\<rparr>"
  proof (cases "\<exists>k m. NormalizeRouting rt (reg_maxSubscriptions r) = Inl (ErrSubscriptionLimit k m)")
    case True
    then show ?thesis
      by (intro exI [of _ "reg_subscriptionLimitRejects r + 1"]) (auto simp: registry_normalizeRouting_def Let_def)
  next
    case False
    then have "fst (registry_normalizeRouting r rt) = r"
      by (auto simp: registry_normalizeRouting_def Let_def split: sum.splits ghost_error.splits)
    then show ?thesis by (intro exI [of _ "reg_subscriptionLimitRejects r"]) simp
  qed
  then show thesis using that by (auto simp: registry_normalizeRouting_def Let_def)
qed

lemma owner_count_after_remove:
  assumes "reg_inv r" and "Get r sid = Some s"
  shows "int (fcard (set_at (drop_owner (reg_ownerSessions r) (ss_OwnerID s) sid) (ss_OwnerID s))) =
    int (fcard (set_at (reg_ownerSessions r) (ss_OwnerID s))) - 1"
proof -
  have "sid \<in> fset (set_at (reg_ownerSessions r) (ss_OwnerID s))"
    using reg_invD(2) [OF assms(1)] assms(2) unfolding owners_ok_def by auto
  then have "sid |\<in>| set_at (reg_ownerSessions r) (ss_OwnerID s)" .
  then have "Suc (fcard (set_at (reg_ownerSessions r) (ss_OwnerID s) |-| {|sid|})) = fcard (set_at (reg_ownerSessions r) (ss_OwnerID s))"
    by (rule fcard_Suc_fminus1)
  then show ?thesis by (simp add: set_at_drop_owner)
qed

text \<open>The sessions after a client instance registers: its former session, if any, has gone.\<close>

definition registered :: "(string \<rightharpoonup> Session) \<Rightarrow> Session \<Rightarrow> string \<rightharpoonup> Session" where
  "registered sess s = (\<lambda>sid. if sid = ss_SessionID s then Some s
     else case sess sid of Some t \<Rightarrow> if session_key t = session_key s then None else Some t | None \<Rightarrow> None)"

lemma registered_fresh:
  "(\<And>sid u. sess sid = Some u \<Longrightarrow> session_key u \<noteq> session_key s) \<Longrightarrow> sess(ss_SessionID s \<mapsto> s) = registered sess s"
  by (auto simp: registered_def fun_eq_iff split: option.split)

lemma registered_replace:
  assumes "sess old = Some u" and "session_key u = session_key s"
    and unique: "\<And>sid w. sess sid = Some w \<Longrightarrow> session_key w = session_key s \<Longrightarrow> sid = old"
  shows "(sess(old := None))(ss_SessionID s \<mapsto> s) = registered sess s"
proof
  fix sid
  show "((sess(old := None))(ss_SessionID s \<mapsto> s)) sid = registered sess s sid"
  proof (cases "sess sid")
    case (Some w)
    then show ?thesis using unique [OF Some] assms(1,2) by (cases "sid = old") (auto simp: registered_def)
  qed (simp add: registered_def)
qed

text \<open>Clearing the way for a session: the one that holds its key is removed.\<close>

lemma clear_instance:
  assumes inv: "reg_inv r" and old: "old = string_at (reg_instanceSessions r) (session_key s)"
    and r1: "r1 = fst (if old \<noteq> [] then removeLocked r old else (r, None))"
    and "Get r (ss_SessionID s) = None" and "fmlookup (reg_tagSessions r) (ss_SessionTag s) = None"
  shows "reg_inv r1 \<and> Get r1 (ss_SessionID s) = None \<and> fmlookup (reg_instanceSessions r1) (session_key s) = None \<and>
    fmlookup (reg_tagSessions r1) (ss_SessionTag s) = None \<and>
    int (fcard (set_at (reg_ownerSessions r1) (ss_OwnerID s))) =
      int (fcard (set_at (reg_ownerSessions r) (ss_OwnerID s))) - (if old \<noteq> [] then 1 else 0) \<and>
    reg_maxOwnerSessions r1 = reg_maxOwnerSessions r \<and> reg_maxSubscriptions r1 = reg_maxSubscriptions r \<and>
    (Get r1)(ss_SessionID s \<mapsto> s) = registered (Get r) s"
proof (cases "old = []")
  case True
  then have none: "fmlookup (reg_instanceSessions r) (session_key s) = None"
    using index_string_at [OF inv reg_invD(3) [OF inv]] old by simp
  then have "(Get r)(ss_SessionID s \<mapsto> s) = registered (Get r) s"
    using index_ok_lookup [OF reg_invD(3) [OF inv]] by (intro registered_fresh) fastforce
  with True none assms show ?thesis by simp
next
  case False
  then have "fmlookup (reg_instanceSessions r) (session_key s) = Some old"
    using old by (auto simp: string_at_def split: option.splits)
  then obtain u where u: "Get r old = Some u" "session_key u = session_key s"
    using reg_invD(3) [OF inv] unfolding index_ok_def by blast
  have owner: "ss_OwnerID u = ss_OwnerID s" using u(2) by (simp add: session_key_def instanceKey_inject)
  have "sid = old" if "Get r sid = Some w" "session_key w = session_key s" for sid w
    using index_ok_lookup [OF reg_invD(3) [OF inv] that(1)] that(2) \<open>fmlookup _ _ = Some old\<close> by simp
  then have "((Get r)(old := None))(ss_SessionID s \<mapsto> s) = registered (Get r) s"
    using registered_replace [of "Get r" old u s] u by blast
  with removeLocked_found [OF inv u(1)] owner_count_after_remove [OF inv u(1)] False assms(4,5) u(2) owner r1 show ?thesis
    by simp
qed

lemma register_locked_cases:
  assumes inv: "reg_inv r" and fresh: "Get r newID = None" "newID \<noteq> []" and "0 < rg_OwnerID g"
    and routing: "routing_ok (reg_maxSubscriptions r) routing"
    and caps: "ValidateCapabilities uni (rg_Capabilities g) = None"
  obtains (failed) err r' where "register_locked r rand uni newID g c inst routing now = (r', [], Inl err)" "reg_inv r'" "Get r' = Get r"
  | (success) tag r' events where "register_locked r rand uni newID g c inst routing now =
        (r', events, Inr (new_session g uni newID tag inst routing now))"
      "reg_inv r'" "Get r' = registered (Get r) (new_session g uni newID tag inst routing now)"
      "fmlookup (reg_tagSessions r) tag = None"
proof -
  let ?key = "instanceKey (rg_OwnerID g) (rg_DevModel g) inst" and ?s = "\<lambda>tag. new_session g uni newID tag inst routing now"
  let ?old = "string_at (reg_instanceSessions r) ?key" and ?set = "set_at (reg_ownerSessions r) (rg_OwnerID g)"
  let ?count = "if ?old \<noteq> [] then int (fcard ?set) - 1 else int (fcard ?set)"
  have s: "ss_SessionID (?s tag) = newID" "session_key (?s tag) = ?key" "ss_SessionTag (?s tag) = tag" "ss_OwnerID (?s tag) = rg_OwnerID g"
    "Session_Routing (?s tag) = routing" for tag
    by (simp_all add: new_session_def session_key_def Session_Routing_def)
  show thesis
  proof (cases "reg_maxOwnerSessions r \<le> ?count \<or> (\<exists>err. randomSessionTag rand (reg_tagSessions r) = Inl err)")
    case True
    then consider "reg_maxOwnerSessions r \<le> ?count" | err where "\<not> reg_maxOwnerSessions r \<le> ?count" "randomSessionTag rand (reg_tagSessions r) = Inl err"
      by blast
    then show thesis
    proof cases
      case 1
      then have "register_locked r rand uni newID g c inst routing now =
          (r\<lparr>reg_sessionLimitRejects := reg_sessionLimitRejects r + 1\<rparr>, [], Inl (ErrSessionLimit ?count (reg_maxOwnerSessions r)))"
        unfolding register_locked_def Let_def by (simp only: if_True)
      then show thesis by (rule failed) (use inv in simp_all)
    next
      case 2
      then have "register_locked r rand uni newID g c inst routing now = (r, [], Inl err)"
        unfolding register_locked_def Let_def by (simp only: if_False sum.case)
      then show thesis by (rule failed) (use inv in simp_all)
    qed
  next
    case False
    then have below: "?count < reg_maxOwnerSessions r" and "\<exists>tag. randomSessionTag rand (reg_tagSessions r) = Inr tag"
      by (simp_all add: not_le) (metis sum.exhaust)
    then obtain tag where tag: "randomSessionTag rand (reg_tagSessions r) = Inr tag" by blast
    note t = randomSessionTag_fresh [OF tag]
    let ?e = "\<lparr>re_session = ?s tag, re_controller = c\<rparr>"
    have ok: "session_ok (reg_maxSubscriptions r) newID (?s tag)"
      using fresh t assms(4) routing caps s by (simp add: session_ok_def new_session_def ValidateCapabilities_iff)
    obtain r1 replaced where rr: "(if ?old \<noteq> [] then removeLocked r ?old else (r, None)) = (r1, replaced)"
      by (cases "if ?old \<noteq> [] then removeLocked r ?old else (r, None)")
    then have "r1 = fst (if ?old \<noteq> [] then removeLocked r ?old else (r, None))" by simp
    from clear_instance [OF inv _ this, of "?s tag"] fresh(1) t s
    have r1: "reg_inv r1" "Get r1 newID = None" "fmlookup (reg_instanceSessions r1) ?key = None"
      "fmlookup (reg_tagSessions r1) tag = None" "int (fcard (set_at (reg_ownerSessions r1) (rg_OwnerID g))) = ?count"
      "reg_maxOwnerSessions r1 = reg_maxOwnerSessions r" "reg_maxSubscriptions r1 = reg_maxSubscriptions r"
      "(Get r1)(newID \<mapsto> ?s tag) = registered (Get r) (?s tag)"
      by auto
    have ins: "reg_inv (insert_entry r1 ?e) \<and> Get (insert_entry r1 ?e) = registered (Get r) (?s tag)"
      using insert_entry_ok [of r1 ?e] ok s r1 below by simp
    have "\<exists>r' events. register_locked r rand uni newID g c inst routing now = (r', events, Inr (?s tag)) \<and>
        reg_inv r' = reg_inv (insert_entry r1 ?e) \<and> Get r' = Get (insert_entry r1 ?e)"
      using below tag rr by (simp add: register_locked_def Let_def not_le [symmetric])
    with ins t rr show thesis by (auto intro: success)
  qed
qed

lemma Register_cases:
  assumes inv: "reg_inv r" and fresh: "Get r newID = None" "newID \<noteq> []"
  obtains (failed) err r' where "Register clock r parse uni rand newID g c = (r', [], Inl err)" "reg_inv r'" "Get r' = Get r"
  | (success) r' events s where "Register clock r parse uni rand newID g c = (r', events, Inr s)" "reg_inv r'"
      "Get r' = registered (Get r) s" "ss_SessionID s = newID" "fmlookup (reg_tagSessions r) (ss_SessionTag s) = None"
      "NormalizeClientInstanceID parse uni (rg_ClientInstanceID g) = Inr (ss_ClientInstanceID s)"
      "ss_OwnerID s = rg_OwnerID g" "ss_DevModel s = rg_DevModel g"
      "NormalizeRouting (rg_Routing g) (reg_maxSubscriptions r) = Inr (Session_Routing s)"
proof -
  obtain n where norm: "registry_normalizeRouting r (rg_Routing g) =
      (r\<lparr>reg_subscriptionLimitRejects := n\<rparr>, NormalizeRouting (rg_Routing g) (reg_maxSubscriptions r))"
    by (rule registry_normalizeRouting_eq)
  let ?r = "r\<lparr>reg_subscriptionLimitRejects := n\<rparr>" and ?now = "or_now clock (rg_Now g)"
  note R = Register_def norm
  consider err where "NormalizeClientInstanceID parse uni (rg_ClientInstanceID g) = Inl err"
    | inst err where "NormalizeClientInstanceID parse uni (rg_ClientInstanceID g) = Inr inst"
        "ValidateCapabilities uni (rg_Capabilities g) = Some err"
    | inst err where "NormalizeClientInstanceID parse uni (rg_ClientInstanceID g) = Inr inst"
        "ValidateCapabilities uni (rg_Capabilities g) = None" "NormalizeRouting (rg_Routing g) (reg_maxSubscriptions r) = Inl err"
    | inst routing where "NormalizeClientInstanceID parse uni (rg_ClientInstanceID g) = Inr inst"
        "ValidateCapabilities uni (rg_Capabilities g) = None" "NormalizeRouting (rg_Routing g) (reg_maxSubscriptions r) = Inr routing"
    by (metis option.exhaust sum.exhaust)
  then show thesis
  proof cases
    case 3
    then have "Register clock r parse uni rand newID g c = (?r, [], Inl err)" by (simp add: R)
    then show thesis by (rule failed) (use inv in simp_all)
  next
    case 4
    show thesis
    proof (cases "rg_OwnerID g \<le> 0 \<or> rg_Transport g = []")
      case True
      then have "Register clock r parse uni rand newID g c = (?r, [], Inl OwnerTransportRequired)" using 4 by (simp add: R)
      then show thesis by (rule failed) (use inv in simp_all)
    next
      case False
      then have eq: "Register clock r parse uni rand newID g c = register_locked ?r rand uni newID g c inst routing ?now"
        using 4 by (simp add: R)
      have pre: "reg_inv ?r" "Get ?r newID = None" "0 < rg_OwnerID g" "routing_ok (reg_maxSubscriptions ?r) routing"
        using inv fresh False normalized_routing(1) [OF 4(3)] by simp_all
      from pre(1,2) fresh(2) pre(3,4) 4(2) show thesis
      proof (cases rule: register_locked_cases [of ?r newID g routing uni rand c inst ?now])
        case (failed err r')
        with eq show thesis by (intro that(1) [of r' err]) simp_all
      next
        case (success tag r' events)
        with eq 4 show thesis
          by (intro that(2) [of r' events "new_session g uni newID tag inst routing ?now"])
            (simp_all add: new_session_def Session_Routing_def)
      qed
    qed
  qed (rule failed; use inv in \<open>simp add: R\<close>)+
qed

lemma restore_locked_ok:
  assumes inv: "reg_inv r" and ok: "session_ok (reg_maxSubscriptions r) (ss_SessionID s) s"
  shows "reg_inv (fst (restore_locked r s c)) \<and>
    (\<forall>s'. snd (restore_locked r s c) = Inr s' \<longrightarrow> Get (fst (restore_locked r s c)) (ss_SessionID s') = Some s' \<and> same_identity s' s) \<and>
    (\<forall>sid t. Get r sid = Some t \<longrightarrow> Get (fst (restore_locked r s c)) sid = Some t)"
proof (cases "Get r (ss_SessionID s)")
  case (Some old)
  then obtain e where e: "fmlookup (reg_sessions r) (ss_SessionID s) = Some e" "re_session e = old" by (auto simp: Get_def)
  have "ss_SessionID old = ss_SessionID s" using reg_invD(1) [OF inv Some] by (simp add: session_ok_def)
  with Some e inv show ?thesis by (simp add: restore_locked_def)
next
  case None
  then have e: "fmlookup (reg_sessions r) (ss_SessionID s) = None" by (simp add: Get_def)
  note at = index_string_at [OF inv reg_invD(3) [OF inv]] index_string_at [OF inv reg_invD(4) [OF inv]]
  show ?thesis
  proof (cases "fmlookup (reg_instanceSessions r) (session_key s) = None \<and> fmlookup (reg_tagSessions r) (ss_SessionTag s) = None \<and>
      int (fcard (set_at (reg_ownerSessions r) (ss_OwnerID s))) < reg_maxOwnerSessions r")
    case True
    then have "restore_locked r s c = (insert_entry r \<lparr>re_session = s, re_controller = c\<rparr>, Inr s)"
      using e at by (simp add: restore_locked_def Let_def session_key_def)
    moreover have "same_identity s s" by (simp add: same_identity_def)
    ultimately show ?thesis
      using insert_entry_ok [OF inv, of "\<lparr>re_session = s, re_controller = c\<rparr>"] True None ok by auto
  next
    case False
    then show ?thesis using e at inv by (auto simp: restore_locked_def Let_def session_key_def not_le)
  qed
qed

lemma Restore_cases:
  assumes "reg_inv r" and "parse [] = None"
  obtains (failed) err r' where "Restore clock r parse uni s c = (r', Inl err)" "reg_inv r'" "Get r' = Get r"
  | (checked) r' s' where "Restore clock r parse uni s c = restore_locked r' s' c" "reg_inv r'" "Get r' = Get r"
      "session_ok (reg_maxSubscriptions r') (ss_SessionID s') s'" "ss_SessionID s' = to_lower uni (trim_space (ss_SessionID s))"
      "ss_SessionTag s' = ss_SessionTag s" "ss_OwnerID s' = ss_OwnerID s"
proof -
  obtain n where norm: "registry_normalizeRouting r (Session_Routing s) =
      (r\<lparr>reg_subscriptionLimitRejects := n\<rparr>, NormalizeRouting (Session_Routing s) (reg_maxSubscriptions r))"
    by (rule registry_normalizeRouting_eq)
  let ?sid = "to_lower uni (trim_space (ss_SessionID s))" and ?r = "r\<lparr>reg_subscriptionLimitRejects := n\<rparr>"
  show thesis
  proof (cases "\<exists>r' err. Restore clock r parse uni s c = (r', Inl err) \<and> reg_inv r' \<and> Get r' = Get r")
    case True
    then show thesis using failed by blast
  next
    case False
    then obtain inst routing where *: "parse ?sid = Some ?sid" "ss_SessionTag s \<noteq> 0" "0 < ss_OwnerID s"
      "ValidateCapabilities uni (ss_Capabilities s) = None"
      "NormalizeRouting (Session_Routing s) (reg_maxSubscriptions r) = Inr routing"
      "Restore clock r parse uni s c = restore_locked ?r (restored_session clock uni s ?sid inst routing) c"
      using assms(1) by (auto simp: Restore_def norm Let_def not_le split: if_splits option.splits sum.splits)
    let ?s = "restored_session clock uni s ?sid inst routing"
    have "session_ok (reg_maxSubscriptions r) ?sid ?s"
      using * assms(2) normalized_routing(1) [OF *(5)]
      by (auto simp: session_ok_def restored_session_def ValidateCapabilities_iff Session_Routing_def)
    then show thesis using *(6) assms(1) by (intro checked [of ?r ?s]) (simp_all add: restored_session_def)
  qed
qed

lemma Restore_ok: "reg_inv r \<Longrightarrow> parse [] = None \<Longrightarrow> reg_inv (fst (Restore clock r parse uni s c))"
  by (cases rule: Restore_cases [of r parse clock uni s c]) (auto simp: restore_locked_ok)

lemma update_session_ok:
  assumes inv: "reg_inv r" and f: "\<And>s. Get r sid = Some s \<Longrightarrow> ss_SessionID (f s) = ss_SessionID s \<and> ss_SessionTag (f s) = ss_SessionTag s \<and>
      ss_OwnerID (f s) = ss_OwnerID s \<and> session_key (f s) = session_key s \<and> ss_Capabilities (f s) = ss_Capabilities s \<and>
      routing_ok (reg_maxSubscriptions r) (Session_Routing (f s))"
  shows "reg_inv (update_session r sid f)"
    "Get (update_session r sid f) = (case Get r sid of None \<Rightarrow> Get r | Some s \<Rightarrow> (Get r)(sid \<mapsto> f s))"
proof -
  show get: "Get (update_session r sid f) = (case Get r sid of None \<Rightarrow> Get r | Some s \<Rightarrow> (Get r)(sid \<mapsto> f s))"
    by (auto simp: update_session_def Get_def fun_eq_iff split: option.split)
  show "reg_inv (update_session r sid f)"
  proof (cases "Get r sid")
    case None
    then have "update_session r sid f = r" by (auto simp: update_session_def Get_def split: option.splits)
    with inv show ?thesis by simp
  next
    case (Some s)
    with get have g: "Get (update_session r sid f) = (Get r)(sid \<mapsto> f s)" by simp
    have "\<exists>m. update_session r sid f = r\<lparr>reg_sessions := m\<rparr>"
      using Some by (auto simp: update_session_def Get_def)
    then obtain m where m: "update_session r sid f = r\<lparr>reg_sessions := m\<rparr>" by blast
    have "session_ok (reg_maxSubscriptions r) sid (f s)"
      using reg_invD(1) [OF inv Some] f [OF Some] by (simp add: session_ok_def)
    then show ?thesis using inv g Some f [OF Some] unfolding reg_inv_def
      by (auto simp: m owners_ok_update index_ok_update)
  qed
qed

lemma Remove_ok: "reg_inv r \<Longrightarrow> reg_inv (fst (Remove r sid))"
  using removeLocked_found [of r sid] removeLocked_missing [of r sid]
  by (cases "Get r sid") (auto simp: Remove_def split_beta)

lemma disconnect_ok: "reg_inv r \<Longrightarrow> reg_inv (fst (disconnect uni r owner enforce sid reason))"
  using removeLocked_found [of r sid]
  by (auto simp: disconnect_def split_beta Let_def Get_def split: option.split)

lemma UpdateActivity_ok: "reg_inv r \<Longrightarrow> reg_inv (fst (UpdateActivity clock r sid endpoint now))"
  using reg_invD(1) [of r sid]
  by (auto simp: UpdateActivity_def session_key_def session_ok_def Session_Routing_def intro!: update_session_ok(1))

lemma MarkPTTActive_ok: "reg_inv r \<Longrightarrow> reg_inv (fst (MarkPTTActive clock r sid now))"
  by (auto simp: MarkPTTActive_def reg_inv_def Get_def)

lemma IsPTTActive_ok: "reg_inv r \<Longrightarrow> reg_inv (fst (IsPTTActive clock r sid now))"
  by (auto simp: IsPTTActive_def reg_inv_def split: option.split)

lemma set_routing_ok:
  assumes "reg_inv r" and "NormalizeRouting rt (reg_maxSubscriptions r) = Inr routing"
  shows "reg_inv (update_session r sid (\<lambda>s. s\<lparr>ss_TxGroupID := rt_TxGroupID routing, ss_RxGroupIDs := rt_RxGroupIDs routing\<rparr>))"
  by (rule update_session_ok(1)) (use assms normalized_routing(1) [OF assms(2)] in \<open>auto simp: session_key_def Session_Routing_def\<close>)

lemma UpdateRoutingPersisted_ok:
  assumes "reg_inv r"
  shows "reg_inv (fst (UpdateRoutingPersisted r sid rt persist))"
proof -
  obtain n where norm: "registry_normalizeRouting r rt =
      (r\<lparr>reg_subscriptionLimitRejects := n\<rparr>, NormalizeRouting rt (reg_maxSubscriptions r))"
    by (rule registry_normalizeRouting_eq)
  have inv: "reg_inv (r\<lparr>reg_subscriptionLimitRejects := n\<rparr>)" using assms by simp
  show ?thesis
    using inv set_routing_ok [OF inv, of rt]
    by (simp add: UpdateRoutingPersisted_def norm Let_def split: option.split sum.split)
qed

lemma RefreshRouting_ok:
  assumes "reg_inv r"
  shows "reg_inv (fst (RefreshRouting r sid resolve))"
proof -
  show ?thesis
  proof (cases "\<exists>f e rt. resolve = Some f \<and> fmlookup (reg_sessions r) sid = Some e \<and> f (re_session e) = Inr rt")
    case True
    then obtain f e rt where *: "resolve = Some f" "fmlookup (reg_sessions r) sid = Some e" "f (re_session e) = Inr rt" by blast
    obtain n where norm: "registry_normalizeRouting r rt =
        (r\<lparr>reg_subscriptionLimitRejects := n\<rparr>, NormalizeRouting rt (reg_maxSubscriptions r))"
      by (rule registry_normalizeRouting_eq)
    have inv: "reg_inv (r\<lparr>reg_subscriptionLimitRejects := n\<rparr>)" using assms by simp
    show ?thesis using inv set_routing_ok [OF inv, of rt]
      by (simp add: RefreshRouting_def * norm Let_def split: option.split sum.split)
  next
    case False
    then show ?thesis using assms by (auto simp: RefreshRouting_def split: option.split sum.split)
  qed
qed

lemma UpdateOwnerCallSign_ok: "reg_inv r \<Longrightarrow> reg_inv (UpdateOwnerCallSign r owner callSign)"
proof -
  assume inv: "reg_inv r"
  define f where "f = (\<lambda>sid s. if sid |\<in>| set_at (reg_ownerSessions r) owner then s\<lparr>ss_CallSign := callSign\<rparr> else (s :: Session))"
  let ?r = "UpdateOwnerCallSign r owner callSign"
  have get: "Get ?r = (\<lambda>sid. map_option (f sid) (Get r sid))"
    by (auto simp: UpdateOwnerCallSign_def Get_def f_def fun_eq_iff map_option_case split: option.split)
  have same: "reg_maxSubscriptions ?r = reg_maxSubscriptions r" "reg_ownerSessions ?r = reg_ownerSessions r"
    "reg_instanceSessions ?r = reg_instanceSessions r" "reg_tagSessions ?r = reg_tagSessions r"
    "reg_lastTransmitAt ?r = reg_lastTransmitAt r" "reg_maxOwnerSessions ?r = reg_maxOwnerSessions r"
    by (simp_all add: UpdateOwnerCallSign_def)
  have key: "session_key (f sid s) = session_key s" "ss_SessionTag (f sid s) = ss_SessionTag s" "ss_OwnerID (f sid s) = ss_OwnerID s"
    "session_ok n sid' (f sid s) = session_ok n sid' s" for sid sid' s n
    by (simp_all add: f_def session_key_def session_ok_def Session_Routing_def)
  show ?thesis using inv unfolding reg_inv_def get same
    by (auto simp: key owners_ok_map index_ok_map)
qed

subsection \<open>The registry as a transition system\<close>

text \<open>
  Every public operation, with any arguments and callbacks.  Of the UUID package the steps rely
  on this: a new session ID is not empty and not in use, and the empty string does not parse.
\<close>

inductive registry_step :: "Registry \<Rightarrow> Registry \<Rightarrow> bool" where
  register: "Get r newID = None \<Longrightarrow> newID \<noteq> [] \<Longrightarrow> registry_step r (fst (Register clock r parse uni rand newID g c))"
| restore: "parse [] = None \<Longrightarrow> registry_step r (fst (Restore clock r parse uni s c))"
| remove: "registry_step r (fst (Remove r sid))"
| validate: "registry_step r (fst (ValidateRoutingForSession r sid rt))"
| activity: "registry_step r (fst (UpdateActivity clock r sid endpoint now))"
| mark_ptt: "registry_step r (fst (MarkPTTActive clock r sid now))"
| is_ptt: "registry_step r (fst (IsPTTActive clock r sid now))"
| update_routing: "registry_step r (fst (UpdateRoutingPersisted r sid rt persist))"
| refresh_routing: "registry_step r (fst (RefreshRouting r sid resolve))"
| disconnect_owned: "registry_step r (fst (DisconnectOwned uni r owner sid reason))"
| disconnect_any: "registry_step r (fst (Disconnect uni r sid reason))"
| call_sign: "registry_step r (UpdateOwnerCallSign r owner callSign)"

definition registry_reachable :: "Registry \<Rightarrow> bool" where
  "registry_reachable r \<longleftrightarrow> (\<exists>m n. registry_step\<^sup>*\<^sup>* (NewRegistry m n) r)"

lemma Register_ok: "reg_inv r \<Longrightarrow> Get r newID = None \<Longrightarrow> newID \<noteq> [] \<Longrightarrow> reg_inv (fst (Register clock r parse uni rand newID g c))"
  by (cases rule: Register_cases [of r newID clock parse uni rand g c]) simp_all

lemma ValidateRouting_ok: "reg_inv r \<Longrightarrow> reg_inv (fst (ValidateRoutingForSession r sid rt))"
  by (rule registry_normalizeRouting_eq [of r rt]) (simp add: ValidateRoutingForSession_def)

lemma registry_step_ok: "registry_step r r' \<Longrightarrow> reg_inv r \<Longrightarrow> reg_inv r'"
  by (induction rule: registry_step.induct)
    (simp_all add: Register_ok Restore_ok Remove_ok ValidateRouting_ok UpdateActivity_ok MarkPTTActive_ok IsPTTActive_ok
      UpdateRoutingPersisted_ok RefreshRouting_ok DisconnectOwned_def Disconnect_def disconnect_ok UpdateOwnerCallSign_ok)

lemma registry_reachable_ok: "registry_reachable r \<Longrightarrow> reg_inv r"
proof -
  assume "registry_reachable r"
  then obtain m n where "registry_step\<^sup>*\<^sup>* (NewRegistry m n) r" by (auto simp: registry_reachable_def)
  then show ?thesis by (induction rule: rtranclp_induct) (auto intro: reg_inv_new registry_step_ok)
qed

lemma Get_id: "reg_inv r \<Longrightarrow> Get r sid = Some s \<Longrightarrow> ss_SessionID s = sid"
  using reg_invD(1) [of r sid s] by (simp add: session_ok_def)

lemma FindByTag_iff:
  assumes inv: "reg_inv r"
  shows "FindByTag r tag = Some s \<longleftrightarrow> Get r (ss_SessionID s) = Some s \<and> ss_SessionTag s = tag"
proof (cases "fmlookup (reg_tagSessions r) tag")
  case None
  then have "Get r sid = Some u \<Longrightarrow> ss_SessionTag u \<noteq> tag" for sid u
    using index_ok_lookup [OF reg_invD(4) [OF inv]] by fastforce
  moreover have "Get r [] = None" using reg_invD(1) [OF inv, of "[]"] by (cases "Get r []") (simp_all add: session_ok_def)
  ultimately show ?thesis using None by (auto simp: FindByTag_def string_at_def Get_def)
next
  case (Some sid)
  then obtain u where u: "Get r sid = Some u" "ss_SessionTag u = tag" using reg_invD(4) [OF inv] unfolding index_ok_def by blast
  then have "FindByTag r tag = Some u" using Some by (simp add: FindByTag_def string_at_def Get_def)
  moreover have "Get r (ss_SessionID s) = Some s \<Longrightarrow> ss_SessionTag s = tag \<Longrightarrow> ss_SessionID s = sid"
    using index_ok_lookup [OF reg_invD(4) [OF inv], of "ss_SessionID s" s] Some by simp
  ultimately show ?thesis using u Get_id [OF inv u(1)] by auto
qed

lemma set_sessions_at: "set (sessions_at r ids) = {s. \<exists>sid. sid |\<in>| ids \<and> Get r sid = Some s}"
  by (force simp: sessions_at_def List.map_filter_def)

lemma distinct_sessions_at:
  assumes inv: "reg_inv r"
  shows "distinct (map ss_SessionID (sessions_at r ids))"
proof -
  have "map ss_SessionID (List.map_filter (Get r) xs) = filter (\<lambda>sid. Get r sid \<noteq> None) xs" for xs
    by (induction xs) (auto simp: List.map_filter_def Get_id [OF inv])
  moreover have "distinct (sorted_list_of_fset ids)" by (simp add: sorted_list_of_fset.rep_eq)
  ultimately show ?thesis by (simp add: sessions_at_def distinct_filter)
qed

subsection \<open>Properties\<close>

text \<open>C2: In every state the registry reaches its indexes agree with the sessions: a tag finds exactly the
  session that carries it, no two sessions share a tag or a client instance, every owner has at
  most the configured number of sessions, and every session receives its transmit group and at
  most the configured number of groups.\<close>

theorem registry_consistent:
  assumes "registry_reachable r"
  shows "(FindByTag r tag = Some s \<longleftrightarrow> Get r (ss_SessionID s) = Some s \<and> ss_SessionTag s = tag) \<and>
    (Get r sid = Some u \<longrightarrow> Get r sid' = Some u' \<longrightarrow>
       ss_SessionTag u = ss_SessionTag u' \<or> (ss_OwnerID u, ss_DevModel u, ss_ClientInstanceID u) =
         (ss_OwnerID u', ss_DevModel u', ss_ClientInstanceID u') \<longrightarrow> sid = sid') \<and>
    int (card {sid. \<exists>v. Get r sid = Some v \<and> ss_OwnerID v = owner}) \<le> reg_maxOwnerSessions r \<and>
    (Get r sid = Some u \<longrightarrow> ss_TxGroupID u \<in> set (ss_RxGroupIDs u) \<and>
       int (length (ss_RxGroupIDs u)) \<le> reg_maxSubscriptions r)"
proof (intro conjI impI)
  note inv = registry_reachable_ok [OF assms]
  show "FindByTag r tag = Some s \<longleftrightarrow> Get r (ss_SessionID s) = Some s \<and> ss_SessionTag s = tag" by (rule FindByTag_iff [OF inv])
  show "int (card {sid. \<exists>v. Get r sid = Some v \<and> ss_OwnerID v = owner}) \<le> reg_maxOwnerSessions r"
    using reg_invD(2) [OF inv] reg_invD(5) [OF inv, of owner] by (simp add: owners_ok_def fcard.rep_eq)
  assume u: "Get r sid = Some u"
  have "routing_ok (reg_maxSubscriptions r) (Session_Routing u)" "0 < reg_maxSubscriptions r"
    using reg_invD(1) [OF inv u] inv by (simp_all add: session_ok_def reg_inv_def)
  then show "ss_TxGroupID u \<in> set (ss_RxGroupIDs u)" "int (length (ss_RxGroupIDs u)) \<le> reg_maxSubscriptions r"
    by (simp_all add: routing_ok_def Session_Routing_def)
  assume u': "Get r sid' = Some u'" and same: "ss_SessionTag u = ss_SessionTag u' \<or>
    (ss_OwnerID u, ss_DevModel u, ss_ClientInstanceID u) = (ss_OwnerID u', ss_DevModel u', ss_ClientInstanceID u')"
  from same have "ss_SessionTag u = ss_SessionTag u' \<or> session_key u = session_key u'"
    by (auto simp: session_key_def)
  with index_ok_lookup [OF reg_invD(3) [OF inv]] index_ok_lookup [OF reg_invD(4) [OF inv]] u u' show "sid = sid'"
    by (metis option.inject)
qed

definition sample_registration :: "string \<Rightarrow> Registration" where
  "sample_registration inst =
     \<lparr>rg_ClientInstanceID = inst, rg_OwnerID = 5, rg_Username = ''alice'', rg_CallSign = ''BG1ABC'', rg_Nickname = '''',
      rg_DevModel = 101, rg_SSID = 101, rg_Transport = ''udp'', rg_Endpoint = '''', rg_ProtocolVersion = 1,
      rg_Capabilities = [CapabilitySourceGroupV1, CapabilityMultiReceiveV1],
      rg_Routing = \<lparr>rt_TxGroupID = 3, rt_RxGroupIDs = [4]\<rparr>, rg_DisableSend = False, rg_DisableRecv = False, rg_Now = 1000\<rparr>"

definition sample_controller :: Controller where
  "sample_controller = \<lparr>ctl_ApplyRouting = Some (\<lambda>rt. if rt_TxGroupID rt = 9 then Some ''down'' else None), ctl_Disconnect = True\<rparr>"

definition sample_parse :: "string \<Rightarrow> string option" where
  "sample_parse s = (if s = [] then None else Some s)"

definition sample_register :: "Registry \<Rightarrow> Registry \<times> registry_event list \<times> (ghost_error + Session)" where
  "sample_register r =
     Register 0 r sample_parse id (\<lambda>_. Some [0, 0, 0, 7]) ''session-1'' (sample_registration ''phone'') sample_controller"

definition sample_session :: Session where
  "sample_session = new_session (sample_registration ''phone'') id ''session-1'' 7 ''phone''
     \<lparr>rt_TxGroupID = 3, rt_RxGroupIDs = [3, 4]\<rparr> 1000"

definition sample_registry :: Registry where
  "sample_registry = (insert_entry (NewRegistry 0 0) \<lparr>re_session = sample_session, re_controller = sample_controller\<rparr>)
     \<lparr>reg_registrations := 1\<rparr>"

lemma sample_register_eval: "sample_register (NewRegistry 0 0) = (sample_registry, [], Inr sample_session)"
proof -
  let ?g = "sample_registration ''phone''"
  have p: "printable ''phone''" "printable CapabilitySourceGroupV1" "printable CapabilityMultiReceiveV1" by code_simp+
  have l: "to_lower id ''phone'' = ''phone''" "to_lower id CapabilitySourceGroupV1 = CapabilitySourceGroupV1"
    "to_lower id CapabilityMultiReceiveV1 = CapabilityMultiReceiveV1" by code_simp+
  have "NormalizeClientInstanceID sample_parse id (rg_ClientInstanceID ?g) = Inr ''phone''"
    by (simp add: NormalizeClientInstanceID_def sample_registration_def trim_space_printable p l sample_parse_def)
  moreover have "ValidateCapabilities id (rg_Capabilities ?g) = None"
    by (simp add: ValidateCapabilities_iff sample_registration_def normalizeCapabilities_def trim_space_printable p l)
  moreover have "NormalizeRouting (rg_Routing ?g) 16 = Inr \<lparr>rt_TxGroupID = 3, rt_RxGroupIDs = [3, 4]\<rparr>"
    by (simp add: NormalizeRouting_def sample_registration_def)
  moreover have "randomSessionTag (\<lambda>_. Some [0, 0, 0, 7]) fmempty = Inr 7"
  proof -
    have "getUint32 [0, 0, 0, 7] = 7" by (simp add: be_defs be_get_def)
    then have "session_tag_loop (Suc 15) (\<lambda>_. Some [0, 0, 0, 7]) fmempty = Inr 7"
      by (simp only: session_tag_loop.simps option.case Let_def) simp
    moreover have "(16 :: nat) = Suc 15" by simp
    ultimately show ?thesis unfolding randomSessionTag_def by metis
  qed
  moreover have "or_now 0 (rg_Now ?g) = 1000" by (simp add: or_now_def zero_time_def sample_registration_def)
  ultimately show ?thesis
    by (simp add: sample_register_def Register_def registry_normalizeRouting_def register_locked_def NewRegistry_def Let_def
        string_at_def set_at_def fcard_fempty sample_registry_def sample_session_def)
      (simp add: sample_registration_def insert_entry_def Let_def)
qed

lemma sample_registry_eval:
  "FindByTag sample_registry 7 = Some sample_session" "Get sample_registry ''session-1'' = Some sample_session"
  by (simp_all add: sample_registry_def insert_entry_def sample_session_def new_session_def Let_def Get_def FindByTag_def string_at_def)

lemma sample_registry_reachable: "registry_reachable sample_registry"
proof -
  have "registry_step (NewRegistry 0 0) sample_registry"
    using registry_step.register [of "NewRegistry 0 0" "''session-1''"] sample_register_eval
    by (metis (no_types, lifting) Get_def NewRegistry_def fmempty_lookup fst_conv list.distinct(1) option.map(1)
        Registry.select_convs(1) sample_register_def)
  then show ?thesis unfolding registry_reachable_def by blast
qed

theorem registry_consistent_witness:
  "\<exists>s. FindByTag sample_registry 7 = Some s \<and> Get sample_registry (ss_SessionID s) = Some s \<and>
     ss_TxGroupID s \<in> set (ss_RxGroupIDs s)"
proof -
  obtain s where s: "FindByTag sample_registry 7 = Some s" using sample_registry_eval(1) by blast
  note c = registry_consistent [OF sample_registry_reachable]
  from c [of 7 s] s have "Get sample_registry (ss_SessionID s) = Some s" by simp
  with s c [of 7 s "ss_SessionID s" s] show ?thesis by blast
qed

text \<open>C36: A registration that succeeds publishes one session, found by its ID and its tag, with the requested
  routing normalized; the former session of the same client instance has gone, and every other
  session is untouched.\<close>

theorem register_replaces:
  assumes "registry_reachable r" and "Get r newID = None" and "newID \<noteq> []"
    and "Register clock r parse uni rand newID g c = (r', events, Inr s)"
  shows "Get r' newID = Some s \<and> FindByTag r' (ss_SessionTag s) = Some s \<and>
    NormalizeRouting (rg_Routing g) (reg_maxSubscriptions r) = Inr (Session_Routing s) \<and>
    (Get r sid = Some t \<longrightarrow> Get r' sid =
      (if (ss_OwnerID t, ss_DevModel t, ss_ClientInstanceID t) = (ss_OwnerID s, ss_DevModel s, ss_ClientInstanceID s)
       then None else Some t))"
  using registry_reachable_ok [OF assms(1)] assms(2,3)
proof (cases rule: Register_cases [of r newID clock parse uni rand g c])
  case (failed err r1)
  with assms(4) show ?thesis by simp
next
  case (success r1 events1 s1)
  with assms(4) have s1: "r1 = r'" "s1 = s" by simp_all
  have get: "Get r' newID = Some s" using success s1 by (simp add: registered_def)
  have "sid \<noteq> newID" if "Get r sid = Some t" using that assms(2) by auto
  with success s1 get FindByTag_iff [of r' "ss_SessionTag s" s] show ?thesis
    by (auto simp: registered_def session_key_def instanceKey_inject)
qed

theorem register_replaces_witness:
  "\<exists>r' s. sample_register (NewRegistry 0 0) = (r', [], Inr s) \<and> Get r' ''session-1'' = Some s"
proof -
  have "registry_reachable (NewRegistry 0 0)" "Get (NewRegistry 0 0) ''session-1'' = None"
    unfolding registry_reachable_def by (blast, simp add: Get_def NewRegistry_def)
  with register_replaces [OF _ _ _ sample_register_eval [unfolded sample_register_def]] sample_register_eval show ?thesis by simp
qed

text \<open>The routing the database holds after the calls of an update: a write takes effect exactly when it
  reports no error.\<close>

fun stored_routing :: "(nat \<Rightarrow> Session \<Rightarrow> Routing \<Rightarrow> string option) \<Rightarrow> Session \<Rightarrow> nat \<Rightarrow> registry_event list \<Rightarrow> Routing \<Rightarrow> Routing" where
  "stored_routing persist s i [] db = db"
| "stored_routing persist s i (PersistCalled sid routing # events) db =
     stored_routing persist s (Suc i) events (if persist i s routing = None then routing else db)"
| "stored_routing persist s i (_ # events) db = stored_routing persist s i events db"

text \<open>C35: A routing update leaves registry and database agreeing.  Starting from a session whose routing the
  database holds: if the update succeeds, only this session changes, to the normalized routing, which is what the
  database then holds; if the database or the transport refuses it, no session changes and the database
  holds the previous routing again, unless the write that takes the new routing back fails as well,
  and then the error returned carries that second failure.\<close>

theorem routing_update_atomic:
  assumes "registry_reachable r" and "Get r sid = Some s"
    and "UpdateRoutingPersisted r sid rt (Some persist) = (r', events, result)"
  shows "case result of
      Inr s' \<Rightarrow> Get r' = (Get r)(sid \<mapsto> s') \<and> NormalizeRouting rt (reg_maxSubscriptions r) = Inr (Session_Routing s') \<and>
        stored_routing persist s 0 events (Session_Routing s) = Session_Routing s'
    | Inl err \<Rightarrow> Get r' = Get r \<and>
        (stored_routing persist s 0 events (Session_Routing s) = Session_Routing s \<or>
         (\<exists>applyErr rollbackErr. err = JoinedError applyErr (Some rollbackErr)))"
proof -
  note inv = registry_reachable_ok [OF assms(1)]
  obtain n where norm: "registry_normalizeRouting r rt =
      (r\<lparr>reg_subscriptionLimitRejects := n\<rparr>, NormalizeRouting rt (reg_maxSubscriptions r))"
    by (rule registry_normalizeRouting_eq)
  let ?r = "r\<lparr>reg_subscriptionLimitRejects := n\<rparr>"
  have upd: "Get (update_session ?r sid (\<lambda>s. s\<lparr>ss_TxGroupID := rt_TxGroupID q, ss_RxGroupIDs := rt_RxGroupIDs q\<rparr>)) =
      (Get r)(sid \<mapsto> s\<lparr>ss_TxGroupID := rt_TxGroupID q, ss_RxGroupIDs := rt_RxGroupIDs q\<rparr>)"
    if "Get r sid = Some s" for s q
    using that by (auto simp: update_session_def Get_def fun_eq_iff)
  obtain e where e: "fmlookup (reg_sessions r) sid = Some e" "re_session e = s"
    using assms(2) by (auto simp: Get_def)
  with assms(3) upd [OF assms(2)] show ?thesis
    by (auto simp: UpdateRoutingPersisted_def norm Let_def Session_Routing_def split: sum.splits option.splits)
qed

definition sample_persist :: "nat \<Rightarrow> Session \<Rightarrow> Routing \<Rightarrow> string option" where
  "sample_persist i s rt = None"

theorem routing_update_atomic_witness:
  "\<exists>r' events err. UpdateRoutingPersisted sample_registry ''session-1'' \<lparr>rt_TxGroupID = 9, rt_RxGroupIDs = []\<rparr> (Some sample_persist) =
     (r', events, Inl err) \<and> Get r' = Get sample_registry"
proof -
  let ?u = "UpdateRoutingPersisted sample_registry ''session-1'' \<lparr>rt_TxGroupID = 9, rt_RxGroupIDs = []\<rparr> (Some sample_persist)"
  have "fmlookup (reg_sessions sample_registry) ''session-1'' = Some \<lparr>re_session = sample_session, re_controller = sample_controller\<rparr>"
    "reg_maxSubscriptions sample_registry = 16"
    by (simp_all add: sample_registry_def insert_entry_def sample_session_def new_session_def NewRegistry_def Let_def)
  then have "\<exists>r' events err. ?u = (r', events, Inl err)"
    by (simp add: UpdateRoutingPersisted_def registry_normalizeRouting_def NormalizeRouting_def sample_persist_def
        sample_controller_def Let_def)
  then obtain r' events err where u: "?u = (r', events, Inl err)" by blast
  have get: "Get sample_registry ''session-1'' = Some sample_session" using sample_registry_eval by simp
  from routing_update_atomic [OF sample_registry_reachable get u] u show ?thesis by simp
qed

text \<open>The session list of an owner is complete and well ordered: it holds precisely the owner's
  sessions, each once, by time of creation and then by ID.\<close>

theorem list_owner_exact:
  assumes "registry_reachable r"
  shows "set (ListOwner r owner) = {s. Get r (ss_SessionID s) = Some s \<and> ss_OwnerID s = owner} \<and>
    distinct (map ss_SessionID (ListOwner r owner)) \<and>
    sorted (map (\<lambda>s. (ss_CreatedAt s, ss_SessionID s)) (ListOwner r owner))"
proof -
  note inv = registry_reachable_ok [OF assms]
  have "sid |\<in>| set_at (reg_ownerSessions r) owner \<longleftrightarrow> (\<exists>s. Get r sid = Some s \<and> ss_OwnerID s = owner)" for sid
    using reg_invD(2) [OF inv] unfolding owners_ok_def by auto
  then have "set (ListOwner r owner) = {s. Get r (ss_SessionID s) = Some s \<and> ss_OwnerID s = owner}"
    using Get_id [OF inv] by (auto simp: ListOwner_def set_sessions_at)
  moreover have "distinct (map ss_SessionID (ListOwner r owner))"
    using distinct_sessions_at [OF inv, of "set_at (reg_ownerSessions r) owner"]
    unfolding ListOwner_def distinct_map by (auto simp: inj_on_def)
  moreover have "sorted (map session_order (ListOwner r owner))" by (simp add: ListOwner_def)
  ultimately show ?thesis by (simp add: session_order_def [abs_def])
qed

theorem list_owner_exact_witness: "sample_session \<in> set (ListOwner sample_registry 5)"
  using list_owner_exact [OF sample_registry_reachable, of 5] sample_registry_eval
  by (simp add: sample_session_def new_session_def sample_registration_def)

end
