(* ===== verification/Auth_Failures.thy ===== *)
theory Auth_Failures
  imports Shards
begin

section \<open>Failed authentications (\<open>internal/udphub/sharded_map.go\<close>, \<open>auth.go\<close>)\<close>

text \<open>
  Repeated failures of a device to authenticate block its address and user name for a growing
  time.  The records live in a table of 16 shards, each with its own lock, and one atomic counter
  bounds the entries of all shards together.  A new key first takes a slot of the counter; when
  the table is full, an entry of the same shard may be evicted.

  The order in which \<^verbatim>\<open>range\<close> visits a Go map is the argument \<open>order\<close>.  The user repository, the
  password check and the state of the context are arguments of the authentication.
\<close>

subsection \<open>The table\<close>

abbreviation (input) ShardCount :: nat where "ShardCount \<equiv> 16"
abbreviation (input) defaultShardedAuthMapMaxEntries :: int where "defaultShardedAuthMapMaxEntries \<equiv> 100000"
abbreviation (input) maxAuthMapEvictionScan :: nat where "maxAuthMapEvictionScan \<equiv> 128"
abbreviation (input) minutes :: "int \<Rightarrow> duration" where "minutes n \<equiv> seconds (60 * n)"

record AuthFailure =
  af_IP :: string
  af_Username :: string
  af_FailCount :: int
  af_BlockedUntil :: time
  af_LastFailureAt :: time

definition no_failure :: AuthFailure where
  "no_failure = \<lparr>af_IP = [], af_Username = [], af_FailCount = 0, af_BlockedUntil = zero_time, af_LastFailureAt = zero_time\<rparr>"

type_synonym auth_shard = "(string, AuthFailure) fmap"

record ShardedAuthMap =
  am_shards :: "auth_shard list"
  am_maxEntries :: int
  am_entryCount :: int

definition NewShardedAuthMapWithLimit :: "int \<Rightarrow> ShardedAuthMap" where
  "NewShardedAuthMapWithLimit maxEntries =
     (let maxEntries = (if maxEntries < 1 then 1 else maxEntries)
      in \<lparr>am_shards = replicate ShardCount fmempty, am_maxEntries = maxEntries, am_entryCount = 0\<rparr>)"

definition NewShardedAuthMap :: ShardedAuthMap where
  "NewShardedAuthMap = NewShardedAuthMapWithLimit defaultShardedAuthMapMaxEntries"

definition getShard :: "string \<Rightarrow> nat" where
  "getShard key = unat (fnv32a key) mod ShardCount"

definition auth_Get :: "ShardedAuthMap \<Rightarrow> string \<Rightarrow> AuthFailure option" where
  "auth_Get m key = sh_get getShard (am_shards m) key"

definition last_failure :: "AuthFailure \<Rightarrow> time" where
  "last_failure f = (if af_LastFailureAt f = zero_time then af_BlockedUntil f else af_LastFailureAt f)"

definition outdated :: "time \<Rightarrow> AuthFailure \<Rightarrow> bool" where
  "outdated now f \<longleftrightarrow> last_failure f \<noteq> zero_time \<and> last_failure f + minutes 10 < now"

definition still_blocked :: "time \<Rightarrow> AuthFailure \<Rightarrow> bool" where
  "still_blocked now f \<longleftrightarrow> af_BlockedUntil f \<noteq> zero_time \<and> now < af_BlockedUntil f"

text \<open>The scan for an entry to evict: an outdated entry is taken at once, otherwise the oldest entry that
  is not blocked; the empty key stands for none.\<close>

fun evict_scan :: "time \<Rightarrow> auth_shard \<Rightarrow> string list \<Rightarrow> nat \<Rightarrow> string \<Rightarrow> time \<Rightarrow> string option" where
  "evict_scan now entries [] scanned oldestKey oldestAt = (if oldestKey = '''' then None else Some oldestKey)"
| "evict_scan now entries (key # keys) scanned oldestKey oldestAt =
     (if maxAuthMapEvictionScan \<le> scanned then (if oldestKey = '''' then None else Some oldestKey)
      else case fmlookup entries key of
        None \<Rightarrow> evict_scan now entries keys scanned oldestKey oldestAt
      | Some failure \<Rightarrow>
          if outdated now failure then Some key
          else if still_blocked now failure then evict_scan now entries keys (scanned + 1) oldestKey oldestAt
          else if oldestKey = '''' \<or> last_failure failure < oldestAt
          then evict_scan now entries keys (scanned + 1) key (last_failure failure)
          else evict_scan now entries keys (scanned + 1) oldestKey oldestAt)"

definition evictOneLocked :: "(auth_shard \<Rightarrow> string list) \<Rightarrow> ShardedAuthMap \<Rightarrow> nat \<Rightarrow> time \<Rightarrow> ShardedAuthMap \<times> bool" where
  "evictOneLocked order m shard now =
     (let entries = am_shards m ! shard
      in case evict_scan now entries (order entries) 0 '''' zero_time of
           None \<Rightarrow> (m, False)
         | Some key \<Rightarrow>
             (m\<lparr>am_shards := (am_shards m)[shard := fmdrop key entries], am_entryCount := am_entryCount m - 1\<rparr>, True))"

text \<open>One round of the loop of \<open>admitNewLocked\<close>: a slot is taken (\<open>Some True\<close>), the key is refused
  (\<open>Some False\<close>), or an entry was evicted and the loop goes on (\<^const>\<open>None\<close>).\<close>

definition admit_round :: "(auth_shard \<Rightarrow> string list) \<Rightarrow> ShardedAuthMap \<Rightarrow> nat \<Rightarrow> time \<Rightarrow> ShardedAuthMap \<times> bool option" where
  "admit_round order m shard now =
     (if am_entryCount m < am_maxEntries m then (m\<lparr>am_entryCount := am_entryCount m + 1\<rparr>, Some True)
      else
        let (m, evicted) = evictOneLocked order m shard now
        in (m, if evicted then None else Some False))"

lemma evict_count: "evictOneLocked order m shard now = (m', True) \<Longrightarrow> am_entryCount m' = am_entryCount m - 1 \<and> am_maxEntries m' = am_maxEntries m"
  by (auto simp: evictOneLocked_def Let_def split: option.splits)

lemma admit_round_again:
  "admit_round order m shard now = (m', None) \<Longrightarrow>
     am_maxEntries m \<le> am_entryCount m \<and> am_entryCount m' = am_entryCount m - 1 \<and> am_maxEntries m' = am_maxEntries m"
  by (auto simp: admit_round_def Let_def dest: evict_count split: if_splits prod.splits)

function admitNewLocked :: "(auth_shard \<Rightarrow> string list) \<Rightarrow> ShardedAuthMap \<Rightarrow> nat \<Rightarrow> time \<Rightarrow> ShardedAuthMap \<times> bool" where
  "admitNewLocked order m shard now =
     (case admit_round order m shard now of
        (m, Some verdict) \<Rightarrow> (m, verdict)
      | (m, None) \<Rightarrow> admitNewLocked order m shard now)"
  by pat_completeness auto

termination
  by (relation "measure (\<lambda>(order, m, shard, now). nat (am_entryCount m - am_maxEntries m + 1))")
    (auto dest!: sym [THEN admit_round_again] admit_round_again [OF sym])

declare admitNewLocked.simps [simp del]

definition UpdateBounded ::
    "(auth_shard \<Rightarrow> string list) \<Rightarrow> time \<Rightarrow> ShardedAuthMap \<Rightarrow> string \<Rightarrow> (AuthFailure \<Rightarrow> AuthFailure) \<Rightarrow> ShardedAuthMap \<times> AuthFailure option" where
  "UpdateBounded order now m key mutate =
     (case sh_get getShard (am_shards m) key of
        Some failure \<Rightarrow>
          (m\<lparr>am_shards := sh_put getShard (am_shards m) key (mutate failure)\<rparr>, Some (mutate failure))
      | None \<Rightarrow>
          (case admitNewLocked order m (getShard key) now of
             (m, False) \<Rightarrow> (m, None)
           | (m, True) \<Rightarrow>
               (m\<lparr>am_shards := sh_put getShard (am_shards m) key (mutate no_failure)\<rparr>, Some (mutate no_failure))))"

definition auth_Set :: "(auth_shard \<Rightarrow> string list) \<Rightarrow> time \<Rightarrow> ShardedAuthMap \<Rightarrow> string \<Rightarrow> AuthFailure \<Rightarrow> ShardedAuthMap" where
  "auth_Set order now m key value =
     (case sh_get getShard (am_shards m) key of
        Some _ \<Rightarrow> m\<lparr>am_shards := sh_put getShard (am_shards m) key value\<rparr>
      | None \<Rightarrow>
          (case admitNewLocked order m (getShard key) now of
             (m, False) \<Rightarrow> m
           | (m, True) \<Rightarrow> m\<lparr>am_shards := sh_put getShard (am_shards m) key value\<rparr>))"

definition auth_Delete :: "ShardedAuthMap \<Rightarrow> string \<Rightarrow> ShardedAuthMap" where
  "auth_Delete m key =
     (case sh_get getShard (am_shards m) key of
        Some _ \<Rightarrow> m\<lparr>am_shards := sh_del getShard (am_shards m) key, am_entryCount := am_entryCount m - 1\<rparr>
      | None \<Rightarrow> m)"

text \<open>\<open>CleanExpired\<close> locks one shard after the other; \<open>clean_shard\<close> is its work on one of them.\<close>

definition clean_shard :: "time \<Rightarrow> ShardedAuthMap \<Rightarrow> nat \<Rightarrow> ShardedAuthMap \<times> int" where
  "clean_shard now m i =
     (let entries = am_shards m ! i;
          entries' = fm_filter_out (\<lambda>_ failure. outdated now failure) entries;
          removed = int (fm_size entries) - int (fm_size entries')
      in (m\<lparr>am_shards := (am_shards m)[i := entries'], am_entryCount := am_entryCount m - removed\<rparr>, removed))"

fun clean_shards :: "time \<Rightarrow> ShardedAuthMap \<Rightarrow> nat list \<Rightarrow> int \<Rightarrow> ShardedAuthMap \<times> int" where
  "clean_shards now m [] count = (m, count)"
| "clean_shards now m (i # is) count =
     (let (m, removed) = clean_shard now m i in clean_shards now m is (count + removed))"

definition CleanExpired :: "time \<Rightarrow> ShardedAuthMap \<Rightarrow> ShardedAuthMap \<times> int" where
  "CleanExpired now m = clean_shards now m [0..<ShardCount] 0"

definition auth_Len :: "ShardedAuthMap \<Rightarrow> int" where
  "auth_Len m = int (sum_list (map fm_size (am_shards m)))"

subsection \<open>Blocking\<close>

definition blockDurations :: "duration list" where
  "blockDurations = [seconds 10, seconds 30, seconds 60, seconds 300]"

definition getBlockKey :: "string \<Rightarrow> string \<Rightarrow> string" where
  "getBlockKey ip username = ip @ '':'' @ username"

definition isBlocked :: "time \<Rightarrow> ShardedAuthMap \<Rightarrow> string \<Rightarrow> string \<Rightarrow> bool \<times> time" where
  "isBlocked clock m ip username =
     (case auth_Get m (getBlockKey ip username) of
        Some failure \<Rightarrow> if still_blocked clock failure then (True, af_BlockedUntil failure) else (False, zero_time)
      | None \<Rightarrow> (False, zero_time))"

definition block_level :: "int \<Rightarrow> duration" where
  "block_level failCount =
     (let blockLevel = failCount - 3;
          blockLevel = (if int (length blockDurations) \<le> blockLevel then int (length blockDurations) - 1 else blockLevel)
      in blockDurations ! nat blockLevel)"

definition count_failure :: "string \<Rightarrow> string \<Rightarrow> time \<Rightarrow> AuthFailure \<Rightarrow> AuthFailure" where
  "count_failure ip username now failure =
     (let failure = failure\<lparr>af_IP := ip, af_Username := username, af_LastFailureAt := now\<rparr>;
          failure = (if af_FailCount failure < 1024 then failure\<lparr>af_FailCount := af_FailCount failure + 1\<rparr> else failure)
      in if 3 \<le> af_FailCount failure then failure\<lparr>af_BlockedUntil := now + block_level (af_FailCount failure)\<rparr> else failure)"

definition recordFailure ::
    "(auth_shard \<Rightarrow> string list) \<Rightarrow> time \<Rightarrow> ShardedAuthMap \<Rightarrow> string \<Rightarrow> string \<Rightarrow> ShardedAuthMap \<times> duration" where
  "recordFailure order now m ip username =
     (case UpdateBounded order now m (getBlockKey ip username) (count_failure ip username now) of
        (m, None) \<Rightarrow> (m, 0)
      | (m, Some failure) \<Rightarrow> (m, if 3 \<le> af_FailCount failure then block_level (af_FailCount failure) else 0))"

definition clearFailure :: "ShardedAuthMap \<Rightarrow> string \<Rightarrow> string \<Rightarrow> ShardedAuthMap" where
  "clearFailure m ip username = auth_Delete m (getBlockKey ip username)"

definition GetAuthFailureCount :: "ShardedAuthMap \<Rightarrow> string \<Rightarrow> string \<Rightarrow> int" where
  "GetAuthFailureCount m ip username =
     (case auth_Get m (getBlockKey ip username) of Some failure \<Rightarrow> af_FailCount failure | None \<Rightarrow> 0)"

definition CleanExpiredAuthFailures :: "time \<Rightarrow> ShardedAuthMap \<Rightarrow> ShardedAuthMap" where
  "CleanExpiredAuthFailures clock m = fst (CleanExpired clock m)"

subsection \<open>Authenticating a device\<close>

record auth_user =
  usr_ID :: int
  usr_Status :: int
  usr_ApprovalStatus :: int
  usr_DevicePassword :: string
  usr_CallSign :: string

record DeviceAuthResult =
  dar_Success :: bool
  dar_User :: "auth_user option"
  dar_CallSign :: string
  dar_Blocked :: bool
  dar_BlockEnd :: time
  dar_Error :: string

definition auth_rejected :: "string \<Rightarrow> DeviceAuthResult" where
  "auth_rejected err = \<lparr>dar_Success = False, dar_User = None, dar_CallSign = [], dar_Blocked = False, dar_BlockEnd = zero_time, dar_Error = err\<rparr>"

datatype ctx_error = DeadlineExceeded | Canceled

definition authContextError :: "ctx_error \<Rightarrow> string" where
  "authContextError err = (if err = DeadlineExceeded then ''auth_backend_timeout'' else ''auth_canceled'')"

text \<open>The outside world of one call: the context at each of the four times it is asked, the user that the
  repository finds (\<open>Inl\<close> is a failure of the database), the password check (match, legacy
  format, failure), the encryption of a legacy password, and the two readings of the clock.\<close>

record auth_world =
  aw_ctx :: "nat \<Rightarrow> ctx_error option"
  aw_user :: "unit + auth_user option"
  aw_verify :: "string \<Rightarrow> string \<Rightarrow> bool \<times> bool \<times> bool"
  aw_encrypt :: "string \<Rightarrow> string option"
  aw_blockClock :: time
  aw_failClock :: time

text \<open>The last component lists the password updates sent to the repository.\<close>

definition AuthenticateDeviceContext ::
    "(auth_shard \<Rightarrow> string list) \<Rightarrow> auth_world \<Rightarrow> ShardedAuthMap \<Rightarrow> string \<Rightarrow> string \<Rightarrow> string \<Rightarrow>
     ShardedAuthMap \<times> DeviceAuthResult \<times> (int \<times> string) list" where
  "AuthenticateDeviceContext order w m ip username password =
     (let failed = (\<lambda>err. (fst (recordFailure order (aw_failClock w) m ip username), auth_rejected err, []))
      in case aw_ctx w 0 of
        Some err \<Rightarrow> (m, auth_rejected (authContextError err), [])
      | None \<Rightarrow>
          let (blocked, blockEnd) = isBlocked (aw_blockClock w) m ip username
          in if blocked
             then (m, (auth_rejected ''too_many_failures'')\<lparr>dar_Blocked := True, dar_BlockEnd := blockEnd\<rparr>, [])
             else case aw_user w of
               Inl _ \<Rightarrow> (m, auth_rejected ''auth_backend_unavailable'', [])
             | Inr None \<Rightarrow> failed ''user_not_found''
             | Inr (Some user) \<Rightarrow>
                 if usr_Status user \<noteq> 1 then (m, auth_rejected ''user_disabled'', [])
                 else if usr_ApprovalStatus user \<noteq> 1 then failed ''invalid_password''
                 else if usr_DevicePassword user = '''' then (m, auth_rejected ''device_password_not_set'', [])
                 else case aw_ctx w 1 of
                   Some err \<Rightarrow> (m, auth_rejected (authContextError err), [])
                 | None \<Rightarrow>
                     let (match, legacyPassword, verifyFailed) = aw_verify w (usr_DevicePassword user) password
                     in case aw_ctx w 2 of
                          Some err \<Rightarrow> (m, auth_rejected (authContextError err), [])
                        | None \<Rightarrow>
                            if verifyFailed then failed ''invalid_password''
                            else if \<not> match then failed ''invalid_password''
                            else
                              let updates = (if legacyPassword
                                             then (case aw_encrypt w password of Some p \<Rightarrow> [(usr_ID user, p)] | None \<Rightarrow> [])
                                             else [])
                              in case aw_ctx w 3 of
                                   Some err \<Rightarrow> (m, auth_rejected (authContextError err), updates)
                                 | None \<Rightarrow>
                                     (clearFailure m ip username,
                                      \<lparr>dar_Success = True, dar_User = Some user, dar_CallSign = usr_CallSign user,
                                       dar_Blocked = False, dar_BlockEnd = zero_time, dar_Error = []\<rparr>, updates))"

subsection \<open>The shards as one map\<close>

lemma getShard_less: "getShard key < 16"
  by (simp add: getShard_def)

interpretation auth: sharding getShard 16
  by unfold_locales (rule getShard_less)

lemma evict_scan_found:
  assumes "evict_scan now entries keys scanned oldestKey oldestAt = Some key"
    and "oldestKey = '''' \<or> (\<exists>f. fmlookup entries oldestKey = Some f \<and> \<not> still_blocked now f)"
  shows "\<exists>f. fmlookup entries key = Some f \<and> (outdated now f \<or> \<not> still_blocked now f)"
  using assms
proof (induction keys arbitrary: scanned oldestKey oldestAt)
  case Nil
  then show ?case by (auto split: if_splits)
next
  case (Cons k keys)
  from Cons.prems show ?case
    by (auto split: if_splits option.splits intro: Cons.IH)
qed

lemma evict_spec:
  assumes "auth.well_sharded (am_shards m)" and "i < 16" and "evictOneLocked order m i now = (m', True)"
  shows "\<exists>key f. auth_Get m key = Some f \<and> getShard key = i \<and> (outdated now f \<or> \<not> still_blocked now f) \<and>
    am_shards m' = sh_del getShard (am_shards m) key \<and> am_entryCount m' = am_entryCount m - 1 \<and> am_maxEntries m' = am_maxEntries m"
proof -
  obtain key where key: "evict_scan now (am_shards m ! i) (order (am_shards m ! i)) 0 '''' zero_time = Some key"
      and m': "m' = m\<lparr>am_shards := (am_shards m)[i := fmdrop key (am_shards m ! i)], am_entryCount := am_entryCount m - 1\<rparr>"
    using assms(3) by (auto simp: evictOneLocked_def Let_def split: option.splits)
  obtain f where f: "fmlookup (am_shards m ! i) key = Some f" "outdated now f \<or> \<not> still_blocked now f"
    using evict_scan_found [OF key] by auto
  have "getShard key = i" using assms(1,2) f(1) unfolding auth.well_sharded_def by (metis option.distinct(1))
  with f m' show ?thesis by (auto simp: auth_Get_def sh_get_def sh_del_def)
qed

lemma evict_fail: "evictOneLocked order m i now = (m', False) \<Longrightarrow> m' = m"
  by (auto simp: evictOneLocked_def Let_def split: option.splits)

subsection \<open>Interleaved updates\<close>

text \<open>A goroutine that inserts a new key holds the lock of the shard while it waits for a slot and then
  while it owns one.  A round may act on a count that has changed since it was read: it then evicts
  although there is room meanwhile (\<open>au_stale\<close>).\<close>

datatype shard_lock = Unlocked | Waiting string | Holding string

type_synonym auth_state = "ShardedAuthMap \<times> (nat \<Rightarrow> shard_lock)"

inductive auth_step :: "auth_state \<Rightarrow> auth_state \<Rightarrow> bool" where
  au_change: "lock (getShard key) = Unlocked \<Longrightarrow> auth_Get m key = Some failure
    \<Longrightarrow> auth_step (m, lock) (m\<lparr>am_shards := sh_put getShard (am_shards m) key value\<rparr>, lock)"
| au_begin: "lock (getShard key) = Unlocked \<Longrightarrow> auth_Get m key = None
    \<Longrightarrow> auth_step (m, lock) (m, lock(getShard key := Waiting key))"
| au_round: "lock i = Waiting key \<Longrightarrow> i < 16 \<Longrightarrow> admit_round order m i now = (m', verdict)
    \<Longrightarrow> auth_step (m, lock)
          (m', lock(i := (case verdict of Some True \<Rightarrow> Holding key | Some False \<Rightarrow> Unlocked | None \<Rightarrow> Waiting key)))"
| au_stale: "lock i = Waiting key \<Longrightarrow> i < 16 \<Longrightarrow> evictOneLocked order m i now = (m', evicted)
    \<Longrightarrow> auth_step (m, lock) (m', lock(i := (if evicted then Waiting key else Unlocked)))"
| au_insert: "lock i = Holding key \<Longrightarrow> i < 16
    \<Longrightarrow> auth_step (m, lock) (m\<lparr>am_shards := sh_put getShard (am_shards m) key value\<rparr>, lock(i := Unlocked))"
| au_delete: "lock (getShard key) = Unlocked \<Longrightarrow> auth_step (m, lock) (auth_Delete m key, lock)"
| au_clean: "lock i = Unlocked \<Longrightarrow> i < 16 \<Longrightarrow> auth_step (m, lock) (fst (clean_shard now m i), lock)"

inductive auth_reachable :: "int \<Rightarrow> auth_state \<Rightarrow> bool" for maxEntries where
  au_start: "auth_reachable maxEntries (NewShardedAuthMapWithLimit maxEntries, \<lambda>_. Unlocked)"
| au_more: "auth_reachable maxEntries st \<Longrightarrow> auth_step st st' \<Longrightarrow> auth_reachable maxEntries st'"

definition owners :: "(nat \<Rightarrow> shard_lock) \<Rightarrow> nat set" where
  "owners lock = {i. i < 16 \<and> (\<exists>key. lock i = Holding key)}"

definition auth_inv :: "auth_state \<Rightarrow> bool" where
  "auth_inv st \<longleftrightarrow> (case st of (m, lock) \<Rightarrow>
     auth.well_sharded (am_shards m) \<and>
     am_entryCount m = int (card (auth.keys (am_shards m))) + int (card (owners lock)) \<and>
     am_entryCount m \<le> am_maxEntries m \<and>
     (\<forall>i key. lock i = Waiting key \<or> lock i = Holding key \<longrightarrow> getShard key = i \<and> auth_Get m key = None))"

lemma owners_upd:
  "i < 16 \<Longrightarrow> owners (lock(i := Holding key)) = insert i (owners lock)"
  "owners (lock(i := Unlocked)) = owners lock - {i}" "owners (lock(i := Waiting key)) = owners lock - {i}"
  by (auto simp: owners_def)

lemma finite_owners [simp]: "finite (owners lock)"
  by (simp add: owners_def)

lemma owners_not: "lock i = Waiting key \<Longrightarrow> i \<notin> owners lock" "lock i = Unlocked \<Longrightarrow> i \<notin> owners lock"
  by (simp_all add: owners_def)

lemma auth_invD:
  assumes "auth_inv (m, lock)"
  shows "auth.well_sharded (am_shards m)" "am_entryCount m = int (card (auth.keys (am_shards m))) + int (card (owners lock))"
    "am_entryCount m \<le> am_maxEntries m"
    "lock i = Waiting key \<or> lock i = Holding key \<Longrightarrow> getShard key = i \<and> auth_Get m key = None"
  using assms by (auto simp: auth_inv_def)

lemma in_keys: "key \<in> auth.keys (am_shards m) \<longleftrightarrow> auth_Get m key \<noteq> None"
  by (simp add: auth.keys_def auth_Get_def)

lemma get_put_auth: "auth.well_sharded (am_shards m) \<Longrightarrow>
    auth_Get (m\<lparr>am_shards := sh_put getShard (am_shards m) key v\<rparr>) k = (if k = key then Some v else auth_Get m k)"
  by (simp add: auth_Get_def auth.get_put)

lemma card_del:
  assumes "auth.well_sharded (am_shards m)" and "auth_Get m key = Some f"
  shows "int (card (auth.keys (sh_del getShard (am_shards m) key))) = int (card (auth.keys (am_shards m))) - 1"
proof -
  have key: "key \<in> auth.keys (am_shards m)" using assms(2) by (simp add: in_keys)
  then have "0 < card (auth.keys (am_shards m))" using auth.finite_keys [OF assms(1)] card_gt_0_iff by blast
  then show ?thesis using card_Diff_singleton [OF key] auth.keys_del [OF assms(1), of key] by (simp add: of_nat_diff)
qed

lemma auth_inv_evict:
  assumes "auth_inv (m, lock)" and "lock i = Waiting key" and "i < 16" and ev: "evictOneLocked order m i now = (m', evicted)"
  shows "auth_inv (m', lock(i := (if evicted then Waiting key else Unlocked)))"
proof -
  have own: "owners (lock(i := Unlocked)) = owners lock" "owners (lock(i := Waiting key)) = owners lock"
    using owners_not(1) [of lock i key] assms(2) by (simp_all add: owners_upd)
  show ?thesis
  proof (cases evicted)
    case True
    with ev have "evictOneLocked order m i now = (m', True)" by simp
    with evict_spec [OF auth_invD(1) [OF assms(1)] assms(3)] obtain k f where k: "auth_Get m k = Some f" "am_shards m' = sh_del getShard (am_shards m) k"
        "am_entryCount m' = am_entryCount m - 1" "am_maxEntries m' = am_maxEntries m"
      by blast
    have "auth_Get m' x = (if x = k then None else auth_Get m x)" for x
      using auth.get_del [OF auth_invD(1) [OF assms(1)], of k x] by (simp add: auth_Get_def k(2))
    moreover have "auth.well_sharded (am_shards m')" unfolding k(2) by (rule auth.well_sharded_del [OF auth_invD(1) [OF assms(1)]])
    moreover have "lock(i := Waiting key) = lock" using assms(2) by auto
    ultimately show ?thesis
      using assms(1) True k(2-4) card_del [OF auth_invD(1) [OF assms(1)] k(1)] by (auto simp: auth_inv_def)
  next
    case False
    with ev have "m' = m" using evict_fail [of order m i now m'] by simp
    with False own assms(1) show ?thesis by (auto simp: auth_inv_def)
  qed
qed

lemma auth_inv_round:
  assumes "auth_inv (m, lock)" and "lock i = Waiting key" and "i < 16" and "admit_round order m i now = (m', verdict)"
  shows "auth_inv (m', lock(i := (case verdict of Some True \<Rightarrow> Holding key | Some False \<Rightarrow> Unlocked | None \<Rightarrow> Waiting key)))"
proof (cases "am_entryCount m < am_maxEntries m")
  case True
  then have "m' = m\<lparr>am_entryCount := am_entryCount m + 1\<rparr>" "verdict = Some True" using assms(4) by (simp_all add: admit_round_def)
  with True assms(1-3) owners_not(1) [of lock i key] assms(2) show ?thesis
    by (auto simp: auth_inv_def owners_upd auth_Get_def)
next
  case False
  obtain m1 evicted where ev: "evictOneLocked order m i now = (m1, evicted)" by fastforce
  with False assms(4) have "m' = m1" "verdict = (if evicted then None else Some False)" by (simp_all add: admit_round_def)
  with auth_inv_evict [OF assms(1-3) ev] show ?thesis by (cases evicted) simp_all
qed

lemma auth_inv_put:
  assumes "auth_inv (m, lock)" and "lock i = Holding key" and "i < 16"
  shows "auth_inv (m\<lparr>am_shards := sh_put getShard (am_shards m) key v\<rparr>, lock(i := Unlocked))"
proof -
  have key: "getShard key = i" "auth_Get m key = None" using auth_invD(4) [OF assms(1)] assms(2) by blast+
  have i: "i \<in> owners lock" using assms(2,3) by (auto simp: owners_def)
  then have "int (card (owners lock - {i})) = int (card (owners lock)) - 1"
    using card_Diff_singleton [OF i] card_gt_0_iff [of "owners lock"] by (auto simp: of_nat_diff)
  moreover have "auth.keys (sh_put getShard (am_shards m) key v) = insert key (auth.keys (am_shards m))"
    by (rule auth.keys_put [OF auth_invD(1) [OF assms(1)]])
  moreover have "key \<notin> auth.keys (am_shards m)" using key by (simp add: in_keys)
  moreover have "finite (auth.keys (am_shards m))" by (rule auth.finite_keys [OF auth_invD(1) [OF assms(1)]])
  ultimately show ?thesis
    using assms(1) auth.well_sharded_put [OF auth_invD(1) [OF assms(1)]] get_put_auth [OF auth_invD(1) [OF assms(1)], of key v] key
    by (auto simp: auth_inv_def owners_upd)
qed

lemma auth_inv_delete:
  assumes "auth_inv (m, lock)" and "lock (getShard key) = Unlocked"
  shows "auth_inv (auth_Delete m key, lock)"
proof (cases "auth_Get m key")
  case None
  with assms(1) show ?thesis by (simp add: auth_Delete_def auth_Get_def)
next
  case (Some f)
  let ?m = "m\<lparr>am_shards := sh_del getShard (am_shards m) key, am_entryCount := am_entryCount m - 1\<rparr>"
  have "auth_Get ?m x = (if x = key then None else auth_Get m x)" for x
    using auth.get_del [OF auth_invD(1) [OF assms(1)], of key x] by (simp add: auth_Get_def)
  moreover have "auth_Delete m key = ?m" using Some by (simp add: auth_Delete_def auth_Get_def)
  ultimately show ?thesis
    using assms(1) card_del [OF auth_invD(1) [OF assms(1)] Some] auth.well_sharded_del [OF auth_invD(1) [OF assms(1)]]
    by (auto simp: auth_inv_def)
qed

lemma get_clean:
  assumes "auth.well_sharded (am_shards m)" and "i < 16"
  shows "auth_Get (fst (clean_shard now m i)) key =
    (case auth_Get m key of Some f \<Rightarrow> if getShard key = i \<and> outdated now f then None else Some f | None \<Rightarrow> None)"
  using auth.get_filter [OF assms] by (simp add: clean_shard_def auth_Get_def Let_def)

lemma auth_inv_clean:
  assumes "auth_inv (m, lock)" and "lock i = Unlocked" and "i < 16"
  shows "auth_inv (fst (clean_shard now m i), lock)"
proof -
  note ws = auth_invD(1) [OF assms(1)]
  have "auth_Get (fst (clean_shard now m i)) key = None" if "auth_Get m key = None" for key
    using get_clean [OF ws assms(3)] that by simp
  moreover have "fm_size (fm_filter_out (\<lambda>_. outdated now) (am_shards m ! i)) \<le> fm_size (am_shards m ! i)"
    unfolding fm_size_def fcard.rep_eq
    by (intro card_mono) (auto simp: fmlookup_dom_iff lookup_filter_out split: option.splits if_splits)
  ultimately show ?thesis
    using assms(1) auth.filter_count [OF ws assms(3), of "\<lambda>_. outdated now"] auth.well_sharded_filter [OF ws assms(3)]
    by (auto simp: auth_inv_def clean_shard_def Let_def)
qed

lemma auth_step_inv: "auth_step st st' \<Longrightarrow> auth_inv st \<Longrightarrow> auth_inv st'"
proof (induction rule: auth_step.induct)
  case (au_change lock key m failure v)
  note ws = auth_invD(1) [OF au_change(3)]
  have "key \<in> auth.keys (am_shards m)" using au_change(2) by (simp add: in_keys)
  then show ?case using au_change auth.keys_put [OF ws, of key v] auth.well_sharded_put [OF ws] get_put_auth [OF ws, of key v]
    by (auto simp: auth_inv_def insert_absorb)
next
  case (au_begin lock key m)
  then show ?case using owners_not(2) [of lock "getShard key"] by (auto simp: auth_inv_def owners_upd)
next
  case (au_stale lock i key order m now m' evicted)
  then show ?case using auth_inv_evict by blast
qed (auto intro: auth_inv_round auth_inv_put auth_inv_delete auth_inv_clean)

lemma auth_reachable_inv: "auth_reachable maxEntries st \<Longrightarrow> auth_inv st"
proof (induction rule: auth_reachable.induct)
  case au_start
  have "auth.keys (replicate 16 (fmempty :: auth_shard)) = {}" by (simp add: auth.keys_def auth.get_empty)
  then show ?case using auth.well_sharded_empty [where 'a = AuthFailure] by (simp add: auth_inv_def NewShardedAuthMapWithLimit_def owners_def Let_def)
qed (rule auth_step_inv)

subsection \<open>Active blocks\<close>

text \<open>What every record made by \<open>recordFailure\<close> satisfies.\<close>

definition failure_ok :: "AuthFailure \<Rightarrow> bool" where
  "failure_ok f \<longleftrightarrow>
     (if af_FailCount f < 3 then af_BlockedUntil f = zero_time
      else af_BlockedUntil f = af_LastFailureAt f + block_level (af_FailCount f))"

lemma block_level_cases:
  "block_level 3 = seconds 10" "block_level 4 = seconds 30" "block_level 5 = seconds 60"
  "6 \<le> n \<Longrightarrow> block_level n = seconds 300"
  by (simp_all add: block_level_def blockDurations_def Let_def)

lemma block_level_le: "3 \<le> n \<Longrightarrow> 0 < block_level n \<and> block_level n \<le> seconds 300"
proof -
  assume "3 \<le> n"
  then have "n = 3 \<or> n = 4 \<or> n = 5 \<or> 6 \<le> n" by linarith
  then show ?thesis by (elim disjE) (simp_all add: block_level_cases)
qed

lemma count_failure_ok: "af_FailCount f < 3 \<Longrightarrow> af_BlockedUntil f = zero_time \<Longrightarrow> failure_ok (count_failure ip u now f)"
    "3 \<le> af_FailCount f \<Longrightarrow> failure_ok (count_failure ip u now f)"
  by (auto simp: failure_ok_def count_failure_def Let_def)

lemma blocked_not_outdated:
  assumes "failure_ok f" and "still_blocked now f" and "af_LastFailureAt f \<noteq> zero_time"
  shows "\<not> outdated now f"
proof -
  have "3 \<le> af_FailCount f" using assms(1,2) by (auto simp: failure_ok_def still_blocked_def split: if_splits)
  then show ?thesis using assms block_level_le [of "af_FailCount f"]
    by (auto simp: failure_ok_def still_blocked_def outdated_def last_failure_def split: if_splits)
qed

text \<open>An entry that is neither outdated nor unblocked survives a round and the whole loop.\<close>

lemma round_keeps:
  assumes "auth.well_sharded (am_shards m)" and "i < 16" and "auth_Get m key = Some f"
    and "still_blocked now f" and "\<not> outdated now f" and "admit_round order m i now = (m', verdict)"
  shows "auth.well_sharded (am_shards m') \<and> auth_Get m' key = Some f"
proof (cases "am_entryCount m < am_maxEntries m")
  case True
  with assms show ?thesis by (auto simp: admit_round_def auth_Get_def)
next
  case False
  obtain m1 evicted where ev: "evictOneLocked order m i now = (m1, evicted)" by fastforce
  with False assms(6) have m': "m' = m1" by (simp add: admit_round_def)
  show ?thesis
  proof (cases evicted)
    case True
    with ev have "evictOneLocked order m i now = (m1, True)" by simp
    from evict_spec [OF assms(1,2) this] obtain k g where k: "auth_Get m k = Some g" "outdated now g \<or> \<not> still_blocked now g"
        "am_shards m1 = sh_del getShard (am_shards m) k" by blast
    then have "k \<noteq> key" using assms(3-5) by auto
    then show ?thesis
      using auth.get_del [OF assms(1), of k key] auth.well_sharded_del [OF assms(1), of k] assms(3) k(3) by (simp add: m' auth_Get_def)
  next
    case False
    with ev m' assms show ?thesis using evict_fail [of order m i now m1] by simp
  qed
qed

lemma admit_keeps:
  assumes "auth.well_sharded (am_shards m)" and "i < 16" and "auth_Get m key = Some f"
    and "still_blocked now f" and "\<not> outdated now f"
  shows "auth.well_sharded (am_shards (fst (admitNewLocked order m i now))) \<and> auth_Get (fst (admitNewLocked order m i now)) key = Some f"
  using assms(1-3,4,5)
proof (induction order m i now rule: admitNewLocked.induct)
  case (1 order m i now)
  obtain m1 verdict where r: "admit_round order m i now = (m1, verdict)" by fastforce
  note keep = round_keeps [OF "1.prems" r]
  show ?case
  proof (cases verdict)
    case None
    with "1.IH" [OF r [symmetric] None] "1.prems" keep r show ?thesis
      by (subst (1 2) admitNewLocked.simps) simp
  next
    case (Some v)
    with keep r show ?thesis by (subst (1 2) admitNewLocked.simps) simp
  qed
qed

lemma clean_keeps:
  assumes "auth.well_sharded (am_shards m)" and "auth_Get m key = Some f" and "\<not> outdated now f" and "set is \<subseteq> {..<16}"
  shows "auth_Get (fst (clean_shards now m is count)) key = Some f"
  using assms(1,2,4)
proof (induction "is" arbitrary: m count)
  case (Cons i "is")
  then have "auth_Get (fst (clean_shard now m i)) key = Some f" using get_clean [of m i now key] assms(3) by simp
  moreover have "auth.well_sharded (am_shards (fst (clean_shard now m i)))"
    using auth.well_sharded_filter [OF Cons.prems(1), of i] Cons.prems(3) by (simp add: clean_shard_def Let_def)
  ultimately show ?case using Cons by (simp add: split_beta)
qed simp

text \<open>C19: A full table cannot lift a block: while an address and user are blocked, by a record of the shape
  that \<open>recordFailure\<close> makes and with the time of its last failure set, neither the admission of
  other keys with its evictions, nor the periodic cleanup, nor the deletion of other keys
  removes or changes their record, so they stay blocked until the time that was set.\<close>

theorem active_block_survives:
  assumes "auth_reachable maxEntries (m, lock)" and "auth_Get m (getBlockKey ip username) = Some f" and "failure_ok f"
    and "af_LastFailureAt f \<noteq> zero_time" and "still_blocked now f" and "other \<noteq> getBlockKey ip username"
  shows "isBlocked now (fst (UpdateBounded order now m other mutate)) ip username = (True, af_BlockedUntil f) \<and>
    isBlocked now (CleanExpiredAuthFailures now m) ip username = (True, af_BlockedUntil f) \<and>
    isBlocked now (auth_Delete m other) ip username = (True, af_BlockedUntil f)"
proof -
  let ?key = "getBlockKey ip username"
  have ws: "auth.well_sharded (am_shards m)" using auth_invD(1) [OF auth_reachable_inv [OF assms(1)]] .
  have fresh: "\<not> outdated now f" by (rule blocked_not_outdated [OF assms(3,5,4)])
  have blocked: "isBlocked now m' ip username = (True, af_BlockedUntil f)" if "auth_Get m' ?key = Some f" for m'
    using that assms(5) by (simp add: isBlocked_def)
  have "auth_Get (fst (UpdateBounded order now m other mutate)) ?key = Some f"
  proof (cases "sh_get getShard (am_shards m) other")
    case None
    obtain m1 ok where adm: "admitNewLocked order m (getShard other) now = (m1, ok)" by fastforce
    with admit_keeps [OF ws getShard_less assms(2,5) fresh, of order other] None assms(6) get_put_auth [of m1 other]
    show ?thesis by (cases ok) (simp_all add: UpdateBounded_def)
  next
    case (Some g)
    then show ?thesis using get_put_auth [OF ws, of other] assms(2,6) by (simp add: UpdateBounded_def)
  qed
  moreover have "auth_Get (auth_Delete m other) ?key = Some f"
    using auth.get_del [OF ws, of other ?key] assms(2,6) by (auto simp: auth_Delete_def auth_Get_def split: option.splits)
  moreover have "auth_Get (CleanExpiredAuthFailures now m) ?key = Some f"
    using clean_keeps [OF ws assms(2) fresh, of "[0..<16]" 0] by (simp add: CleanExpiredAuthFailures_def CleanExpired_def atLeast0LessThan)
  ultimately show ?thesis using blocked by blast
qed

lemma admit_room: "am_entryCount m < am_maxEntries m \<Longrightarrow> admitNewLocked order m i now = (m\<lparr>am_entryCount := am_entryCount m + 1\<rparr>, True)"
  by (subst admitNewLocked.simps) (simp add: admit_round_def)

lemma record_Get:
  assumes "auth.well_sharded (am_shards m)" and "auth_Get m (getBlockKey ip u) = old"
    and "old = None \<Longrightarrow> am_entryCount m < am_maxEntries m"
  shows "auth.well_sharded (am_shards (fst (recordFailure order now m ip u))) \<and>
    auth_Get (fst (recordFailure order now m ip u)) (getBlockKey ip u) =
      Some (count_failure ip u now (case old of Some f \<Rightarrow> f | None \<Rightarrow> no_failure))"
proof (cases old)
  case None
  let ?m = "m\<lparr>am_entryCount := am_entryCount m + 1\<rparr>"
  have "auth.well_sharded (am_shards ?m)" using assms(1) by simp
  with None assms show ?thesis using get_put_auth [of ?m] auth.well_sharded_put [OF assms(1)] admit_room [of m order]
    by (simp add: recordFailure_def UpdateBounded_def auth_Get_def)
next
  case (Some f)
  with assms show ?thesis using get_put_auth [OF assms(1)] auth.well_sharded_put [OF assms(1)]
    by (simp add: recordFailure_def UpdateBounded_def auth_Get_def)
qed

definition record_all :: "(auth_shard \<Rightarrow> string list) \<Rightarrow> ShardedAuthMap \<Rightarrow> string \<Rightarrow> string \<Rightarrow> time list \<Rightarrow> ShardedAuthMap" where
  "record_all order m ip u ts = foldl (\<lambda>m t. fst (recordFailure order t m ip u)) m ts"

lemma record_all_spec:
  assumes "auth.well_sharded (am_shards m)" and "auth_Get m (getBlockKey ip u) = None" and "am_entryCount m < am_maxEntries m" and "ts \<noteq> []"
  shows "\<exists>f. auth_Get (record_all order m ip u ts) (getBlockKey ip u) = Some f \<and> auth.well_sharded (am_shards (record_all order m ip u ts)) \<and>
    af_FailCount f = min (int (length ts)) 1024 \<and> af_LastFailureAt f = last ts \<and> failure_ok f"
  using assms(4)
proof (induction ts rule: rev_nonempty_induct)
  case (single t)
  have "af_FailCount no_failure = 0" "af_BlockedUntil no_failure = zero_time" by (simp_all add: no_failure_def)
  then show ?case using record_Get [OF assms(1,2), of order t] assms(3) count_failure_ok(1) [of no_failure ip u t]
    by (auto simp: record_all_def count_failure_def no_failure_def Let_def)
next
  case (snoc t ts)
  then obtain f where f: "auth_Get (record_all order m ip u ts) (getBlockKey ip u) = Some f"
      "auth.well_sharded (am_shards (record_all order m ip u ts))" "af_FailCount f = min (int (length ts)) 1024" "failure_ok f" by blast
  have step: "record_all order m ip u (ts @ [t]) = fst (recordFailure order t (record_all order m ip u ts) ip u)" by (simp add: record_all_def)
  have "failure_ok (count_failure ip u t f)"
    using f(4) count_failure_ok [of f ip u t] by (cases "af_FailCount f < 3") (auto simp: failure_ok_def)
  moreover have "af_FailCount (count_failure ip u t f) = min (int (length ts) + 1) 1024" "af_LastFailureAt (count_failure ip u t f) = t"
    using f(3) by (auto simp: count_failure_def Let_def)
  ultimately show ?case using record_Get [OF f(2,1), of order t] unfolding step by (auto simp: add.commute)
qed

text \<open>Consecutive failures block for longer and longer, provided the table has room for the first of them (a
  saturated table records no new key): after the third failure of an address and user they are blocked for 10 seconds from the last one, after the fourth for 30, after the fifth for
  60, and from the sixth on for 300 seconds, however many there are; before the third they are
  not blocked.\<close>

theorem failures_escalate:
  assumes "auth_reachable maxEntries (m, lock)" and "auth_Get m (getBlockKey ip u) = None" and "am_entryCount m < am_maxEntries m"
    and "ts \<noteq> []" and "0 \<le> last ts"
  shows "fst (isBlocked now (record_all order m ip u ts) ip u) \<longleftrightarrow>
    3 \<le> length ts \<and> now < last ts + (if length ts = 3 then seconds 10 else if length ts = 4 then seconds 30
      else if length ts = 5 then seconds 60 else seconds 300)"
proof -
  obtain f where f: "auth_Get (record_all order m ip u ts) (getBlockKey ip u) = Some f" "af_FailCount f = min (int (length ts)) 1024"
      "af_LastFailureAt f = last ts" "failure_ok f"
    using record_all_spec [OF auth_invD(1) [OF auth_reachable_inv [OF assms(1)]] assms(2-4)] by blast
  have level: "block_level (min (int (length ts)) 1024) = (if length ts = 3 then seconds 10 else if length ts = 4 then seconds 30
      else if length ts = 5 then seconds 60 else seconds 300)" if "3 \<le> length ts"
    using that block_level_cases(4) [of "min (int (length ts)) 1024"] by (auto simp: block_level_cases)
  have "0 < last ts + block_level (min (int (length ts)) 1024)" if "3 \<le> length ts"
    using assms(5) that block_level_le [of "min (int (length ts)) 1024"] by auto
  then show ?thesis using f level
    by (cases "3 \<le> length ts") (auto simp: isBlocked_def still_blocked_def failure_ok_def zero_time_def split: if_splits)
qed

text \<open>C32: The table of failures is bounded and its counter exact, in every interleaving of updates, evictions,
  deletions and cleanups on the 16 shards: the counter is the number of records plus the slots
  taken for records about to be inserted, so the number of records never exceeds the limit.\<close>

theorem auth_table_bounded:
  assumes "auth_reachable maxEntries (m, lock)"
  shows "am_entryCount m = auth_Len m + int (card (owners lock)) \<and> auth_Len m \<le> am_maxEntries m \<and>
    auth_Len m = int (card {key. auth_Get m key \<noteq> None})"
proof -
  note inv = auth_reachable_inv [OF assms]
  have "auth.keys (am_shards m) = {key. auth_Get m key \<noteq> None}" using in_keys by blast
  with auth.total_size [OF auth_invD(1) [OF inv]] auth_invD(2,3) [OF inv] show ?thesis by (simp add: auth_Len_def)
qed

theorem auth_table_bounded_witness:
  "\<exists>m lock. auth_reachable 1 (m, lock) \<and> am_entryCount m = 1 \<and> auth_Len m \<le> 1"
proof -
  let ?m0 = "NewShardedAuthMapWithLimit 1" and ?i = "getShard ''a''"
  have get: "auth_Get ?m0 ''a'' = None"
    using auth.get_empty [of "''a''"] by (simp add: auth_Get_def NewShardedAuthMapWithLimit_def Let_def)
  have r1: "auth_reachable 1 (?m0, (\<lambda>_. Unlocked)(?i := Waiting ''a''))"
    by (rule au_more [OF au_start]) (rule au_begin, simp, rule get)
  have "admit_round (\<lambda>_. []) ?m0 ?i 0 = (?m0\<lparr>am_entryCount := 1\<rparr>, Some True)"
    by (simp add: admit_round_def NewShardedAuthMapWithLimit_def Let_def)
  from au_round [of "(\<lambda>_. Unlocked)(?i := Waiting ''a'')" ?i "''a''", OF _ getShard_less this]
  have "auth_step (?m0, (\<lambda>_. Unlocked)(?i := Waiting ''a''))
      (?m0\<lparr>am_entryCount := 1\<rparr>, (\<lambda>_. Unlocked)(?i := Waiting ''a'', ?i := Holding ''a''))" by simp
  then have r2: "auth_reachable 1 (?m0\<lparr>am_entryCount := 1\<rparr>, (\<lambda>_. Unlocked)(?i := Waiting ''a'', ?i := Holding ''a''))"
    by (rule au_more [OF r1])
  have "auth_Len (?m0\<lparr>am_entryCount := 1\<rparr>) \<le> 1"
    using auth_table_bounded [OF r2] by (simp add: NewShardedAuthMapWithLimit_def Let_def)
  with r2 show ?thesis by (intro exI conjI) (assumption | simp)+
qed

lemma empty_table:
  "auth_Get (NewShardedAuthMapWithLimit n) key = None" "auth.well_sharded (am_shards (NewShardedAuthMapWithLimit n))"
  "am_entryCount (NewShardedAuthMapWithLimit n) < am_maxEntries (NewShardedAuthMapWithLimit n)"
  using auth.get_empty [of key] auth.well_sharded_empty [where 'a = AuthFailure]
  by (simp_all add: auth_Get_def NewShardedAuthMapWithLimit_def Let_def)

theorem failures_escalate_witness:
  "fst (isBlocked (seconds 12) (record_all (\<lambda>_. []) (NewShardedAuthMapWithLimit 5) ''1.2.3.4'' ''bob'' [0, seconds 1, seconds 3]) ''1.2.3.4'' ''bob'')"
  using failures_escalate [OF au_start empty_table(1,3), of "[0, seconds 1, seconds 3]" "seconds 12"] by simp

theorem active_block_survives_witness:
  "\<exists>m. isBlocked 5 (fst (UpdateBounded (\<lambda>_. []) 5 m ''other'' id)) ''1.2.3.4'' ''bob'' = (True, seconds 10)"
proof -
  let ?m0 = "NewShardedAuthMapWithLimit 5" and ?key = "getBlockKey ''1.2.3.4'' ''bob''"
  let ?f = "\<lparr>af_IP = ''1.2.3.4'', af_Username = ''bob'', af_FailCount = 3, af_BlockedUntil = seconds 10, af_LastFailureAt = 0\<rparr>"
  let ?i = "getShard ?key" and ?m1 = "?m0\<lparr>am_entryCount := 1\<rparr>"
  have r1: "auth_reachable 5 (?m0, (\<lambda>_. Unlocked)(?i := Waiting ?key))"
    by (rule au_more [OF au_start]) (rule au_begin, simp, rule empty_table)
  have "admit_round (\<lambda>_. []) ?m0 ?i 0 = (?m1, Some True)"
    by (simp add: admit_round_def NewShardedAuthMapWithLimit_def Let_def)
  from au_round [of "(\<lambda>_. Unlocked)(?i := Waiting ?key)" ?i ?key, OF _ getShard_less this]
  have r2: "auth_reachable 5 (?m1, (\<lambda>_. Unlocked)(?i := Waiting ?key, ?i := Holding ?key))" by (intro au_more [OF r1]) simp
  let ?m2 = "?m1\<lparr>am_shards := sh_put getShard (am_shards ?m1) ?key ?f\<rparr>"
  have r3: "auth_reachable 5 (?m2, ((\<lambda>_. Unlocked)(?i := Waiting ?key, ?i := Holding ?key))(?i := Unlocked))"
    by (rule au_more [OF r2]) (rule au_insert, simp, rule getShard_less)
  have get: "auth_Get ?m2 ?key = Some ?f" using get_put_auth [of ?m1 ?key ?f ?key] empty_table(2) [of 5] by simp
  have "failure_ok ?f" "still_blocked 5 ?f" "''other'' \<noteq> ?key"
    by (simp_all add: failure_ok_def block_level_cases still_blocked_def zero_time_def getBlockKey_def)
  moreover have "af_LastFailureAt ?f \<noteq> zero_time" by (simp add: zero_time_def)
  ultimately have "isBlocked 5 (fst (UpdateBounded (\<lambda>_. []) 5 ?m2 ''other'' id)) ''1.2.3.4'' ''bob'' = (True, af_BlockedUntil ?f)"
    using active_block_survives [OF r3 get, of 5 "''other''" "\<lambda>_. []" id] by blast
  then show ?thesis by (intro exI [of _ ?m2]) simp
qed

text \<open>C37: A device is authenticated exactly when nothing stops it: the context is alive at every check, the
  address and user are not blocked, the user exists, is enabled, approved and has a device
  password, and the password matches; then the failures of that key are forgotten.  A failure of
  the database or of the context is never counted against the device.\<close>

theorem device_auth_outcome:
  assumes "AuthenticateDeviceContext order w m ip u pw = (m', r, updates)"
  shows "(dar_Success r \<longleftrightarrow>
      (\<forall>i < 4. aw_ctx w i = None) \<and> \<not> fst (isBlocked (aw_blockClock w) m ip u) \<and>
      (\<exists>user. aw_user w = Inr (Some user) \<and> usr_Status user = 1 \<and> usr_ApprovalStatus user = 1 \<and> usr_DevicePassword user \<noteq> '''' \<and>
        (\<exists>legacy. aw_verify w (usr_DevicePassword user) pw = (True, legacy, False)) \<and> dar_User r = Some user \<and> dar_CallSign r = usr_CallSign user)) \<and>
    (dar_Success r \<longrightarrow> m' = clearFailure m ip u) \<and>
    (dar_Error r \<in> {''auth_backend_unavailable'', ''auth_backend_timeout'', ''auth_canceled'', ''too_many_failures'', ''user_disabled'',
        ''device_password_not_set''} \<longrightarrow> m' = m) \<and>
    (dar_Error r \<in> {''user_not_found'', ''invalid_password''} \<longrightarrow> m' = fst (recordFailure order (aw_failClock w) m ip u))"
proof -
  have four: "(\<forall>i < 4. aw_ctx w i = None) \<longleftrightarrow> aw_ctx w 0 = None \<and> aw_ctx w 1 = None \<and> aw_ctx w 2 = None \<and> aw_ctx w 3 = None"
    by (auto simp: numeral_eq_Suc less_Suc_eq)
  show ?thesis
    using assms unfolding AuthenticateDeviceContext_def Let_def four
    by (auto simp: auth_rejected_def authContextError_def split: option.splits sum.splits if_splits prod.splits)
qed

theorem device_auth_outcome_witness:
  "\<exists>r. dar_Error r = ''auth_backend_unavailable'' \<and> AuthenticateDeviceContext (\<lambda>_. [])
      \<lparr>aw_ctx = \<lambda>_. None, aw_user = Inl (), aw_verify = \<lambda>_ _. (True, False, False), aw_encrypt = Some, aw_blockClock = 0, aw_failClock = 0\<rparr>
      (NewShardedAuthMapWithLimit 5) ''1.2.3.4'' ''bob'' ''secret'' = (NewShardedAuthMapWithLimit 5, r, [])"
proof -
  let ?w = "\<lparr>aw_ctx = \<lambda>_. None, aw_user = Inl (), aw_verify = \<lambda>_ _. (True, False, False), aw_encrypt = Some, aw_blockClock = 0, aw_failClock = 0\<rparr>"
  let ?call = "AuthenticateDeviceContext (\<lambda>_. []) ?w (NewShardedAuthMapWithLimit 5) ''1.2.3.4'' ''bob'' ''secret''"
  obtain m' r updates where call: "?call = (m', r, updates)" by (metis prod_cases3)
  have "\<not> fst (isBlocked 0 (NewShardedAuthMapWithLimit 5) ''1.2.3.4'' ''bob'')" by (simp add: isBlocked_def empty_table)
  with call have "dar_Error r = ''auth_backend_unavailable''" "updates = []"
    by (auto simp: AuthenticateDeviceContext_def auth_rejected_def split: prod.splits)
  with call device_auth_outcome [OF call] show ?thesis by auto
qed

end
