(* ===== verification/Go_Base64.thy ===== *)
theory Go_Base64
  imports Go_Base
begin

section \<open>Unpadded base64 (\<^verbatim>\<open>encoding/base64.RawStdEncoding\<close>)\<close>

text \<open>
  The encoding in which the control plane carries binary data inside JSON strings: three bytes
  become four symbols of 6 bits, a rest of one or two bytes becomes two or three symbols, and
  there is no padding.  The decoder skips line ends, refuses every other character that is not
  a symbol, refuses a single left-over symbol, and ignores the unused bits of the last symbol
  (the encoding is not \<^verbatim>\<open>Strict\<close>).
\<close>

definition b64_alphabet :: string where
  "b64_alphabet = ''ABCDEFGHIJKLMNOPQRSTUVWXYZabcdefghijklmnopqrstuvwxyz0123456789+/''"

definition b64_char :: "nat \<Rightarrow> char" where
  "b64_char n = b64_alphabet ! n"

fun index_of :: "'a \<Rightarrow> 'a list \<Rightarrow> nat option" where
  "index_of x [] = None"
| "index_of x (y # ys) = (if x = y then Some 0 else map_option Suc (index_of x ys))"

definition b64_value :: "char \<Rightarrow> nat option" where
  "b64_value c = index_of c b64_alphabet"

fun b64_digits :: "bytes \<Rightarrow> nat list" where
  "b64_digits (a # b # c # rest) =
     (let v = (unat a * 256 + unat b) * 256 + unat c
      in [v div 262144, v div 4096 mod 64, v div 64 mod 64, v mod 64] @ b64_digits rest)"
| "b64_digits [a, b] = (let v = unat a * 256 + unat b in [v div 1024, v div 16 mod 64, v mod 16 * 4])"
| "b64_digits [a] = [unat a div 4, unat a mod 4 * 16]"
| "b64_digits [] = []"

definition b64_encode :: "bytes \<Rightarrow> string" where
  "b64_encode bs = map b64_char (b64_digits bs)"

fun b64_bytes :: "nat list \<Rightarrow> bytes option" where
  "b64_bytes (w # x # y # z # rest) =
     (let v = ((w * 64 + x) * 64 + y) * 64 + z
      in map_option (\<lambda>bs. of_nat (v div 65536) # of_nat (v div 256 mod 256) # of_nat (v mod 256) # bs) (b64_bytes rest))"
| "b64_bytes [w, x, y] =
     (let v = (w * 64 + x) * 64 + y in Some [of_nat (v div 1024), of_nat (v div 4 mod 256)])"
| "b64_bytes [w, x] = Some [of_nat ((w * 64 + x) div 16)]"
| "b64_bytes [w] = None"
| "b64_bytes [] = Some []"

definition b64_decode :: "string \<Rightarrow> bytes option" where
  "b64_decode s =
     (let symbols = map b64_value (filter (\<lambda>c. c \<noteq> CHR 0x0D \<and> c \<noteq> CHR 0x0A) s)
      in if None \<in> set symbols then None else b64_bytes (map the symbols))"

subsection \<open>Decoding what was encoded\<close>

lemma b64_char_table: "\<forall>n \<in> {..<64}. b64_value (b64_char n) = Some n \<and> b64_char n \<notin> {CHR 0x0D, CHR 0x0A}"
  by code_simp

lemma b64_value_char: "n < 64 \<Longrightarrow> b64_value (b64_char n) = Some n"
  and b64_char_no_newline: "n < 64 \<Longrightarrow> b64_char n \<noteq> CHR 0x0D" "n < 64 \<Longrightarrow> b64_char n \<noteq> CHR 0x0A"
  using b64_char_table by auto

lemma byte_value_less: "unat (b :: byte) < 256"
  using unsigned_less [of b, where 'a = nat] by simp

lemma b64_digits_less: "set (b64_digits bs) \<subseteq> {..<64}"
proof (induction bs rule: b64_digits.induct)
  case (1 a b c rest)
  have "(unat a * 256 + unat b) * 256 + unat c < 64 * 262144"
    using byte_value_less [of a] byte_value_less [of b] byte_value_less [of c] by simp
  then have "((unat a * 256 + unat b) * 256 + unat c) div 262144 < 64" by (simp add: less_mult_imp_div_less)
  with 1 show ?case by (simp add: Let_def)
next
  case (2 a b)
  have "(unat a * 256 + unat b) div 1024 < 64" "(unat a * 256 + unat b) mod 16 < 16"
    using byte_value_less [of a] byte_value_less [of b] by simp_all
  then show ?case by (simp add: Let_def)
next
  case (3 a)
  have "unat a div 4 < 64" "unat a mod 4 < 4" using byte_value_less [of a] by simp_all
  then show ?case by simp
qed simp

lemma regroup_16: "q * 64 + r * 4 = 4 * (q * 16 + r)" for q r :: nat
  by simp

lemma b64_bytes_digits: "b64_bytes (b64_digits bs) = Some bs"
proof (induction bs rule: b64_digits.induct)
  case (1 a b c rest)
  define v where "v = (unat a * 256 + unat b) * 256 + unat c"
  have "v div 256 = unat a * 256 + unat b" using byte_value_less [of c] unfolding v_def by simp
  moreover have "v mod 256 = unat c" using byte_value_less [of c] unfolding v_def by (metis mod_less mod_mult_self3)
  moreover have "(unat a * 256 + unat b) div 256 = unat a" "(unat a * 256 + unat b) mod 256 = unat b"
    using byte_value_less [of b] by simp_all
  moreover have "v div 65536 = v div 256 div 256" by (simp add: div_mult2_eq [symmetric])
  ultimately have v: "v div 65536 = unat a" "v div 256 mod 256 = unat b" "v mod 256 = unat c" by simp_all
  have "v div 262144 * 64 + v div 4096 mod 64 = v div 4096" "v div 4096 * 64 + v div 64 mod 64 = v div 64"
    using div_mult_mod_eq [of "v div 4096" 64] div_mult_mod_eq [of "v div 64" 64]
    by (simp_all add: div_mult2_eq [symmetric])
  then have "((v div 262144 * 64 + v div 4096 mod 64) * 64 + v div 64 mod 64) * 64 + v mod 64 = v"
    using div_mult_mod_eq [of v 64] by simp
  with 1 v show ?case unfolding b64_digits.simps v_def [symmetric] by (simp add: Let_def)
next
  case (2 a b)
  define v where "v = unat a * 256 + unat b"
  have v: "v div 256 = unat a" "v mod 256 = unat b"
    using byte_value_less [of a] byte_value_less [of b] unfolding v_def by simp_all
  have "v div 1024 * 64 + v div 16 mod 64 = v div 16"
    using div_mult_mod_eq [of "v div 16" 64] by (simp add: div_mult2_eq [symmetric])
  then have "((v div 1024 * 64 + v div 16 mod 64) * 64 + v mod 16 * 4) = 4 * v"
    by (simp only: regroup_16 div_mult_mod_eq)
  then have "((v div 1024 * 64 + v div 16 mod 64) * 64 + v mod 16 * 4) div 1024 = v div 256"
    "((v div 1024 * 64 + v div 16 mod 64) * 64 + v mod 16 * 4) div 4 mod 256 = v mod 256" by simp_all
  with v show ?case unfolding b64_digits.simps v_def [symmetric] by (simp add: Let_def)
next
  case (3 a)
  have "(unat a div 4 * 64 + unat a mod 4 * 16) div 16 = unat a" by presburger
  then show ?case by simp
qed simp

lemma filter_b64: "set ds \<subseteq> {..<64} \<Longrightarrow>
    filter (\<lambda>c. c \<noteq> CHR 0x0D \<and> c \<noteq> CHR 0x0A) (map b64_char ds) = map b64_char ds"
  by (induction ds) (auto simp: b64_char_no_newline)

lemma values_b64: "set ds \<subseteq> {..<64} \<Longrightarrow> map b64_value (map b64_char ds) = map Some ds"
  by (induction ds) (auto simp: b64_value_char)

lemma b64_round_trip: "b64_decode (b64_encode bs) = Some bs"
  unfolding b64_decode_def b64_encode_def filter_b64 [OF b64_digits_less] values_b64 [OF b64_digits_less]
  by (auto simp: Let_def comp_def b64_bytes_digits)

lemma b64_encode_inject: "b64_encode x = b64_encode y \<longleftrightarrow> x = y"
  using b64_round_trip by (metis option.inject)

lemma length_b64_encode: "length (b64_encode bs) = (4 * length bs + 2) div 3"
  unfolding b64_encode_def length_map by (induction bs rule: b64_digits.induct) (simp_all add: Let_def)

end
