(* ===== verification/Node_Control.thy ===== *)
theory Node_Control
  imports Node_Envelope Replay_Window Resource_Guard Go_Base64
begin

unbundle bit_operations_syntax

section \<open>Control sessions of nodes (\<open>internal/interconnect/control.go\<close>)\<close>

text \<open>
  The reliable control plane between a centre and an edge: negotiation of the protocol version
  and features, length-prefixed JSON frames over one connection, and the state of an
  authenticated session with its operations.  \<^verbatim>\<open>json.Marshal\<close> and \<^verbatim>\<open>json.Unmarshal\<close> on the
  message types are arguments (a reflective codec of struct tags), as are the random bytes and
  the clock.  A reader is the list of the bytes the peer sends before it closes; a writer
  appends to such a list.  Methods that hold a mutex are one function; they are modelled on a
  receiver that is not nil.
\<close>

subsection \<open>Capabilities\<close>

abbreviation (input) NodeProtocolMinVersion :: byte where "NodeProtocolMinVersion \<equiv> 1"
abbreviation (input) NodeProtocolMaxVersion :: byte where "NodeProtocolMaxVersion \<equiv> 1"
abbreviation (input) NodeFeatureCenterPeer :: u64 where "NodeFeatureCenterPeer \<equiv> 0x400"
abbreviation (input) NodeSupportedFeatures :: u64 where "NodeSupportedFeatures \<equiv> 0x7FF"
abbreviation (input) NodeRequiredFeatures :: u64 where "NodeRequiredFeatures \<equiv> 0x7"
abbreviation (input) FlagCritical :: u16 where "FlagCritical \<equiv> 0x10"

record NodeCapabilities =
  MinProtocolVersion :: byte
  MaxProtocolVersion :: byte
  Features :: u64
  RequiredFeatures :: u64

datatype control_error =
    MinimumExceedsMaximum
  | RequiredNotAdvertised
  | ErrNodeProtocolIncompatible
  | ErrNodeAuthInternalError string
  | ErrNodeAuthenticationRejected string
  | ControlFrameTooLarge
  | ControlMarshalFailed
  | ReadEOF
  | ReadUnexpectedEOF
  | InvalidFrameLength
  | DecodeFailed
  | WriteFailed
  | EnvelopeError node_error
  | InvalidSessionKey
  | RandomFailed
  | DataSessionRequired
  | WriterMissing
  | AddressNotBound
  | NodeOffline

definition capabilities_normalized :: "NodeCapabilities \<Rightarrow> NodeCapabilities \<times> control_error option" where
  "capabilities_normalized c =
     (let c = (if MinProtocolVersion c = 0 then c\<lparr>MinProtocolVersion := NodeProtocolMinVersion\<rparr> else c);
          c = (if MaxProtocolVersion c = 0 then c\<lparr>MaxProtocolVersion := NodeProtocolMaxVersion\<rparr> else c);
          c = (if Features c = 0 then c\<lparr>Features := NodeSupportedFeatures\<rparr> else c);
          c = (if RequiredFeatures c = 0 then c\<lparr>RequiredFeatures := NodeRequiredFeatures\<rparr> else c)
      in if MaxProtocolVersion c < MinProtocolVersion c then (c, Some MinimumExceedsMaximum)
         else if RequiredFeatures c AND NOT (Features c) \<noteq> 0 then (c, Some RequiredNotAdvertised)
         else (c, None))"

definition negotiateNodeCapabilities :: "NodeCapabilities \<Rightarrow> NodeCapabilities \<Rightarrow> control_error + byte \<times> u64" where
  "negotiateNodeCapabilities server client =
     (case capabilities_normalized server of
        (_, Some err) \<Rightarrow> Inl err
      | (server, None) \<Rightarrow>
          (case capabilities_normalized client of
             (_, Some err) \<Rightarrow> Inl err
           | (client, None) \<Rightarrow>
               let minimum = (if MinProtocolVersion server < MinProtocolVersion client
                              then MinProtocolVersion client else MinProtocolVersion server);
                   maximum = (if MaxProtocolVersion client < MaxProtocolVersion server
                              then MaxProtocolVersion client else MaxProtocolVersion server)
               in if maximum < minimum then Inl ErrNodeProtocolIncompatible
                  else
                    let features = Features server AND Features client
                    in if RequiredFeatures server AND NOT features \<noteq> 0 \<or> RequiredFeatures client AND NOT features \<noteq> 0
                       then Inl ErrNodeProtocolIncompatible
                       else Inr (maximum, features)))"

subsection \<open>Frames\<close>

abbreviation (input) controlMaxFrame :: nat where "controlMaxFrame \<equiv> 4194304"
abbreviation (input) controlHelloMaxFrame :: nat where "controlHelloMaxFrame \<equiv> 16384"
abbreviation (input) controlCenterPeerMaxFrame :: nat where "controlCenterPeerMaxFrame \<equiv> 8192"

record ControlMessage =
  cm_Kind :: string
  cm_NodeID :: string
  cm_Token :: string
  cm_Credential :: string
  cm_CredentialEpoch :: u32
  cm_MinProtocol :: byte
  cm_MaxProtocol :: byte
  cm_Protocol :: byte
  cm_Features :: u64
  cm_RequiredFeatures :: u64
  cm_SessionID :: u64
  cm_KeyEpoch :: u32
  cm_Key :: string
  cm_MessageID :: u64
  cm_Payload :: bytes
  cm_Packet :: string
  cm_Error :: string

definition empty_message :: ControlMessage where
  "empty_message = \<lparr>cm_Kind = [], cm_NodeID = [], cm_Token = [], cm_Credential = [], cm_CredentialEpoch = 0,
     cm_MinProtocol = 0, cm_MaxProtocol = 0, cm_Protocol = 0, cm_Features = 0, cm_RequiredFeatures = 0,
     cm_SessionID = 0, cm_KeyEpoch = 0, cm_Key = [], cm_MessageID = 0, cm_Payload = [], cm_Packet = [], cm_Error = []\<rparr>"

definition marshalControlMessage :: "(ControlMessage \<Rightarrow> bytes option) \<Rightarrow> ControlMessage \<Rightarrow> control_error + bytes" where
  "marshalControlMessage json_marshal msg =
     (case json_marshal msg of
        None \<Rightarrow> Inl ControlMarshalFailed
      | Some data \<Rightarrow>
          if controlMaxFrame < length data then Inl ControlFrameTooLarge
          else Inr (putUint32 (of_nat (length data)) @ data))"

text \<open>\<open>io.Copy\<close> to the connection: the writer appends, or fails.\<close>

definition writeControlMessage ::
    "(ControlMessage \<Rightarrow> bytes option) \<Rightarrow> (bytes \<Rightarrow> bytes option) \<Rightarrow> ControlMessage \<Rightarrow> control_error + bytes" where
  "writeControlMessage json_marshal write msg =
     (case marshalControlMessage json_marshal msg of
        Inl err \<Rightarrow> Inl err
      | Inr wire \<Rightarrow> (case write wire of None \<Rightarrow> Inl WriteFailed | Some out \<Rightarrow> Inr out))"

definition read_full :: "bytes \<Rightarrow> nat \<Rightarrow> control_error + bytes \<times> bytes" where
  "read_full r n =
     (if n \<le> length r then Inr (take n r, drop n r)
      else if r = [] then Inl ReadEOF else Inl ReadUnexpectedEOF)"

text \<open>The message or the error, the bytes counted as read, and the rest of the stream.\<close>

definition readControlMessageSizeLimit ::
    "(bytes \<Rightarrow> ControlMessage option) \<Rightarrow> bytes \<Rightarrow> nat \<Rightarrow> (control_error + ControlMessage) \<times> nat \<times> bytes" where
  "readControlMessageSizeLimit json_unmarshal r maxFrame =
     (case read_full r 4 of
        Inl err \<Rightarrow> (Inl err, 0, [])
      | Inr (header, r) \<Rightarrow>
          let n = unat (getUint32 header)
          in if n \<le> 0 \<or> maxFrame < n then (Inl InvalidFrameLength, 4, r)
             else case read_full r n of
               Inl err \<Rightarrow> (Inl err, 4, [])
             | Inr (data, r) \<Rightarrow>
                 (case json_unmarshal data of
                    None \<Rightarrow> (Inl DecodeFailed, 4 + n, r)
                  | Some msg \<Rightarrow> (Inr msg, 4 + n, r)))"

definition readControlMessageSize ::
    "(bytes \<Rightarrow> ControlMessage option) \<Rightarrow> bytes \<Rightarrow> (control_error + ControlMessage) \<times> nat \<times> bytes" where
  "readControlMessageSize json_unmarshal r = readControlMessageSizeLimit json_unmarshal r controlMaxFrame"

definition readControlMessage ::
    "(bytes \<Rightarrow> ControlMessage option) \<Rightarrow> bytes \<Rightarrow> (control_error + ControlMessage) \<times> bytes" where
  "readControlMessage json_unmarshal r =
     (case readControlMessageSize json_unmarshal r of (res, _, rest) \<Rightarrow> (res, rest))"

subsection \<open>The session of a node\<close>

record NodeSession =
  ns_NodeID :: string
  ns_SessionID :: u64
  ns_KeyEpoch :: u32
  ns_Key :: bytes
  ns_ProtocolVersion :: byte
  ns_Features :: u64
  ns_PeerLinkID :: string
  ns_CredentialEpoch :: u32
  ns_RemoteAddr :: string
  ns_ConnectedAt :: time
  ns_LastHeartbeat :: int
  ns_dataAddr :: "udp_addr option"
  ns_DataMetrics :: Metrics
  ns_ControlMetrics :: Metrics
  ns_AckedProjectionVersion :: u64
  ns_replay :: replayWindow
  ns_protection :: "nodeProtection option"
  ns_dataBindChallenge :: bytes
  ns_dataBindChallengeUntil :: time

definition Touch :: "time \<Rightarrow> NodeSession \<Rightarrow> NodeSession" where
  "Touch clock s = s\<lparr>ns_LastHeartbeat := clock div 1000000\<rparr>"

definition AcceptMessage :: "NodeSession \<Rightarrow> u64 \<Rightarrow> time \<Rightarrow> NodeSession \<times> bool" where
  "AcceptMessage s messageID now =
     (let (w, ok) = rw_accept (ns_replay s) messageID in (s\<lparr>ns_replay := w\<rparr>, ok))"

definition resourceProtection :: "int \<Rightarrow> NodeSession \<Rightarrow> nodeProtection" where
  "resourceProtection gomaxprocs s =
     (case ns_protection s of Some p \<Rightarrow> p | None \<Rightarrow> newNodeProtection gomaxprocs zero_limits)"

text \<open>A call on the protection object: it is created on its first use and changed in place.\<close>

definition protect :: "int \<Rightarrow> (nodeProtection \<Rightarrow> nodeProtection) \<Rightarrow> NodeSession \<Rightarrow> NodeSession" where
  "protect gomaxprocs f s = s\<lparr>ns_protection := Some (f (resourceProtection gomaxprocs s))\<rparr>"

definition protect_ok ::
    "int \<Rightarrow> (nodeProtection \<Rightarrow> nodeProtection \<times> bool) \<Rightarrow> NodeSession \<Rightarrow> NodeSession \<times> bool" where
  "protect_ok gomaxprocs f s =
     (let (p, ok) = f (resourceProtection gomaxprocs s) in (s\<lparr>ns_protection := Some p\<rparr>, ok))"

definition session_ProtectionSnapshot :: "int \<Rightarrow> NodeSession \<Rightarrow> NodeProtectionSnapshot" where
  "session_ProtectionSnapshot gomaxprocs s = snapshot (resourceProtection gomaxprocs s)"

definition data_metrics :: "(Metrics \<Rightarrow> Metrics) \<Rightarrow> NodeSession \<Rightarrow> NodeSession" where
  "data_metrics f s = s\<lparr>ns_DataMetrics := f (ns_DataMetrics s)\<rparr>"

definition control_metrics :: "(Metrics \<Rightarrow> Metrics) \<Rightarrow> NodeSession \<Rightarrow> NodeSession" where
  "control_metrics f s = s\<lparr>ns_ControlMetrics := f (ns_ControlMetrics s)\<rparr>"

definition BindDataAddr :: "NodeSession \<Rightarrow> udp_addr option \<Rightarrow> NodeSession" where
  "BindDataAddr s addr = (case addr of None \<Rightarrow> s\<lparr>ns_dataAddr := None\<rparr> | Some a \<Rightarrow> s\<lparr>ns_dataAddr := Some a\<rparr>)"

definition DataAddr :: "NodeSession \<Rightarrow> udp_addr option" where
  "DataAddr s = ns_dataAddr s"

text \<open>\<open>net.IP.Equal\<close>: an IPv4 address equals its IPv6 form.\<close>

definition ip_equal :: "bytes \<Rightarrow> bytes \<Rightarrow> bool" where
  "ip_equal x y =
     (let prefix = replicate 10 0 @ [0xFF, 0xFF]
      in if length x = length y then x = y
         else if length x = 4 \<and> length y = 16 then take 12 y = prefix \<and> x = drop 12 y
         else if length x = 16 \<and> length y = 4 then take 12 x = prefix \<and> drop 12 x = y
         else False)"

definition DataAddrMatches :: "NodeSession \<Rightarrow> udp_addr option \<Rightarrow> bool" where
  "DataAddrMatches s addr =
     (case addr of
        None \<Rightarrow> False
      | Some a \<Rightarrow>
          (case ns_dataAddr s of
             None \<Rightarrow> False
           | Some bound \<Rightarrow>
               addr_Port bound = addr_Port a \<and> addr_Zone bound = addr_Zone a \<and> ip_equal (addr_IP bound) (addr_IP a)))"

text \<open>The argument \<open>random\<close> is what \<open>rand.Read\<close> puts into the 32 bytes, or its failure.\<close>

definition IssueDataBindChallenge :: "bytes option \<Rightarrow> NodeSession \<Rightarrow> time \<Rightarrow> NodeSession \<times> (control_error + bytes)" where
  "IssueDataBindChallenge random s now =
     (case random of
        None \<Rightarrow> (s, Inl RandomFailed)
      | Some challenge \<Rightarrow>
          (s\<lparr>ns_dataBindChallenge := challenge, ns_dataBindChallengeUntil := now + seconds 10\<rparr>, Inr challenge))"

definition ConsumeDataBindChallenge :: "NodeSession \<Rightarrow> bytes \<Rightarrow> time \<Rightarrow> NodeSession \<times> bool" where
  "ConsumeDataBindChallenge s challenge now =
     (if length challenge \<noteq> length (ns_dataBindChallenge s) then (s, False)
      else
        let valid = (ns_dataBindChallengeUntil s \<noteq> zero_time \<and> \<not> ns_dataBindChallengeUntil s < now \<and>
                     challenge = ns_dataBindChallenge s)
        in (s\<lparr>ns_dataBindChallenge := replicate 32 0, ns_dataBindChallengeUntil := zero_time\<rparr>, valid))"

text \<open>Sending on the connection of the session; \<open>write\<close> answers whether the connection took all bytes.\<close>

definition session_Send ::
    "(ControlMessage \<Rightarrow> bytes option) \<Rightarrow> (bytes \<Rightarrow> bool) \<Rightarrow> NodeSession \<Rightarrow> ControlMessage \<Rightarrow>
     NodeSession \<times> (control_error + bytes)" where
  "session_Send json_marshal write s msg =
     (case marshalControlMessage json_marshal msg of
        Inl err \<Rightarrow> (control_metrics AddError s, Inl err)
      | Inr wire \<Rightarrow>
          if \<not> write wire then (control_metrics AddError s, Inl WriteFailed)
          else (control_metrics (\<lambda>m. AddOut m (int (length wire))) s, Inr wire))"

definition type0_message :: "bytes \<Rightarrow> u64 \<Rightarrow> ControlMessage" where
  "type0_message wire messageID =
     empty_message\<lparr>cm_Kind := ''type0'', cm_Packet := b64_encode wire, cm_MessageID := messageID\<rparr>"

definition session_SendEnvelope ::
    "(ControlMessage \<Rightarrow> bytes option) \<Rightarrow> (bytes \<Rightarrow> bool) \<Rightarrow> NodeSession \<Rightarrow> envelope \<Rightarrow>
     NodeSession \<times> (control_error + bytes)" where
  "session_SendEnvelope json_marshal write s env =
     (let env = env\<lparr>env_NodeSessionID := ns_SessionID s, env_KeyEpoch := ns_KeyEpoch s\<rparr>;
          env = (if env_SourceNodeID env = '''' then env\<lparr>env_SourceNodeID := ''center''\<rparr> else env)
      in case MarshalControl env (ns_Key s) of
           Inl err \<Rightarrow> (s, Inl (EnvelopeError err))
         | Inr wire \<Rightarrow> session_Send json_marshal write s (type0_message wire (env_MessageID env)))"

text \<open>The client's side of the same connection.\<close>

definition client_SendEnvelope ::
    "(ControlMessage \<Rightarrow> bytes option) \<Rightarrow> (bytes \<Rightarrow> bool) \<Rightarrow> NodeSession \<Rightarrow> envelope \<Rightarrow>
     NodeSession \<times> (control_error + bytes)" where
  "client_SendEnvelope json_marshal write s env =
     (let env = env\<lparr>env_SourceNodeID := ns_NodeID s, env_NodeSessionID := ns_SessionID s, env_KeyEpoch := ns_KeyEpoch s\<rparr>
      in case MarshalControl env (ns_Key s) of
           Inl err \<Rightarrow> (s, Inl (EnvelopeError err))
         | Inr wire \<Rightarrow> session_Send json_marshal write s (type0_message wire (env_MessageID env)))"

text \<open>The client's checks on the answer of the centre (\<open>DialNode\<close>), and the session it keeps.\<close>

definition client_hello :: "NodeCapabilities \<Rightarrow> string \<Rightarrow> string \<Rightarrow> ControlMessage" where
  "client_hello capabilities nodeID token =
     empty_message\<lparr>cm_Kind := ''node_enroll'', cm_NodeID := nodeID, cm_Token := token,
       cm_MinProtocol := MinProtocolVersion capabilities, cm_MaxProtocol := MaxProtocolVersion capabilities,
       cm_Features := Features capabilities, cm_RequiredFeatures := RequiredFeatures capabilities\<rparr>"

definition client_accept ::
    "NodeCapabilities \<Rightarrow> string \<Rightarrow> string \<Rightarrow> time \<Rightarrow> ControlMessage \<Rightarrow> nat \<Rightarrow> nat \<Rightarrow> control_error + NodeSession" where
  "client_accept capabilities cfgNodeID remoteAddr clock response helloSize responseBytes =
     (if cm_Kind response = ''node_protocol_error'' then Inl ErrNodeProtocolIncompatible
      else if cm_Kind response = ''node_auth_internal_error'' then Inl (ErrNodeAuthInternalError (cm_Error response))
      else if cm_Kind response \<noteq> ''node_auth_ok'' then Inl (ErrNodeAuthenticationRejected (cm_Error response))
      else case b64_decode (cm_Key response) of
        None \<Rightarrow> Inl InvalidSessionKey
      | Some key \<Rightarrow>
          if length key < 16 then Inl InvalidSessionKey
          else if cm_Protocol response < MinProtocolVersion capabilities \<or>
                  MaxProtocolVersion capabilities < cm_Protocol response \<or>
                  cm_Features response AND NOT (Features capabilities) \<noteq> 0 \<or>
                  RequiredFeatures capabilities AND NOT (cm_Features response) \<noteq> 0
          then Inl ErrNodeProtocolIncompatible
          else
            let session = \<lparr>ns_NodeID = cm_NodeID response, ns_SessionID = cm_SessionID response,
                  ns_KeyEpoch = cm_KeyEpoch response, ns_Key = key, ns_ProtocolVersion = cm_Protocol response,
                  ns_Features = cm_Features response, ns_PeerLinkID = [], ns_CredentialEpoch = 0,
                  ns_RemoteAddr = remoteAddr, ns_ConnectedAt = clock, ns_LastHeartbeat = 0, ns_dataAddr = None,
                  ns_DataMetrics = zero_metrics, ns_ControlMetrics = zero_metrics, ns_AckedProjectionVersion = 0,
                  ns_replay = new_replayWindow, ns_protection = None, ns_dataBindChallenge = replicate 32 0,
                  ns_dataBindChallengeUntil = zero_time\<rparr>;
                session = (if cm_Features response = NodeFeatureCenterPeer
                           then session\<lparr>ns_PeerLinkID := cfgNodeID, ns_CredentialEpoch := cm_CredentialEpoch response\<rparr>
                           else session);
                session = control_metrics (\<lambda>m. AddIn (AddOut m (int helloSize)) (int responseBytes)) session
            in Inr (Touch clock session))"

text \<open>One round of \<open>readLoop\<close> of the client after a message was read, with what it hands on.\<close>

datatype control_event =
    NoEvent
  | GotEnvelope envelope
  | GotMessage ControlMessage
  | Stopped control_error

definition unsupported_critical :: ControlMessage where
  "unsupported_critical =
     empty_message\<lparr>cm_Kind := ''node_protocol_error'', cm_Error := ''unsupported critical Type 0 subtype''\<rparr>"

definition client_receive ::
    "(ControlMessage \<Rightarrow> bytes option) \<Rightarrow> (bytes \<Rightarrow> bool) \<Rightarrow> NodeSession \<Rightarrow> time \<Rightarrow> ControlMessage \<Rightarrow> nat \<Rightarrow>
     NodeSession \<times> control_event" where
  "client_receive json_marshal write s now msg frameBytes =
     (let s = control_metrics (\<lambda>m. AddIn m (int frameBytes)) s;
          s = (if cm_Kind msg = ''node_heartbeat'' then Touch now s else s)
      in if cm_Kind msg = ''node_protocol_error'' then (s, Stopped ErrNodeProtocolIncompatible)
         else if cm_Kind msg = ''type0'' then
           (case b64_decode (cm_Packet msg) of
              None \<Rightarrow> (s, NoEvent)
            | Some wire \<Rightarrow>
                (case UnmarshalControl wire (ns_Key s) of
                   Inl _ \<Rightarrow> (s, NoEvent)
                 | Inr env \<Rightarrow>
                     if env_NodeSessionID env \<noteq> ns_SessionID s \<or> env_KeyEpoch env \<noteq> ns_KeyEpoch s \<or>
                        env_SourceNodeID env \<noteq> ''center'' \<or> Expired env now (seconds 30) then (s, NoEvent)
                     else if \<not> IsKnownSubtype (env_Subtype env) then
                       let s = control_metrics AddDrop s
                       in if env_Flags env AND FlagCritical \<noteq> 0
                          then (fst (session_Send json_marshal write s unsupported_critical),
                                Stopped ErrNodeProtocolIncompatible)
                          else (s, NoEvent)
                     else
                       let (s, fresh) = AcceptMessage s (env_MessageID env) now
                       in if \<not> fresh \<and> env_Subtype env \<notin> {0x13, 0x12, 0x24} then (s, NoEvent)
                          else (Touch now s, GotEnvelope (if fresh then env else env\<lparr>env_Duplicate := True\<rparr>))))
         else (s, GotMessage msg))"

subsection \<open>Negotiation\<close>

lemma normalized_ok:
  assumes "capabilities_normalized c = (d, None)"
  shows "MinProtocolVersion d \<le> MaxProtocolVersion d" and "RequiredFeatures d AND NOT (Features d) = 0"
    and "MinProtocolVersion d \<noteq> 0" and "MaxProtocolVersion d \<noteq> 0" and "Features d \<noteq> 0" and "RequiredFeatures d \<noteq> 0"
proof -
  have "1 \<le> MaxProtocolVersion d" if "MaxProtocolVersion d \<noteq> 0" for d
    using that unsigned_eq_0_iff [of "MaxProtocolVersion d", where 'a = nat] by (simp add: word_le_nat_alt Suc_le_eq)
  then show "MinProtocolVersion d \<le> MaxProtocolVersion d"
    using assms unfolding capabilities_normalized_def Let_def by (auto split: if_splits)
qed (use assms in \<open>auto simp: capabilities_normalized_def Let_def split: if_splits\<close>)

lemma normalized_idem:
  assumes "capabilities_normalized c = (d, None)"
  shows "capabilities_normalized d = (d, None)"
  using normalized_ok [OF assms] by (simp add: capabilities_normalized_def Let_def not_less)

lemma negotiate_Inr:
  "negotiateNodeCapabilities server client = Inr (v, f) \<longleftrightarrow>
    (\<exists>s c. capabilities_normalized server = (s, None) \<and> capabilities_normalized client = (c, None) \<and>
      v = min (MaxProtocolVersion s) (MaxProtocolVersion c) \<and>
      max (MinProtocolVersion s) (MinProtocolVersion c) \<le> v \<and>
      f = Features s AND Features c \<and> RequiredFeatures s AND NOT f = 0 \<and> RequiredFeatures c AND NOT f = 0)"
proof -
  obtain s es where s: "capabilities_normalized server = (s, es)" by fastforce
  obtain c ec where c: "capabilities_normalized client = (c, ec)" by fastforce
  show ?thesis
  proof (cases "es = None \<and> ec = None")
    case True
    then show ?thesis
      by (simp add: negotiateNodeCapabilities_def s c Let_def min_def max_def not_less not_le split: if_splits) auto
  qed (auto simp: negotiateNodeCapabilities_def s c split: option.splits)
qed

lemma and_not_and: "(x AND y) AND NOT y = (0 :: 'a::len word)" "(x AND y) AND NOT x = (0 :: 'a::len word)"
  by (auto intro: bit_eqI simp: bit_simps)

lemma bind_session_fields [simp]:
  "ns_Key (control_metrics g s) = ns_Key s" "ns_SessionID (control_metrics g s) = ns_SessionID s"
  "ns_NodeID (control_metrics g s) = ns_NodeID s" "ns_KeyEpoch (control_metrics g s) = ns_KeyEpoch s"
  "ns_replay (control_metrics g s) = ns_replay s" "ns_protection (control_metrics g s) = ns_protection s"
  "ns_Key (Touch t s) = ns_Key s" "ns_SessionID (Touch t s) = ns_SessionID s"
  "ns_NodeID (Touch t s) = ns_NodeID s" "ns_KeyEpoch (Touch t s) = ns_KeyEpoch s"
  "ns_replay (Touch t s) = ns_replay s" "ns_protection (Touch t s) = ns_protection s"
  by (simp_all add: control_metrics_def Touch_def)

subsection \<open>Frames on a stream\<close>

lemma read_marshalled:
  assumes "json_marshal msg = Some data" and "json_unmarshal data = Some msg" and "data \<noteq> []"
    and "length data \<le> maxFrame" and "maxFrame \<le> controlMaxFrame"
  shows "\<exists>wire. marshalControlMessage json_marshal msg = Inr wire \<and> length wire = 4 + length data \<and>
    readControlMessageSizeLimit json_unmarshal (wire @ rest) maxFrame = (Inr msg, length wire, rest)"
proof -
  have n: "unat (of_nat (length data) :: u32) = length data"
    using assms(4,5) by (simp add: unat_of_nat take_bit_nat_eq_self_iff)
  then have "be_get (putUint32 (of_nat (length data))) = length data" "length (putUint32 (of_nat (length data))) = 4"
    using assms(4,5) by (simp_all add: putUint32_def be_get_put)
  then show ?thesis using assms n
    by (simp add: marshalControlMessage_def readControlMessageSizeLimit_def read_full_def getUint32_def Let_def)
qed

subsection \<open>Binding the data address\<close>

datatype bind_op = Issue bytes time | Consume bytes time

primrec bind_step :: "NodeSession \<Rightarrow> bind_op \<Rightarrow> NodeSession \<times> bool" where
  "bind_step s (Issue challenge now) = (fst (IssueDataBindChallenge (Some challenge) s now), False)"
| "bind_step s (Consume challenge now) = ConsumeDataBindChallenge s challenge now"

definition bind_run :: "NodeSession \<Rightarrow> bind_op list \<Rightarrow> NodeSession" where
  "bind_run s ops = foldl (\<lambda>s op. fst (bind_step s op)) s ops"

text \<open>An operation that withdraws the challenge issued before it.\<close>

definition withdraws :: "bind_op \<Rightarrow> bool" where
  "withdraws op = (case op of Issue _ _ \<Rightarrow> True | Consume challenge _ \<Rightarrow> length challenge = 32)"

definition outstanding :: "bind_op list \<Rightarrow> bytes \<Rightarrow> time \<Rightarrow> bool" where
  "outstanding ops challenge t \<longleftrightarrow> (\<exists>older newer. ops = older @ Issue challenge t # newer \<and> (\<forall>op \<in> set newer. \<not> withdraws op))"

lemma bind_run_inv:
  assumes "ns_dataBindChallengeUntil s = zero_time" and "length (ns_dataBindChallenge s) = 32"
    and "\<forall>challenge t. Issue challenge t \<in> set ops \<longrightarrow> length challenge = 32"
  shows "length (ns_dataBindChallenge (bind_run s ops)) = 32 \<and>
    (ns_dataBindChallengeUntil (bind_run s ops) \<noteq> zero_time \<longrightarrow>
      (\<exists>t. outstanding ops (ns_dataBindChallenge (bind_run s ops)) t \<and>
        ns_dataBindChallengeUntil (bind_run s ops) = t + seconds 10))"
  using assms(3)
proof (induction ops rule: rev_induct)
  case Nil
  with assms show ?case by (simp add: bind_run_def)
next
  case (snoc op ops)
  have step: "bind_run s (ops @ [op]) = fst (bind_step (bind_run s ops) op)" by (simp add: bind_run_def)
  have keep: "outstanding ops c t \<Longrightarrow> \<not> withdraws op \<Longrightarrow> outstanding (ops @ [op]) c t" for c t
    unfolding outstanding_def by fastforce
  show ?case
  proof (cases op)
    case (Issue c t)
    have "outstanding (ops @ [op]) c t" unfolding outstanding_def Issue by (intro exI [of _ ops] exI [of _ "[]"]) simp
    with snoc.prems Issue show ?thesis unfolding step by (auto simp: IssueDataBindChallenge_def)
  next
    case (Consume c t)
    with snoc keep show ?thesis unfolding step by (auto simp: ConsumeDataBindChallenge_def withdraws_def Let_def)
  qed
qed

text \<open>C34: A node binds its data address only with the challenge the centre issued to this session: a proof
  that is accepted repeats, within ten seconds, the challenge of the latest issue, and no other
  challenge was issued and no proof of the same length was tried in between (a proof of another
  length is refused and leaves the challenge).  So a challenge works once.\<close>

theorem data_bind_challenge_once:
  assumes "ns_dataBindChallengeUntil s = zero_time" and "length (ns_dataBindChallenge s) = 32"
    and "\<forall>challenge t. Issue challenge t \<in> set ops \<longrightarrow> length challenge = 32"
    and "ConsumeDataBindChallenge (bind_run s ops) proof' now = (s', True)"
  shows "(\<exists>t. outstanding ops proof' t \<and> now \<le> t + seconds 10) \<and> ns_dataBindChallengeUntil s' = zero_time \<and>
    (\<forall>again later. \<not> snd (ConsumeDataBindChallenge s' again later))"
  using bind_run_inv [OF assms(1-3)] assms(4)
  by (auto simp: ConsumeDataBindChallenge_def Let_def split: if_splits)

definition sample_session :: NodeSession where
  "sample_session = \<lparr>ns_NodeID = ''edge'', ns_SessionID = 7, ns_KeyEpoch = 1, ns_Key = replicate 32 5, ns_ProtocolVersion = 1,
     ns_Features = NodeSupportedFeatures, ns_PeerLinkID = [], ns_CredentialEpoch = 0, ns_RemoteAddr = ''10.0.0.1:9'',
     ns_ConnectedAt = 0, ns_LastHeartbeat = 0, ns_dataAddr = None, ns_DataMetrics = zero_metrics,
     ns_ControlMetrics = zero_metrics, ns_AckedProjectionVersion = 0, ns_replay = new_replayWindow,
     ns_protection = None, ns_dataBindChallenge = replicate 32 0, ns_dataBindChallengeUntil = zero_time\<rparr>"

theorem data_bind_challenge_once_witness:
  "\<exists>t. outstanding [Issue (replicate 32 9) 0] (replicate 32 9) t \<and> seconds 3 \<le> t + seconds 10"
  using data_bind_challenge_once [of sample_session "[Issue (replicate 32 9) 0]" "replicate 32 9" "seconds 3",
      OF _ _ _ prod.collapse [symmetric, THEN trans]]
  by (simp add: sample_session_def bind_run_def IssueDataBindChallenge_def ConsumeDataBindChallenge_def Let_def zero_time_def)

text \<open>Reading one message after the other from a stream.\<close>

primrec read_messages ::
    "(bytes \<Rightarrow> ControlMessage option) \<Rightarrow> nat \<Rightarrow> bytes \<Rightarrow> nat \<Rightarrow> (ControlMessage list \<times> bytes) option" where
  "read_messages json_unmarshal maxFrame r 0 = Some ([], r)"
| "read_messages json_unmarshal maxFrame r (Suc k) =
     (case readControlMessageSizeLimit json_unmarshal r maxFrame of
        (Inl _, _, _) \<Rightarrow> None
      | (Inr msg, _, r) \<Rightarrow> map_option (apfst (Cons msg)) (read_messages json_unmarshal maxFrame r k))"

text \<open>Frames on the control connection: messages that the JSON codec encodes to a non-empty text within the
  receiver's frame limit and decodes again to the same message, written one after the other, are read back from the stream in the same order, and what follows them on the
  stream is untouched.\<close>

theorem control_stream_round_trip:
  assumes "maxFrame \<le> controlMaxFrame"
    and "\<forall>msg \<in> set msgs. \<exists>data. json_marshal msg = Some data \<and> json_unmarshal data = Some msg \<and> data \<noteq> [] \<and> length data \<le> maxFrame"
  shows "\<exists>wires. map (marshalControlMessage json_marshal) msgs = map Inr wires \<and>
    read_messages json_unmarshal maxFrame (concat wires @ rest) (length msgs) = Some (msgs, rest)"
  using assms(2)
proof (induction msgs)
  case (Cons msg msgs)
  then obtain wires where wires: "map (marshalControlMessage json_marshal) msgs = map Inr wires"
      "read_messages json_unmarshal maxFrame (concat wires @ rest) (length msgs) = Some (msgs, rest)" by auto
  from Cons.prems obtain data where "json_marshal msg = Some data" "json_unmarshal data = Some msg" "data \<noteq> []"
      "length data \<le> maxFrame" by auto
  from read_marshalled [of json_marshal msg data json_unmarshal maxFrame "concat wires @ rest"] this assms(1)
  obtain wire where "marshalControlMessage json_marshal msg = Inr wire"
      "readControlMessageSizeLimit json_unmarshal (wire @ concat wires @ rest) maxFrame = (Inr msg, length wire, concat wires @ rest)"
    by blast
  with wires show ?case by (intro exI [of _ "wire # wires"]) simp
qed (simp add: exI [of _ "[]"])

theorem control_stream_round_trip_witness:
  "\<exists>wires. read_messages (\<lambda>d. Some (empty_message\<lparr>cm_Kind := string_of d\<rparr>)) controlHelloMaxFrame (concat wires @ [1]) 2 =
      Some ([empty_message\<lparr>cm_Kind := ''k''\<rparr>, empty_message\<lparr>cm_Kind := ''m''\<rparr>], [1]) \<and> length wires = 2"
proof -
  let ?msgs = "[empty_message\<lparr>cm_Kind := ''k''\<rparr>, empty_message\<lparr>cm_Kind := ''m''\<rparr>]"
  have "\<forall>msg \<in> set ?msgs. \<exists>data. (\<lambda>m. Some (bytes_of (cm_Kind m))) msg = Some data \<and>
      (\<lambda>d. Some (empty_message\<lparr>cm_Kind := string_of d\<rparr>)) data = Some msg \<and> data \<noteq> [] \<and> length data \<le> controlHelloMaxFrame"
    by (simp add: bytes_of_def string_of_def)
  then have sent: "\<exists>wires. map (marshalControlMessage (\<lambda>m. Some (bytes_of (cm_Kind m)))) ?msgs = map Inr wires \<and>
      read_messages (\<lambda>d. Some (empty_message\<lparr>cm_Kind := string_of d\<rparr>)) controlHelloMaxFrame (concat wires @ [1]) (length ?msgs) =
        Some (?msgs, [1])"
    by (intro control_stream_round_trip) simp_all
  then
  obtain wires where w: "map (marshalControlMessage (\<lambda>m. Some (bytes_of (cm_Kind m)))) ?msgs = map Inr wires"
      "read_messages (\<lambda>d. Some (empty_message\<lparr>cm_Kind := string_of d\<rparr>)) controlHelloMaxFrame (concat wires @ [1]) (length ?msgs) =
        Some (?msgs, [1])"
    by (elim exE conjE)
  have "length wires = 2" using arg_cong [OF w(1), of length] by simp
  moreover have "length ?msgs = 2" by simp
  ultimately show ?thesis using w(2) by (metis (no_types, lifting))
qed

end
