(* ===== verification/Node_Server.thy ===== *)
theory Node_Server
  imports Node_Control Handshake_Limiter
begin

unbundle bit_operations_syntax

section \<open>The centre's control server (\<open>internal/interconnect/control.go\<close>)\<close>

text \<open>
  Admission of node connections.  The goroutine of a connection runs \<open>handleConn\<close>, whose
  phases are the functions below: the handshake up to the reservation of a node slot, the
  answer and the installation of the session, the rounds of the read loop, and the removal at
  the end.  Phases of different connections interleave; each access to the server's counters
  is under a mutex or atomic.  A phase is one step: the pending counter's increment with its
  undoing when the limit is reached, and the installation of a session with the release of its
  pending place, are not split, so the moments between them do not occur here.  A connection has a number, which is also the identity of the
  \<^verbatim>\<open>*NodeSession\<close> it creates.  The callbacks of the configuration, the random bytes, the clock
  and the connection are arguments.
\<close>

record NodeAuthentication =
  auth_Accepted :: bool
  auth_IssuedCredential :: string
  auth_CredentialEpoch :: u32
  auth_PeerLinkID :: string

definition no_authentication :: NodeAuthentication where
  "no_authentication =
     \<lparr>auth_Accepted = False, auth_IssuedCredential = [], auth_CredentialEpoch = 0, auth_PeerLinkID = []\<rparr>"

record NodeServerProtection =
  PendingRejected :: u64
  AuthRateRejected :: u64
  AuthFailed :: u64
  AuthInternalError :: u64
  MaxNodesRejected :: u64
  ProtocolRejected :: u64
  UnsupportedSubtypeDrops :: u64

definition zero_protection :: NodeServerProtection where
  "zero_protection = \<lparr>PendingRejected = 0, AuthRateRejected = 0, AuthFailed = 0, AuthInternalError = 0,
     MaxNodesRejected = 0, ProtocolRejected = 0, UnsupportedSubtypeDrops = 0\<rparr>"

record NodeServer =
  srv_limits :: ResourceLimits
  srv_capabilities :: NodeCapabilities
  srv_pending :: int
  srv_sessions :: "(string, nat) fmap"
  srv_active :: int
  srv_occupied :: int
  srv_reserved :: "(string, int) fmap"
  srv_attempts :: handshakeLimiter
  srv_protection :: NodeServerProtection

datatype server_error = ListenAddrRequired | TLSConfigRequired | ValidatorRequired | LimitsInvalid limits_error
  | CapabilitiesInvalid control_error

definition NewNodeServer ::
    "int \<Rightarrow> string \<Rightarrow> bool \<Rightarrow> bool \<Rightarrow> ResourceLimits \<Rightarrow> NodeCapabilities \<Rightarrow> server_error + NodeServer" where
  "NewNodeServer gomaxprocs listenAddr hasTLS hasValidator limits capabilities =
     (if trim_space listenAddr = [] then Inl ListenAddrRequired
      else if \<not> hasTLS then Inl TLSConfigRequired
      else if \<not> hasValidator then Inl ValidatorRequired
      else case normalized gomaxprocs limits of
        (_, Some err) \<Rightarrow> Inl (LimitsInvalid err)
      | (limits, None) \<Rightarrow>
          (case capabilities_normalized capabilities of
             (_, Some err) \<Rightarrow> Inl (CapabilitiesInvalid err)
           | (capabilities, None) \<Rightarrow>
               Inr \<lparr>srv_limits = limits, srv_capabilities = capabilities, srv_pending = 0, srv_sessions = fmempty,
                    srv_active = 0, srv_occupied = 0, srv_reserved = fmempty,
                    srv_attempts = newHandshakeLimiter (AuthAttemptsPerMinutePerIP limits),
                    srv_protection = zero_protection\<rparr>))"

subsection \<open>Slots\<close>

definition reserved_count :: "NodeServer \<Rightarrow> string \<Rightarrow> int" where
  "reserved_count s nodeID = (case fmlookup (srv_reserved s) nodeID of Some n \<Rightarrow> n | None \<Rightarrow> 0)"

definition reserveSession :: "NodeServer \<Rightarrow> string \<Rightarrow> NodeServer \<times> bool" where
  "reserveSession s nodeID =
     (let active = fmlookup (srv_sessions s) nodeID \<noteq> None;
          new = (\<not> active \<and> reserved_count s nodeID = 0)
      in if new \<and> MaxNodes (srv_limits s) \<le> srv_occupied s then (s, False)
         else
           let s = (if new then s\<lparr>srv_occupied := srv_occupied s + 1\<rparr> else s)
           in (s\<lparr>srv_reserved := fmupd nodeID (reserved_count s nodeID + 1) (srv_reserved s)\<rparr>, True))"

definition releaseReservation :: "NodeServer \<Rightarrow> string \<Rightarrow> NodeServer" where
  "releaseReservation s nodeID =
     (if reserved_count s nodeID \<le> 1 then
        let s = s\<lparr>srv_reserved := fmdrop nodeID (srv_reserved s)\<rparr>
        in if fmlookup (srv_sessions s) nodeID = None \<and> 0 < srv_occupied s
           then s\<lparr>srv_occupied := srv_occupied s - 1\<rparr> else s
      else s\<lparr>srv_reserved := fmupd nodeID (reserved_count s nodeID - 1) (srv_reserved s)\<rparr>)"

text \<open>The results are the session that was replaced and whether the new one was installed.\<close>

definition installReservedSession :: "NodeServer \<Rightarrow> string \<Rightarrow> nat \<Rightarrow> NodeServer \<times> nat option \<times> bool" where
  "installReservedSession s nodeID session =
     (if reserved_count s nodeID = 0 then (s, None, False)
      else
        let old = fmlookup (srv_sessions s) nodeID;
            s = (if old = None then s\<lparr>srv_active := srv_active s + 1\<rparr> else s);
            s = s\<lparr>srv_sessions := fmupd nodeID session (srv_sessions s)\<rparr>;
            s = (if reserved_count s nodeID = 1 then s\<lparr>srv_reserved := fmdrop nodeID (srv_reserved s)\<rparr>
                 else s\<lparr>srv_reserved := fmupd nodeID (reserved_count s nodeID - 1) (srv_reserved s)\<rparr>)
        in (s, old, True))"

definition removeSession :: "NodeServer \<Rightarrow> string \<Rightarrow> nat \<Rightarrow> NodeServer \<times> bool" where
  "removeSession s nodeID session =
     (if fmlookup (srv_sessions s) nodeID \<noteq> Some session then (s, False)
      else
        let s = s\<lparr>srv_sessions := fmdrop nodeID (srv_sessions s)\<rparr>;
            s = (if 0 < srv_active s then s\<lparr>srv_active := srv_active s - 1\<rparr> else s);
            s = (if reserved_count s nodeID = 0 \<and> 0 < srv_occupied s then s\<lparr>srv_occupied := srv_occupied s - 1\<rparr> else s)
        in (s, True))"

text \<open>The accept loop takes a connection, or closes it when too many handshakes are pending.\<close>

definition accept_conn :: "NodeServer \<Rightarrow> NodeServer \<times> bool" where
  "accept_conn s =
     (if MaxPendingHandshakes (srv_limits s) < srv_pending s + 1
      then (s\<lparr>srv_protection := (srv_protection s)\<lparr>PendingRejected := PendingRejected (srv_protection s) + 1\<rparr>\<rparr>, False)
      else (s\<lparr>srv_pending := srv_pending s + 1\<rparr>, True))"

definition releasePending :: "NodeServer \<Rightarrow> NodeServer" where
  "releasePending s = s\<lparr>srv_pending := srv_pending s - 1\<rparr>"

record NodeServerProtectionSnapshot =
  snap_PendingHandshakes :: int
  snap_ActiveNodes :: int
  snap_counters :: NodeServerProtection

definition server_ProtectionSnapshot :: "NodeServer \<Rightarrow> NodeServerProtectionSnapshot" where
  "server_ProtectionSnapshot s = \<lparr>snap_PendingHandshakes = srv_pending s, snap_ActiveNodes = srv_active s,
     snap_counters = srv_protection s\<rparr>"

subsection \<open>The handshake\<close>

text \<open>The two ways to check a token; \<open>Authenticate\<close> fails when the database does.\<close>

datatype authenticator =
    Authenticate "string \<Rightarrow> string \<Rightarrow> NodeAuthentication option"
  | ValidateToken "string \<Rightarrow> string \<Rightarrow> bool"

datatype handshake_result =
    HelloRefused string ControlMessage
  | HelloReserved NodeSession ControlMessage
  | HelloClosed

definition auth_error :: "string \<Rightarrow> string \<Rightarrow> ControlMessage" where
  "auth_error kind err = empty_message\<lparr>cm_Kind := kind, cm_Error := err\<rparr>"

definition count_protection :: "(NodeServerProtection \<Rightarrow> NodeServerProtection) \<Rightarrow> NodeServer \<Rightarrow> NodeServer" where
  "count_protection f s = s\<lparr>srv_protection := f (srv_protection s)\<rparr>"

text \<open>Up to the verdict: the limiter and the callback are only asked for a well-formed hello.
  The result is the server with its limiter, whether the rate was exceeded, and the callback's
  answer (\<^const>\<open>None\<close> when it failed).\<close>

definition authenticate_hello ::
    "authenticator \<Rightarrow> string \<Rightarrow> time \<Rightarrow> NodeServer \<Rightarrow> ControlMessage \<Rightarrow>
     (NodeServer \<times> bool \<times> NodeAuthentication option) option" where
  "authenticate_hello authenticator remoteAddr clock s hello =
     (case allow (srv_attempts s) (Some remoteAddr) (cm_NodeID hello) clock of
        None \<Rightarrow> None
      | Some (l, ok) \<Rightarrow>
          let s = s\<lparr>srv_attempts := l\<rparr>
          in if \<not> ok then
               Some (count_protection (\<lambda>p. p\<lparr>AuthRateRejected := AuthRateRejected p + 1\<rparr>) s, True, Some no_authentication)
             else
               Some (s, False,
                 case authenticator of
                   Authenticate f \<Rightarrow> f (cm_NodeID hello) (cm_Token hello)
                 | ValidateToken f \<Rightarrow> Some (no_authentication\<lparr>auth_Accepted := f (cm_NodeID hello) (cm_Token hello)\<rparr>)))"

definition negotiate_hello :: "NodeServer \<Rightarrow> ControlMessage \<Rightarrow> control_error + byte \<times> u64" where
  "negotiate_hello s hello =
     (let peerRequested = (cm_Features hello = NodeFeatureCenterPeer \<and> cm_RequiredFeatures hello = NodeFeatureCenterPeer);
          serverCapabilities = (if peerRequested then (srv_capabilities s)\<lparr>RequiredFeatures := NodeFeatureCenterPeer\<rparr>
                                else srv_capabilities s)
      in negotiateNodeCapabilities serverCapabilities
           \<lparr>MinProtocolVersion = cm_MinProtocol hello, MaxProtocolVersion = cm_MaxProtocol hello,
            Features = cm_Features hello, RequiredFeatures = cm_RequiredFeatures hello\<rparr>)"

definition new_node_session ::
    "int \<Rightarrow> NodeServer \<Rightarrow> ControlMessage \<Rightarrow> NodeAuthentication \<Rightarrow> byte \<Rightarrow> u64 \<Rightarrow> bytes \<Rightarrow> u64 \<Rightarrow> string \<Rightarrow> time \<Rightarrow> NodeSession" where
  "new_node_session gomaxprocs s hello authentication protocolVersion features key sid remoteAddr clock =
     Touch clock
       \<lparr>ns_NodeID = cm_NodeID hello, ns_SessionID = sid, ns_KeyEpoch = 1, ns_Key = key,
        ns_ProtocolVersion = protocolVersion, ns_Features = features, ns_PeerLinkID = auth_PeerLinkID authentication,
        ns_CredentialEpoch = auth_CredentialEpoch authentication, ns_RemoteAddr = remoteAddr, ns_ConnectedAt = clock,
        ns_LastHeartbeat = 0, ns_dataAddr = None, ns_DataMetrics = zero_metrics, ns_ControlMetrics = zero_metrics,
        ns_AckedProjectionVersion = 0, ns_replay = new_replayWindow,
        ns_protection = Some (newNodeProtection gomaxprocs (srv_limits s)), ns_dataBindChallenge = replicate 32 0,
        ns_dataBindChallengeUntil = zero_time\<rparr>"

definition auth_ok_message :: "NodeSession \<Rightarrow> NodeAuthentication \<Rightarrow> ControlMessage" where
  "auth_ok_message session authentication =
     empty_message\<lparr>cm_Kind := ''node_auth_ok'', cm_NodeID := ns_NodeID session, cm_SessionID := ns_SessionID session,
       cm_KeyEpoch := ns_KeyEpoch session, cm_Key := b64_encode (ns_Key session),
       cm_Credential := auth_IssuedCredential authentication, cm_CredentialEpoch := auth_CredentialEpoch authentication,
       cm_Protocol := ns_ProtocolVersion session, cm_Features := ns_Features session\<rparr>"

text \<open>\<open>hello\<close> is the message that was read, or \<^const>\<open>None\<close> when reading it failed.  A refused hello
  reports its reason and what is written back.  The result is \<^const>\<open>None\<close> only if the limiter does
  not return.\<close>

definition handshake ::
    "int \<Rightarrow> authenticator \<Rightarrow> bytes option \<Rightarrow> u64 \<Rightarrow> string \<Rightarrow> time \<Rightarrow> NodeServer \<Rightarrow> ControlMessage option \<Rightarrow>
     (NodeServer \<times> handshake_result) option" where
  "handshake gomaxprocs authenticator key sid remoteAddr clock s hello =
     (let readFailed = (hello = None);
          hello = (case hello of Some m \<Rightarrow> m | None \<Rightarrow> empty_message);
          validHello = (\<not> readFailed \<and> cm_Kind hello = ''node_enroll'' \<and> cm_NodeID hello \<noteq> '''' \<and>
                        cm_NodeID hello \<noteq> ''center'');
          peerRequested = (cm_Features hello = NodeFeatureCenterPeer \<and> cm_RequiredFeatures hello = NodeFeatureCenterPeer);
          refused = (\<lambda>s rateRejected reason. Some
            (if rateRejected then s else count_protection (\<lambda>p. p\<lparr>AuthFailed := AuthFailed p + 1\<rparr>) s,
             HelloRefused reason (auth_error ''node_auth_error'' ''node authentication failed'')))
      in if \<not> validHello then refused s False ''invalid_hello''
         else case negotiate_hello s hello of
           Inl _ \<Rightarrow> Some (count_protection (\<lambda>p. p\<lparr>ProtocolRejected := ProtocolRejected p + 1\<rparr>) s,
                        HelloRefused ''protocol_incompatible''
                          (auth_error ''node_protocol_error'' ''node protocol negotiation failed''))
         | Inr (protocolVersion, features) \<Rightarrow>
             (case authenticate_hello authenticator remoteAddr clock s hello of
                None \<Rightarrow> None
              | Some (s, rateRejected, None) \<Rightarrow>
                  Some (count_protection (\<lambda>p. p\<lparr>AuthInternalError := AuthInternalError p + 1\<rparr>) s,
                        HelloRefused ''internal_error''
                          (auth_error ''node_auth_internal_error'' ''node authentication temporarily unavailable''))
              | Some (s, rateRejected, Some authentication) \<Rightarrow>
                  if \<not> auth_Accepted authentication \<or> (auth_PeerLinkID authentication \<noteq> '''') \<noteq> peerRequested
                  then refused s rateRejected (if rateRejected then ''rate_limited'' else ''credential_rejected'')
                  else case key of
                    None \<Rightarrow> Some (s, HelloClosed)
                  | Some key \<Rightarrow>
                      let session = new_node_session gomaxprocs s hello authentication protocolVersion features key sid
                            remoteAddr clock;
                          (s, ok) = reserveSession s (ns_NodeID session)
                      in if \<not> ok then
                           Some (count_protection (\<lambda>p. p\<lparr>MaxNodesRejected := MaxNodesRejected p + 1\<rparr>) s,
                             HelloRefused ''node_capacity'' (auth_error ''node_auth_error'' ''node capacity reached''))
                         else Some (s, HelloReserved session (auth_ok_message session authentication))))"

text \<open>The answer is marshalled and written, then the session is installed; a failure gives the
  reservation back.  \<open>releasePending\<close> runs in both cases.  The result is the session that runs, and
  the one it replaced.\<close>

definition finish_handshake ::
    "(ControlMessage \<Rightarrow> bytes option) \<Rightarrow> (bytes \<Rightarrow> bool) \<Rightarrow> nat \<Rightarrow> nat \<Rightarrow> NodeServer \<Rightarrow> NodeSession \<Rightarrow> ControlMessage \<Rightarrow>
     NodeServer \<times> (NodeSession \<times> nat option) option" where
  "finish_handshake json_marshal write helloBytes conn s session response =
     (case marshalControlMessage json_marshal response of
        Inl _ \<Rightarrow> (releasePending (releaseReservation s (ns_NodeID session)), None)
      | Inr responseWire \<Rightarrow>
          if \<not> write responseWire then (releasePending (releaseReservation s (ns_NodeID session)), None)
          else
            let session = control_metrics (\<lambda>m. AddOut (AddIn m (int helloBytes)) (int (length responseWire))) session;
                (s, old, installed) = installReservedSession s (ns_NodeID session) conn
            in if \<not> installed then (releasePending (releaseReservation s (ns_NodeID session)), None)
               else (releasePending s, Some (session, old)))"

subsection \<open>The read loop\<close>

definition server_receive ::
    "int \<Rightarrow> (ControlMessage \<Rightarrow> bytes option) \<Rightarrow> (bytes \<Rightarrow> bool) \<Rightarrow> NodeServer \<Rightarrow> NodeSession \<Rightarrow> time \<Rightarrow> ControlMessage \<Rightarrow> nat \<Rightarrow>
     NodeServer \<times> NodeSession \<times> control_event" where
  "server_receive gomaxprocs json_marshal write srv s now msg frameBytes =
     (let s = control_metrics (\<lambda>m. AddIn m (int frameBytes)) s;
          (s, ok) = protect_ok gomaxprocs (\<lambda>p. allowControl p (int frameBytes) now) s
      in if \<not> ok then (srv, control_metrics AddDrop s, NoEvent)
         else
           let s = (if cm_Kind msg = ''node_heartbeat'' then Touch now s else s)
           in if cm_Kind msg = ''node_protocol_error'' then (srv, s, Stopped ErrNodeProtocolIncompatible)
              else if cm_Kind msg = ''type0'' then
                (case b64_decode (cm_Packet msg) of
                   None \<Rightarrow> (srv, s, NoEvent)
                 | Some wire \<Rightarrow>
                     (case UnmarshalControl wire (ns_Key s) of
                        Inl _ \<Rightarrow> (srv, protect gomaxprocs recordInvalidAuthTag s, NoEvent)
                      | Inr env \<Rightarrow>
                          if env_NodeSessionID env \<noteq> ns_SessionID s \<or> env_KeyEpoch env \<noteq> ns_KeyEpoch s \<or>
                             env_SourceNodeID env \<noteq> ns_NodeID s
                          then (srv, protect gomaxprocs recordIdentityReject s, NoEvent)
                          else if \<not> IsKnownSubtype (env_Subtype env) then
                            let srv = count_protection (\<lambda>p. p\<lparr>UnsupportedSubtypeDrops := UnsupportedSubtypeDrops p + 1\<rparr>) srv;
                                s = control_metrics AddDrop s
                            in if env_Flags env AND FlagCritical \<noteq> 0
                               then (srv, fst (session_Send json_marshal write s unsupported_critical),
                                     Stopped ErrNodeProtocolIncompatible)
                               else (srv, s, NoEvent)
                          else if ns_PeerLinkID s \<noteq> '''' \<and> env_Subtype env \<noteq> 0x40 \<and> env_Subtype env \<noteq> 0x41
                          then (srv, control_metrics AddDrop s, NoEvent)
                          else if Expired env now (seconds 30) then (srv, protect gomaxprocs recordExpiredDrop s, NoEvent)
                          else
                            let (s, admitted) =
                                  (if env_Subtype env = 0x20 \<or> env_Subtype env = 0x25
                                   then protect_ok gomaxprocs (\<lambda>p. allowDeviceAuth p now) s else (s, True))
                            in if \<not> admitted then (srv, control_metrics AddDrop s, NoEvent)
                               else
                                 let (s, fresh) = AcceptMessage s (env_MessageID env) now
                                 in if \<not> fresh \<and> env_Subtype env \<noteq> 0x24
                                    then (srv, protect gomaxprocs recordReplayDrop s, NoEvent)
                                    else (srv, Touch now s,
                                          GotEnvelope (if fresh then env else env\<lparr>env_Duplicate := True\<rparr>))))
              else (srv, s, GotMessage msg))"

subsection \<open>Interleaved connections\<close>

datatype conn_phase = Handshaking | Reserved NodeSession ControlMessage | Running NodeSession

type_synonym conns = "(nat, conn_phase) fmap"

inductive server_step :: "NodeServer \<times> conns \<Rightarrow> NodeServer \<times> conns \<Rightarrow> bool" where
  step_accept: "\<lbrakk>fmlookup cs c = None; accept_conn s = (s', ok)\<rbrakk>
    \<Longrightarrow> server_step (s, cs) (s', if ok then fmupd c Handshaking cs else cs)"
| step_refused: "\<lbrakk>fmlookup cs c = Some Handshaking;
      handshake gomaxprocs authenticator key sid remoteAddr clock s hello = Some (s', res);
      \<forall>session response. res \<noteq> HelloReserved session response\<rbrakk>
    \<Longrightarrow> server_step (s, cs) (releasePending s', fmdrop c cs)"
| step_reserved: "\<lbrakk>fmlookup cs c = Some Handshaking;
      handshake gomaxprocs authenticator key sid remoteAddr clock s hello = Some (s', HelloReserved session response)\<rbrakk>
    \<Longrightarrow> server_step (s, cs) (s', fmupd c (Reserved session response) cs)"
| step_finish: "\<lbrakk>fmlookup cs c = Some (Reserved session response);
      finish_handshake json_marshal write helloBytes c s session response = (s', res)\<rbrakk>
    \<Longrightarrow> server_step (s, cs)
          (s', case res of None \<Rightarrow> fmdrop c cs | Some (session', old) \<Rightarrow> fmupd c (Running session') cs)"
| step_receive: "\<lbrakk>fmlookup cs c = Some (Running session);
      server_receive gomaxprocs json_marshal write s session now msg frameBytes = (s', session', event)\<rbrakk>
    \<Longrightarrow> server_step (s, cs) (s', fmupd c (Running session') cs)"
| step_close: "\<lbrakk>fmlookup cs c = Some (Running session); removeSession s (ns_NodeID session) c = (s', removed)\<rbrakk>
    \<Longrightarrow> server_step (s, cs) (s', fmdrop c cs)"

inductive server_reachable :: "NodeServer \<Rightarrow> NodeServer \<times> conns \<Rightarrow> bool" for s0 where
  start: "server_reachable s0 (s0, fmempty)"
| more: "server_reachable s0 st \<Longrightarrow> server_step st st' \<Longrightarrow> server_reachable s0 st'"

subsection \<open>Slots are counted exactly\<close>

text \<open>The slots against the number \<open>h n\<close> of connections that hold a reservation for node \<open>n\<close>.\<close>

definition slots_ok :: "NodeServer \<Rightarrow> (string \<Rightarrow> nat) \<Rightarrow> bool" where
  "slots_ok s h \<longleftrightarrow>
     (\<forall>n. fmlookup (srv_reserved s) n = (if h n = 0 then None else Some (int (h n)))) \<and>
     srv_active s = int (fcard (fmdom (srv_sessions s))) \<and>
     srv_occupied s = int (fcard (fmdom (srv_sessions s) |\<union>| fmdom (srv_reserved s))) \<and>
     srv_occupied s \<le> MaxNodes (srv_limits s)"

lemma slots_count: "slots_ok s h \<Longrightarrow> reserved_count s n = int (h n)"
  by (simp add: slots_ok_def reserved_count_def)

lemma reserved_count_frame [simp]:
  "reserved_count (s\<lparr>srv_occupied := x\<rparr>) n = reserved_count s n" "reserved_count (s\<lparr>srv_active := x\<rparr>) n = reserved_count s n"
  "reserved_count (s\<lparr>srv_sessions := m\<rparr>) n = reserved_count s n"
  by (simp_all add: reserved_count_def)

lemma slots_active: "slots_ok s h \<Longrightarrow> srv_active s = int (fcard (fmdom (srv_sessions s)))"
  by (simp add: slots_ok_def)

lemma slots_dom: "slots_ok s h \<Longrightarrow> n |\<in>| fmdom (srv_reserved s) \<longleftrightarrow> h n \<noteq> 0"
  by (auto simp: slots_ok_def fmlookup_dom_iff)

lemma card_finsert: "fcard (finsert n A) = (if n |\<in>| A then fcard A else fcard A + 1)"
  by (auto simp: fcard_finsert_if)

lemma card_fdiff: "fcard (A |-| {|n|}) = (if n |\<in>| A then fcard A - 1 else fcard A)"
  by (simp add: fcard.rep_eq)

lemma slots_reserve:
  assumes "slots_ok s h" and "reserveSession s n = (s', True)"
  shows "slots_ok s' (h(n := h n + 1)) \<and> srv_sessions s' = srv_sessions s"
proof -
  let ?new = "fmlookup (srv_sessions s) n = None \<and> h n = 0"
  let ?occ = "srv_occupied s + (if ?new then 1 else 0)"
  have s': "srv_sessions s' = srv_sessions s" "srv_active s' = srv_active s" "srv_limits s' = srv_limits s"
      "srv_reserved s' = fmupd n (int (h n) + 1) (srv_reserved s)" "srv_occupied s' = ?occ" and room: "?occ \<le> MaxNodes (srv_limits s)"
    using assms(2) slots_count [OF assms(1), of n] assms(1)
    by (auto simp: reserveSession_def Let_def slots_ok_def split: if_splits)
  have "n |\<in>| fmdom (srv_sessions s) |\<union>| fmdom (srv_reserved s) \<longleftrightarrow> \<not> ?new"
    using slots_dom [OF assms(1), of n] by (auto simp: fmlookup_dom_iff)
  moreover have "fmdom (srv_sessions s) |\<union>| fmdom (srv_reserved s') = finsert n (fmdom (srv_sessions s) |\<union>| fmdom (srv_reserved s))"
    unfolding s' by auto
  ultimately have "srv_occupied s' = int (fcard (fmdom (srv_sessions s') |\<union>| fmdom (srv_reserved s')))"
    using assms(1) unfolding s'(1,5) by (simp only: card_finsert) (auto simp: slots_ok_def)
  with assms(1) s' room show ?thesis by (simp add: slots_ok_def)
qed

lemma fcard_pos: "n |\<in>| A \<Longrightarrow> 0 < fcard A"
  by (auto simp: fcard.rep_eq card_gt_0_iff)

lemma slots_pos: "slots_ok s h \<Longrightarrow> n |\<in>| fmdom (srv_sessions s) |\<union>| fmdom (srv_reserved s) \<Longrightarrow> 0 < srv_occupied s"
  using fcard_pos by (simp only: slots_ok_def of_nat_0_less_iff)

lemma slots_release:
  assumes "slots_ok s h" and "0 < h n"
  shows "slots_ok (releaseReservation s n) (h(n := h n - 1)) \<and> srv_sessions (releaseReservation s n) = srv_sessions s"
proof (cases "h n = 1")
  case True
  let ?A = "fmdom (srv_sessions s) |\<union>| fmdom (srv_reserved s)"
  have mem: "n |\<in>| ?A" using slots_dom [OF assms(1), of n] assms(2) by simp
  then have pos: "0 < srv_occupied s" using slots_pos [OF assms(1)] by simp
  let ?s = "releaseReservation s n"
  have s': "srv_sessions ?s = srv_sessions s" "srv_reserved ?s = fmdrop n (srv_reserved s)"
    "srv_active ?s = srv_active s" "srv_limits ?s = srv_limits s"
    "srv_occupied ?s = srv_occupied s - (if fmlookup (srv_sessions s) n = None then 1 else 0)"
    using True pos slots_count [OF assms(1), of n] by (simp_all add: releaseReservation_def Let_def)
  have "fmdom (srv_sessions ?s) |\<union>| fmdom (srv_reserved ?s) =
      (if fmlookup (srv_sessions s) n = None then ?A |-| {|n|} else ?A)"
    by (auto simp: s' fmlookup_dom_iff)
  then have "srv_occupied ?s = int (fcard (fmdom (srv_sessions ?s) |\<union>| fmdom (srv_reserved ?s)))"
    using assms(1) pos mem card_fdiff [of ?A n] by (auto simp: slots_ok_def s'(5) of_nat_diff)
  then show ?thesis using assms True s' by (auto simp: slots_ok_def split: if_splits)
next
  case False
  then have "releaseReservation s n = s\<lparr>srv_reserved := fmupd n (int (h n) - 1) (srv_reserved s)\<rparr>"
    using assms slots_count [OF assms(1), of n] by (simp add: releaseReservation_def)
  moreover have "fmdom (fmupd n (int (h n) - 1) (srv_reserved s)) = fmdom (srv_reserved s)"
    using slots_dom [OF assms(1), of n] assms(2) by auto
  ultimately show ?thesis using assms False by (auto simp: slots_ok_def of_nat_diff)
qed

lemma slots_install:
  assumes "slots_ok s h" and "0 < h n" and "installReservedSession s n c = (s', old, ok)"
  shows "slots_ok s' (h(n := h n - 1)) \<and> srv_sessions s' = fmupd n c (srv_sessions s) \<and>
    old = fmlookup (srv_sessions s) n \<and> ok"
proof -
  let ?A = "fmdom (srv_sessions s) |\<union>| fmdom (srv_reserved s)"
  have mem: "n |\<in>| ?A" using slots_dom [OF assms(1), of n] assms(2) by simp
  have s': "ok" "old = fmlookup (srv_sessions s) n" "srv_sessions s' = fmupd n c (srv_sessions s)"
    "srv_reserved s' = (if h n = 1 then fmdrop n (srv_reserved s) else fmupd n (int (h n) - 1) (srv_reserved s))"
    "srv_active s' = srv_active s + (if fmlookup (srv_sessions s) n = None then 1 else 0)"
    "srv_occupied s' = srv_occupied s" "srv_limits s' = srv_limits s"
    using assms(2,3) slots_count [OF assms(1), of n] by (auto simp: installReservedSession_def Let_def split: if_splits)
  have "fmdom (srv_sessions s') |\<union>| fmdom (srv_reserved s') = ?A" using mem by (auto simp: s' fmlookup_dom_iff)
  then have "srv_occupied s' = int (fcard (fmdom (srv_sessions s') |\<union>| fmdom (srv_reserved s')))"
    using assms(1) by (simp add: slots_ok_def s'(6))
  moreover have "srv_active s' = int (fcard (fmdom (srv_sessions s')))"
    using assms(1) card_finsert [of n "fmdom (srv_sessions s)"] by (auto simp: slots_ok_def s' fmlookup_dom_iff)
  ultimately show ?thesis using assms(1,2) s' by (auto simp: slots_ok_def of_nat_diff)
qed

lemma slots_remove:
  assumes "slots_ok s h" and "removeSession s n c = (s', removed)"
  shows "slots_ok s' h \<and> removed = (fmlookup (srv_sessions s) n = Some c) \<and>
    srv_sessions s' = (if removed then fmdrop n (srv_sessions s) else srv_sessions s)"
proof (cases "fmlookup (srv_sessions s) n = Some c")
  case True
  let ?A = "fmdom (srv_sessions s) |\<union>| fmdom (srv_reserved s)"
  have n: "n |\<in>| fmdom (srv_sessions s)" using True by (simp add: fmlookup_dom_iff)
  then have pos: "0 < srv_occupied s" "0 < srv_active s"
    using slots_pos [OF assms(1), of n] slots_active [OF assms(1)] fcard_pos [of n] by simp_all
  have s': "removed" "srv_sessions s' = fmdrop n (srv_sessions s)" "srv_reserved s' = srv_reserved s"
    "srv_active s' = srv_active s - 1" "srv_limits s' = srv_limits s"
    "srv_occupied s' = srv_occupied s - (if h n = 0 then 1 else 0)"
    using assms(2) True pos slots_count [OF assms(1), of n] by (auto simp: removeSession_def Let_def split: if_splits)
  have "fmdom (srv_sessions s') |\<union>| fmdom (srv_reserved s') = (if h n = 0 then ?A |-| {|n|} else ?A)"
    using slots_dom [OF assms(1)] by (auto simp: s')
  then have "srv_occupied s' = int (fcard (fmdom (srv_sessions s') |\<union>| fmdom (srv_reserved s')))"
    using assms(1) pos n card_fdiff [of ?A n] by (auto simp: slots_ok_def s'(6) of_nat_diff)
  moreover have "srv_active s' = int (fcard (fmdom (srv_sessions s')))"
    using assms(1) pos n card_fdiff [of "fmdom (srv_sessions s)" n] by (simp add: slots_ok_def s' of_nat_diff)
  ultimately show ?thesis using assms(1) s' True by (auto simp: slots_ok_def split: if_splits)
qed (use assms in \<open>simp add: removeSession_def\<close>)

subsection \<open>The invariant of the server and its connections\<close>

definition holders :: "conns \<Rightarrow> string \<Rightarrow> nat set" where
  "holders cs n = {c. \<exists>session response. fmlookup cs c = Some (Reserved session response) \<and> ns_NodeID session = n}"

definition waiting :: "conns \<Rightarrow> nat set" where
  "waiting cs = {c. fmlookup cs c = Some Handshaking \<or> (\<exists>session response. fmlookup cs c = Some (Reserved session response))}"

definition server_inv :: "NodeServer \<times> conns \<Rightarrow> bool" where
  "server_inv st \<longleftrightarrow> (case st of (s, cs) \<Rightarrow>
     slots_ok s (\<lambda>n. card (holders cs n)) \<and>
     srv_pending s = int (card (waiting cs)) \<and> srv_pending s \<le> MaxPendingHandshakes (srv_limits s) \<and>
     (\<forall>n c. fmlookup (srv_sessions s) n = Some c \<longrightarrow> (\<exists>session. fmlookup cs c = Some (Running session) \<and> ns_NodeID session = n)))"

lemma finite_conns: "finite {c. \<exists>v. fmlookup cs c = Some v \<and> P v}"
  by (rule finite_subset [of _ "fset (fmdom cs)"]) (auto simp: fmlookup_dom_iff)

lemma finite_holders [simp]: "finite (holders cs n)"
  by (rule finite_subset [OF _ finite_conns [of cs "\<lambda>_. True"]]) (auto simp: holders_def)

lemma finite_waiting [simp]: "finite (waiting cs)"
  by (rule finite_subset [OF _ finite_conns [of cs "\<lambda>_. True"]]) (auto simp: waiting_def)

lemma holders_simps:
  "fmlookup cs c = Some Handshaking \<Longrightarrow> holders (fmdrop c cs) n = holders cs n"
  "fmlookup cs c = Some Handshaking \<Longrightarrow>
    holders (fmupd c (Reserved session response) cs) n = (if n = ns_NodeID session then insert c (holders cs n) else holders cs n)"
  "fmlookup cs c = None \<Longrightarrow> holders (fmupd c Handshaking cs) n = holders cs n"
  "fmlookup cs c = Some (Reserved session response) \<Longrightarrow> holders (fmdrop c cs) n = holders cs n - {c}"
  "fmlookup cs c = Some (Reserved session response) \<Longrightarrow> holders (fmupd c (Running session') cs) n = holders cs n - {c}"
  "fmlookup cs c = Some (Running session) \<Longrightarrow> holders (fmdrop c cs) n = holders cs n"
  "fmlookup cs c = Some (Running session) \<Longrightarrow> holders (fmupd c (Running session') cs) n = holders cs n"
  by (auto simp: holders_def split: if_splits)

lemma waiting_simps:
  "fmlookup cs c = Some Handshaking \<Longrightarrow> waiting (fmdrop c cs) = waiting cs - {c}"
  "fmlookup cs c = Some Handshaking \<Longrightarrow> waiting (fmupd c (Reserved session response) cs) = waiting cs"
  "fmlookup cs c = None \<Longrightarrow> waiting (fmupd c Handshaking cs) = insert c (waiting cs)"
  "fmlookup cs c = Some (Reserved session response) \<Longrightarrow> waiting (fmdrop c cs) = waiting cs - {c}"
  "fmlookup cs c = Some (Reserved session response) \<Longrightarrow> waiting (fmupd c (Running session') cs) = waiting cs - {c}"
  "fmlookup cs c = Some (Running session) \<Longrightarrow> waiting (fmdrop c cs) = waiting cs"
  "fmlookup cs c = Some (Running session) \<Longrightarrow> waiting (fmupd c (Running session') cs) = waiting cs"
  by (auto simp: waiting_def split: if_splits)

lemma waiting_mem:
  "fmlookup cs c = Some Handshaking \<Longrightarrow> c \<in> waiting cs"
  "fmlookup cs c = Some (Reserved session response) \<Longrightarrow> c \<in> waiting cs"
  "fmlookup cs c = Some (Reserved session response) \<Longrightarrow> c \<in> holders cs (ns_NodeID session)"
  "fmlookup cs c = None \<Longrightarrow> c \<notin> waiting cs" "fmlookup cs c = Some Handshaking \<Longrightarrow> c \<notin> holders cs n"
  by (auto simp: waiting_def holders_def)

lemma holders_other: "fmlookup cs c = Some (Reserved session response) \<Longrightarrow> n \<noteq> ns_NodeID session \<Longrightarrow> holders cs n - {c} = holders cs n"
  by (auto simp: holders_def)

text \<open>Counting a refusal touches neither slots nor sessions.\<close>

lemma slots_frame:
  "srv_reserved s' = srv_reserved s \<Longrightarrow> srv_sessions s' = srv_sessions s \<Longrightarrow> srv_active s' = srv_active s \<Longrightarrow>
   srv_occupied s' = srv_occupied s \<Longrightarrow> srv_limits s' = srv_limits s \<Longrightarrow> slots_ok s' h = slots_ok s h"
  by (simp add: slots_ok_def)

definition same_slots :: "NodeServer \<Rightarrow> NodeServer \<Rightarrow> bool" where
  "same_slots s s' \<longleftrightarrow> srv_reserved s' = srv_reserved s \<and> srv_sessions s' = srv_sessions s \<and> srv_active s' = srv_active s \<and>
     srv_occupied s' = srv_occupied s \<and> srv_limits s' = srv_limits s \<and> srv_pending s' = srv_pending s \<and>
     srv_capabilities s' = srv_capabilities s"

lemma same_slots_count [simp]: "same_slots s (count_protection f s') = same_slots s s'"
  by (simp add: same_slots_def count_protection_def)

lemma same_slots_attempts [simp]: "same_slots s (s\<lparr>srv_attempts := l\<rparr>)"
  by (simp add: same_slots_def)

lemma same_slots_refl [simp]: "same_slots s s"
  by (simp add: same_slots_def)

lemma authenticate_slots: "authenticate_hello a r t s hello = Some (s', res) \<Longrightarrow> same_slots s s'"
  by (auto simp: authenticate_hello_def Let_def split: option.splits prod.splits if_splits)

lemma reserve_fail: "reserveSession s n = (s', False) \<Longrightarrow> s' = s"
  by (auto simp: reserveSession_def Let_def split: if_splits)

lemma handshake_cases:
  assumes "handshake gomaxprocs authenticator key sid remoteAddr clock s hello = Some (s', res)"
  shows "(\<exists>session response s1. res = HelloReserved session response \<and> same_slots s s1 \<and>
      reserveSession s1 (ns_NodeID session) = (s', True)) \<or>
    (\<forall>session response. res \<noteq> HelloReserved session response) \<and> same_slots s s'"
proof -
  show ?thesis
    using assms unfolding handshake_def Let_def
    by (auto split: if_splits option.splits sum.splits prod.splits dest!: authenticate_slots reserve_fail)
qed

lemma inv_accept:
  assumes "server_inv (s, cs)" and "fmlookup cs c = None" and "accept_conn s = (s', ok)"
  shows "server_inv (s', if ok then fmupd c Handshaking cs else cs)"
proof -
  have "slots_ok s' h = slots_ok s h" "srv_sessions s' = srv_sessions s" for h
    using assms(3) by (auto simp: accept_conn_def slots_ok_def split: if_splits)
  with assms show ?thesis
    by (fastforce simp: server_inv_def accept_conn_def holders_simps waiting_simps waiting_mem split: if_splits)
qed

lemma inv_refused:
  assumes "server_inv (s, cs)" and "fmlookup cs c = Some Handshaking" and "same_slots s s'"
  shows "server_inv (releasePending s', fmdrop c cs)"
proof -
  have "slots_ok (releasePending s') h = slots_ok s h" for h
    using assms(3) by (simp add: slots_ok_def same_slots_def releasePending_def)
  moreover have "int (card (waiting cs - {c})) = int (card (waiting cs)) - 1"
    using card_Diff_singleton [of c "waiting cs"] waiting_mem(1) [OF assms(2)] card_gt_0_iff [of "waiting cs"]
    by (auto simp: of_nat_diff)
  ultimately show ?thesis using assms
    by (fastforce simp: server_inv_def same_slots_def releasePending_def holders_simps waiting_simps)
qed

lemma inv_reserved:
  assumes "server_inv (s, cs)" and "fmlookup cs c = Some Handshaking" and "same_slots s s1"
    and "reserveSession s1 (ns_NodeID session) = (s', True)"
  shows "server_inv (s', fmupd c (Reserved session response) cs)"
proof -
  let ?n = "ns_NodeID session" let ?h = "\<lambda>n. card (holders cs n)"
  have "slots_ok s1 ?h" using assms(1,3) by (simp add: server_inv_def slots_ok_def same_slots_def)
  note slots = slots_reserve [OF this assms(4)]
  have "(\<lambda>n. card (holders (fmupd c (Reserved session response) cs) n)) = ?h(?n := ?h ?n + 1)"
    using assms(2) by (auto simp: holders_simps waiting_mem)
  moreover have "srv_pending s' = srv_pending s1 \<and> srv_limits s' = srv_limits s1"
    using assms(4) by (auto simp: reserveSession_def Let_def split: if_splits)
  ultimately show ?thesis using assms slots
    by (fastforce simp: server_inv_def same_slots_def waiting_simps)
qed

lemma holders_down:
  assumes "fmlookup cs c = Some (Reserved session response)" and "\<And>n. holders cs' n = holders cs n - {c}"
  shows "(\<lambda>n. card (holders cs' n)) = (\<lambda>n. card (holders cs n))(ns_NodeID session := card (holders cs (ns_NodeID session)) - 1)"
  using assms waiting_mem(3) [OF assms(1)] holders_other [OF assms(1)] by (auto simp: fun_eq_iff)

lemma pending_release [simp]:
  "srv_pending (releaseReservation s n) = srv_pending s" "srv_limits (releaseReservation s n) = srv_limits s"
  by (simp_all add: releaseReservation_def Let_def)

lemma install_frame:
  "installReservedSession s n c = (s', old, ok) \<Longrightarrow> srv_pending s' = srv_pending s \<and> srv_limits s' = srv_limits s"
  by (auto simp: installReservedSession_def Let_def split: if_splits)

lemma finish_cases:
  assumes "slots_ok s h" and "0 < h (ns_NodeID session)"
    and "finish_handshake json_marshal write helloBytes c s session response = (s', res)"
  obtains (failed) "res = None" "s' = releasePending (releaseReservation s (ns_NodeID session))"
  | (installed) s1 session' where "res = Some (session', fmlookup (srv_sessions s) (ns_NodeID session))"
      "ns_NodeID session' = ns_NodeID session"
      "installReservedSession s (ns_NodeID session) c = (s1, fmlookup (srv_sessions s) (ns_NodeID session), True)" "s' = releasePending s1"
proof -
  obtain s1 old ok where inst: "installReservedSession s (ns_NodeID session) c = (s1, old, ok)" by (metis prod_cases3)
  with slots_install [OF assms(1,2) inst] assms(3) that show ?thesis
    by (auto simp: finish_handshake_def split: sum.splits if_splits)
qed

lemma inv_finish:
  assumes "server_inv (s, cs)" and "fmlookup cs c = Some (Reserved session response)"
    and "finish_handshake json_marshal write helloBytes c s session response = (s', res)"
  shows "server_inv (s', case res of None \<Rightarrow> fmdrop c cs | Some (session', old) \<Rightarrow> fmupd c (Running session') cs)"
proof -
  let ?n = "ns_NodeID session" let ?h = "\<lambda>n. card (holders cs n)"
  have ok: "slots_ok s ?h" using assms(1) by (simp add: server_inv_def)
  have pos: "0 < ?h ?n" using waiting_mem(3) [OF assms(2)] by (auto simp: card_gt_0_iff)
  have frame: "slots_ok (releasePending t) h = slots_ok t h" "srv_sessions (releasePending t) = srv_sessions t"
      "srv_pending (releasePending t) = srv_pending t - 1" "srv_limits (releasePending t) = srv_limits t" for t h
    by (simp_all add: slots_ok_def releasePending_def)
  have less: "int (card (waiting cs - {c})) = int (card (waiting cs)) - 1"
    using card_Diff_singleton [of c "waiting cs"] waiting_mem(2) [OF assms(2)] card_gt_0_iff [of "waiting cs"]
    by (auto simp: of_nat_diff)
  from ok pos assms(3) show ?thesis
  proof (cases rule: finish_cases)
    case failed
    have "(\<lambda>n. card (holders (fmdrop c cs) n)) = ?h(?n := ?h ?n - 1)"
      by (rule holders_down [OF assms(2)]) (simp add: holders_simps(4) [OF assms(2)])
    with failed slots_release [OF ok pos] assms(1,2) less show ?thesis
      by (fastforce simp: server_inv_def frame waiting_simps)
  next
    case (installed s1 session')
    have "(\<lambda>n. card (holders (fmupd c (Running session') cs) n)) = ?h(?n := ?h ?n - 1)"
      by (rule holders_down [OF assms(2)]) (simp add: holders_simps(5) [OF assms(2)])
    moreover have "srv_pending s1 = srv_pending s" "srv_limits s1 = srv_limits s"
      using install_frame [OF installed(3)] by simp_all
    ultimately show ?thesis using installed slots_install [OF ok pos installed(3)] assms(1,2) less
      by (fastforce simp: server_inv_def frame waiting_simps)
  qed
qed

lemma inv_running:
  assumes "server_inv (s, cs)" and "fmlookup cs c = Some (Running session)" and "same_slots s s'"
    and "ns_NodeID session' = ns_NodeID session"
  shows "server_inv (s', fmupd c (Running session') cs)"
  using assms by (fastforce simp: server_inv_def same_slots_def slots_ok_def holders_simps waiting_simps)

lemma inv_close:
  assumes "server_inv (s, cs)" and "fmlookup cs c = Some (Running session)"
    and "removeSession s (ns_NodeID session) c = (s', removed)"
  shows "server_inv (s', fmdrop c cs)"
proof -
  have "slots_ok s (\<lambda>n. card (holders cs n))" using assms(1) by (simp add: server_inv_def)
  note slots = slots_remove [OF this assms(3)]
  moreover have "srv_pending s' = srv_pending s" "srv_limits s' = srv_limits s"
    using assms(3) by (auto simp: removeSession_def Let_def split: if_splits)
  moreover have "\<exists>session. fmlookup (fmdrop c cs) c' = Some (Running session) \<and> ns_NodeID session = n"
    if "fmlookup (srv_sessions s') n = Some c'" for n c'
    using that assms(1,2) slots by (cases "c' = c") (fastforce simp: server_inv_def split: if_splits)+
  ultimately show ?thesis using assms(1,2)
    by (simp add: server_inv_def holders_simps waiting_simps)
qed

lemma session_frame [simp]:
  "ns_NodeID (protect g f s) = ns_NodeID s" "ns_NodeID (data_metrics k s) = ns_NodeID s"
  "ns_NodeID (fst (session_Send jm wr s msg)) = ns_NodeID s"
  by (simp_all add: protect_def data_metrics_def session_Send_def split: sum.splits)

lemma protect_ok_frame: "protect_ok g f s = (s', ok) \<Longrightarrow> ns_NodeID s' = ns_NodeID s"
  by (auto simp: protect_ok_def split: prod.splits)

lemma accept_frame: "AcceptMessage s m t = (s', ok) \<Longrightarrow> ns_NodeID s' = ns_NodeID s"
  by (auto simp: AcceptMessage_def split: prod.splits)

lemma receive_frame:
  assumes "server_receive gomaxprocs json_marshal write s session now msg frameBytes = (s', session', event)"
  shows "same_slots s s' \<and> ns_NodeID session' = ns_NodeID session"
  using assms unfolding server_receive_def Let_def
  by (auto split: if_splits option.splits sum.splits prod.splits dest!: protect_ok_frame accept_frame)

lemma server_step_inv: "server_step st st' \<Longrightarrow> server_inv st \<Longrightarrow> server_inv st'"
proof (induction rule: server_step.induct)
  case (step_refused cs c gomaxprocs authenticator key sid remoteAddr clock s hello s' res)
  then show ?case using handshake_cases [OF step_refused(2)] by (blast intro: inv_refused)
next
  case (step_reserved cs c gomaxprocs authenticator key sid remoteAddr clock s hello s' session response)
  then show ?case using handshake_cases [OF step_reserved(2)] by (auto intro: inv_reserved)
next
  case (step_receive cs c session gomaxprocs jm wr s now msg frameBytes s' session' event)
  then show ?case using receive_frame [OF step_receive(2)] inv_running by blast
qed (blast intro: inv_accept inv_finish inv_close)+

lemma server_inv_start:
  assumes "NewNodeServer gomaxprocs listenAddr hasTLS hasValidator limits capabilities = Inr s"
  shows "server_inv (s, fmempty)"
proof -
  have "0 \<le> MaxNodes l \<and> 0 \<le> MaxPendingHandshakes l" if "check_limits l = None" for l
    using that by (simp add: check_limits_def split: if_splits)
  then show ?thesis using assms
    by (auto simp: NewNodeServer_def server_inv_def slots_ok_def holders_def waiting_def normalized_def Let_def
        split: if_splits option.splits prod.splits)
qed

lemma server_reachable_inv:
  assumes "NewNodeServer gomaxprocs listenAddr hasTLS hasValidator limits capabilities = Inr s0"
    and "server_reachable s0 st"
  shows "server_inv st"
  using assms(2) by (induction) (auto intro: server_step_inv server_inv_start [OF assms(1)])

subsection \<open>Properties\<close>

text \<open>C13: The centre's admission counters are exact in every interleaving of node connections: the
  occupied slots are the nodes that have a session or a reservation, at most \<open>MaxNodes\<close>; the
  pending handshakes are the connections that still shake hands, within their limit; an
  installed session belongs to a running connection of that node.  Nothing leaks: when all
  connections have ended, every counter is zero.\<close>

theorem node_slots_exact:
  assumes "NewNodeServer gomaxprocs listenAddr hasTLS hasValidator limits capabilities = Inr s0"
    and "server_reachable s0 (s, cs)"
  shows "srv_occupied s = int (card {n. fmlookup (srv_sessions s) n \<noteq> None \<or> holders cs n \<noteq> {}}) \<and>
    srv_occupied s \<le> MaxNodes (srv_limits s) \<and> srv_active s = int (card {n. fmlookup (srv_sessions s) n \<noteq> None}) \<and>
    srv_pending s = int (card (waiting cs)) \<and> srv_pending s \<le> MaxPendingHandshakes (srv_limits s) \<and>
    (\<forall>n c. fmlookup (srv_sessions s) n = Some c \<longrightarrow> (\<exists>session. fmlookup cs c = Some (Running session) \<and> ns_NodeID session = n)) \<and>
    (cs = fmempty \<longrightarrow> srv_occupied s = 0 \<and> srv_active s = 0 \<and> srv_pending s = 0)"
proof -
  have inv: "server_inv (s, cs)" by (rule server_reachable_inv [OF assms])
  then have slots: "slots_ok s (\<lambda>n. card (holders cs n))" by (simp add: server_inv_def)
  have dom: "fset (fmdom (srv_sessions s)) = {n. fmlookup (srv_sessions s) n \<noteq> None}" by (auto simp: fmlookup_dom_iff)
  have "fset (fmdom (srv_sessions s) |\<union>| fmdom (srv_reserved s)) = {n. fmlookup (srv_sessions s) n \<noteq> None \<or> holders cs n \<noteq> {}}"
    using slots_dom [OF slots] dom by (auto simp: card_gt_0_iff)
  then have occ: "srv_occupied s = int (card {n. fmlookup (srv_sessions s) n \<noteq> None \<or> holders cs n \<noteq> {}})"
      "srv_active s = int (card {n. fmlookup (srv_sessions s) n \<noteq> None})"
    using slots dom by (simp_all add: slots_ok_def fcard.rep_eq)
  have empty: "holders fmempty n = {}" "waiting fmempty = {}" for n by (simp_all add: holders_def waiting_def)
  have "fmlookup (srv_sessions s) n = None" if "cs = fmempty" for n
    using inv that by (cases "fmlookup (srv_sessions s) n") (auto simp: server_inv_def)
  then have "cs = fmempty \<longrightarrow> srv_occupied s = 0 \<and> srv_active s = 0 \<and> srv_pending s = 0"
    using occ inv empty by (auto simp: server_inv_def)
  with inv slots occ show ?thesis by (simp add: server_inv_def slots_ok_def)
qed

lemma sample_server: "\<exists>s0. NewNodeServer 4 '':7000'' True True zero_limits
    \<lparr>MinProtocolVersion = 0, MaxProtocolVersion = 0, Features = 0, RequiredFeatures = 0\<rparr> = Inr s0"
proof -
  have "trim_space '':7000'' = '':7000''" by (rule trim_space_printable) code_simp
  moreover have "snd (normalized 4 zero_limits) = None" by code_simp
  ultimately show ?thesis
    by (auto simp: NewNodeServer_def capabilities_normalized_def Let_def split: prod.splits)
qed

theorem node_slots_exact_witness:
  "\<exists>s0 s. server_reachable s0 (s, fmupd 0 Handshaking fmempty) \<and> srv_pending s = 1 \<and> srv_occupied s = 0"
proof -
  from sample_server obtain s0 where s0: "NewNodeServer 4 '':7000'' True True zero_limits
    \<lparr>MinProtocolVersion = 0, MaxProtocolVersion = 0, Features = 0, RequiredFeatures = 0\<rparr> = Inr s0" by blast
  then have "0 < MaxPendingHandshakes (srv_limits s0)" "srv_pending s0 = 0"
    by (auto simp: NewNodeServer_def normalized_def with_defaults_def zero_limits_def or_default_def Let_def
        split: if_splits prod.splits option.splits)
  then have "accept_conn s0 = (s0\<lparr>srv_pending := 1\<rparr>, True)" by (simp add: accept_conn_def)
  then have "server_step (s0, fmempty) (s0\<lparr>srv_pending := 1\<rparr>, fmupd 0 Handshaking fmempty)"
    using step_accept [of fmempty 0 s0 "s0\<lparr>srv_pending := 1\<rparr>" True] by simp
  then have r: "server_reachable s0 (s0\<lparr>srv_pending := 1\<rparr>, fmupd 0 Handshaking fmempty)"
    by (rule server_reachable.more [OF server_reachable.start])
  moreover have "holders (fmupd 0 Handshaking fmempty) n = {}" for n by (simp add: holders_def)
  moreover have "fmlookup (srv_sessions s0) n = None" for n
    using s0 by (auto simp: NewNodeServer_def split: if_splits prod.splits option.splits)
  ultimately have "srv_occupied (s0\<lparr>srv_pending := 1\<rparr>) = 0"
    using node_slots_exact [OF s0 r] by simp
  with r show ?thesis by (intro exI [of _ s0] exI [of _ "s0\<lparr>srv_pending := 1\<rparr>"]) simp
qed

lemma handshake_reserved:
  assumes "handshake gomaxprocs authenticator (Some key) sid remoteAddr clock s (Some hello) = Some (s', HelloReserved session response)"
  shows "\<exists>s1 authentication v f. negotiate_hello s hello = Inr (v, f) \<and>
    session = new_node_session gomaxprocs s1 hello authentication v f key sid remoteAddr clock \<and>
    response = auth_ok_message session authentication \<and> cm_NodeID hello \<noteq> ''center'' \<and> cm_NodeID hello \<noteq> [] \<and>
    authenticate_hello authenticator remoteAddr clock s hello = Some (s1, False, Some authentication) \<and>
    auth_Accepted authentication"
proof -
  have rate: "\<not> r" if "authenticate_hello authenticator remoteAddr clock s hello = Some (s1, r, Some a)" "auth_Accepted a" for s1 r a
    using that by (auto simp: authenticate_hello_def Let_def no_authentication_def split: option.splits prod.splits if_splits)
  show ?thesis
    using assms unfolding handshake_def Let_def
    by (auto split: if_splits option.splits sum.splits prod.splits dest: rate)
qed

lemma negotiate_client:
  assumes "negotiate_hello s (client_hello c nodeID token) = Inr (v, f)" and "capabilities_normalized caps = (c, None)"
  shows "MinProtocolVersion c \<le> v" and "v \<le> MaxProtocolVersion c" and "f AND NOT (Features c) = 0"
    and "RequiredFeatures c AND NOT f = 0"
proof -
  have "\<lparr>MinProtocolVersion = MinProtocolVersion c, MaxProtocolVersion = MaxProtocolVersion c,
    Features = Features c, RequiredFeatures = RequiredFeatures c\<rparr> = c" by simp
  with assms(1) have "\<exists>x. negotiateNodeCapabilities x c = Inr (v, f)"
    by (simp only: negotiate_hello_def client_hello_def Let_def) (auto simp: empty_message_def)
  then obtain x where x: "negotiateNodeCapabilities x c = Inr (v, f)" ..
  obtain d :: NodeCapabilities where d: "v = min (MaxProtocolVersion d) (MaxProtocolVersion c)"
      "max (MinProtocolVersion d) (MinProtocolVersion c) \<le> v" "f = Features d AND Features c" "RequiredFeatures c AND NOT f = 0"
    using x [unfolded negotiate_Inr normalized_idem [OF assms(2)] prod.inject] by blast
  then show "MinProtocolVersion c \<le> v" "v \<le> MaxProtocolVersion c" "RequiredFeatures c AND NOT f = 0" by simp_all
  show "f AND NOT (Features c) = 0" unfolding d(3) by (rule and_not_and)
qed

text \<open>C25: A handshake that the centre admits ends in two sessions that agree: the edge accepts the centre's
  answer to its own hello, and both ends hold the same node ID, session ID, key, key epoch,
  protocol version and features, the version inside the edge's range and the features a subset
  of what it offers that contains what it requires.\<close>

theorem handshake_agrees:
  assumes "capabilities_normalized caps = (c, None)" and "16 \<le> length key"
    and "handshake gomaxprocs authenticator (Some key) sid remoteAddr clock s (Some (client_hello c nodeID token)) =
      Some (s', HelloReserved session response)"
  shows "\<exists>edge. client_accept c cfgNodeID centerAddr clock' response helloSize responseSize = Inr edge \<and>
    ns_NodeID edge = nodeID \<and> ns_NodeID session = nodeID \<and> ns_SessionID edge = ns_SessionID session \<and>
    ns_Key edge = key \<and> ns_Key session = key \<and> ns_KeyEpoch edge = ns_KeyEpoch session \<and>
    ns_ProtocolVersion edge = ns_ProtocolVersion session \<and> ns_Features edge = ns_Features session \<and>
    MinProtocolVersion c \<le> ns_ProtocolVersion edge \<and> ns_ProtocolVersion edge \<le> MaxProtocolVersion c \<and>
    ns_Features edge AND NOT (Features c) = 0 \<and> RequiredFeatures c AND NOT (ns_Features edge) = 0"
proof -
  obtain s1 authentication v f where hs: "negotiate_hello s (client_hello c nodeID token) = Inr (v, f)"
      "session = new_node_session gomaxprocs s1 (client_hello c nodeID token) authentication v f key sid remoteAddr clock"
      "response = auth_ok_message session authentication"
    using handshake_reserved [OF assms(3)] by blast
  note n = negotiate_client [OF hs(1) assms(1)]
  show ?thesis using assms(2) n
    by (auto simp: hs(2,3) client_accept_def auth_ok_message_def new_node_session_def client_hello_def empty_message_def
        Touch_def control_metrics_def Let_def b64_round_trip not_less)
qed

theorem handshake_agrees_witness:
  "\<exists>s s' session response edge c. handshake 4 (ValidateToken (\<lambda>_ _. True)) (Some (replicate 32 5)) 7 ''10.0.0.1:9'' 0 s
      (Some (client_hello c ''edge'' ''t'')) = Some (s', HelloReserved session response) \<and>
    client_accept c ''edge'' ''center:7000'' 0 response 9 9 = Inr edge \<and> ns_Key edge = ns_Key session"
proof -
  from sample_server obtain s0 where s0: "NewNodeServer 4 '':7000'' True True zero_limits
    \<lparr>MinProtocolVersion = 0, MaxProtocolVersion = 0, Features = 0, RequiredFeatures = 0\<rparr> = Inr s0" by blast
  define c where "c = \<lparr>MinProtocolVersion = 1, MaxProtocolVersion = 1, Features = NodeSupportedFeatures, RequiredFeatures = NodeRequiredFeatures\<rparr>"
  have c: "capabilities_normalized c = (c, None)" by (simp add: capabilities_normalized_def c_def Let_def)
  have caps: "srv_capabilities s0 = c" and att: "srv_attempts s0 = newHandshakeLimiter 30" "srv_sessions s0 = fmempty"
      "srv_occupied s0 = 0" "srv_reserved s0 = fmempty" "MaxNodes (srv_limits s0) = 256"
    using s0 by (auto simp: NewNodeServer_def capabilities_normalized_def c_def normalized_def with_defaults_def zero_limits_def
        or_default_def Let_def split: if_splits prod.splits option.splits)
  have "negotiate_hello s0 (client_hello c ''edge'' ''t'') = Inr (1, NodeSupportedFeatures)"
    by (simp add: negotiate_hello_def caps) (simp add: c_def client_hello_def empty_message_def negotiateNodeCapabilities_def
        capabilities_normalized_def Let_def)
  moreover have "\<exists>l. allow (srv_attempts s0) (Some ''10.0.0.1:9'') ''edge'' 0 = Some (l, True)"
    by (simp add: att allow_def allow_key_def newHandshakeLimiter_def Let_def fcard.rep_eq)
  ultimately have "\<exists>s' session response. handshake 4 (ValidateToken (\<lambda>_ _. True)) (Some (replicate 32 5)) 7 ''10.0.0.1:9'' 0 s0
      (Some (client_hello c ''edge'' ''t'')) = Some (s', HelloReserved session response)"
    by (auto simp: handshake_def authenticate_hello_def reserveSession_def reserved_count_def no_authentication_def c_def
        client_hello_def empty_message_def new_node_session_def Let_def att)
  then obtain s' session response where hs: "handshake 4 (ValidateToken (\<lambda>_ _. True)) (Some (replicate 32 5)) 7 ''10.0.0.1:9'' 0 s0
      (Some (client_hello c ''edge'' ''t'')) = Some (s', HelloReserved session response)" by blast
  with handshake_agrees [OF c _ hs, of "''edge''" "''center:7000''" 0 9 9] show ?thesis by fastforce
qed

lemma Expired_frame: "env_SentAtMillis e' = env_SentAtMillis e \<Longrightarrow> Expired e' now d = Expired e now d"
  by (simp add: Expired_def)

lemma protect_ok_fields:
  assumes "protect_ok g f s = (s', ok)"
  shows "ok = snd (f (resourceProtection g s)) \<and> ns_Key s' = ns_Key s \<and> ns_SessionID s' = ns_SessionID s \<and>
    ns_KeyEpoch s' = ns_KeyEpoch s \<and> ns_NodeID s' = ns_NodeID s \<and> ns_PeerLinkID s' = ns_PeerLinkID s \<and> ns_replay s' = ns_replay s"
  using assms by (auto simp: protect_ok_def split: prod.splits)

text \<open>The control plane delivers: an envelope that the edge sends on its session is read by the centre as
  one frame and, if it is fresh, within the control budget and of an ordinary known subtype,
  handed on with the same subtype, message ID, flags and payload, under the name of the node
  that the session was authenticated for, and not marked as a duplicate.  The session is not that
  of a peer centre, its node ID has no NUL, and the JSON codec gives back a Type 0 message, which holds
  base64 text only.\<close>

theorem control_envelope_delivered:
  assumes "ns_NodeID center = ns_NodeID edge" and "ns_SessionID center = ns_SessionID edge" and "ns_Key center = ns_Key edge"
    and "ns_KeyEpoch center = ns_KeyEpoch edge" and "ns_PeerLinkID center = ''''" and "CHR 0x00 \<notin> set (ns_NodeID edge)"
    and json: "\<And>packet d. json_marshal (type0_message packet (env_MessageID env)) = Some d \<Longrightarrow>
      json_unmarshal d = Some (type0_message packet (env_MessageID env)) \<and> d \<noteq> []"
    and "client_SendEnvelope json_marshal conn edge env = (edge', Inr wire)"
    and "IsKnownSubtype (env_Subtype env)" and "env_Subtype env \<notin> {0x20, 0x25}" and "\<not> Expired env now (seconds 30)"
    and "snd (rw_accept (ns_replay center) (env_MessageID env))"
    and "snd (allowControl (resourceProtection gomaxprocs center) (int (length wire)) now)"
  shows "\<exists>msg srv' center' e. readControlMessageSizeLimit json_unmarshal (wire @ rest) controlMaxFrame = (Inr msg, length wire, rest) \<and>
    server_receive gomaxprocs json_marshal conn' srv center now msg (length wire) = (srv', center', GotEnvelope e) \<and>
    env_Subtype e = env_Subtype env \<and> env_MessageID e = env_MessageID env \<and> env_Flags e = env_Flags env \<and>
    env_Payload e = env_Payload env \<and> env_SourceNodeID e = ns_NodeID edge \<and> \<not> env_Duplicate e"
proof -
  let ?env = "env\<lparr>env_SourceNodeID := ns_NodeID edge, env_NodeSessionID := ns_SessionID edge, env_KeyEpoch := ns_KeyEpoch edge\<rparr>"
  obtain packet where packet: "MarshalControl ?env (ns_Key edge) = Inr packet"
      and sent: "marshalControlMessage json_marshal (type0_message packet (env_MessageID env)) = Inr wire"
    using assms(8) by (auto simp: client_SendEnvelope_def session_Send_def Let_def split: sum.splits if_splits)
  let ?msg = "type0_message packet (env_MessageID env)"
  obtain data where data: "json_marshal ?msg = Some data" "length data \<le> controlMaxFrame"
    using sent by (auto simp: marshalControlMessage_def split: option.splits if_splits)
  with json [of packet data] read_marshalled [of json_marshal ?msg data json_unmarshal controlMaxFrame rest] sent
  have read: "readControlMessageSizeLimit json_unmarshal (wire @ rest) controlMaxFrame = (Inr ?msg, length wire, rest)" by auto
  let ?e = "?env\<lparr>env_AuthTag := drop (143 + length (env_Payload ?env)) packet, env_Duplicate := False, env_receivedAt := zero_time\<rparr>"
  have dec: "UnmarshalControl packet (ns_Key edge) = Inr ?e"
    using unmarshal_marshal [of ?env "ns_Key edge" NodeMaxControlSize packet] packet assms(6)
    by (simp add: MarshalControl_def UnmarshalControl_def)
  obtain c1 ok1 where c1: "protect_ok gomaxprocs (\<lambda>p. allowControl p (int (length wire)) now)
      (control_metrics (\<lambda>m. AddIn m (int (length wire))) center) = (c1, ok1)" by fastforce
  have prot: "resourceProtection gomaxprocs (control_metrics k center) = resourceProtection gomaxprocs center" for k
    by (simp add: resourceProtection_def control_metrics_def)
  have peer: "ns_PeerLinkID (control_metrics k center) = ns_PeerLinkID center" for k by (simp add: control_metrics_def)
  note f1 = protect_ok_fields [OF c1, unfolded prot peer]
  have known: "\<not> Expired ?e now (seconds 30)" using assms(11) by (simp add: Expired_def)
  obtain w where "rw_accept (ns_replay center) (env_MessageID env) = (w, True)" using assms(12) by (metis prod.collapse)
  then obtain c2 where c2: "AcceptMessage c1 (env_MessageID env) now = (c2, True)"
    using f1 by (auto simp: AcceptMessage_def)
  have "server_receive gomaxprocs json_marshal conn' srv center now ?msg (length wire) = (srv, Touch now c2, GotEnvelope ?e)"
    using f1 assms(1-5,9,10,13) known c2
    by (simp add: server_receive_def Let_def c1 type0_message_def empty_message_def b64_round_trip dec)
  with read show ?thesis by (intro exI conjI) (assumption | simp)+
qed

theorem control_envelope_delivered_witness:
  "\<exists>jm ju srv wire msg srv' center' e. readControlMessageSizeLimit ju (wire @ []) controlMaxFrame = (Inr msg, length wire, []) \<and>
    server_receive 4 jm (\<lambda>_. True) srv sample_session 0 msg (length wire) = (srv', center', GotEnvelope e) \<and>
    env_Payload e = [1, 2] \<and> env_SourceNodeID e = ''edge''"
proof -
  from sample_server obtain s0 where "NewNodeServer 4 '':7000'' True True zero_limits
    \<lparr>MinProtocolVersion = 0, MaxProtocolVersion = 0, Features = 0, RequiredFeatures = 0\<rparr> = Inr s0" by blast
  let ?env = "NewEnvelope 0 5 [] 0 9 [1, 2]"
  let ?sent = "?env\<lparr>env_SourceNodeID := ''edge'', env_NodeSessionID := 7, env_KeyEpoch := 1\<rparr>"
  have "\<exists>packet. MarshalControl ?sent (replicate 32 5) = Inr packet"
    unfolding MarshalControl_def marshal_Inr validateForEncode_None by (simp add: NewEnvelope_def Let_def)
  then obtain packet where packet: "MarshalControl ?sent (replicate 32 5) = Inr packet" ..
  let ?m = "type0_message packet 9"
  let ?jm = "\<lambda>m. if m = ?m then Some [1 :: byte] else None" and ?ju = "\<lambda>d :: bytes. Some ?m"
  have one: "putUint32 1 = [0, 0, 0, 1]" by code_simp
  have send: "client_SendEnvelope ?jm (\<lambda>_. True) sample_session ?env =
      (control_metrics (\<lambda>m. AddOut m 5) sample_session, Inr [0, 0, 0, 1, 1])"
    using packet one by (simp add: client_SendEnvelope_def session_Send_def marshalControlMessage_def sample_session_def NewEnvelope_def
        Let_def)
  have fresh: "snd (rw_accept (ns_replay sample_session) (env_MessageID ?env))"
    by (simp add: sample_session_def NewEnvelope_def rw_accept_def new_replayWindow_def Let_def)
  have budget: "snd (allowControl (resourceProtection 4 sample_session) (int (length [0, 0, 0, 1, 1 :: byte])) 0)"
    unfolding sample_session_def resourceProtection_def by code_simp
  have "\<exists>msg srv' center' e. readControlMessageSizeLimit ?ju ([0, 0, 0, 1, 1] @ []) controlMaxFrame = (Inr msg, length [0, 0, 0, 1, 1 :: byte], []) \<and>
    server_receive 4 ?jm (\<lambda>_. True) s0 sample_session 0 msg (length [0, 0, 0, 1, 1 :: byte]) = (srv', center', GotEnvelope e) \<and>
    env_Subtype e = env_Subtype ?env \<and> env_MessageID e = env_MessageID ?env \<and> env_Flags e = env_Flags ?env \<and>
    env_Payload e = env_Payload ?env \<and> env_SourceNodeID e = ns_NodeID sample_session \<and> \<not> env_Duplicate e"
    by (rule control_envelope_delivered [OF refl refl refl refl _ _ _ send _ _ _ fresh budget])
      (auto simp: sample_session_def IsKnownSubtype_def NewEnvelope_def Expired_def time_sub_def split: if_splits)
  moreover have "env_Payload ?env = [1, 2]" "ns_NodeID sample_session = ''edge''"
    by (simp_all add: NewEnvelope_def sample_session_def)
  ultimately show ?thesis
    by (intro exI [of _ ?jm] exI [of _ ?ju] exI [of _ s0] exI [of _ "[0, 0, 0, 1, 1]"]) (metis (no_types, lifting))
qed

end
