(* ===== verification/Node_Datagram.thy ===== *)
theory Node_Datagram
  imports Node_Server "HOL-Library.Multiset"
begin

section \<open>Node datagrams (\<open>internal/interconnect/datagram.go\<close>)\<close>

text \<open>
  The data plane shares the hub's UDP socket.  The centre's bridge authenticates a Type 0 packet
  against the session it names, checks replay, budget and source address, reserves a place in
  the node's share of the queue and puts it on a bounded queue that the workers empty.  Sessions
  are shared objects: the heap maps their identities to their state, and the packets on the queue
  refer to them.  The session lookup and the decoder of the binding payload (JSON) are arguments.

  \<open>Handle\<close> runs on many goroutines.  Its phases are separate functions: admission up to the
  reservation, the first attempt to enqueue, taking the oldest packet off a full queue, giving
  back its reservation, and the second attempt.  Likewise a worker takes a packet, and then
  releases its reservation and hands it on.  A phase is one step: the closing flag, which the code
  reads before admission and again before it enqueues, does not change within a phase here.
\<close>

type_synonym session_heap = "(nat, NodeSession) fmap"

record nodeDatagram =
  dg_session :: nat
  dg_env :: envelope
  dg_addr :: "udp_addr option"

record NodeDatagramBridge =
  br_maxAge :: duration
  br_limits :: ResourceLimits
  br_queue :: "nodeDatagram list"
  br_closing :: bool
  br_closed :: bool
  br_unauthenticated :: u64
  br_invalid :: u64
  br_globalQueueDrop :: u64

record NodeDatagramBridgeSnapshot =
  UnauthenticatedType0 :: u64
  InvalidType0 :: u64
  GlobalQueueDrops :: u64

record NodeDataBind =
  bind_Action :: string
  bind_Challenge :: bytes

datatype bridge_error = CallbacksRequired | BridgeLimits limits_error

definition NewNodeDatagramBridge ::
    "int \<Rightarrow> bool \<Rightarrow> duration \<Rightarrow> ResourceLimits option \<Rightarrow> bridge_error + NodeDatagramBridge" where
  "NewNodeDatagramBridge gomaxprocs hasCallbacks maxAge configured =
     (if \<not> hasCallbacks then Inl CallbacksRequired
      else
        let maxAge = (if maxAge \<le> 0 then seconds 2 else maxAge);
            limits = (case configured of Some l \<Rightarrow> l | None \<Rightarrow> zero_limits)
        in case normalized gomaxprocs limits of
             (_, Some err) \<Rightarrow> Inl (BridgeLimits err)
           | (limits, None) \<Rightarrow>
               Inr \<lparr>br_maxAge = maxAge, br_limits = limits, br_queue = [], br_closing = False, br_closed = False,
                    br_unauthenticated = 0, br_invalid = 0, br_globalQueueDrop = 0\<rparr>)"

text \<open>Both handlers first look at the shape of a packet.\<close>

definition type0_shape :: "bytes \<Rightarrow> bool" where
  "type0_shape data \<longleftrightarrow> \<not> length data < NodeHeaderSize + NodeAuthTagSize \<and> string_of (slice data 0 4) = NodeMagic \<and>
     data ! 48 = NodePacketType \<and> string_of (slice data 86 90) = ''NOD0''"

definition on_session :: "nat \<Rightarrow> (NodeSession \<Rightarrow> NodeSession) \<Rightarrow> session_heap \<Rightarrow> session_heap" where
  "on_session r f h = (case fmlookup h r of Some s \<Rightarrow> fmupd r (f s) h | None \<Rightarrow> h)"

text \<open>The verdict of the admission: what \<open>Handle\<close> returns, or a packet with a reserved place.\<close>

datatype admission = Answer bool | Admit nodeDatagram

definition admit_session ::
    "int \<Rightarrow> (bytes \<Rightarrow> NodeDataBind option) \<Rightarrow> time \<Rightarrow> nat \<Rightarrow> NodeSession \<Rightarrow> bytes \<Rightarrow> udp_addr option \<Rightarrow>
     NodeSession \<times> bool \<times> admission" where
  "admit_session gomaxprocs decode_bind now r session data addr =
     (case Unmarshal data (ns_Key session) of
        Inl _ \<Rightarrow> (protect gomaxprocs recordInvalidAuthTag session, True, Answer False)
      | Inr env \<Rightarrow>
          let env = env\<lparr>env_receivedAt := now\<rparr>
          in if env_NodeSessionID env \<noteq> ns_SessionID session \<or> env_KeyEpoch env \<noteq> ns_KeyEpoch session \<or>
                env_SourceNodeID env \<noteq> ns_NodeID session
             then (protect gomaxprocs recordIdentityReject session, True, Answer False)
             else
               let session = data_metrics (\<lambda>m. AddIn m (int (length data))) session;
                   (session, fresh) = AcceptMessage session (env_MessageID env) now
               in if \<not> fresh then (data_metrics AddDrop (protect gomaxprocs recordReplayDrop session), True, Answer False)
                  else
                    let (session, allowed) = protect_ok gomaxprocs (\<lambda>p. allowData p (int (length data)) now) session
                    in if \<not> allowed then (data_metrics AddDrop session, False, Answer True)
                       else if env_Subtype env = 0x06 then
                         (case (if env_Payload env = [] then None else decode_bind (env_Payload env)) of
                            None \<Rightarrow> (data_metrics AddDrop (protect gomaxprocs recordDataBindReject session), False, Answer True)
                          | Some bind' \<Rightarrow>
                              if bind_Action bind' \<noteq> ''proof''
                              then (data_metrics AddDrop (protect gomaxprocs recordDataBindReject session), False, Answer True)
                              else
                                let (session, valid) = ConsumeDataBindChallenge session (bind_Challenge bind') now
                                in if \<not> valid
                                   then (data_metrics AddDrop (protect gomaxprocs recordDataBindReject session), False, Answer True)
                                   else (BindDataAddr session addr, False, Answer True))
                       else if \<not> DataAddrMatches session addr
                       then (data_metrics AddDrop (protect gomaxprocs recordUnboundAddressDrop session), False, Answer True)
                       else
                         let (session, reserved) = protect_ok gomaxprocs reserveQueue session
                         in if \<not> reserved then (data_metrics AddDrop session, False, Answer True)
                            else (session, False, Admit \<lparr>dg_session = r, dg_env = env, dg_addr = addr\<rparr>))"

definition bridge_admit ::
    "int \<Rightarrow> (bytes \<Rightarrow> NodeDataBind option) \<Rightarrow> (string \<Rightarrow> u64 \<Rightarrow> nat option) \<Rightarrow> time \<Rightarrow> NodeDatagramBridge \<Rightarrow> session_heap \<Rightarrow>
     bytes \<Rightarrow> udp_addr option \<Rightarrow> NodeDatagramBridge \<times> session_heap \<times> admission" where
  "bridge_admit gomaxprocs decode_bind lookup now b h data addr =
     (if \<not> type0_shape data then (b, h, Answer False)
      else if br_closing b then (b, h, Answer True)
      else
        let sourceID = string_of (trim_zeros (slice data 6 38));
            sessionID = getUint64 (slice data 110 118)
        in case lookup sourceID sessionID of
             None \<Rightarrow> (b\<lparr>br_unauthenticated := br_unauthenticated b + 1\<rparr>, h, Answer False)
           | Some r \<Rightarrow>
               (case fmlookup h r of
                  None \<Rightarrow> (b\<lparr>br_unauthenticated := br_unauthenticated b + 1\<rparr>, h, Answer False)
                | Some session \<Rightarrow>
                    if length (ns_Key session) = 0 then (b\<lparr>br_unauthenticated := br_unauthenticated b + 1\<rparr>, h, Answer False)
                    else
                      let (session, invalid, verdict) = admit_session gomaxprocs decode_bind now r session data addr
                      in (if invalid then b\<lparr>br_invalid := br_invalid b + 1\<rparr> else b, fmupd r session h, verdict)))"

definition release :: "int \<Rightarrow> nat \<Rightarrow> session_heap \<Rightarrow> session_heap" where
  "release gomaxprocs r h = on_session r (protect gomaxprocs releaseQueue) h"

text \<open>The first attempt: the closing flag is read again, then the item goes on the queue if there is
  room.  The result says whether the item has been dealt with.\<close>

definition queue_has_room :: "NodeDatagramBridge \<Rightarrow> bool" where
  "queue_has_room b \<longleftrightarrow> int (length (br_queue b)) < DataQueueGlobal (br_limits b)"

definition enqueue_first :: "int \<Rightarrow> NodeDatagramBridge \<Rightarrow> session_heap \<Rightarrow> nodeDatagram \<Rightarrow> NodeDatagramBridge \<times> session_heap \<times> bool" where
  "enqueue_first gomaxprocs b h item =
     (if br_closing b \<or> br_closed b then (b, release gomaxprocs (dg_session item) h, True)
      else if queue_has_room b then (b\<lparr>br_queue := br_queue b @ [item]\<rparr>, h, True)
      else (b, h, False))"

definition take_oldest :: "NodeDatagramBridge \<Rightarrow> NodeDatagramBridge \<times> nodeDatagram option" where
  "take_oldest b =
     (case br_queue b of [] \<Rightarrow> (b, None) | old # rest \<Rightarrow> (b\<lparr>br_queue := rest\<rparr>, Some old))"

definition drop_oldest :: "int \<Rightarrow> NodeDatagramBridge \<Rightarrow> session_heap \<Rightarrow> nodeDatagram \<Rightarrow> NodeDatagramBridge \<times> session_heap" where
  "drop_oldest gomaxprocs b h old =
     (b\<lparr>br_globalQueueDrop := br_globalQueueDrop b + 1\<rparr>,
      on_session (dg_session old) (\<lambda>s. data_metrics AddDrop (protect gomaxprocs recordQueueDrop (protect gomaxprocs releaseQueue s))) h)"

definition enqueue_second :: "int \<Rightarrow> NodeDatagramBridge \<Rightarrow> session_heap \<Rightarrow> nodeDatagram \<Rightarrow> NodeDatagramBridge \<times> session_heap" where
  "enqueue_second gomaxprocs b h item =
     (if queue_has_room b then (b\<lparr>br_queue := br_queue b @ [item]\<rparr>, h)
      else
        (b\<lparr>br_globalQueueDrop := br_globalQueueDrop b + 1\<rparr>,
         on_session (dg_session item)
           (\<lambda>s. data_metrics AddDrop (protect gomaxprocs recordQueueDrop (protect gomaxprocs releaseQueue s))) h))"

text \<open>The whole of \<open>Handle\<close> when it runs alone.\<close>

definition bridge_Handle ::
    "int \<Rightarrow> (bytes \<Rightarrow> NodeDataBind option) \<Rightarrow> (string \<Rightarrow> u64 \<Rightarrow> nat option) \<Rightarrow> time \<Rightarrow> NodeDatagramBridge \<Rightarrow> session_heap \<Rightarrow>
     bytes \<Rightarrow> udp_addr option \<Rightarrow> NodeDatagramBridge \<times> session_heap \<times> bool" where
  "bridge_Handle gomaxprocs decode_bind lookup now b h data addr =
     (case bridge_admit gomaxprocs decode_bind lookup now b h data addr of
        (b, h, Answer verdict) \<Rightarrow> (b, h, verdict)
      | (b, h, Admit item) \<Rightarrow>
          (case enqueue_first gomaxprocs b h item of
             (b, h, True) \<Rightarrow> (b, h, True)
           | (b, h, False) \<Rightarrow>
               let (b, old) = take_oldest b;
                   (b, h) = (case old of Some old \<Rightarrow> drop_oldest gomaxprocs b h old | None \<Rightarrow> (b, h));
                   (b, h) = enqueue_second gomaxprocs b h item
               in (b, h, True)))"

text \<open>A worker that has taken an item: the item is handed on unless it waited too long.\<close>

definition max_local_age :: "NodeDatagramBridge \<Rightarrow> duration" where
  "max_local_age b =
     (let age = DataMaxQueueAge (br_limits b)
      in if 0 < br_maxAge b \<and> (age \<le> 0 \<or> br_maxAge b < age) then br_maxAge b else age)"

definition stale_item :: "NodeDatagramBridge \<Rightarrow> time \<Rightarrow> nodeDatagram \<Rightarrow> bool" where
  "stale_item b clock item \<longleftrightarrow>
     env_receivedAt (dg_env item) \<noteq> zero_time \<and> 0 < max_local_age b \<and>
     max_local_age b < time_sub clock (env_receivedAt (dg_env item))"

definition worker_process :: "int \<Rightarrow> time \<Rightarrow> NodeDatagramBridge \<Rightarrow> session_heap \<Rightarrow> nodeDatagram \<Rightarrow> session_heap \<times> bool" where
  "worker_process gomaxprocs clock b h item =
     (let h = release gomaxprocs (dg_session item) h
      in if stale_item b clock item
         then (on_session (dg_session item) (\<lambda>s. data_metrics AddDrop (protect gomaxprocs recordStaleDrop s)) h, False)
         else (h, True))"

definition bridge_ProtectionSnapshot :: "NodeDatagramBridge \<Rightarrow> NodeDatagramBridgeSnapshot" where
  "bridge_ProtectionSnapshot b = \<lparr>UnauthenticatedType0 = br_unauthenticated b, InvalidType0 = br_invalid b,
     GlobalQueueDrops = br_globalQueueDrop b\<rparr>"

text \<open>Closing: the flag, then the closed channel behind the gate, then the queue is emptied.\<close>

fun drain_queue :: "int \<Rightarrow> session_heap \<Rightarrow> nodeDatagram list \<Rightarrow> session_heap" where
  "drain_queue gomaxprocs h [] = h"
| "drain_queue gomaxprocs h (item # items) = drain_queue gomaxprocs (release gomaxprocs (dg_session item) h) items"

definition bridge_Close :: "int \<Rightarrow> NodeDatagramBridge \<Rightarrow> session_heap \<Rightarrow> NodeDatagramBridge \<times> session_heap" where
  "bridge_Close gomaxprocs b h =
     (if br_closed b then (b, h)
      else (b\<lparr>br_closing := True, br_closed := True, br_queue := []\<rparr>, drain_queue gomaxprocs h (br_queue b)))"

subsection \<open>Sending\<close>

text \<open>\<open>write\<close> is the writer of the hub, if one is set: whether it took the datagram.\<close>

definition bridge_Send ::
    "(udp_addr \<Rightarrow> bytes \<Rightarrow> bool) option \<Rightarrow> NodeSession \<Rightarrow> envelope \<Rightarrow> NodeSession \<times> (control_error + udp_addr \<times> bytes)" where
  "bridge_Send writer session env =
     (let env = env\<lparr>env_SourceNodeID := ''center'', env_NodeSessionID := ns_SessionID session, env_KeyEpoch := ns_KeyEpoch session\<rparr>
      in case Marshal env (ns_Key session) of
           Inl err \<Rightarrow> (session, Inl (EnvelopeError err))
         | Inr data \<Rightarrow>
             (case DataAddr session of
                None \<Rightarrow> (session, Inl AddressNotBound)
              | Some addr \<Rightarrow>
                  (case writer of
                     None \<Rightarrow> (session, Inl WriterMissing)
                   | Some w \<Rightarrow>
                       if \<not> w addr data then (data_metrics AddError session, Inl WriteFailed)
                       else (data_metrics (\<lambda>m. AddOut m (int (length data))) session, Inr (addr, data)))))"

record NodeDatagramPeer =
  peer_session :: NodeSession
  peer_center :: udp_addr
  peer_hasOnData :: bool
  peer_Metrics :: Metrics

definition peer_metrics :: "(Metrics \<Rightarrow> Metrics) \<Rightarrow> NodeDatagramPeer \<Rightarrow> NodeDatagramPeer" where
  "peer_metrics f p = p\<lparr>peer_Metrics := f (peer_Metrics p)\<rparr>"

definition peer_Send ::
    "(udp_addr \<Rightarrow> bytes \<Rightarrow> bool) option \<Rightarrow> NodeDatagramPeer \<Rightarrow> envelope \<Rightarrow> NodeDatagramPeer \<times> (control_error + bytes)" where
  "peer_Send writer p env =
     (let s = peer_session p;
          env = env\<lparr>env_SourceNodeID := ns_NodeID s, env_NodeSessionID := ns_SessionID s, env_KeyEpoch := ns_KeyEpoch s\<rparr>
      in case Marshal env (ns_Key s) of
           Inl err \<Rightarrow> (p, Inl (EnvelopeError err))
         | Inr data \<Rightarrow>
             (case writer of
                None \<Rightarrow> (p, Inl WriterMissing)
              | Some w \<Rightarrow>
                  if \<not> w (peer_center p) data then (peer_metrics AddError p, Inl WriteFailed)
                  else (peer_metrics (\<lambda>m. AddOut m (int (length data))) p, Inr data)))"

definition ProveDataBind ::
    "(NodeDataBind \<Rightarrow> bytes option) \<Rightarrow> (udp_addr \<Rightarrow> bytes \<Rightarrow> bool) option \<Rightarrow> time \<Rightarrow> NodeDatagramPeer \<Rightarrow> bytes \<Rightarrow> u64 \<Rightarrow>
     NodeDatagramPeer \<times> (control_error + bytes)" where
  "ProveDataBind encode_bind writer clock p challenge messageID =
     (case encode_bind \<lparr>bind_Action = ''proof'', bind_Challenge = challenge\<rparr> of
        None \<Rightarrow> (p, Inl ControlMarshalFailed)
      | Some payload \<Rightarrow>
          peer_Send writer p
            (NewEnvelope clock 0x06 (ns_NodeID (peer_session p)) (ns_SessionID (peer_session p)) messageID payload))"

text \<open>The edge's handler: the verdict, and the envelope that is handed on.\<close>

definition peer_Handle ::
    "int \<Rightarrow> time \<Rightarrow> NodeDatagramPeer \<Rightarrow> bytes \<Rightarrow> NodeDatagramPeer \<times> bool \<times> envelope option" where
  "peer_Handle gomaxprocs now p data =
     (if \<not> type0_shape data then (p, False, None)
      else
        let s = peer_session p
        in case Unmarshal data (ns_Key s) of
             Inl _ \<Rightarrow> (p\<lparr>peer_session := protect gomaxprocs recordInvalidAuthTag s\<rparr>, False, None)
           | Inr env \<Rightarrow>
               let env = env\<lparr>env_receivedAt := now\<rparr>
               in if env_SourceNodeID env \<noteq> ''center'' \<or> env_NodeSessionID env \<noteq> ns_SessionID s \<or> env_KeyEpoch env \<noteq> ns_KeyEpoch s
                  then (p\<lparr>peer_session := protect gomaxprocs recordIdentityReject s\<rparr>, False, None)
                  else
                    let p = peer_metrics (\<lambda>m. AddIn m (int (length data))) p;
                        (s, fresh) = AcceptMessage s (env_MessageID env) now
                    in if \<not> fresh
                       then (peer_metrics AddDrop (p\<lparr>peer_session := protect gomaxprocs recordReplayDrop s\<rparr>), False, None)
                       else
                         let (s, allowed) = protect_ok gomaxprocs (\<lambda>p. allowData p (int (length data)) now) s
                         in if \<not> allowed then (peer_metrics AddDrop (p\<lparr>peer_session := s\<rparr>), True, None)
                            else (p\<lparr>peer_session := s\<rparr>, True, if peer_hasOnData p then Some env else None))"

subsection \<open>The server's lookup (\<open>SessionByID\<close>)\<close>

text \<open>The order in which \<open>Range\<close> visits the sessions is an argument.\<close>

fun first_session :: "session_heap \<Rightarrow> u64 \<Rightarrow> nat list \<Rightarrow> nat option" where
  "first_session h sessionID [] = None"
| "first_session h sessionID (r # rs) =
     (case fmlookup h r of
        Some s \<Rightarrow> if ns_SessionID s = sessionID then Some r else first_session h sessionID rs
      | None \<Rightarrow> first_session h sessionID rs)"

definition SessionByID :: "NodeServer \<Rightarrow> session_heap \<Rightarrow> nat list \<Rightarrow> string \<Rightarrow> u64 \<Rightarrow> nat option" where
  "SessionByID srv h order nodeID sessionID =
     (if nodeID \<noteq> '''' then
        (case fmlookup (srv_sessions srv) nodeID of
           None \<Rightarrow> None
         | Some r \<Rightarrow>
             (case fmlookup h r of
                Some s \<Rightarrow> if ns_SessionID s = sessionID then Some r else None
              | None \<Rightarrow> None))
      else first_session h sessionID order)"

subsection \<open>What the session operations leave alone\<close>

lemma protection_frame [simp]:
  "resourceProtection g (protect g f s) = f (resourceProtection g s)"
  "resourceProtection g (data_metrics k s) = resourceProtection g s"
  "resourceProtection g (BindDataAddr s addr) = resourceProtection g s"
  "ns_replay (protect g f s) = ns_replay s" "ns_replay (data_metrics k s) = ns_replay s"
  "ns_replay (BindDataAddr s addr) = ns_replay s"
  by (simp_all add: resourceProtection_def protect_def data_metrics_def BindDataAddr_def split: option.splits)

lemma guard_frame [simp]:
  "np_queued (recordQueueDrop p) = np_queued p" "np_limits (recordQueueDrop p) = np_limits p"
  "np_queued (recordStaleDrop p) = np_queued p" "np_limits (recordStaleDrop p) = np_limits p"
  "np_queued (recordInvalidAuthTag p) = np_queued p" "np_limits (recordInvalidAuthTag p) = np_limits p"
  "np_queued (recordIdentityReject p) = np_queued p" "np_limits (recordIdentityReject p) = np_limits p"
  "np_queued (recordReplayDrop p) = np_queued p" "np_limits (recordReplayDrop p) = np_limits p"
  "np_queued (recordUnboundAddressDrop p) = np_queued p" "np_limits (recordUnboundAddressDrop p) = np_limits p"
  "np_queued (recordDataBindReject p) = np_queued p" "np_limits (recordDataBindReject p) = np_limits p"
  "np_queued (releaseQueue p) = np_queued p - 1" "np_limits (releaseQueue p) = np_limits p"
  by (simp_all add: recordQueueDrop_def recordStaleDrop_def recordInvalidAuthTag_def recordIdentityReject_def
      recordReplayDrop_def recordUnboundAddressDrop_def recordDataBindReject_def releaseQueue_def)

lemma allowData_frame: "allowData p n t = (p', ok) \<Longrightarrow> np_queued p' = np_queued p \<and> np_limits p' = np_limits p"
  by (auto simp: allowData_def resetWindowLocked_def Let_def split: if_splits)

lemma reserve_frame:
  "reserveQueue p = (p', ok) \<Longrightarrow> np_limits p' = np_limits p \<and> np_queued p' = np_queued p + (if ok then 1 else 0) \<and>
     (ok \<longrightarrow> np_queued p' \<le> DataQueuePerNode (np_limits p))"
  by (auto simp: reserveQueue_def Let_def split: if_splits)

definition queued_of :: "int \<Rightarrow> NodeSession \<Rightarrow> int" where
  "queued_of g s = np_queued (resourceProtection g s)"

definition share_of :: "int \<Rightarrow> NodeSession \<Rightarrow> int" where
  "share_of g s = DataQueuePerNode (np_limits (resourceProtection g s))"

lemma accept_protection:
  "AcceptMessage s m t = (s', ok) \<Longrightarrow> resourceProtection g s' = resourceProtection g s \<and>
     rw_accept (ns_replay s) m = (ns_replay s', ok)"
  by (auto simp: AcceptMessage_def resourceProtection_def split: prod.splits)

lemma consume_protection:
  "ConsumeDataBindChallenge s c t = (s', ok) \<Longrightarrow> resourceProtection g s' = resourceProtection g s \<and> ns_replay s' = ns_replay s"
  by (auto simp: ConsumeDataBindChallenge_def resourceProtection_def Let_def split: if_splits)

lemma allow_session:
  "protect_ok g (\<lambda>p. allowData p n t) s = (s', ok) \<Longrightarrow>
     queued_of g s' = queued_of g s \<and> share_of g s' = share_of g s \<and> ns_replay s' = ns_replay s"
  by (auto simp: protect_ok_def queued_of_def share_of_def resourceProtection_def split: prod.splits dest: allowData_frame)

lemma reserve_session:
  "protect_ok g reserveQueue s = (s', ok) \<Longrightarrow>
     queued_of g s' = queued_of g s + (if ok then 1 else 0) \<and> share_of g s' = share_of g s \<and> ns_replay s' = ns_replay s \<and>
     (ok \<longrightarrow> queued_of g s' \<le> share_of g s)"
  by (auto simp: protect_ok_def queued_of_def share_of_def resourceProtection_def split: prod.splits dest: reserve_frame)

lemma queue_frame [simp]:
  "queued_of g (data_metrics k s) = queued_of g s" "share_of g (data_metrics k s) = share_of g s"
  "queued_of g (BindDataAddr s addr) = queued_of g s" "share_of g (BindDataAddr s addr) = share_of g s"
  by (simp_all add: queued_of_def share_of_def)

lemma queue_protect:
  "(\<And>p. np_queued (f p) = np_queued p + d) \<Longrightarrow> (\<And>p. np_limits (f p) = np_limits p) \<Longrightarrow>
     queued_of g (protect g f s) = queued_of g s + d \<and> share_of g (protect g f s) = share_of g s"
  by (simp add: queued_of_def share_of_def)

lemmas queue_record [simp] =
  queue_protect [of recordQueueDrop 0, simplified] queue_protect [of recordStaleDrop 0, simplified]
  queue_protect [of recordInvalidAuthTag 0, simplified] queue_protect [of recordIdentityReject 0, simplified]
  queue_protect [of recordReplayDrop 0, simplified] queue_protect [of recordUnboundAddressDrop 0, simplified]
  queue_protect [of recordDataBindReject 0, simplified] queue_protect [of releaseQueue "-1", simplified]

text \<open>What the admission of a packet does to the session.\<close>

definition replay_moves :: "NodeSession \<Rightarrow> NodeSession \<Rightarrow> bool" where
  "replay_moves s s' \<longleftrightarrow> ns_replay s' = ns_replay s \<or> (\<exists>m. ns_replay s' = fst (rw_accept (ns_replay s) m))"

definition admitted_by :: "NodeSession \<Rightarrow> bytes \<Rightarrow> udp_addr option \<Rightarrow> time \<Rightarrow> envelope \<Rightarrow> bool" where
  "admitted_by s data addr now env \<longleftrightarrow>
     (\<exists>e. Unmarshal data (ns_Key s) = Inr e \<and> env = e\<lparr>env_receivedAt := now\<rparr>) \<and>
     env_NodeSessionID env = ns_SessionID s \<and> env_KeyEpoch env = ns_KeyEpoch s \<and> env_SourceNodeID env = ns_NodeID s \<and>
     env_Subtype env \<noteq> 0x06 \<and> DataAddrMatches s addr \<and> snd (rw_accept (ns_replay s) (env_MessageID env))"

lemma matches_frame: "ns_dataAddr s' = ns_dataAddr s \<Longrightarrow> DataAddrMatches s' addr = DataAddrMatches s addr"
  by (cases addr) (simp_all add: DataAddrMatches_def)

lemma data_addr_frame:
  "AcceptMessage s m t = (s1, ok) \<Longrightarrow> ns_dataAddr s1 = ns_dataAddr s"
  "protect_ok g f s = (s2, ok) \<Longrightarrow> ns_dataAddr s2 = ns_dataAddr s" "ns_dataAddr (data_metrics k s) = ns_dataAddr s"
  by (auto simp: AcceptMessage_def protect_ok_def data_metrics_def split: prod.splits)

lemma admit_session_spec:
  assumes "admit_session g decode_bind now r s data addr = (s', invalid, verdict)"
  shows "share_of g s' = share_of g s \<and> replay_moves s s' \<and>
    (case verdict of
       Answer _ \<Rightarrow> queued_of g s' = queued_of g s
     | Admit item \<Rightarrow> queued_of g s' = queued_of g s + 1 \<and> queued_of g s' \<le> share_of g s \<and> dg_session item = r \<and>
         dg_addr item = addr \<and> admitted_by s data addr now (dg_env item) \<and>
         ns_replay s' = fst (rw_accept (ns_replay s) (env_MessageID (dg_env item))))"
proof (cases "Unmarshal data (ns_Key s)")
  case (Inl err)
  with assms show ?thesis by (auto simp: admit_session_def replay_moves_def)
next
  case (Inr e)
  let ?e = "e\<lparr>env_receivedAt := now\<rparr>" and ?s = "data_metrics (\<lambda>m. AddIn m (int (length data))) s"
  obtain s1 fresh where s1: "AcceptMessage ?s (env_MessageID e) now = (s1, fresh)" by fastforce
  obtain s2 allowed where s2: "protect_ok g (\<lambda>p. allowData p (int (length data)) now) s1 = (s2, allowed)" by fastforce
  obtain s3 reserved where s3: "protect_ok g reserveQueue s2 = (s3, reserved)" by fastforce
  have f1: "queued_of g s1 = queued_of g s" "share_of g s1 = share_of g s" "rw_accept (ns_replay s) (env_MessageID e) = (ns_replay s1, fresh)"
    using accept_protection [OF s1, of g] by (simp_all add: queued_of_def share_of_def)
  note f2 = allow_session [OF s2] and f3 = reserve_session [OF s3]
  have addr: "DataAddrMatches s2 addr = DataAddrMatches s addr"
    by (rule matches_frame) (simp add: data_addr_frame(2) [OF s2] data_addr_frame(1) [OF s1] data_addr_frame(3))
  have m1: "replay_moves s s1" "replay_moves s s2" "replay_moves s s3"
    using f1(3) f2 f3 unfolding replay_moves_def by (metis fst_conv)+
  have m: "replay_moves s (data_metrics k t) = replay_moves s t" "replay_moves s (protect g f t) = replay_moves s t"
      "replay_moves s (BindDataAddr t addr) = replay_moves s t" for k f t by (simp_all add: replay_moves_def)
  have consume: "share_of g t = share_of g s \<and> replay_moves s t \<and> queued_of g t = queued_of g s"
    if "ConsumeDataBindChallenge s2 c now = (t, ok)" for c t ok
    using consume_protection [OF that, of g] f1 f2 m1(2) by (simp add: queued_of_def share_of_def replay_moves_def)
  have ident: "ns_SessionID ?s = ns_SessionID s" "ns_KeyEpoch ?s = ns_KeyEpoch s" "ns_NodeID ?s = ns_NodeID s" "ns_Key ?s = ns_Key s"
    by (simp_all add: data_metrics_def)
  show ?thesis
    using assms Inr f1 f2 f3 m1 addr
    by (auto simp: admit_session_def Let_def s1 s2 s3 m admitted_by_def split: if_splits option.splits prod.splits dest!: consume)
      (auto simp: replay_moves_def)
qed

subsection \<open>Interleaved handlers and workers\<close>

datatype phase =
    Admitted nodeDatagram
  | QueueFull nodeDatagram
  | Evicting nodeDatagram nodeDatagram
  | Retrying nodeDatagram
  | Taken nodeDatagram

primrec held :: "phase \<Rightarrow> nat multiset" where
  "held (Admitted item) = {#dg_session item#}"
| "held (QueueFull item) = {#dg_session item#}"
| "held (Evicting item old) = {#dg_session item, dg_session old#}"
| "held (Retrying item) = {#dg_session item#}"
| "held (Taken item) = {#dg_session item#}"

primrec is_handler :: "phase \<Rightarrow> bool" where
  "is_handler (Admitted item) = True"
| "is_handler (QueueFull item) = True"
| "is_handler (Evicting item old) = True"
| "is_handler (Retrying item) = True"
| "is_handler (Taken item) = False"

text \<open>The bridge, the sessions, the goroutines inside \<open>Handle\<close> or between taking and handing on, and the
  log of the packets that were admitted (session and message ID), newest first.\<close>

type_synonym data_plane = "NodeDatagramBridge \<times> session_heap \<times> phase multiset \<times> (nat \<times> u64) list"

text \<open>The control plane changes sessions too, but not their queue reservations, and it only ever
  advances the replay window by accepting messages.\<close>

definition control_change :: "int \<Rightarrow> NodeSession \<Rightarrow> NodeSession \<Rightarrow> bool" where
  "control_change g s s' \<longleftrightarrow> queued_of g s' = queued_of g s \<and> share_of g s' = share_of g s \<and> replay_moves s s'"

inductive bridge_step :: "int \<Rightarrow> data_plane \<Rightarrow> data_plane \<Rightarrow> bool" for g where
  br_answer: "bridge_admit g decode_bind lookup now b h data addr = (b', h', Answer verdict)
    \<Longrightarrow> bridge_step g (b, h, ps, log) (b', h', ps, log)"
| br_admit: "bridge_admit g decode_bind lookup now b h data addr = (b', h', Admit item)
    \<Longrightarrow> bridge_step g (b, h, ps, log)
          (b', h', add_mset (Admitted item) ps, (dg_session item, env_MessageID (dg_env item)) # log)"
| br_first: "enqueue_first g b h item = (b', h', finished)
    \<Longrightarrow> bridge_step g (b, h, add_mset (Admitted item) ps, log)
          (b', h', if finished then ps else add_mset (QueueFull item) ps, log)"
| br_take_old: "take_oldest b = (b', old)
    \<Longrightarrow> bridge_step g (b, h, add_mset (QueueFull item) ps, log)
          (b', h, add_mset (case old of Some old \<Rightarrow> Evicting item old | None \<Rightarrow> Retrying item) ps, log)"
| br_drop_old: "drop_oldest g b h old = (b', h')
    \<Longrightarrow> bridge_step g (b, h, add_mset (Evicting item old) ps, log) (b', h', add_mset (Retrying item) ps, log)"
| br_second: "enqueue_second g b h item = (b', h')
    \<Longrightarrow> bridge_step g (b, h, add_mset (Retrying item) ps, log) (b', h', ps, log)"
| br_take: "take_oldest b = (b', Some item) \<Longrightarrow> bridge_step g (b, h, ps, log) (b', h, add_mset (Taken item) ps, log)"
| br_process: "worker_process g clock b h item = (h', delivered)
    \<Longrightarrow> bridge_step g (b, h, add_mset (Taken item) ps, log) (b, h', ps, log)"
| br_closing: "bridge_step g (b, h, ps, log) (b\<lparr>br_closing := True\<rparr>, h, ps, log)"
| br_close: "br_closing b \<Longrightarrow> \<forall>p \<in># ps. \<not> is_handler p \<Longrightarrow> bridge_step g (b, h, ps, log) (b\<lparr>br_closed := True\<rparr>, h, ps, log)"
| br_drain: "br_closed b \<Longrightarrow> br_queue b = item # rest
    \<Longrightarrow> bridge_step g (b, h, ps, log) (b\<lparr>br_queue := rest\<rparr>, release g (dg_session item) h, ps, log)"
| br_control: "fmlookup h r = Some s \<Longrightarrow> control_change g s s' \<Longrightarrow> bridge_step g (b, h, ps, log) (b, fmupd r s' h, ps, log)"
| br_session: "fmlookup h r = None \<Longrightarrow> queued_of g s = 0 \<Longrightarrow> 0 \<le> share_of g s \<Longrightarrow> ns_replay s = new_replayWindow
    \<Longrightarrow> bridge_step g (b, h, ps, log) (b, fmupd r s h, ps, log)"

inductive bridge_reachable :: "int \<Rightarrow> NodeDatagramBridge \<Rightarrow> data_plane \<Rightarrow> bool" for g b0 where
  initial: "bridge_reachable g b0 (b0, fmempty, {#}, [])"
| next_state: "bridge_reachable g b0 st \<Longrightarrow> bridge_step g st st' \<Longrightarrow> bridge_reachable g b0 st'"

subsection \<open>Reservations are counted exactly\<close>

definition reservations :: "nodeDatagram list \<Rightarrow> phase multiset \<Rightarrow> nat multiset" where
  "reservations q ps = image_mset dg_session (mset q) + (\<Sum>p \<in># ps. held p)"

definition counted :: "int \<Rightarrow> session_heap \<Rightarrow> nat multiset \<Rightarrow> bool" where
  "counted g h m \<longleftrightarrow>
     (\<forall>r s. fmlookup h r = Some s \<longrightarrow> queued_of g s = int (count m r) \<and> int (count m r) \<le> share_of g s) \<and>
     (\<forall>r. fmlookup h r = None \<longrightarrow> count m r = 0)"

lemma reservations_simps [simp]:
  "reservations (q @ [item]) ps = add_mset (dg_session item) (reservations q ps)"
  "reservations (item # q) ps = add_mset (dg_session item) (reservations q ps)"
  "reservations q (add_mset p ps) = held p + reservations q ps"
  "reservations [] {#} = {#}"
  by (simp_all add: reservations_def)

lemma counted_live: "counted g h (add_mset r m) \<Longrightarrow> \<exists>s. fmlookup h r = Some s"
  unfolding counted_def by (metis count_add_mset nat.simps(3) not_None_eq)

lemma counted_at: "counted g h m \<Longrightarrow> fmlookup h r = Some s \<Longrightarrow> queued_of g s = int (count m r) \<and> int (count m r) \<le> share_of g s"
  by (simp add: counted_def)

text \<open>A change of one session that moves its counter by \<open>d\<close> keeps the count if \<open>d\<close> reservations of it
  are added or removed.\<close>

lemma counted_upd:
  assumes "counted g h m" and "fmlookup h r = Some s" and "share_of g s' = share_of g s"
    and "queued_of g s' = queued_of g s + (int (count m' r) - int (count m r))" and "int (count m' r) \<le> share_of g s"
    and "\<And>x. x \<noteq> r \<Longrightarrow> count m' x = count m x"
  shows "counted g (fmupd r s' h) m'"
  using assms(1,3-6) counted_at [OF assms(1,2)] unfolding counted_def by auto

lemma counted_release:
  assumes "counted g h (add_mset r m)" and "\<And>s. queued_of g (f s) = queued_of g s - 1" and "\<And>s. share_of g (f s) = share_of g s"
  shows "counted g (on_session r f h) m"
proof -
  obtain s where s: "fmlookup h r = Some s" using counted_live [OF assms(1)] by blast
  from counted_at [OF assms(1) s] have "int (count m r) \<le> share_of g s" by simp
  then have "counted g (fmupd r (f s) h) m"
    using assms(2,3) by (intro counted_upd [OF assms(1) s]) auto
  with s show ?thesis by (simp add: on_session_def)
qed

lemma counted_same:
  assumes "counted g h m" and "fmlookup h r = Some s" and "queued_of g s' = queued_of g s" and "share_of g s' = share_of g s"
  shows "counted g (fmupd r s' h) m"
proof -
  have "int (count m r) \<le> share_of g s" using counted_at [OF assms(1,2)] by simp
  with assms show ?thesis by (intro counted_upd [OF assms(1,2)]) simp_all
qed

definition queue_inv :: "int \<Rightarrow> data_plane \<Rightarrow> bool" where
  "queue_inv g st \<longleftrightarrow> (case st of (b, h, ps, log) \<Rightarrow>
     counted g h (reservations (br_queue b) ps) \<and>
     int (length (br_queue b)) \<le> DataQueueGlobal (br_limits b) \<and>
     (br_closed b \<longrightarrow> br_closing b \<and> (\<forall>p \<in># ps. \<not> is_handler p)))"

lemma admit_cases:
  assumes "bridge_admit g decode_bind lookup now b h data addr = (b', h', verdict)"
  shows "br_queue b' = br_queue b \<and> br_limits b' = br_limits b \<and> br_closed b' = br_closed b \<and> br_closing b' = br_closing b \<and>
    (h' = h \<and> (\<exists>v. verdict = Answer v) \<or>
     (\<exists>r s s' invalid. fmlookup h r = Some s \<and> h' = fmupd r s' h \<and> \<not> br_closing b \<and> type0_shape data \<and>
        lookup (string_of (trim_zeros (slice data 6 38))) (getUint64 (slice data 110 118)) = Some r \<and>
        admit_session g decode_bind now r s data addr = (s', invalid, verdict)))"
  using assms by (auto simp: bridge_admit_def Let_def split: if_splits option.splits prod.splits)

lemma admit_item:
  assumes "bridge_admit g decode_bind lookup now b h data addr = (b', h', Admit item)"
  shows "\<exists>s. fmlookup h (dg_session item) = Some s \<and> \<not> br_closing b \<and> dg_addr item = addr \<and>
    lookup (string_of (trim_zeros (slice data 6 38))) (getUint64 (slice data 110 118)) = Some (dg_session item) \<and>
    admitted_by s data addr now (dg_env item)"
proof -
  obtain r s s' invalid where s: "fmlookup h r = Some s" "\<not> br_closing b"
      "lookup (string_of (trim_zeros (slice data 6 38))) (getUint64 (slice data 110 118)) = Some r"
      "admit_session g decode_bind now r s data addr = (s', invalid, Admit item)"
    using admit_cases [OF assms] by blast
  with admit_session_spec [OF s(4)] show ?thesis by auto
qed

lemma inv_answer:
  assumes "queue_inv g (b, h, ps, log)" and "bridge_admit g decode_bind lookup now b h data addr = (b', h', Answer verdict)"
  shows "queue_inv g (b', h', ps, log')"
  using admit_cases [OF assms(2)] assms(1) by (auto simp: queue_inv_def dest!: admit_session_spec intro: counted_same)

lemma inv_admit:
  assumes "queue_inv g (b, h, ps, log)" and "bridge_admit g decode_bind lookup now b h data addr = (b', h', Admit item)"
  shows "queue_inv g (b', h', add_mset (Admitted item) ps, log')"
proof -
  obtain s s' invalid where s: "fmlookup h (dg_session item) = Some s" "h' = fmupd (dg_session item) s' h" "\<not> br_closing b"
      and q: "share_of g s' = share_of g s" "queued_of g s' = queued_of g s + 1" "queued_of g s' \<le> share_of g s"
    using admit_cases [OF assms(2)] by (auto dest!: admit_session_spec)
  have c: "counted g h (reservations (br_queue b) ps)" using assms(1) by (simp add: queue_inv_def)
  have "counted g h' (add_mset (dg_session item) (reservations (br_queue b) ps))"
    unfolding s(2) using q counted_at [OF c s(1)] by (intro counted_upd [OF c s(1)]) simp_all
  then show ?thesis using admit_cases [OF assms(2)] assms(1) s(3) by (auto simp: queue_inv_def)
qed

lemma release_frames:
  "queued_of g (protect g releaseQueue s) = queued_of g s - 1" "share_of g (protect g releaseQueue s) = share_of g s"
  "queued_of g (data_metrics AddDrop (protect g recordQueueDrop (protect g releaseQueue s))) = queued_of g s - 1"
  "share_of g (data_metrics AddDrop (protect g recordQueueDrop (protect g releaseQueue s))) = share_of g s"
  by simp_all

lemma inv_first:
  assumes "queue_inv g (b, h, add_mset (Admitted item) ps, log)" and "enqueue_first g b h item = (b', h', finished)"
  shows "queue_inv g (b', h', if finished then ps else add_mset (QueueFull item) ps, log)"
  using assms by (auto simp: queue_inv_def enqueue_first_def release_def queue_has_room_def release_frames
      intro: counted_release split: if_splits)

lemma inv_take_old:
  assumes "queue_inv g (b, h, add_mset (QueueFull item) ps, log)" and "take_oldest b = (b', old)"
  shows "queue_inv g (b', h, add_mset (case old of Some old \<Rightarrow> Evicting item old | None \<Rightarrow> Retrying item) ps, log)"
  using assms by (auto simp: queue_inv_def take_oldest_def add_mset_commute split: list.splits)

lemma inv_drop_old:
  assumes "queue_inv g (b, h, add_mset (Evicting item old) ps, log)" and "drop_oldest g b h old = (b', h')"
  shows "queue_inv g (b', h', add_mset (Retrying item) ps, log)"
  using assms by (auto simp: queue_inv_def drop_oldest_def release_frames add_mset_commute intro!: counted_release)

lemma inv_second:
  assumes "queue_inv g (b, h, add_mset (Retrying item) ps, log)" and "enqueue_second g b h item = (b', h')"
  shows "queue_inv g (b', h', ps, log)"
  using assms by (auto simp: queue_inv_def enqueue_second_def queue_has_room_def release_frames
      intro: counted_release split: if_splits)

lemma inv_process:
  assumes "queue_inv g (b, h, add_mset (Taken item) ps, log)" and "worker_process g clock b h item = (h', delivered)"
  shows "queue_inv g (b, h', ps, log)"
proof -
  have c: "counted g (release g (dg_session item) h) (reservations (br_queue b) ps)"
    using assms(1) by (auto simp: queue_inv_def release_def release_frames intro!: counted_release)
  have "counted g (on_session r (\<lambda>s. data_metrics AddDrop (protect g recordStaleDrop s)) h1) m" if "counted g h1 m" for r h1 m
    using that by (auto simp: on_session_def intro: counted_same split: option.splits)
  with c have "counted g h' (reservations (br_queue b) ps)"
    using assms(2) by (auto simp: worker_process_def Let_def split: if_splits)
  with assms(1) show ?thesis by (auto simp: queue_inv_def)
qed

lemma bridge_step_inv: "bridge_step g st st' \<Longrightarrow> queue_inv g st \<Longrightarrow> queue_inv g st'"
proof (induction rule: bridge_step.induct)
  case (br_take b b' item h ps log)
  then show ?case by (auto simp: queue_inv_def take_oldest_def split: list.splits)
next
  case (br_drain b item rest h ps log)
  then show ?case by (auto simp: queue_inv_def release_def release_frames intro!: counted_release)
next
  case (br_control h r s s' b ps log)
  then show ?case by (auto simp: queue_inv_def control_change_def intro: counted_same)
next
  case (br_session h r s b ps log)
  then show ?case by (auto simp: queue_inv_def counted_def)
next
  case (br_closing b h ps log)
  then show ?case by (simp add: queue_inv_def)
next
  case (br_close b ps h log)
  then show ?case by (simp add: queue_inv_def)
qed (blast intro: inv_answer inv_admit inv_first inv_take_old inv_drop_old inv_second inv_process)+

subsection \<open>No datagram is admitted twice\<close>

definition log_inv :: "data_plane \<Rightarrow> bool" where
  "log_inv st \<longleftrightarrow> (case st of (b, h, ps, log) \<Rightarrow>
     distinct log \<and> (\<forall>r m. (r, m) \<in> set log \<longrightarrow> fmlookup h r \<noteq> None) \<and>
     (\<forall>r s. fmlookup h r = Some s \<longrightarrow> (\<exists>S. rw_rel (ns_replay s) S \<and> {m. (r, m) \<in> set log} \<subseteq> S)))"

text \<open>Sessions may be updated in any way that only moves their replay window forward.\<close>

definition heap_moves :: "session_heap \<Rightarrow> session_heap \<Rightarrow> bool" where
  "heap_moves h h' \<longleftrightarrow> (\<forall>r. case fmlookup h r of
     None \<Rightarrow> fmlookup h' r = None | Some s \<Rightarrow> \<exists>s'. fmlookup h' r = Some s' \<and> replay_moves s s')"

lemma replay_moves_refl [simp]: "replay_moves s s"
  by (simp add: replay_moves_def)

lemma heap_moves_refl [simp]: "heap_moves h h"
  by (simp add: heap_moves_def split: option.split)

lemma heap_moves_upd: "fmlookup h r = Some s \<Longrightarrow> replay_moves s s' \<Longrightarrow> heap_moves h (fmupd r s' h)"
  by (simp add: heap_moves_def split: option.split)

lemma heap_moves_on: "(\<And>s. ns_replay (f s) = ns_replay s) \<Longrightarrow> heap_moves h (on_session r f h)"
  by (auto simp: on_session_def replay_moves_def intro: heap_moves_upd split: option.split)

lemma replay_moves_rel: "replay_moves s s' \<Longrightarrow> rw_rel (ns_replay s) S \<Longrightarrow> \<exists>S'. rw_rel (ns_replay s') S' \<and> S \<subseteq> S'"
  unfolding replay_moves_def by (metis order_refl rw.rel_accept subset_insertI)

lemma log_inv_at:
  "log_inv (b, h, ps, log) \<Longrightarrow> fmlookup h r = Some s \<Longrightarrow> \<exists>S. rw_rel (ns_replay s) S \<and> {m. (r, m) \<in> set log} \<subseteq> S"
  unfolding log_inv_def by blast

lemma log_inv_moves:
  assumes "log_inv (b, h, ps, log)" and "heap_moves h h'"
  shows "log_inv (b', h', ps', log)"
proof -
  have "\<exists>S. rw_rel (ns_replay s') S \<and> {m. (r, m) \<in> set log} \<subseteq> S" if "fmlookup h' r = Some s'" for r s'
  proof -
    from assms(2) that obtain s where s: "fmlookup h r = Some s" "replay_moves s s'"
      unfolding heap_moves_def by (cases "fmlookup h r") (auto dest: spec [of _ r])
    obtain S where S: "rw_rel (ns_replay s) S" "{m. (r, m) \<in> set log} \<subseteq> S" using log_inv_at [OF assms(1) s(1)] by blast
    obtain S' where "rw_rel (ns_replay s') S'" "S \<subseteq> S'" using replay_moves_rel [OF s(2) S(1)] by blast
    with S(2) show ?thesis by blast
  qed
  moreover have "fmlookup h' r \<noteq> None" if "fmlookup h r \<noteq> None" for r
    using spec [OF assms(2) [unfolded heap_moves_def], of r] that by (cases "fmlookup h r") auto
  ultimately show ?thesis using assms(1) by (auto simp: log_inv_def)
qed

lemma log_inv_admit:
  assumes "log_inv (b, h, ps, log)" and "bridge_admit g decode_bind lookup now b h data addr = (b', h', Admit item)"
  shows "log_inv (b', h', ps', (dg_session item, env_MessageID (dg_env item)) # log)"
proof -
  let ?r = "dg_session item" and ?m = "env_MessageID (dg_env item)"
  obtain s s' where s: "fmlookup h ?r = Some s" "h' = fmupd ?r s' h" "snd (rw_accept (ns_replay s) ?m)"
      "ns_replay s' = fst (rw_accept (ns_replay s) ?m)"
    using admit_cases [OF assms(2)] by (auto simp: admitted_by_def dest!: admit_session_spec)
  obtain S where S: "rw_rel (ns_replay s) S" "{m. (?r, m) \<in> set log} \<subseteq> S" using log_inv_at [OF assms(1) s(1)] by blast
  have new: "?m \<notin> S" "rw_rel (ns_replay s') (insert ?m S)"
    using rw.accept_iff [OF S(1), of ?m] rw.rel_accept [OF S(1), of ?m] s(3,4) by simp_all
  have "\<exists>S. rw_rel (ns_replay t) S \<and> {m. (r, m) \<in> set ((?r, ?m) # log)} \<subseteq> S" if "fmlookup h' r = Some t" for r t
  proof (cases "r = ?r")
    case True
    then show ?thesis using that s(2) S(2) new(2) by (intro exI [of _ "insert ?m S"]) auto
  next
    case False
    then show ?thesis using that assms(1) s(2) by (auto simp: log_inv_def)
  qed
  moreover have "(?r, ?m) \<notin> set log" using new(1) S(2) by blast
  ultimately show ?thesis using assms(1) s(2) by (auto simp: log_inv_def)
qed

lemma bridge_step_log: "bridge_step g st st' \<Longrightarrow> log_inv st \<Longrightarrow> log_inv st'"
proof (induction rule: bridge_step.induct)
  case (br_answer decode_bind lookup now b h data addr b' h' verdict ps log)
  have "heap_moves h h'" using admit_cases [OF br_answer(1)] by (auto dest!: admit_session_spec intro: heap_moves_upd)
  with br_answer show ?case by (auto intro: log_inv_moves)
next
  case (br_admit decode_bind lookup now b h data addr b' h' item ps log)
  then show ?case by (blast intro: log_inv_admit)
next
  case (br_first b h item b' h' finished ps log)
  have "heap_moves h h'" using br_first(1) by (auto simp: enqueue_first_def release_def intro: heap_moves_on split: if_splits)
  with br_first show ?case by (blast intro: log_inv_moves)
next
  case (br_drop_old b h old b' h' item ps log)
  have "heap_moves h h'" using br_drop_old(1) by (auto simp: drop_oldest_def intro: heap_moves_on)
  with br_drop_old show ?case by (blast intro: log_inv_moves)
next
  case (br_second b h item b' h' ps log)
  have "heap_moves h h'" using br_second(1) by (auto simp: enqueue_second_def intro: heap_moves_on split: if_splits)
  with br_second show ?case by (blast intro: log_inv_moves)
next
  case (br_process clock b h item h' delivered ps log)
  have "heap_moves h (on_session r f (on_session r f' h))" if "\<And>s. ns_replay (f s) = ns_replay s" "\<And>s. ns_replay (f' s) = ns_replay s" for r f f'
    using that by (auto simp: on_session_def heap_moves_def replay_moves_def split: option.split)
  then have "heap_moves h h'" using br_process(1)
    by (auto simp: worker_process_def release_def Let_def intro: heap_moves_on split: if_splits)
  with br_process show ?case by (blast intro: log_inv_moves)
next
  case (br_drain b item rest h ps log)
  have "heap_moves h (release g (dg_session item) h)" by (auto simp: release_def intro: heap_moves_on)
  with br_drain show ?case by (blast intro: log_inv_moves)
next
  case (br_control h r s s' b ps log)
  then have "heap_moves h (fmupd r s' h)" by (auto simp: control_change_def intro: heap_moves_upd)
  with br_control show ?case by (blast intro: log_inv_moves)
next
  case (br_session h r s b ps log)
  then have "\<forall>m. (r, m) \<notin> set log" by (auto simp: log_inv_def)
  with br_session rw.rel_initial show ?case by (auto simp: log_inv_def)
qed (auto simp: log_inv_def)

lemma bridge_reachable_inv:
  assumes "NewNodeDatagramBridge g True maxAge configured = Inr b0" and "bridge_reachable g b0 st"
  shows "queue_inv g st \<and> log_inv st"
proof -
  have "0 \<le> DataQueueGlobal l" if "check_limits l = None" for l using check_limits_None [OF that] by linarith
  then have b0: "br_queue b0 = [] \<and> 0 \<le> DataQueueGlobal (br_limits b0) \<and> \<not> br_closed b0"
    using assms(1) by (auto simp: NewNodeDatagramBridge_def normalized_def Let_def split: option.splits)
  show ?thesis using assms(2)
  proof induction
    case initial
    then show ?case using b0 by (simp add: queue_inv_def log_inv_def counted_def)
  next
    case (next_state st st')
    then show ?case by (blast intro: bridge_step_inv bridge_step_log)
  qed
qed

subsection \<open>Properties\<close>

text \<open>C9: Queue reservations are conserved in every interleaving of handlers, workers, the control plane and
  closing: a session's counter is exactly the number of its packets that are on the queue or in
  the hands of a goroutine, it never exceeds the session's share, and the queue never exceeds
  its capacity.  When nothing is queued or in flight all counters are back at zero.\<close>

theorem queue_reservations_exact:
  assumes "NewNodeDatagramBridge g True maxAge configured = Inr b0" and "bridge_reachable g b0 (b, h, ps, log)"
  shows "int (length (br_queue b)) \<le> DataQueueGlobal (br_limits b) \<and>
    (\<forall>r s. fmlookup h r = Some s \<longrightarrow>
      nps_QueuedData (session_ProtectionSnapshot g s) = int (count (reservations (br_queue b) ps) r) \<and>
      nps_QueuedData (session_ProtectionSnapshot g s) \<le> share_of g s \<and>
      (br_queue b = [] \<and> ps = {#} \<longrightarrow> nps_QueuedData (session_ProtectionSnapshot g s) = 0))"
proof -
  have inv: "queue_inv g (b, h, ps, log)" using bridge_reachable_inv [OF assms] by blast
  have snap: "nps_QueuedData (session_ProtectionSnapshot g s) = queued_of g s" for s
    by (simp add: session_ProtectionSnapshot_def snapshot_def queued_of_def)
  have "counted g h (reservations (br_queue b) ps)" using inv by (simp add: queue_inv_def)
  note at = counted_at [OF this]
  show ?thesis unfolding snap
  proof (intro conjI allI impI)
    show "int (length (br_queue b)) \<le> DataQueueGlobal (br_limits b)" using inv by (simp add: queue_inv_def)
  next
    fix r s assume s: "fmlookup h r = Some s"
    with at show "queued_of g s = int (count (reservations (br_queue b) ps) r)" "queued_of g s \<le> share_of g s" by simp_all
    assume "br_queue b = [] \<and> ps = {#}"
    with at [OF s] show "queued_of g s = 0" by simp
  qed
qed

lemma sample_bridge: "\<exists>b0. NewNodeDatagramBridge 4 True 0 None = Inr b0"
proof -
  have "snd (normalized 4 zero_limits) = None" by code_simp
  then show ?thesis by (auto simp: NewNodeDatagramBridge_def Let_def split: prod.splits)
qed

theorem queue_reservations_exact_witness:
  "\<exists>b0. bridge_reachable 4 b0 (b0, fmupd 7 sample_session fmempty, {#}, []) \<and>
    nps_QueuedData (session_ProtectionSnapshot 4 sample_session) \<le> share_of 4 sample_session"
proof -
  obtain b0 where b0: "NewNodeDatagramBridge 4 True 0 None = Inr b0" using sample_bridge by blast
  have "queued_of 4 sample_session = 0" "0 \<le> share_of 4 sample_session"
    unfolding queued_of_def share_of_def resourceProtection_def sample_session_def by code_simp+
  then have "bridge_step 4 (b0, fmempty, {#}, []) (b0, fmupd 7 sample_session fmempty, {#}, [])"
    by (intro br_session) (simp_all add: sample_session_def)
  then have r: "bridge_reachable 4 b0 (b0, fmupd 7 sample_session fmempty, {#}, [])"
    by (rule bridge_reachable.next_state [OF bridge_reachable.initial])
  moreover have "fmlookup (fmupd 7 sample_session fmempty) 7 = Some sample_session" by simp
  ultimately show ?thesis using queue_reservations_exact [OF b0 r] by blast
qed

text \<open>C10: Only authentic traffic reaches the data queue, and each datagram at most once: an admitted packet
  carries a valid HMAC under the key of the session it names, states the node, session and key
  epoch of that session, came from the address bound to the session, and no packet of that
  session with the same message ID was admitted before.  (Admission is one step here; the closing
  flag is not set in the state in which it is made.)\<close>

theorem admitted_datagram_authentic:
  assumes "NewNodeDatagramBridge g True maxAge configured = Inr b0" and "bridge_reachable g b0 (b, h, ps, log)"
    and "bridge_admit g decode_bind lookup now b h data addr = (b', h', Admit item)"
  shows "\<exists>s. fmlookup h (dg_session item) = Some s \<and>
    lookup (string_of (trim_zeros (slice data 6 38))) (env_NodeSessionID (dg_env item)) = Some (dg_session item) \<and>
    drop (length data - 32) data = hmac_sha256 (ns_Key s) (take (length data - 32) data) \<and>
    env_SourceNodeID (dg_env item) = ns_NodeID s \<and> env_NodeSessionID (dg_env item) = ns_SessionID s \<and>
    env_KeyEpoch (dg_env item) = ns_KeyEpoch s \<and> DataAddrMatches s addr \<and> dg_addr item = addr \<and> env_receivedAt (dg_env item) = now \<and>
    (dg_session item, env_MessageID (dg_env item)) \<notin> set log \<and> \<not> br_closing b"
proof -
  obtain s where s: "fmlookup h (dg_session item) = Some s" "\<not> br_closing b" "dg_addr item = addr"
      "lookup (string_of (trim_zeros (slice data 6 38))) (getUint64 (slice data 110 118)) = Some (dg_session item)"
      and by': "admitted_by s data addr now (dg_env item)"
    using admit_item [OF assms(3)] by blast
  obtain e where e: "Unmarshal data (ns_Key s) = Inr e" "dg_env item = e\<lparr>env_receivedAt := now\<rparr>"
    using by' by (auto simp: admitted_by_def)
  have "distinct ((dg_session item, env_MessageID (dg_env item)) # log)"
    using log_inv_admit [OF conjunct2 [OF bridge_reachable_inv [OF assms(1,2)]] assms(3)] by (simp add: log_inv_def)
  moreover have "env_NodeSessionID (dg_env item) = getUint64 (slice data 110 118)" "env_receivedAt (dg_env item) = now"
      "drop (length data - 32) data = hmac_sha256 (ns_Key s) (take (length data - 32) data)"
    using unmarshal_InrD(8,9,11) [OF e(1) [unfolded Unmarshal_def]] by (simp_all add: e(2))
  ultimately show ?thesis using s by' by (intro exI [of _ s]) (simp add: admitted_by_def)
qed

lemma trim_padded_id:
  assumes "length s \<le> n" and "CHR 0x00 \<notin> set s"
  shows "string_of (trim_zeros (pad n (bytes_of s))) = s"
proof -
  have "b \<noteq> 0" if "b \<in> set (bytes_of s)" for b
    using that assms(2) byte_of_0 by (auto simp: bytes_of_def) (metis char_at_byte_of)
  then have "trim_zeros (bytes_of s) = bytes_of s" by (intro trim_zeros_id) (cases "bytes_of s" rule: rev_cases; simp)
  with assms(1) show ?thesis by (simp add: pad_def)
qed

lemma marshalled_shape:
  assumes "Marshal e key = Inr data" and "CHR 0x00 \<notin> set (env_SourceNodeID e)"
  shows "type0_shape data" and "string_of (trim_zeros (slice data 6 38)) = env_SourceNodeID e"
    and "getUint64 (slice data 110 118) = env_NodeSessionID e" and "8 \<le> length key"
proof -
  let ?n = "143 + length (env_Payload e)"
  from assms(1) have key: "8 \<le> length key" and ok: "validateForEncode e 1400 = None"
    and eq: "data = go_copy (envelope_body e) ?n (175 + length (env_Payload e)) (hmac_sha256 key (take ?n (envelope_body e)))"
    by (simp_all add: Marshal_def marshal_Inr Let_def)
  show "8 \<le> length key" by (fact key)
  have sl: "slice data a b = slice (envelope_body e) a b" if "b \<le> 143" for a b using that by (simp add: eq tagged_slice)
  have nt: "data ! i = envelope_body e ! i" if "i < 143" for i using that by (simp add: eq tagged_nth)
  have len: "length data = 175 + length (env_Payload e)" by (simp add: eq)
  show "type0_shape data" by (simp add: type0_shape_def len sl nt)
  show "string_of (trim_zeros (slice data 6 38)) = env_SourceNodeID e"
    using ok trim_padded_id [OF _ assms(2), of 32] by (simp add: sl validateForEncode_None)
  show "getUint64 (slice data 110 118) = env_NodeSessionID e" by (simp add: sl u64.dec_enc)
qed

lemma admit_session_ok:
  assumes "Unmarshal data (ns_Key s) = Inr e" and "env_NodeSessionID e = ns_SessionID s" and "env_KeyEpoch e = ns_KeyEpoch s"
    and "env_SourceNodeID e = ns_NodeID s" and "env_Subtype e \<noteq> 0x06" and "DataAddrMatches s addr"
    and "snd (rw_accept (ns_replay s) (env_MessageID e))" and "snd (allowData (resourceProtection g s) (int (length data)) now)"
    and "queued_of g s < share_of g s"
  shows "\<exists>s'. admit_session g decode_bind now r s data addr =
    (s', False, Admit \<lparr>dg_session = r, dg_env = e\<lparr>env_receivedAt := now\<rparr>, dg_addr = addr\<rparr>)"
proof -
  let ?s = "data_metrics (\<lambda>m. AddIn m (int (length data))) s"
  obtain s1 fresh where s1: "AcceptMessage ?s (env_MessageID e) now = (s1, fresh)" by fastforce
  obtain s2 allowed where s2: "protect_ok g (\<lambda>p. allowData p (int (length data)) now) s1 = (s2, allowed)" by fastforce
  obtain s3 reserved where s3: "protect_ok g reserveQueue s2 = (s3, reserved)" by fastforce
  have p: "resourceProtection g s1 = resourceProtection g s" and fresh: fresh
    using accept_protection [OF s1, of g] assms(7) by simp_all
  then have allowed: allowed using protect_ok_fields [OF s2] assms(8) by simp
  have "DataAddrMatches s2 addr"
    using matches_frame [of s2 s addr] assms(6) by (simp add: data_addr_frame(2) [OF s2] data_addr_frame(1) [OF s1] data_addr_frame(3))
  moreover have "queued_of g s2 < share_of g s2" using allow_session [OF s2] p assms(9) by (simp add: queued_of_def share_of_def)
  then have reserved using protect_ok_fields [OF s3] by (simp add: reserveQueue_def queued_of_def share_of_def Let_def)
  ultimately show ?thesis using assms fresh allowed by (simp add: admit_session_def Let_def s1 s2 s3)
qed

text \<open>C26: The data plane delivers.  Take a datagram other than a bind proof (subtype 6) that an edge sends on its
  session, whose node ID has no NUL, and that the centre, holding the session with the same IDs, key
  and key epoch, receives from the bound address, with a message ID its replay window accepts and
  within the byte and packet budget, while the node's share of the queue is not used up, the queue
  has room and the bridge is neither closing nor closed.  Then \<open>Handle\<close> puts it on the queue behind
  what is there, attributed to that session, with the payload, subtype and message ID that were sent.\<close>

theorem datagram_end_to_end:
  assumes "ns_NodeID s = ns_NodeID (peer_session p)" and "ns_SessionID s = ns_SessionID (peer_session p)"
    and "ns_Key s = ns_Key (peer_session p)" and "ns_KeyEpoch s = ns_KeyEpoch (peer_session p)"
    and "CHR 0x00 \<notin> set (ns_NodeID s)" and "fmlookup h r = Some s" and "lookup (ns_NodeID s) (ns_SessionID s) = Some r"
    and "peer_Send writer p env = (p', Inr data)" and "env_Subtype env \<noteq> 0x06" and "DataAddrMatches s addr"
    and "snd (rw_accept (ns_replay s) (env_MessageID env))" and "snd (allowData (resourceProtection g s) (int (length data)) now)"
    and "queued_of g s < share_of g s" and "\<not> br_closing b" and "\<not> br_closed b" and "queue_has_room b"
  shows "\<exists>b' h' item. bridge_Handle g decode_bind lookup now b h data addr = (b', h', True) \<and>
    br_queue b' = br_queue b @ [item] \<and> dg_session item = r \<and> dg_addr item = addr \<and>
    env_Payload (dg_env item) = env_Payload env \<and> env_Subtype (dg_env item) = env_Subtype env \<and>
    env_MessageID (dg_env item) = env_MessageID env \<and> env_SourceNodeID (dg_env item) = ns_NodeID s"
proof -
  let ?env = "env\<lparr>env_SourceNodeID := ns_NodeID s, env_NodeSessionID := ns_SessionID s, env_KeyEpoch := ns_KeyEpoch s\<rparr>"
  have sent: "Marshal ?env (ns_Key s) = Inr data"
    using assms(1-4,8) by (auto simp: peer_Send_def Let_def split: sum.splits option.splits if_splits)
  have nul: "CHR 0x00 \<notin> set (env_SourceNodeID ?env)" using assms(5) by simp
  note shape = marshalled_shape [OF sent nul]
  let ?e = "?env\<lparr>env_AuthTag := drop (143 + length (env_Payload ?env)) data, env_Duplicate := False, env_receivedAt := zero_time\<rparr>"
  have e: "Unmarshal data (ns_Key s) = Inr ?e"
    using unmarshal_marshal [of ?env "ns_Key s" NodeMaxDatagramSize data] sent nul by (simp add: Marshal_def Unmarshal_def)
  let ?item = "\<lparr>dg_session = r, dg_env = ?e\<lparr>env_receivedAt := now\<rparr>, dg_addr = addr\<rparr>"
  obtain s' where adm: "admit_session g decode_bind now r s data addr = (s', False, Admit ?item)"
    using admit_session_ok [OF e, of addr g now decode_bind r] assms(9-13) by auto
  have "ns_Key s \<noteq> []" using shape(4) by auto
  with adm shape assms(6,7,14) have "bridge_admit g decode_bind lookup now b h data addr = (b, fmupd r s' h, Admit ?item)"
    by (simp add: bridge_admit_def)
  then have "bridge_Handle g decode_bind lookup now b h data addr = (b\<lparr>br_queue := br_queue b @ [?item]\<rparr>, fmupd r s' h, True)"
    using assms(14-16) by (simp add: bridge_Handle_def enqueue_first_def)
  then show ?thesis by (intro exI conjI) (assumption | simp)+
qed

text \<open>The rounds of a worker at the given times, and what it hands on.\<close>

fun worker_rounds :: "int \<Rightarrow> time list \<Rightarrow> NodeDatagramBridge \<Rightarrow> session_heap \<Rightarrow> NodeDatagramBridge \<times> session_heap \<times> nodeDatagram list" where
  "worker_rounds g [] b h = (b, h, [])"
| "worker_rounds g (clock # clocks) b h =
     (case take_oldest b of
        (b, None) \<Rightarrow> worker_rounds g clocks b h
      | (b, Some item) \<Rightarrow>
          let (h, delivered) = worker_process g clock b h item;
              (b', h', items) = worker_rounds g clocks b h
          in (b', h', if delivered then item # items else items))"

lemma stale_frame: "br_limits b' = br_limits b \<Longrightarrow> br_maxAge b' = br_maxAge b \<Longrightarrow> stale_item b' t item = stale_item b t item"
proof -
  assume "br_limits b' = br_limits b" "br_maxAge b' = br_maxAge b"
  then have "max_local_age b' = max_local_age b" by (simp only: max_local_age_def)
  then show ?thesis by (simp only: stale_item_def)
qed

lemma worker_rounds_spec:
  assumes "length (br_queue b) \<le> length clocks" and "worker_rounds g clocks b h = (b', h', items)"
  shows "b' = b\<lparr>br_queue := []\<rparr> \<and> items = map fst (filter (\<lambda>(item, t). \<not> stale_item b t item) (zip (br_queue b) clocks))"
  using assms
proof (induction clocks arbitrary: b h b' h' items)
  case (Cons clock clocks)
  show ?case
  proof (cases "br_queue b")
    case Nil
    with Cons.prems have "worker_rounds g clocks b h = (b', h', items)" by (simp add: take_oldest_def)
    from Cons.IH [OF _ this] Nil show ?thesis by simp
  next
    case (Cons item rest)
    let ?b = "b\<lparr>br_queue := rest\<rparr>"
    obtain h1 delivered where p: "worker_process g clock ?b h item = (h1, delivered)" by fastforce
    then have d: "delivered = (\<not> stale_item b clock item)"
      by (auto simp: worker_process_def Let_def stale_frame [of ?b b] split: if_splits)
    obtain b2 h2 items2 where r: "worker_rounds g clocks ?b h1 = (b2, h2, items2)" by (metis prod_cases3)
    have "b' = b2" "items = (if delivered then item # items2 else items2)"
      using Cons.prems(2) p r \<open>br_queue b = item # rest\<close> by (simp_all add: take_oldest_def)
    moreover have "stale_item ?b = stale_item b" by (intro ext stale_frame) simp_all
    ultimately show ?thesis
      using Cons.IH [OF _ r] Cons.prems(1) \<open>br_queue b = item # rest\<close> d by simp
  qed
qed simp

text \<open>The queue drains: one worker needs at most as many rounds as there are packets to empty it, and it
  hands on every packet that is not too old when its turn comes, in the order of arrival; so
  no packet waits behind others for ever.\<close>

theorem queue_drains:
  assumes "length (br_queue b) \<le> length clocks"
  shows "\<exists>b' h' items. worker_rounds g clocks b h = (b', h', items) \<and> br_queue b' = [] \<and>
    items = map fst (filter (\<lambda>(item, t). \<not> stale_item b t item) (zip (br_queue b) clocks)) \<and>
    (\<forall>i < length (br_queue b). clocks ! i - env_receivedAt (dg_env (br_queue b ! i)) \<le> max_local_age b \<and>
        max_local_age b < 2 ^ 63 - 1 \<longrightarrow> br_queue b ! i \<in> set items)"
proof -
  obtain b' h' items where r: "worker_rounds g clocks b h = (b', h', items)" by (metis prod_cases3)
  note spec = worker_rounds_spec [OF assms r]
  have "br_queue b ! i \<in> set items" if "i < length (br_queue b)"
    "clocks ! i - env_receivedAt (dg_env (br_queue b ! i)) \<le> max_local_age b" "max_local_age b < 2 ^ 63 - 1" for i
  proof -
    have "\<not> stale_item b (clocks ! i) (br_queue b ! i)"
      using that(2,3) by (auto simp: stale_item_def)
    moreover have "(br_queue b ! i, clocks ! i) \<in> set (zip (br_queue b) clocks)"
      using that(1) assms by (auto simp: set_zip)
    ultimately show ?thesis using spec by force
  qed
  with spec r show ?thesis by auto
qed

subsubsection \<open>A sample run\<close>

definition sample_addr :: udp_addr where
  "sample_addr = \<lparr>addr_IP = [10, 0, 0, 1], addr_Port = 9, addr_Zone = []\<rparr>"

definition sample_bound :: NodeSession where
  "sample_bound = sample_session\<lparr>ns_dataAddr := Some sample_addr\<rparr>"

definition sample_peer :: NodeDatagramPeer where
  "sample_peer = \<lparr>peer_session = sample_session, peer_center = sample_addr, peer_hasOnData = True, peer_Metrics = zero_metrics\<rparr>"

definition sample_frame :: envelope where
  "sample_frame = NewEnvelope 0 0x30 [] 0 9 [1, 2]"

lemma sample_sent: "\<exists>data p'. peer_Send (Some (\<lambda>_ _. True)) sample_peer sample_frame = (p', Inr data) \<and> length data = 177"
proof -
  let ?e = "sample_frame\<lparr>env_SourceNodeID := ''edge'', env_NodeSessionID := 7, env_KeyEpoch := 1\<rparr>"
  have "\<exists>data. Marshal ?e (replicate 32 5) = Inr data \<and> length data = 177"
    unfolding Marshal_def marshal_Inr validateForEncode_None by (simp add: sample_frame_def NewEnvelope_def Let_def)
  then show ?thesis by (auto simp: peer_Send_def sample_peer_def sample_session_def Let_def)
qed

lemma sample_facts:
  "snd (rw_accept new_replayWindow 9)" "snd (allowData (resourceProtection 4 sample_bound) 177 0)"
  "queued_of 4 sample_bound = 0" "0 < share_of 4 sample_bound" "DataAddrMatches sample_bound (Some sample_addr)"
  "ns_replay sample_bound = new_replayWindow"
proof -
  have p: "resourceProtection 4 sample_bound = newNodeProtection 4 zero_limits"
    by (simp add: resourceProtection_def sample_bound_def sample_session_def)
  show "snd (allowData (resourceProtection 4 sample_bound) 177 0)" "queued_of 4 sample_bound = 0" "0 < share_of 4 sample_bound"
    unfolding queued_of_def share_of_def p by code_simp+
  show "snd (rw_accept new_replayWindow 9)" by (simp add: rw_accept_def new_replayWindow_def Let_def)
  show "DataAddrMatches sample_bound (Some sample_addr)" by (simp add: DataAddrMatches_def sample_bound_def ip_equal_def)
  show "ns_replay sample_bound = new_replayWindow" by (simp add: sample_bound_def sample_session_def)
qed

lemma sample_fields:
  "ns_NodeID sample_bound = ''edge''" "ns_SessionID sample_bound = 7" "ns_Key sample_bound = replicate 32 5" "ns_KeyEpoch sample_bound = 1"
  "ns_NodeID (peer_session sample_peer) = ''edge''" "ns_SessionID (peer_session sample_peer) = 7"
  "ns_Key (peer_session sample_peer) = replicate 32 5" "ns_KeyEpoch (peer_session sample_peer) = 1"
  "env_Subtype sample_frame = 0x30" "env_MessageID sample_frame = 9"
  by (simp_all add: sample_bound_def sample_peer_def sample_session_def sample_frame_def NewEnvelope_def)

lemma sample_room: "NewNodeDatagramBridge 4 True 0 None = Inr b0 \<Longrightarrow> queue_has_room b0 \<and> \<not> br_closing b0 \<and> \<not> br_closed b0 \<and> br_queue b0 = []"
  using check_limits_None(6,7) [of "br_limits b0"]
  by (auto simp: NewNodeDatagramBridge_def normalized_def queue_has_room_def Let_def split: option.splits)

theorem datagram_end_to_end_witness:
  "\<exists>data b h b' h' item. bridge_Handle 4 (\<lambda>_. None) (\<lambda>_ _. Some 3) 0 b h data (Some sample_addr) = (b', h', True) \<and>
    br_queue b' = br_queue b @ [item] \<and> dg_session item = 3 \<and> env_Payload (dg_env item) = env_Payload sample_frame"
proof -
  obtain b0 where b0: "NewNodeDatagramBridge 4 True 0 None = Inr b0" using sample_bridge by blast
  obtain data p' where d: "peer_Send (Some (\<lambda>_ _. True)) sample_peer sample_frame = (p', Inr data)" "length data = 177"
    using sample_sent by blast
  have "\<exists>b' h' item. bridge_Handle 4 (\<lambda>_. None) (\<lambda>_ _. Some 3) 0 b0 (fmupd 3 sample_bound fmempty) data (Some sample_addr) = (b', h', True) \<and>
    br_queue b' = br_queue b0 @ [item] \<and> dg_session item = 3 \<and> dg_addr item = Some sample_addr \<and>
    env_Payload (dg_env item) = env_Payload sample_frame \<and> env_Subtype (dg_env item) = env_Subtype sample_frame \<and>
    env_MessageID (dg_env item) = env_MessageID sample_frame \<and> env_SourceNodeID (dg_env item) = ns_NodeID sample_bound"
    by (rule datagram_end_to_end [OF _ _ _ _ _ _ _ d(1)]) (use sample_room [OF b0] d(2) in \<open>auto simp: sample_fields sample_facts\<close>)
  then show ?thesis by blast
qed

theorem admitted_datagram_authentic_witness:
  "\<exists>data. drop (length data - 32) data = hmac_sha256 (replicate 32 5) (take (length data - 32) data) \<and> length data = 177"
proof -
  obtain b0 where b0: "NewNodeDatagramBridge 4 True 0 None = Inr b0" using sample_bridge by blast
  let ?h = "fmupd 3 sample_bound fmempty"
  have "bridge_step 4 (b0, fmempty, {#}, []) (b0, ?h, {#}, [])"
    using sample_facts by (intro br_session) simp_all
  then have r: "bridge_reachable 4 b0 (b0, ?h, {#}, [])" by (rule bridge_reachable.next_state [OF bridge_reachable.initial])
  obtain data p' where d: "peer_Send (Some (\<lambda>_ _. True)) sample_peer sample_frame = (p', Inr data)" "length data = 177"
    using sample_sent by blast
  let ?e = "sample_frame\<lparr>env_SourceNodeID := ''edge'', env_NodeSessionID := 7, env_KeyEpoch := 1\<rparr>"
  have sent: "Marshal ?e (ns_Key sample_bound) = Inr data"
    using d(1) by (auto simp: peer_Send_def sample_fields Let_def split: sum.splits)
  then have e: "Unmarshal data (ns_Key sample_bound) = Inr (?e\<lparr>env_AuthTag := drop (143 + length (env_Payload ?e)) data,
      env_Duplicate := False, env_receivedAt := zero_time\<rparr>)"
    using unmarshal_marshal [of ?e "ns_Key sample_bound" NodeMaxDatagramSize data] by (simp add: Marshal_def Unmarshal_def)
  obtain s' item where "admit_session 4 (\<lambda>_. None) 0 3 sample_bound data (Some sample_addr) = (s', False, Admit item)"
    using admit_session_ok [OF e, of "Some sample_addr" 4 0 "\<lambda>_. None" 3] d(2) by (auto simp: sample_fields sample_facts)
  then have "bridge_admit 4 (\<lambda>_. None) (\<lambda>_ _. Some 3) 0 b0 ?h data (Some sample_addr) = (b0, fmupd 3 s' ?h, Admit item)"
    using marshalled_shape [OF sent] sample_room [OF b0] by (simp add: bridge_admit_def sample_fields)
  from admitted_datagram_authentic [OF b0 r this] show ?thesis
    by (intro exI [of _ data]) (auto simp: d(2) sample_fields split: if_splits)
qed

theorem queue_drains_witness:
  "\<exists>b b' h' items. length (br_queue b) = 1 \<and> worker_rounds 4 [5] b fmempty = (b', h', items) \<and> br_queue b' = [] \<and> items = br_queue b"
proof -
  obtain b0 where b0: "NewNodeDatagramBridge 4 True 0 None = Inr b0" using sample_bridge by blast
  let ?item = "\<lparr>dg_session = 3, dg_env = sample_frame\<lparr>env_receivedAt := 5\<rparr>, dg_addr = None\<rparr>"
  let ?b = "b0\<lparr>br_queue := [?item]\<rparr>"
  have "\<not> stale_item ?b 5 ?item" by (simp add: stale_item_def time_sub_def)
  moreover obtain b' h' items where "worker_rounds 4 [5] ?b fmempty = (b', h', items)" "br_queue b' = []"
      "items = map fst (filter (\<lambda>(item, t). \<not> stale_item ?b t item) (zip (br_queue ?b) [5]))"
    using queue_drains [of ?b "[5]" 4 fmempty] by auto
  ultimately show ?thesis by (intro exI [of _ ?b] exI [of _ b'] exI [of _ h'] exI [of _ items]) simp
qed

end
