(* ===== verification/Relay_Path.thy ===== *)
theory Relay_Path
  imports Relay_Inner Node_Datagram Speaker_Lease Ghost_Registry
begin

unbundle bit_operations_syntax

section \<open>The path of a relayed packet (\<open>internal/interconnect/edge_gateway_voice.go\<close>, \<open>center_gateway_relay.go\<close>)\<close>

text \<open>
  An edge puts the packet of a device into a relay frame, with the source group in the reserved
  field when the centre understands it (\<open>sendEdgeRelay\<close>); the centre resolves the sender by its own
  tables, checks the packet and, for voice, the speaker lease, and hands the frame to the cluster
  (\<open>handleRelayUpstream\<close>).  Leases are claimed through \<open>handleSpeakerLease\<close>.

  Of the gateway's fields the record below has those the two handlers use: the projection of the
  cluster manager (none without a cluster), the owners of device sessions, the lease manager, the
  global ghost registry, and whether a handler for accepted packets and a node server are set.
  A handler runs here against one state of these tables; the code reads them under separate locks.
  What it hands on, to the accepted-packet handler and to \<^verbatim>\<open>ClusterManager.Relay\<close>, are events.
\<close>

abbreviation (input) NodeFeatureGhostMultiSession :: u64 where "NodeFeatureGhostMultiSession \<equiv> 0x100"
abbreviation (input) SubtypeRelayUpstream :: byte where "SubtypeRelayUpstream \<equiv> 0x30"

record deviceSessionOwner =
  dso_NodeID :: string
  dso_ControlSessionID :: u64
  dso_SessionID :: u64
  dso_SessionEpoch :: u64
  dso_DeviceID :: int
  dso_OwnerID :: int
  dso_SSID :: byte
  dso_Identity :: string
  dso_GhostSessionID :: string
  dso_ClientInstanceID :: string

definition no_owner :: deviceSessionOwner where
  "no_owner = \<lparr>dso_NodeID = [], dso_ControlSessionID = 0, dso_SessionID = 0, dso_SessionEpoch = 0, dso_DeviceID = 0,
     dso_OwnerID = 0, dso_SSID = 0, dso_Identity = [], dso_GhostSessionID = [], dso_ClientInstanceID = []\<rparr>"

record CenterGateway =
  cg_cluster :: "Projection option"
  cg_server :: bool
  cg_deviceSessions :: "(u64, deviceSessionOwner) fmap"
  cg_speaker :: "SpeakerLeaseManager option"
  cg_ghosts :: Registry
  cg_onAcceptedRelay :: bool

record AcceptedRelay =
  acr_SessionID :: u64
  acr_DeviceID :: int
  acr_OwnerID :: int
  acr_Username :: string
  acr_CallSign :: string
  acr_Nickname :: string
  acr_SSID :: byte
  acr_DevModel :: byte
  acr_GroupID :: int
  acr_Type :: byte
  acr_Payload :: bytes

datatype relay_event = Accepted AcceptedRelay | Relayed string RelayFrame

text \<open>A missing key of a Go map reads as the zero value.\<close>

definition session_owner :: "CenterGateway \<Rightarrow> u64 \<Rightarrow> deviceSessionOwner" where
  "session_owner g sessionID = (case fmlookup (cg_deviceSessions g) sessionID of Some owner \<Rightarrow> owner | None \<Rightarrow> no_owner)"

definition ResolveRoute :: "Projection \<Rightarrow> u64 \<Rightarrow> DeviceRoute option" where
  "ResolveRoute p sessionID = fmlookup (devices_of p) sessionID"

subsection \<open>The edge\<close>

definition relay_inner :: "NodeSession \<Rightarrow> DeviceGrant \<Rightarrow> bytes \<Rightarrow> bytes" where
  "relay_inner session grant inner =
     (if ns_Features session AND NodeFeatureGhostMultiSession \<noteq> 0
      then (case WithSourceGroupID inner (gr_GroupID grant) of Some tagged \<Rightarrow> tagged | None \<Rightarrow> inner)
      else inner)"

text \<open>The state is the request counter; the result is the envelope handed to the link, if any.\<close>

definition sendEdgeRelay ::
  "time \<Rightarrow> NodeSession option \<Rightarrow> u64 \<Rightarrow> u64 \<Rightarrow> DeviceGrant \<Rightarrow> bytes \<Rightarrow> u64 \<Rightarrow> u64 \<times> envelope option" where
  "sendEdgeRelay clock link projectionVersion nextRequest grant inner leaseID =
     (case link of
        None \<Rightarrow> (nextRequest, None)
      | Some session \<Rightarrow>
          let frame = \<lparr>rf_SessionID = gr_SessionID grant, rf_SessionEpoch = gr_SessionEpoch grant, rf_DomainID = gr_DomainID grant,
                        rf_RequiredProjectionVersion = projectionVersion, rf_SpeakerLeaseID = leaseID,
                        rf_InnerPacket = relay_inner session grant inner\<rparr>
          in case MarshalBinary frame of
               Inl _ \<Rightarrow> (nextRequest, None)
             | Inr payload \<Rightarrow>
                 let request = nextRequest + 1;
                     env = NewEnvelope clock SubtypeRelayUpstream (ns_NodeID session) (ns_SessionID session) request payload
                 in (request, Some (env\<lparr>env_ProjectionVersion := rf_RequiredProjectionVersion frame\<rparr>)))"

subsection \<open>The centre\<close>

definition accepted_relay :: "deviceSessionOwner \<Rightarrow> DeviceRoute \<Rightarrow> RelayFrame \<Rightarrow> AcceptedRelay" where
  "accepted_relay owner route frame =
     \<lparr>acr_SessionID = rf_SessionID frame, acr_DeviceID = rt_DeviceID route, acr_OwnerID = dso_OwnerID owner,
      acr_Username = rt_Username route, acr_CallSign = rt_CallSign route, acr_Nickname = rt_Nickname route,
      acr_SSID = rt_SSID route, acr_DevModel = rt_DevModel route, acr_GroupID = rt_GroupID route,
      acr_Type = rf_InnerPacket frame ! 48, acr_Payload = drop DraARLHeaderSize (rf_InnerPacket frame)\<rparr>"

text \<open>The speaker check on an accepted frame: voice needs its lease, text must not carry one.\<close>

definition speaker_check :: "time \<Rightarrow> time \<Rightarrow> CenterGateway \<Rightarrow> NodeSession \<Rightarrow> deviceSessionOwner \<Rightarrow> RelayFrame \<Rightarrow> CenterGateway \<times> bool" where
  "speaker_check now1 now2 g session owner frame =
     (if rf_InnerPacket frame ! 48 = DraARLTypeOpus16K then
        case cg_speaker g of
          None \<Rightarrow> (g, False)
        | Some m \<Rightarrow>
            let (m, ok) = AcceptFrame now1 m (ns_NodeID session) (ns_SessionID session) frame now1;
                g = g\<lparr>cg_speaker := Some m\<rparr>
            in if \<not> ok then (g, False)
               else (g\<lparr>cg_ghosts := fst (MarkPTTActive now2 (cg_ghosts g) (dso_GhostSessionID owner) now2)\<rparr>, True)
      else (g, rf_SpeakerLeaseID frame = 0))"

definition handleRelayUpstream ::
  "time \<Rightarrow> time \<Rightarrow> CenterGateway \<Rightarrow> NodeSession option \<Rightarrow> envelope \<Rightarrow> CenterGateway \<times> relay_event list \<times> bool" where
  "handleRelayUpstream now1 now2 g sess env =
     (case (sess, cg_cluster g) of
        (Some session, Some projection) \<Rightarrow>
          (case UnmarshalRelayFrame (env_Payload env) of
             Inl _ \<Rightarrow> (g, [], False)
           | Inr frame \<Rightarrow>
               if ValidateRelayInnerPacket (rf_InnerPacket frame) \<noteq> None then (g, [], False)
               else
                 let owner = session_owner g (rf_SessionID frame)
                 in if dso_NodeID owner \<noteq> ns_NodeID session \<or> dso_ControlSessionID owner \<noteq> ns_SessionID session then (g, [], False)
                    else case ResolveRoute projection (rf_SessionID frame) of
                           None \<Rightarrow> (g, [], False)
                         | Some route \<Rightarrow>
                             if rt_DisableSend route \<or> rt_SessionEpoch route \<noteq> rf_SessionEpoch frame \<or> rt_DomainID route = 0
                             then (g, [], False)
                             else if \<not> RelayInnerIdentityMatches (rf_InnerPacket frame) (rt_Username route) (rt_CallSign route) (rt_SSID route)
                             then (g, [], False)
                             else
                               let frame = frame\<lparr>rf_DomainID := rt_DomainID route\<rparr>;
                                   (g, ok) = speaker_check now1 now2 g session owner frame
                               in if \<not> ok then (g, [], False)
                                  else
                                    let accepted = (if cg_onAcceptedRelay g then [Accepted (accepted_relay owner route frame)] else []);
                                        frame = (case WithSourceGroupID (rf_InnerPacket frame) (rt_GroupID route) of
                                                   Some tagged \<Rightarrow> frame\<lparr>rf_InnerPacket := tagged\<rparr>
                                                 | None \<Rightarrow> frame)
                                    in (g, accepted @ [Relayed (ns_NodeID session) frame], True))
      | _ \<Rightarrow> (g, [], False))"

text \<open>The answer to a lease message is the control message sent back, if there is one.\<close>

definition lease_eligible :: "CenterGateway \<Rightarrow> NodeSession \<Rightarrow> SpeakerLeaseControl \<Rightarrow> bool" where
  "lease_eligible g session message =
     (case (cg_cluster g, fmlookup (cg_deviceSessions g) (sl_SessionID message)) of
        (Some projection, Some owner) \<Rightarrow>
          dso_NodeID owner = ns_NodeID session \<and> dso_ControlSessionID owner = ns_SessionID session \<and>
          dso_SessionEpoch owner = sl_SessionEpoch message \<and>
          (case ResolveRoute projection (sl_SessionID message) of
             None \<Rightarrow> False
           | Some route \<Rightarrow> rt_SessionEpoch route = sl_SessionEpoch message \<and> rt_DomainID route = sl_DomainID message \<and>
               \<not> rt_DisableSend route)
      | _ \<Rightarrow> False)"

definition handleSpeakerLease ::
  "time \<Rightarrow> CenterGateway \<Rightarrow> NodeSession option \<Rightarrow> SpeakerLeaseControl \<Rightarrow> CenterGateway \<times> SpeakerLeaseControl option" where
  "handleSpeakerLease now g sess message =
     (case (sess, cg_speaker g) of
        (Some session, Some m) \<Rightarrow>
          if sl_Action message = SpeakerLeaseActionRelease then
            (g\<lparr>cg_speaker := Some (fst (Release m (ns_NodeID session) (ns_SessionID session) message))\<rparr>, None)
          else if sl_Action message \<noteq> SpeakerLeaseActionClaim then (g, None)
          else
            let denial = message\<lparr>sl_Action := SpeakerLeaseActionDeny, sl_LeaseID := 0, sl_TTLMillis := 0, sl_RetryAfterMillis := 0\<rparr>;
                (m, response) = (if lease_eligible g session message
                                 then Claim now m (ns_NodeID session) (ns_SessionID session) message now
                                 else (m, denial))
            in (g\<lparr>cg_speaker := Some m\<rparr>, if cg_server g \<and> cg_cluster g \<noteq> None then Some response else None)
      | _ \<Rightarrow> (g, None))"

subsection \<open>Tagging a packet with its group\<close>

lemma WithSourceGroupID_tag:
  assumes "WithSourceGroupID data gid = Some out"
  shows "length out = length data" "take 86 out = take 86 data" "drop 90 out = drop 90 data"
    "slice out 86 90 = putUint32 (of_int gid)" "90 \<le> length data" "0 < gid" "gid < 2 ^ 32"
proof -
  have "WithReservedUint32 data (of_int gid) = Some out" and range: "90 \<le> length data" "0 < gid" "gid < 2 ^ 32"
    using assms by (auto simp: WithSourceGroupID_def WithReservedUint32_def split: if_splits)
  from WithReservedUint32_tag [OF this(1)] show "length out = length data" "take 86 out = take 86 data" "drop 90 out = drop 90 data"
    by simp_all
  show "slice out 86 90 = putUint32 (of_int gid)"
    using assms by (auto simp: WithSourceGroupID_def buffer_simps u32.length_enc split: if_splits)
  show "90 \<le> length data" "0 < gid" "gid < 2 ^ 32" by fact+
qed

text \<open>The checks on a relayed packet read only the first 86 bytes and the length.\<close>

definition same_packet :: "bytes \<Rightarrow> bytes \<Rightarrow> bool" where
  "same_packet a b \<longleftrightarrow> length a = length b \<and> take 86 a = take 86 b \<and> drop 90 a = drop 90 b"

lemma same_packet_refl [simp]: "same_packet a a"
  by (simp add: same_packet_def)

lemma same_packet_trans: "same_packet a b \<Longrightarrow> same_packet b c \<Longrightarrow> same_packet a c"
  by (simp add: same_packet_def)

lemma same_packet_reads:
  assumes "same_packet a b" and "90 \<le> length b"
  shows "i < 86 \<Longrightarrow> a ! i = b ! i" and "j \<le> 86 \<Longrightarrow> slice a i j = slice b i j"
proof -
  have "a ! i = take 86 a ! i" "b ! i = take 86 b ! i" if "i < 86" using that by simp_all
  then show "i < 86 \<Longrightarrow> a ! i = b ! i" using assms(1) by (simp only: same_packet_def)
  have "slice a i j = slice (take 86 a) i j" "slice b i j = slice (take 86 b) i j" if "j \<le> 86"
    using that by (simp_all add: slice_def drop_take min_absorb1)
  then show "j \<le> 86 \<Longrightarrow> slice a i j = slice b i j" using assms by (simp add: same_packet_def)
qed

lemma same_packet_valid:
  assumes "same_packet a b" and "90 \<le> length b"
  shows "ValidateRelayInnerPacket a = ValidateRelayInnerPacket b"
    "RelayInnerIdentityMatches a u cs ssid = RelayInnerIdentityMatches b u cs ssid"
proof -
  have len: "length a = length b" using assms by (simp add: same_packet_def)
  have reads: "a ! 48 = b ! 48" "a ! 50 = b ! 50" "slice a 4 6 = slice b 4 6" "slice a 38 48 = slice b 38 48"
    "slice a 6 38 = slice b 6 38" "slice a 54 86 = slice b 54 86" "has_magic a = has_magic b"
    by (simp_all add: same_packet_reads [OF assms] has_magic_def)
  show "ValidateRelayInnerPacket a = ValidateRelayInnerPacket b"
    "RelayInnerIdentityMatches a u cs ssid = RelayInnerIdentityMatches b u cs ssid"
    unfolding ValidateRelayInnerPacket_def RelayInnerIdentityMatches_def reads len by (rule refl)+
qed

lemma relay_inner_same: "same_packet (relay_inner session grant inner) inner"
  using WithSourceGroupID_tag [of inner "gr_GroupID grant"]
  by (auto simp: relay_inner_def same_packet_def split: option.split)

subsection \<open>From the edge to the centre\<close>

text \<open>The centre's tables hold the grant: it owns the session's route, by this control session of the node.\<close>

definition centre_knows :: "CenterGateway \<Rightarrow> NodeSession \<Rightarrow> DeviceGrant \<Rightarrow> bool" where
  "centre_knows g session grant \<longleftrightarrow>
     (case (cg_cluster g, fmlookup (cg_deviceSessions g) (gr_SessionID grant)) of
        (Some p, Some owner) \<Rightarrow> ResolveRoute p (gr_SessionID grant) = Some (Route grant) \<and>
          dso_NodeID owner = ns_NodeID session \<and> dso_ControlSessionID owner = ns_SessionID session \<and>
          dso_SessionEpoch owner = gr_SessionEpoch grant
      | _ \<Rightarrow> False)"

definition holds_lease :: "CenterGateway \<Rightarrow> NodeSession \<Rightarrow> DeviceGrant \<Rightarrow> u64 \<Rightarrow> time \<Rightarrow> bool" where
  "holds_lease g session grant leaseID now \<longleftrightarrow> leaseID \<noteq> 0 \<and>
     (case cg_speaker g of
        None \<Rightarrow> False
      | Some m \<Rightarrow>
          (case lease_get m (gr_DomainID grant) of
             None \<Rightarrow> False
           | Some state \<Rightarrow> \<not> speakerLeaseExpired state now \<and> ls_leaseID state = leaseID \<and>
               ls_owner state = leaseOwner (ns_NodeID session) (ns_SessionID session) (gr_SessionID grant) (gr_SessionEpoch grant)))"

text \<open>The two ends of a control session agree, as a handshake leaves them.\<close>

definition same_session :: "NodeSession \<Rightarrow> NodeSession \<Rightarrow> bool" where
  "same_session edge centre \<longleftrightarrow> ns_NodeID edge = ns_NodeID centre \<and> ns_SessionID edge = ns_SessionID centre \<and> ns_Key edge = ns_Key centre"

lemma AcceptFrame_lease:
  assumes "holds_lease g session grant leaseID now" and "gr_DomainID grant \<noteq> 0"
    and "rf_SessionID f = gr_SessionID grant" and "rf_SessionEpoch f = gr_SessionEpoch grant"
    and "rf_DomainID f = gr_DomainID grant" and "rf_SpeakerLeaseID f = leaseID"
  obtains m m' where "cg_speaker g = Some m" "AcceptFrame now m (ns_NodeID session) (ns_SessionID session) f now = (m', True)"
  using assms by (auto simp: holds_lease_def AcceptFrame_def or_now_def split: option.splits)

lemma edge_wire:
  assumes "gr_SessionID grant \<noteq> 0" "gr_SessionEpoch grant \<noteq> 0" "gr_DomainID grant \<noteq> 0"
    and "90 \<le> length inner" "length inner \<le> 800"
    and "ns_NodeID es \<noteq> []" "length (ns_NodeID es) \<le> 32" "CHR 0x00 \<notin> set (ns_NodeID es)" "8 \<le> length (ns_Key es)"
    and "\<forall>data. w (peer_center p) data" and "peer_session p = es"
  obtains env p' wire e f where "sendEdgeRelay clock (Some es) v n grant inner leaseID = (n + 1, Some env)"
    "peer_Send (Some w) p env = (p', Inr wire)" "Unmarshal wire (ns_Key es) = Inr e" "UnmarshalRelayFrame (env_Payload e) = Inr f"
    "f = \<lparr>rf_SessionID = gr_SessionID grant, rf_SessionEpoch = gr_SessionEpoch grant, rf_DomainID = gr_DomainID grant,
          rf_RequiredProjectionVersion = v, rf_SpeakerLeaseID = leaseID, rf_InnerPacket = relay_inner es grant inner\<rparr>"
proof -
  define f where "f = \<lparr>rf_SessionID = gr_SessionID grant, rf_SessionEpoch = gr_SessionEpoch grant, rf_DomainID = gr_DomainID grant,
          rf_RequiredProjectionVersion = v, rf_SpeakerLeaseID = leaseID, rf_InnerPacket = relay_inner es grant inner\<rparr>"
  have len: "length (rf_InnerPacket f) = length inner"
    using relay_inner_same [of es grant inner] by (simp add: f_def same_packet_def)
  then obtain body where body: "MarshalBinary f = Inr body"
    using assms(1-5) by (simp add: MarshalBinary_def Let_def f_def)
  have size: "length body \<le> 842" using body len assms(5) by (auto simp: MarshalBinary_def Let_def split: if_splits)
  let ?env = "(NewEnvelope clock SubtypeRelayUpstream (ns_NodeID es) (ns_SessionID es) (n + 1) body)\<lparr>env_ProjectionVersion := v\<rparr>"
  let ?e = "?env\<lparr>env_SourceNodeID := ns_NodeID es, env_NodeSessionID := ns_SessionID es, env_KeyEpoch := ns_KeyEpoch es\<rparr>"
  have "validateForEncode ?e NodeMaxDatagramSize = None"
    using assms(6,7) size by (simp add: validateForEncode_None NewEnvelope_def)
  then obtain wire where wire: "Marshal ?e (ns_Key es) = Inr wire"
    using assms(9) by (auto simp: Marshal_def marshal_def Let_def)
  from unmarshal_marshal [of ?e "ns_Key es" NodeMaxDatagramSize wire] wire assms(8)
  have un: "Unmarshal wire (ns_Key es) = Inr (?e\<lparr>env_AuthTag := drop (143 + length (env_Payload ?e)) wire, env_Duplicate := False,
      env_receivedAt := zero_time\<rparr>)" (is "_ = Inr ?e'")
    by (simp add: Marshal_def Unmarshal_def NewEnvelope_def)
  have "env_Payload ?e' = body" by (simp add: NewEnvelope_def)
  moreover have "sendEdgeRelay clock (Some es) v n grant inner leaseID = (n + 1, Some ?env)"
    using body by (simp add: sendEdgeRelay_def f_def Let_def)
  moreover have "peer_Send (Some w) p ?env = (peer_metrics (\<lambda>m. AddOut m (int (length wire))) p, Inr wire)"
    using wire assms(10,11) by (simp add: peer_Send_def Let_def)
  ultimately show thesis
    using that [OF _ _ un] UnmarshalRelayFrame_MarshalBinary [OF body] by (simp add: f_def)
qed

lemma speaker_check_ok:
  assumes "rf_InnerPacket f ! 48 = t" and "gr_DomainID grant \<noteq> 0"
    and "t = DraARLTypeTextMessage \<and> leaseID = 0 \<or> t = DraARLTypeOpus16K \<and> holds_lease g session grant leaseID now"
    and "rf_SessionID f = gr_SessionID grant" "rf_SessionEpoch f = gr_SessionEpoch grant"
      "rf_DomainID f = gr_DomainID grant" "rf_SpeakerLeaseID f = leaseID"
  shows "snd (speaker_check now now2 g session owner f)"
  using assms(3)
proof (elim disjE conjE)
  assume t: "t = DraARLTypeOpus16K" and lease: "holds_lease g session grant leaseID now"
  obtain m m' where "cg_speaker g = Some m" "AcceptFrame now m (ns_NodeID session) (ns_SessionID session) f now = (m', True)"
    using AcceptFrame_lease [OF lease assms(2,4-7)] .
  then show ?thesis using assms(1) t by (simp add: speaker_check_def Let_def)
qed (use assms in \<open>simp add: speaker_check_def\<close>)

lemma speaker_check_hook: "cg_onAcceptedRelay (fst (speaker_check now1 now2 g session owner f)) = cg_onAcceptedRelay g"
  by (simp add: speaker_check_def Let_def split_beta split: option.split)

lemma tagged_frame:
  assumes "f' = (case WithSourceGroupID (rf_InnerPacket f) gid of Some tagged \<Rightarrow> f\<lparr>rf_InnerPacket := tagged\<rparr> | None \<Rightarrow> f)"
    and "90 \<le> length (rf_InnerPacket f)"
  shows "same_packet (rf_InnerPacket f') (rf_InnerPacket f)"
    "rf_SessionID f' = rf_SessionID f" "rf_SessionEpoch f' = rf_SessionEpoch f" "rf_DomainID f' = rf_DomainID f"
    "rf_SpeakerLeaseID f' = rf_SpeakerLeaseID f"
    "0 < gid \<Longrightarrow> gid < 2 ^ 32 \<Longrightarrow> ReservedUint32 (slice (rf_InnerPacket f') 86 90) = of_int gid"
proof -
  show "same_packet (rf_InnerPacket f') (rf_InnerPacket f)"
    "rf_SessionID f' = rf_SessionID f" "rf_SessionEpoch f' = rf_SessionEpoch f" "rf_DomainID f' = rf_DomainID f"
    "rf_SpeakerLeaseID f' = rf_SpeakerLeaseID f"
    using WithSourceGroupID_tag [of "rf_InnerPacket f" gid] assms(1) by (auto simp: same_packet_def split: option.splits)
  show "ReservedUint32 (slice (rf_InnerPacket f') 86 90) = of_int gid" if range: "0 < gid" "gid < 2 ^ 32"
  proof -
    obtain out where "WithSourceGroupID (rf_InnerPacket f) gid = Some out"
      using range assms(2) by (auto simp: WithSourceGroupID_def)
    then show ?thesis using WithSourceGroupID_tag(4) assms(1) by simp
  qed
qed

lemma accepted_same:
  "same_packet (rf_InnerPacket a) (rf_InnerPacket b) \<Longrightarrow> 90 \<le> length (rf_InnerPacket b) \<Longrightarrow> rf_SessionID a = rf_SessionID b \<Longrightarrow>
    accepted_relay owner route a = accepted_relay owner route b"
  using same_packet_reads(1) [of "rf_InnerPacket a" "rf_InnerPacket b" 48] by (simp add: accepted_relay_def same_packet_def)

lemma upstream_accepts:
  assumes "centre_knows g session grant" and "\<not> gr_DisableSend grant" and "gr_DomainID grant \<noteq> 0"
    and "UnmarshalRelayFrame (env_Payload e) = Inr f"
    and f: "rf_SessionID f = gr_SessionID grant" "rf_SessionEpoch f = gr_SessionEpoch grant"
      "rf_DomainID f = gr_DomainID grant" "rf_SpeakerLeaseID f = leaseID"
    and inner: "same_packet (rf_InnerPacket f) inner" "90 \<le> length inner" "inner ! 48 = t"
    and valid: "ValidateRelayInnerPacket inner = None" "RelayInnerIdentityMatches inner (gr_Username grant) (gr_CallSign grant) (gr_SSID grant)"
    and lease: "t = DraARLTypeTextMessage \<and> leaseID = 0 \<or> t = DraARLTypeOpus16K \<and> holds_lease g session grant leaseID now1"
  obtains g' f' where "handleRelayUpstream now1 now2 g (Some session) e = (g',
      (if cg_onAcceptedRelay g then [Accepted (accepted_relay (session_owner g (gr_SessionID grant)) (Route grant) f')] else []) @
        [Relayed (ns_NodeID session) f'], True)"
    "rf_SessionID f' = gr_SessionID grant" "rf_SessionEpoch f' = gr_SessionEpoch grant" "rf_DomainID f' = gr_DomainID grant"
    "rf_SpeakerLeaseID f' = leaseID" "same_packet (rf_InnerPacket f') inner"
    "0 < gr_GroupID grant \<and> gr_GroupID grant < 2 ^ 32 \<longrightarrow> ReservedUint32 (slice (rf_InnerPacket f') 86 90) = of_int (gr_GroupID grant)"
proof -
  define f' where "f' = (case WithSourceGroupID (rf_InnerPacket f) (gr_GroupID grant) of
      Some tagged \<Rightarrow> f\<lparr>rf_InnerPacket := tagged\<rparr> | None \<Rightarrow> f)"
  have len: "90 \<le> length (rf_InnerPacket f)" using inner by (simp add: same_packet_def)
  note tag = tagged_frame [OF f'_def len]
  obtain p owner where p: "cg_cluster g = Some p" "fmlookup (cg_deviceSessions g) (gr_SessionID grant) = Some owner"
    "ResolveRoute p (gr_SessionID grant) = Some (Route grant)"
    "dso_NodeID owner = ns_NodeID session" "dso_ControlSessionID owner = ns_SessionID session"
    using assms(1) by (auto simp: centre_knows_def split: option.splits)
  have owner: "session_owner g (gr_SessionID grant) = owner" using p by (simp add: session_owner_def)
  have route: "rt_Username (Route grant) = gr_Username grant" "rt_CallSign (Route grant) = gr_CallSign grant"
    "rt_SSID (Route grant) = gr_SSID grant" "rt_DisableSend (Route grant) = gr_DisableSend grant"
    "rt_SessionEpoch (Route grant) = gr_SessionEpoch grant" "rt_DomainID (Route grant) = gr_DomainID grant"
    "rt_GroupID (Route grant) = gr_GroupID grant"
    by (simp_all add: Route_def)
  have same: "f\<lparr>rf_DomainID := gr_DomainID grant\<rparr> = f" using f(3) by simp
  have type: "rf_InnerPacket f ! 48 = t" using same_packet_reads(1) [OF inner(1,2), of 48] inner(3) by simp
  obtain g' where g': "speaker_check now1 now2 g session owner f = (g', True)"
    using speaker_check_ok [OF type assms(3) lease f] by (metis prod.collapse)
  have hook: "cg_onAcceptedRelay g' = cg_onAcceptedRelay g"
    using speaker_check_hook [of now1 now2 g session owner f] g' by simp
  have acc: "accepted_relay owner (Route grant) f = accepted_relay owner (Route grant) f'"
    using accepted_same [OF tag(1) len tag(2)] by simp
  have "handleRelayUpstream now1 now2 g (Some session) e = (g',
      (if cg_onAcceptedRelay g then [Accepted (accepted_relay owner (Route grant) f')] else []) @
        [Relayed (ns_NodeID session) f'], True)"
    using p assms(2-4) valid same_packet_valid [OF inner(1,2)] g' hook acc
    by (simp add: handleRelayUpstream_def f owner route same f'_def)
  then show thesis using tag f inner(1) owner by (intro that [of g' f']) (auto intro: same_packet_trans)
qed

lemma forward_inner:
  assumes "t = DraARLTypeTextMessage \<or> t = DraARLTypeOpus16K" and "length payload \<le> 710"
    and "length u \<le> 32" and "length cs \<le> 32" and "inner = PrepareForwardPacket buf src u cs ssid t m d payload"
  shows "90 \<le> length inner" "length inner \<le> 800" "inner ! 48 = t" "ValidateRelayInnerPacket inner = None"
    "RelayInnerIdentityMatches inner u cs ssid"
  using assms(2) forward_relayable [OF assms(1-4)] by (auto simp: assms(5) PrepareForwardPacket_eq)

subsection \<open>A speaker's frames\<close>

fun frames_accepted :: "CenterGateway \<Rightarrow> NodeSession \<Rightarrow> (time \<times> envelope) list \<Rightarrow> bool" where
  "frames_accepted g session [] = True"
| "frames_accepted g session ((t, e) # frames) =
     (let (g', _, ok) = handleRelayUpstream t t g (Some session) e in ok \<and> frames_accepted g' session frames)"

text \<open>A voice packet of the granted device under the lease, as an edge sends it.\<close>

definition voice_frame :: "DeviceGrant \<Rightarrow> u64 \<Rightarrow> envelope \<Rightarrow> bool" where
  "voice_frame grant leaseID e \<longleftrightarrow>
     (case UnmarshalRelayFrame (env_Payload e) of
        Inl _ \<Rightarrow> False
      | Inr f \<Rightarrow> rf_SessionID f = gr_SessionID grant \<and> rf_SessionEpoch f = gr_SessionEpoch grant \<and>
          rf_DomainID f = gr_DomainID grant \<and> rf_SpeakerLeaseID f = leaseID \<and>
          ValidateRelayInnerPacket (rf_InnerPacket f) = None \<and> rf_InnerPacket f ! 48 = DraARLTypeOpus16K \<and>
          RelayInnerIdentityMatches (rf_InnerPacket f) (gr_Username grant) (gr_CallSign grant) (gr_SSID grant))"

text \<open>No gap between frames exceeds the idle timeout.\<close>

fun steady :: "time \<Rightarrow> (time \<times> envelope) list \<Rightarrow> bool" where
  "steady prev [] = True"
| "steady prev ((t, e) # frames) = (t - prev \<le> SpeakerLeaseIdleTimeout \<and> steady t frames)"

definition speaking :: "CenterGateway \<Rightarrow> NodeSession \<Rightarrow> DeviceGrant \<Rightarrow> u64 \<Rightarrow> time \<Rightarrow> bool" where
  "speaking g session grant leaseID t \<longleftrightarrow> centre_knows g session grant \<and>
     (\<exists>m. cg_speaker g = Some m \<and> lease_ok m \<and> lease_get m (gr_DomainID grant) =
        Some (renewed (leaseOwner (ns_NodeID session) (ns_SessionID session) (gr_SessionID grant) (gr_SessionEpoch grant)) leaseID t))"

lemma speaking_lease:
  "speaking g session grant leaseID t \<Longrightarrow> leaseID \<noteq> 0 \<Longrightarrow> now - t \<le> SpeakerLeaseIdleTimeout \<Longrightarrow> holds_lease g session grant leaseID now"
  by (auto simp: speaking_def holds_lease_def renewed_expired)

lemma speaking_step:
  assumes "speaking g session grant leaseID t" and "leaseID \<noteq> 0" and "now - t \<le> SpeakerLeaseIdleTimeout"
    and "voice_frame grant leaseID e" and "\<not> gr_DisableSend grant" and "gr_DomainID grant \<noteq> 0"
  obtains g' events where "handleRelayUpstream now now g (Some session) e = (g', events, True)" "speaking g' session grant leaseID now"
proof -
  obtain f where f: "UnmarshalRelayFrame (env_Payload e) = Inr f" "rf_SessionID f = gr_SessionID grant"
    "rf_SessionEpoch f = gr_SessionEpoch grant" "rf_DomainID f = gr_DomainID grant" "rf_SpeakerLeaseID f = leaseID"
    "ValidateRelayInnerPacket (rf_InnerPacket f) = None" "rf_InnerPacket f ! 48 = DraARLTypeOpus16K"
    "RelayInnerIdentityMatches (rf_InnerPacket f) (gr_Username grant) (gr_CallSign grant) (gr_SSID grant)"
    using assms(4) by (auto simp: voice_frame_def split: sum.splits)
  have len: "90 \<le> length (rf_InnerPacket f)" using f(8) by (auto simp: RelayInnerIdentityMatches_def split: if_splits)
  obtain p owner where p: "cg_cluster g = Some p" "fmlookup (cg_deviceSessions g) (gr_SessionID grant) = Some owner"
    "ResolveRoute p (gr_SessionID grant) = Some (Route grant)"
    "dso_NodeID owner = ns_NodeID session" "dso_ControlSessionID owner = ns_SessionID session"
    using assms(1) by (auto simp: speaking_def centre_knows_def split: option.splits)
  obtain m m' where m: "cg_speaker g = Some m" "AcceptFrame now m (ns_NodeID session) (ns_SessionID session) f now = (m', True)"
    using AcceptFrame_lease [OF speaking_lease [OF assms(1-3)] assms(6) f(2-5)] .
  have "lease_ok m" using assms(1) m(1) by (simp add: speaking_def)
  have m': "lease_ok m' \<and> lease_get m' (gr_DomainID grant) =
      Some (renewed (leaseOwner (ns_NodeID session) (ns_SessionID session) (gr_SessionID grant) (gr_SessionEpoch grant)) leaseID now)"
    using \<open>lease_ok m\<close>
  proof (cases rule: AcceptFrame_cases [of m now "ns_NodeID session" "ns_SessionID session" f now])
    case (rejected m1)
    with m(2) show ?thesis by simp
  next
    case (accepted state m1)
    with m(2) f show ?thesis by (simp add: or_now_def)
  qed
  let ?g = "g\<lparr>cg_speaker := Some m', cg_ghosts := fst (MarkPTTActive now (cg_ghosts g) (dso_GhostSessionID owner) now)\<rparr>"
  have check: "speaker_check now now g session owner f = (?g, True)"
    using m f by (simp add: speaker_check_def Let_def)
  have f': "f\<lparr>rf_DomainID := rt_DomainID (Route grant)\<rparr> = f" using f(4) by (simp add: Route_def)
  have "\<exists>events. handleRelayUpstream now now g (Some session) e = (?g, events, True)"
    using p f assms(5,6) check f' by (simp add: handleRelayUpstream_def session_owner_def) (simp add: Route_def)
  moreover have "speaking ?g session grant leaseID now"
    using assms(1) m' by (simp add: speaking_def centre_knows_def)
  ultimately show thesis using that by blast
qed

lemma speaking_frames:
  assumes "speaking g session grant leaseID t" and "leaseID \<noteq> 0" and "steady t frames"
    and "\<forall>(t, e) \<in> set frames. voice_frame grant leaseID e" and "\<not> gr_DisableSend grant" and "gr_DomainID grant \<noteq> 0"
  shows "frames_accepted g session frames"
  using assms
proof (induction g session frames arbitrary: t rule: frames_accepted.induct)
  case (2 g session now e frames)
  obtain g' events where g': "handleRelayUpstream now now g (Some session) e = (g', events, True)" "speaking g' session grant leaseID now"
    by (rule speaking_step [OF 2(2,3), of now e]) (use 2 in auto)
  show ?case using "2.IH" [OF g'(1) [symmetric] refl refl g'(2)] g'(1) 2 by simp
qed simp

lemma nextLeaseID_nonzero: "nextLeaseID n \<noteq> 0"
  by (induction n rule: nextLeaseID.induct) (subst nextLeaseID.simps, simp add: Let_def)

lemma Claim_free:
  assumes "lease_ok m" and "lease_holder (sl_DomainID claim) m now = None"
  obtains m' lid where "Claim now m nodeID cs claim now = (m', claim\<lparr>sl_Action := SpeakerLeaseActionGrant, sl_LeaseID := lid,
       sl_TTLMillis := 1200, sl_RetryAfterMillis := 0\<rparr>)" "lid \<noteq> 0" "lease_ok m'"
    "lease_get m' (sl_DomainID claim) = Some (renewed (leaseOwner nodeID cs (sl_SessionID claim) (sl_SessionEpoch claim)) lid now)"
proof -
  have now: "or_now now now = now" by (simp add: or_now_def)
  have id: "sl_LeaseID (snd (Claim now m nodeID cs claim now)) = nextLeaseID (slm_nextID m)"
    using assms(2) now
    by (auto simp: Claim_def Let_def lease_holder_def lease_del_def split: option.splits if_splits)
  from assms(1) show thesis
  proof (cases rule: Claim_cases [where claim = claim and clock = now and nodeID = nodeID and cs = cs and now = now])
    case (denied state wait)
    with assms(2) now show thesis by (simp add: lease_holder_def)
  next
    case (granted m' lid)
    with id now nextLeaseID_nonzero [of "slm_nextID m"] show thesis by (intro that [of m' lid]) simp_all
  qed
qed

subsection \<open>What the centre lets through\<close>

definition frame_leased :: "SpeakerLeaseManager \<Rightarrow> NodeSession \<Rightarrow> RelayFrame \<Rightarrow> time \<Rightarrow> bool" where
  "frame_leased m session f now \<longleftrightarrow>
     (case lease_get m (rf_DomainID f) of
        None \<Rightarrow> False
      | Some state \<Rightarrow> \<not> speakerLeaseExpired state now \<and> ls_leaseID state = rf_SpeakerLeaseID f \<and>
          ls_owner state = leaseOwner (ns_NodeID session) (ns_SessionID session) (rf_SessionID f) (rf_SessionEpoch f))"

lemma frame_leased_cong:
  "rf_SessionID f' = rf_SessionID f \<Longrightarrow> rf_SessionEpoch f' = rf_SessionEpoch f \<Longrightarrow> rf_DomainID f' = rf_DomainID f \<Longrightarrow>
    rf_SpeakerLeaseID f' = rf_SpeakerLeaseID f \<Longrightarrow> frame_leased m session f' now = frame_leased m session f now"
  by (simp add: frame_leased_def split: option.split)

lemma speaker_check_leased:
  assumes "speaker_check now1 now2 g session owner f = (g', True)" and "rf_InnerPacket f ! 48 = DraARLTypeOpus16K"
  shows "\<exists>m. cg_speaker g = Some m \<and> frame_leased m session f now1"
  using assms
  by (auto simp: speaker_check_def AcceptFrame_def frame_leased_def or_now_def Let_def split: option.splits if_splits)

lemma speaker_check_refused:
  "\<not> snd (speaker_check now1 now2 g session owner f) \<Longrightarrow>
    (fst (speaker_check now1 now2 g session owner f))\<lparr>cg_speaker := cg_speaker g\<rparr> = g"
  by (auto simp: speaker_check_def Let_def split_beta split: option.splits if_splits)

lemma upstream_inv:
  assumes "handleRelayUpstream now1 now2 g (Some session) e = (g', events, ok)"
  obtains (refused) "\<not> ok" "events = []" "g'\<lparr>cg_speaker := cg_speaker g\<rparr> = g"
  | (accepted) p f route where "ok" "cg_cluster g = Some p" "ValidateRelayInnerPacket (rf_InnerPacket f) = None"
      "dso_NodeID (session_owner g (rf_SessionID f)) = ns_NodeID session"
      "dso_ControlSessionID (session_owner g (rf_SessionID f)) = ns_SessionID session"
      "ResolveRoute p (rf_SessionID f) = Some route"
      "\<not> rt_DisableSend route \<and> rt_SessionEpoch route = rf_SessionEpoch f \<and> rt_DomainID route \<noteq> 0"
      "RelayInnerIdentityMatches (rf_InnerPacket f) (rt_Username route) (rt_CallSign route) (rt_SSID route)"
      "speaker_check now1 now2 g session (session_owner g (rf_SessionID f)) (f\<lparr>rf_DomainID := rt_DomainID route\<rparr>) = (g', True)"
      "events = (if cg_onAcceptedRelay g' then [Accepted (accepted_relay (session_owner g (rf_SessionID f)) route (f\<lparr>rf_DomainID := rt_DomainID route\<rparr>))] else []) @
         [Relayed (ns_NodeID session) (case WithSourceGroupID (rf_InnerPacket f) (rt_GroupID route) of
            Some tagged \<Rightarrow> f\<lparr>rf_DomainID := rt_DomainID route, rf_InnerPacket := tagged\<rparr> | None \<Rightarrow> f\<lparr>rf_DomainID := rt_DomainID route\<rparr>)]"
proof (cases "\<exists>p f route. cg_cluster g = Some p \<and> UnmarshalRelayFrame (env_Payload e) = Inr f \<and>
    ValidateRelayInnerPacket (rf_InnerPacket f) = None \<and>
    dso_NodeID (session_owner g (rf_SessionID f)) = ns_NodeID session \<and>
    dso_ControlSessionID (session_owner g (rf_SessionID f)) = ns_SessionID session \<and> ResolveRoute p (rf_SessionID f) = Some route \<and>
    (\<not> rt_DisableSend route \<and> rt_SessionEpoch route = rf_SessionEpoch f \<and> rt_DomainID route \<noteq> 0) \<and>
    RelayInnerIdentityMatches (rf_InnerPacket f) (rt_Username route) (rt_CallSign route) (rt_SSID route)")
  case False
  then have "handleRelayUpstream now1 now2 g (Some session) e = (g, [], False)"
    by (auto simp: handleRelayUpstream_def Let_def split: option.splits sum.splits)
  with assms refused show thesis by simp
next
  case True
  then obtain p f route where *: "cg_cluster g = Some p" "UnmarshalRelayFrame (env_Payload e) = Inr f"
    "ValidateRelayInnerPacket (rf_InnerPacket f) = None"
    "dso_NodeID (session_owner g (rf_SessionID f)) = ns_NodeID session"
    "dso_ControlSessionID (session_owner g (rf_SessionID f)) = ns_SessionID session" "ResolveRoute p (rf_SessionID f) = Some route"
    "\<not> rt_DisableSend route \<and> rt_SessionEpoch route = rf_SessionEpoch f \<and> rt_DomainID route \<noteq> 0"
    "RelayInnerIdentityMatches (rf_InnerPacket f) (rt_Username route) (rt_CallSign route) (rt_SSID route)" by blast
  obtain g1 ok1 where check: "speaker_check now1 now2 g session (session_owner g (rf_SessionID f)) (f\<lparr>rf_DomainID := rt_DomainID route\<rparr>) = (g1, ok1)"
    by fastforce
  show thesis
  proof (cases ok1)
    case True
    then show thesis using assms * check
      by (intro accepted [of p f route]) (auto simp: handleRelayUpstream_def Let_def split: option.splits)
  next
    case False
    then show thesis using assms * check speaker_check_refused [of now1 now2 g session "session_owner g (rf_SessionID f)"
          "f\<lparr>rf_DomainID := rt_DomainID route\<rparr>"]
      by (intro refused) (auto simp: handleRelayUpstream_def Let_def)
  qed
qed

subsection \<open>Properties\<close>

text \<open>C7: A claimed domain carries the speaker's voice.  When an edge claims the lease of a domain nobody holds, for a
  device the centre has granted into it with sending enabled, the centre, which has a node server,
  answers with a grant; and if nothing else happens to the centre's tables, the voice frames of that
  device under that lease are all accepted, the first within 900 milliseconds of the claim and each
  within 900 milliseconds of the one before it, however many there are.  (The lease table is well
  formed, as every operation keeps it.)\<close>

theorem claimed_voice_is_relayed:
  assumes "centre_knows g cs grant" and "\<not> gr_DisableSend grant" and "gr_DomainID grant \<noteq> 0"
    and "cg_server g" and "cg_speaker g = Some m" and "lease_ok m" and "lease_holder (gr_DomainID grant) m t0 = None"
    and "sl_Action claim = SpeakerLeaseActionClaim" and "sl_SessionID claim = gr_SessionID grant"
    and "sl_SessionEpoch claim = gr_SessionEpoch grant" and "sl_DomainID claim = gr_DomainID grant"
  shows "\<exists>g' answer. handleSpeakerLease t0 g (Some cs) claim = (g', Some answer) \<and> sl_Action answer = SpeakerLeaseActionGrant \<and>
    (\<forall>frames. steady t0 frames \<and> (\<forall>(t, e) \<in> set frames. voice_frame grant (sl_LeaseID answer) e) \<longrightarrow> frames_accepted g' cs frames)"
proof -
  obtain m' lid where claim: "Claim t0 m (ns_NodeID cs) (ns_SessionID cs) claim t0 = (m', claim\<lparr>sl_Action := SpeakerLeaseActionGrant,
      sl_LeaseID := lid, sl_TTLMillis := 1200, sl_RetryAfterMillis := 0\<rparr>)" "lid \<noteq> 0" "lease_ok m'"
    "lease_get m' (gr_DomainID grant) =
       Some (renewed (leaseOwner (ns_NodeID cs) (ns_SessionID cs) (gr_SessionID grant) (gr_SessionEpoch grant)) lid t0)"
    using Claim_free [OF assms(6), of claim t0 "ns_NodeID cs" "ns_SessionID cs"] assms(7,9-11) by metis
  have "lease_eligible g cs claim"
    using assms(1,2,9-11) by (auto simp: lease_eligible_def centre_knows_def Route_def split: option.splits)
  moreover have "cg_cluster g \<noteq> None" using assms(1) by (auto simp: centre_knows_def split: option.splits)
  ultimately have "handleSpeakerLease t0 g (Some cs) claim = (g\<lparr>cg_speaker := Some m'\<rparr>,
      Some (claim\<lparr>sl_Action := SpeakerLeaseActionGrant, sl_LeaseID := lid, sl_TTLMillis := 1200, sl_RetryAfterMillis := 0\<rparr>))"
    using assms(4,5,8) claim(1) by (simp add: handleSpeakerLease_def)
  moreover have "speaking (g\<lparr>cg_speaker := Some m'\<rparr>) cs grant lid t0"
    using assms(1) claim by (simp add: speaking_def centre_knows_def)
  ultimately show ?thesis using speaking_frames [OF _ claim(2) _ _ assms(2,3)] by simp
qed


subsection \<open>Examples\<close>

definition edge_session :: NodeSession where
  "edge_session = \<lparr>ns_NodeID = ''edge-1'', ns_SessionID = 7, ns_KeyEpoch = 1, ns_Key = replicate 32 1, ns_ProtocolVersion = 1,
     ns_Features = NodeSupportedFeatures, ns_PeerLinkID = [], ns_CredentialEpoch = 0, ns_RemoteAddr = ''10.0.0.1:9'',
     ns_ConnectedAt = 0, ns_LastHeartbeat = 0, ns_dataAddr = None, ns_DataMetrics = zero_metrics,
     ns_ControlMetrics = zero_metrics, ns_AckedProjectionVersion = 0, ns_replay = new_replayWindow,
     ns_protection = None, ns_dataBindChallenge = replicate 32 0, ns_dataBindChallengeUntil = zero_time\<rparr>"

definition device_grant :: DeviceGrant where
  "device_grant = \<lparr>gr_SessionID = 5, gr_SessionEpoch = 1, gr_DeviceID = 3, gr_OwnerID = 2, gr_Username = ''BG5'',
     gr_CallSign = ''BG5XYZ'', gr_Nickname = [], gr_SSID = 3, gr_DevModel = 1, gr_DMRID = 9, gr_GroupID = 4, gr_DomainID = 9,
     gr_RxGroupIDs = [], gr_RxDomainIDs = [], gr_GhostSessionID = [], gr_ClientInstanceID = [], gr_SessionTag = 0,
     gr_GhostProtocolVersion = 0, gr_SourceGroupV1 = False, gr_RecoveryTicket = [], gr_DisableSend = False, gr_DisableRecv = False,
     gr_ExpiresAtMillis = 0\<rparr>"

definition small_centre :: CenterGateway where
  "small_centre = \<lparr>cg_cluster = Some \<lparr>prj_ClusterEpoch = 1, prj_Version = 1, prj_Devices = Some (fmupd 5 (Route device_grant) fmempty)\<rparr>,
     cg_server = True, cg_deviceSessions = fmupd 5 (no_owner\<lparr>dso_NodeID := ''edge-1'', dso_ControlSessionID := 7, dso_SessionEpoch := 1\<rparr>) fmempty,
     cg_speaker = Some NewSpeakerLeaseManager, cg_ghosts = NewRegistry 0 0, cg_onAcceptedRelay = True\<rparr>"

definition edge_peer :: NodeDatagramPeer where
  "edge_peer = \<lparr>peer_session = edge_session, peer_center = sample_addr, peer_hasOnData = True, peer_Metrics = zero_metrics\<rparr>"

lemma small_centre_knows: "centre_knows small_centre edge_session device_grant"
  by (simp add: centre_knows_def small_centre_def edge_session_def device_grant_def ResolveRoute_def devices_of_def no_owner_def)

lemma example_fields:
  "ns_NodeID edge_session = ''edge-1''" "ns_SessionID edge_session = 7" "ns_Key edge_session = replicate 32 1" "peer_session edge_peer = edge_session"
  "gr_SessionID device_grant = 5" "gr_SessionEpoch device_grant = 1" "gr_DomainID device_grant = 9" "gr_GroupID device_grant = 4"
  "gr_Username device_grant = ''BG5''" "gr_CallSign device_grant = ''BG5XYZ''" "gr_SSID device_grant = 3" "gr_DevModel device_grant = 1"
  "gr_DMRID device_grant = 9" "\<not> gr_DisableSend device_grant" "cg_onAcceptedRelay small_centre" "cg_server small_centre"
  "cg_speaker small_centre = Some NewSpeakerLeaseManager"
  by (simp_all add: edge_session_def device_grant_def small_centre_def edge_peer_def)

lemma small_centre_free: "lease_holder 9 NewSpeakerLeaseManager t = None"
  by (simp add: lease_holder_def lease_get_new)

definition example_claim :: SpeakerLeaseControl where
  "example_claim = \<lparr>sl_Action = SpeakerLeaseActionClaim, sl_RequestID = 1, sl_SessionID = 5, sl_SessionEpoch = 1, sl_DomainID = 9,
     sl_LeaseID = 0, sl_TTLMillis = 0, sl_RetryAfterMillis = 0\<rparr>"

text \<open>An envelope with a packet of the example device.\<close>

lemma example_envelope:
  assumes "t = DraARLTypeTextMessage \<or> t = DraARLTypeOpus16K"
  obtains e :: envelope and f where "UnmarshalRelayFrame (env_Payload e) = Inr f" "rf_SessionID f = gr_SessionID device_grant"
    "rf_SessionEpoch f = gr_SessionEpoch device_grant" "rf_DomainID f = gr_DomainID device_grant" "rf_SpeakerLeaseID f = lid" "90 \<le> length (rf_InnerPacket f)" "rf_InnerPacket f ! 48 = t"
    "ValidateRelayInnerPacket (rf_InnerPacket f) = None" "RelayInnerIdentityMatches (rf_InnerPacket f) (gr_Username device_grant) (gr_CallSign device_grant) (gr_SSID device_grant)"
proof -
  let ?inner = "PrepareForwardPacket [] [] ''BG5'' ''BG5XYZ'' 3 t 1 9 [1, 2, 3]"
  let ?f = "\<lparr>rf_SessionID = 5, rf_SessionEpoch = 1, rf_DomainID = 9, rf_RequiredProjectionVersion = 0, rf_SpeakerLeaseID = lid,
    rf_InnerPacket = ?inner\<rparr>"
  note inner = forward_inner [OF assms, of "[1, 2, 3]" "''BG5''" "''BG5XYZ''" ?inner "[]" "[]" 3 1 9]
  obtain body where "MarshalBinary ?f = Inr body" using inner(1,2) by (simp add: MarshalBinary_def Let_def)
  from UnmarshalRelayFrame_MarshalBinary [OF this] inner show thesis
    by (intro that [of "NewEnvelope 0 SubtypeRelayUpstream ''edge-1'' 7 1 body" ?f]) (simp_all add: NewEnvelope_def example_fields)
qed

lemma example_voice: obtains e where "voice_frame device_grant lid e"
proof -
  obtain e :: envelope and f where "UnmarshalRelayFrame (env_Payload e) = Inr f" "rf_SessionID f = gr_SessionID device_grant"
    "rf_SessionEpoch f = gr_SessionEpoch device_grant" "rf_DomainID f = gr_DomainID device_grant" "rf_SpeakerLeaseID f = lid"
    "90 \<le> length (rf_InnerPacket f)" "rf_InnerPacket f ! 48 = DraARLTypeOpus16K" "ValidateRelayInnerPacket (rf_InnerPacket f) = None"
    "RelayInnerIdentityMatches (rf_InnerPacket f) (gr_Username device_grant) (gr_CallSign device_grant) (gr_SSID device_grant)"
    using example_envelope [OF disjI2 [OF refl]] .
  then show thesis using that [of e] by (simp add: voice_frame_def)
qed

text \<open>Two voice frames, 700 milliseconds apart, pass after the claim.\<close>

theorem claimed_voice_is_relayed_witness:
  "\<exists>g' answer e. handleSpeakerLease 1000000000 small_centre (Some edge_session) example_claim = (g', Some answer) \<and>
     sl_Action answer = SpeakerLeaseActionGrant \<and> voice_frame device_grant (sl_LeaseID answer) e \<and>
     frames_accepted g' edge_session [(1500000000, e), (2200000000, e)]"
proof -
  have "\<exists>g' answer. handleSpeakerLease 1000000000 small_centre (Some edge_session) example_claim = (g', Some answer) \<and>
      sl_Action answer = SpeakerLeaseActionGrant \<and>
      (\<forall>frames. steady 1000000000 frames \<and> (\<forall>(t, e) \<in> set frames. voice_frame device_grant (sl_LeaseID answer) e) \<longrightarrow>
         frames_accepted g' edge_session frames)"
    by (rule claimed_voice_is_relayed [where m = NewSpeakerLeaseManager, OF small_centre_knows])
      (simp_all add: example_fields example_claim_def small_centre_free lease_ok_new)
  then obtain g' answer where g': "handleSpeakerLease 1000000000 small_centre (Some edge_session) example_claim = (g', Some answer)"
    "sl_Action answer = SpeakerLeaseActionGrant" and frames: "\<And>frames. steady 1000000000 frames \<Longrightarrow>
      \<forall>(t, e) \<in> set frames. voice_frame device_grant (sl_LeaseID answer) e \<Longrightarrow> frames_accepted g' edge_session frames"
    by blast
  obtain e where e: "voice_frame device_grant (sl_LeaseID answer) e"
    using example_voice .
  have "frames_accepted g' edge_session [(1500000000, e), (2200000000, e)]" by (rule frames) (use e in simp_all)
  with g' e show ?thesis by blast
qed


end
