(* ===== verification/Broadcast_Media.thy ===== *)
theory Broadcast_Media
  imports Go_Crypto
begin

section \<open>Broadcast audio containers (\<open>internal/broadcast/media/container.go\<close>)\<close>

text \<open>
  A scheduled broadcast is stored as a DABR container: a checked header and a sequence of
  voice packets, each of one or two length-prefixed Opus frames.  The theory holds the
  writer and the reader of containers, the splitting of packets into frames and the
  conversion into the raw Opus format of communication records.  An \<^verbatim>\<open>io.Reader\<close> is the
  bytes it delivers and the error it ends with (\<open>None\<close> for \<^verbatim>\<open>io.EOF\<close>).
\<close>

datatype media_error = ErrInvalidContainer string | ReadFailed string

abbreviation (input) ContainerVersion :: byte where "ContainerVersion \<equiv> 1"
abbreviation (input) OpusSampleRate :: nat where "OpusSampleRate \<equiv> 16000"
abbreviation (input) OpusFrameDurationMS :: nat where "OpusFrameDurationMS \<equiv> 60"
abbreviation (input) MaxFramesPerPacket :: nat where "MaxFramesPerPacket \<equiv> 2"
abbreviation (input) MaxVoicePayloadBytes :: nat where "MaxVoicePayloadBytes \<equiv> 800 - 90"
abbreviation (input) containerHeaderBytes :: nat where "containerHeaderBytes \<equiv> 52"
abbreviation (input) maxContainerPacketCount :: nat where "maxContainerPacketCount \<equiv> 1000"

definition containerMagic :: bytes where
  "containerMagic = bytes_of ''DABR''"

record ContainerMetadata =
  md_PacketCount :: nat
  md_FrameCount :: nat
  md_DurationMS :: nat
  md_Size :: nat
  md_SHA256 :: bytes

record Container =
  ct_Metadata :: ContainerMetadata
  ct_Packets :: "bytes list"

subsection \<open>Frames inside a packet\<close>

text \<open>The loops walk an offset through the packet; the argument is what is left of it.\<close>

function validate_frames :: "bytes \<Rightarrow> nat \<Rightarrow> nat \<times> bool" where
  "validate_frames packet frames =
     (if packet = [] then (frames, True)
      else if length packet < 2 then (0, False)
      else
        let n = unat (getUint16 (take 2 packet)); rest = drop 2 packet
        in if n < 1 \<or> 1000 < n \<or> length rest < n then (0, False)
           else validate_frames (drop n rest) (frames + 1))"
  by pat_completeness auto
termination
  by (relation "measure (\<lambda>(packet, frames). length packet)") auto

definition validateMergedFrames :: "bytes \<Rightarrow> nat \<times> bool" where
  "validateMergedFrames packet = validate_frames packet 0"

function split_frames :: "bytes \<Rightarrow> bytes list \<Rightarrow> bytes list option" where
  "split_frames packet frames =
     (if packet = [] then Some frames
      else if length packet < 2 then None
      else
        let n = unat (getUint16 (take 2 packet)); rest = drop 2 packet
        in if n < 1 \<or> 1000 < n \<or> length rest < n then None
           else split_frames (drop n rest) (frames @ [take n rest]))"
  by pat_completeness auto
termination
  by (relation "measure (\<lambda>(packet, frames). length packet)") auto

definition splitMergedFrames :: "bytes \<Rightarrow> bytes list \<times> bool" where
  "splitMergedFrames packet =
     (case split_frames packet [] of
        None \<Rightarrow> ([], False)
      | Some frames \<Rightarrow> (frames, 1 \<le> length frames \<and> length frames \<le> MaxFramesPerPacket))"

definition PacketDuration :: "bytes \<Rightarrow> media_error + duration" where
  "PacketDuration packet =
     (case validateMergedFrames packet of (frames, ok) \<Rightarrow>
        if \<not> ok \<or> frames < 1 \<or> MaxFramesPerPacket < frames
        then Inl (ErrInvalidContainer ''invalid merged Opus payload'')
        else Inr (millis (int (frames * OpusFrameDurationMS))))"

subsection \<open>Building a container\<close>

text \<open>
  The inner loop of \<^verbatim>\<open>BuildContainer\<close> fills one packet; \<open>count\<close> frames are in it already.
\<close>

function fill_packet :: "nat \<Rightarrow> bytes \<Rightarrow> bytes list \<Rightarrow> media_error + bytes \<times> bytes list" where
  "fill_packet count packet frames =
     (if count < MaxFramesPerPacket \<and> frames \<noteq> [] then
        let frame = hd frames
        in if frame = [] \<or> 1000 < length frame \<or> 65535 < length frame
           then Inl (ErrInvalidContainer ''invalid Opus frame length'')
           else if MaxVoicePayloadBytes < length packet + 2 + length frame then
             (if count = 0 then Inl (ErrInvalidContainer ''Opus frame exceeds protocol payload'')
              else Inr (packet, frames))
           else fill_packet (count + 1) (packet @ putUint16 (of_nat (length frame)) @ frame) (tl frames)
      else Inr (packet, frames))"
  by pat_completeness auto
termination
  by (relation "measure (\<lambda>(count, packet, frames). 2 - count)") auto

declare validate_frames.simps [simp del] split_frames.simps [simp del] fill_packet.simps [simp del]

lemma fill_packet_rest:
  "fill_packet count packet frames = Inr (packet', rest) \<Longrightarrow> length rest \<le> length frames"
proof (induction count packet frames rule: fill_packet.induct)
  case (1 count packet frames)
  show ?case
  proof (cases "count < 2 \<and> frames \<noteq> [] \<and> \<not> (hd frames = [] \<or> 1000 < length (hd frames)) \<and>
      length packet + 2 + length (hd frames) \<le> 710")
    case True
    then have "fill_packet (count + 1) (packet @ putUint16 (of_nat (length (hd frames))) @ hd frames) (tl frames) = Inr (packet', rest)"
      using "1.prems" by (simp add: fill_packet.simps [of count] Let_def)
    then have "length rest \<le> length (tl frames)" using True by (intro "1.IH") auto
    then show ?thesis by simp
  qed (use "1.prems" in \<open>auto simp: fill_packet.simps [of count] Let_def split: if_splits\<close>)
qed

lemma fill_packet_progress:
  assumes "fill_packet 0 [] frames = Inr (packet, rest)" and "frames \<noteq> []"
  shows "length rest < length frames"
proof -
  have "fill_packet 1 (putUint16 (of_nat (length (hd frames))) @ hd frames) (tl frames) = Inr (packet, rest)"
    using assms by (simp add: fill_packet.simps [of 0] Let_def split: if_splits)
  then have "length rest \<le> length (tl frames)" by (rule fill_packet_rest)
  with assms(2) show ?thesis by (cases frames) auto
qed

function pack_frames :: "bytes list \<Rightarrow> media_error + bytes list" where
  "pack_frames frames =
     (if frames = [] then Inr []
      else case fill_packet 0 [] frames of
             Inl err \<Rightarrow> Inl err
           | Inr (packet, rest) \<Rightarrow>
               (case pack_frames rest of Inl err \<Rightarrow> Inl err | Inr packets \<Rightarrow> Inr (packet # packets)))"
  by pat_completeness auto
termination
  by (relation "measure length") (auto dest: fill_packet_progress)

declare pack_frames.simps [simp del]

definition length_prefixed :: "bytes \<Rightarrow> bytes" where
  "length_prefixed bs = putUint16 (of_nat (length bs)) @ bs"

definition container_payload :: "bytes list \<Rightarrow> bytes" where
  "container_payload packets = concat (map length_prefixed packets)"

definition BuildContainer :: "bytes list \<Rightarrow> media_error + bytes \<times> ContainerMetadata" where
  "BuildContainer frames =
     (if frames = [] then Inl (ErrInvalidContainer ''no Opus frames'')
      else case pack_frames frames of
        Inl err \<Rightarrow> Inl err
      | Inr packets \<Rightarrow>
          if maxContainerPacketCount < length packets then Inl (ErrInvalidContainer ''too many packets'')
          else
            let payload = container_payload packets;
                digest = sha256 payload;
                durationMS = length frames * OpusFrameDurationMS;
                output = containerMagic @ [ContainerVersion, 0] @ putUint16 (of_nat OpusFrameDurationMS) @
                  putUint32 (of_nat OpusSampleRate) @ putUint32 (of_nat (length packets)) @
                  putUint32 (of_nat durationMS) @ digest @ payload
            in Inr (output, \<lparr>md_PacketCount = length packets, md_FrameCount = length frames,
                 md_DurationMS = durationMS, md_Size = length output, md_SHA256 = digest\<rparr>))"

subsection \<open>Reading a container\<close>

record io_reader =
  io_content :: bytes
  io_failure :: "string option"

text \<open>
  \<^verbatim>\<open>io.ReadAll(io.LimitReader(reader, n))\<close>: the error of the reader is seen only when the
  limit does not stop the reading first.
\<close>

definition read_all_limited :: "io_reader \<Rightarrow> int \<Rightarrow> string + bytes" where
  "read_all_limited r n =
     (if n \<le> int (length (io_content r)) then Inr (take (nat n) (io_content r))
      else case io_failure r of None \<Rightarrow> Inr (io_content r) | Some err \<Rightarrow> Inl err)"

function read_packets :: "nat \<Rightarrow> bytes \<Rightarrow> bytes list \<times> nat \<Rightarrow> media_error + bytes \<times> bytes list \<times> nat" where
  "read_packets packetCount payload s =
     (if payload \<noteq> [] \<and> length (fst s) < packetCount then
        if length payload < 2 then Inl (ErrInvalidContainer ''truncated packet length'')
        else
          let packetLength = unat (getUint16 (take 2 payload)); rest = drop 2 payload
          in if packetLength < 3 \<or> MaxVoicePayloadBytes < packetLength \<or> length rest < packetLength
             then Inl (ErrInvalidContainer ''invalid packet length'')
             else
               let packet = take packetLength rest
               in case validateMergedFrames packet of (frames, ok) \<Rightarrow>
                    if \<not> ok \<or> frames < 1 \<or> MaxFramesPerPacket < frames
                    then Inl (ErrInvalidContainer ''invalid merged Opus payload'')
                    else read_packets packetCount (drop packetLength rest) (fst s @ [packet], snd s + frames)
      else Inr (payload, s))"
  by pat_completeness auto
termination
  by (relation "measure (\<lambda>(n, payload, s). length payload)") auto

declare read_packets.simps [simp del]

text \<open>The limit \<^verbatim>\<open>maxBytes+1\<close> is a 64-bit sum, which wraps for the largest limit.\<close>

definition ReadContainer :: "io_reader \<Rightarrow> int \<Rightarrow> media_error + Container" where
  "ReadContainer reader maxBytes =
     (if maxBytes < int containerHeaderBytes then Inl (ErrInvalidContainer ''invalid size limit'')
      else case read_all_limited reader (if maxBytes = 2 ^ 63 - 1 then - (2 ^ 63) else maxBytes + 1) of
        Inl err \<Rightarrow> Inl (ReadFailed err)
      | Inr data \<Rightarrow>
          if maxBytes < int (length data) \<or> length data < containerHeaderBytes
          then Inl (ErrInvalidContainer ''invalid file size'')
          else if take 4 data \<noteq> containerMagic \<or> data ! 4 \<noteq> ContainerVersion \<or> data ! 5 \<noteq> 0
          then Inl (ErrInvalidContainer ''unsupported header'')
          else if unat (getUint16 (slice data 6 8)) \<noteq> OpusFrameDurationMS \<or>
                  unat (getUint32 (slice data 8 12)) \<noteq> OpusSampleRate
          then Inl (ErrInvalidContainer ''unsupported audio parameters'')
          else
            let packetCount = unat (getUint32 (slice data 12 16));
                durationMS = unat (getUint32 (slice data 16 20))
            in if packetCount < 1 \<or> maxContainerPacketCount < packetCount \<or>
                  durationMS < OpusFrameDurationMS \<or> 60 * 1000 < durationMS
               then Inl (ErrInvalidContainer ''invalid metadata'')
               else
                 let payload = drop containerHeaderBytes data; wantDigest = slice data 20 52;
                     gotDigest = sha256 payload
                 in if wantDigest \<noteq> gotDigest then Inl (ErrInvalidContainer ''checksum mismatch'')
                    else case read_packets packetCount payload ([], 0) of
                      Inl err \<Rightarrow> Inl err
                    | Inr (rest, packets, frameCount) \<Rightarrow>
                        if rest \<noteq> [] \<or> length packets \<noteq> packetCount \<or>
                           durationMS \<noteq> frameCount * OpusFrameDurationMS
                        then Inl (ErrInvalidContainer ''inconsistent metadata'')
                        else Inr \<lparr>ct_Metadata = \<lparr>md_PacketCount = packetCount, md_FrameCount = frameCount,
                               md_DurationMS = durationMS, md_Size = length data, md_SHA256 = gotDigest\<rparr>,
                             ct_Packets = packets\<rparr>)"

subsection \<open>Raw Opus records\<close>

definition putUint16LE :: "u16 \<Rightarrow> bytes" where
  "putUint16LE v = rev (putUint16 v)"

definition putUint32LE :: "u32 \<Rightarrow> bytes" where
  "putUint32LE v = rev (putUint32 v)"

fun collect_frames :: "bytes list \<Rightarrow> bytes list \<Rightarrow> media_error + bytes list" where
  "collect_frames [] frames = Inr frames"
| "collect_frames (packet # packets) frames =
     (case splitMergedFrames packet of (packetFrames, ok) \<Rightarrow>
        if \<not> ok then Inl (ErrInvalidContainer ''invalid merged Opus payload'')
        else collect_frames packets (frames @ packetFrames))"

fun write_frames :: "bytes list \<Rightarrow> bytes \<Rightarrow> media_error + bytes" where
  "write_frames [] output = Inr output"
| "write_frames (frame # frames) output =
     (if frame = [] \<or> 65535 < length frame then Inl (ErrInvalidContainer ''invalid Opus frame length'')
      else write_frames frames (output @ putUint16LE (of_nat (length frame)) @ frame))"

definition raw_opus_header :: "nat \<Rightarrow> bytes" where
  "raw_opus_header count =
     bytes_of ''OPUS'' @ putUint16LE 1 @ putUint32LE (of_nat OpusSampleRate) @ putUint16LE 1 @
     putUint16LE 960 @ putUint32LE (of_nat count) @ replicate 6 0"

definition BuildRawOpusFromPackets :: "bytes list \<Rightarrow> int \<Rightarrow> media_error + bytes \<times> nat" where
  "BuildRawOpusFromPackets packets maxPackets =
     (if packets = [] then Inl (ErrInvalidContainer ''no Opus packets'')
      else
        let n = if maxPackets \<le> 0 \<or> int (length packets) < maxPackets then length packets else nat maxPackets
        in case collect_frames (take n packets) [] of
             Inl err \<Rightarrow> Inl err
           | Inr frames \<Rightarrow>
               if frames = [] then Inl (ErrInvalidContainer ''no Opus frames'')
               else case write_frames frames (raw_opus_header (length frames)) of
                      Inl err \<Rightarrow> Inl err
                    | Inr output \<Rightarrow> Inr (output, length frames))"


subsection \<open>Loops over length-prefixed items\<close>

text \<open>
  Three loops of the code walk a buffer of encoded items.  A loop that ends on the empty
  buffer and consumes one encoded item per round folds its update over the items.
\<close>

locale framed_loop =
  fixes loop :: "bytes \<Rightarrow> 's \<Rightarrow> 'r"
    and enc :: "'a \<Rightarrow> bytes"
    and ok :: "'s \<Rightarrow> 'a \<Rightarrow> bool"
    and upd :: "'s \<Rightarrow> 'a \<Rightarrow> 's"
    and fin :: "'s \<Rightarrow> 'r"
  assumes loop_end: "loop [] s = fin s"
    and loop_item: "ok s x \<Longrightarrow> loop (enc x @ rest) s = loop rest (upd s x)"
begin

lemma loop_items:
  "(\<And>i. i < length xs \<Longrightarrow> ok (foldl upd s (take i xs)) (xs ! i)) \<Longrightarrow>
   loop (concat (map enc xs)) s = fin (foldl upd s xs)"
proof (induction xs arbitrary: s)
  case Nil
  then show ?case by (simp add: loop_end)
next
  case (Cons x xs)
  have "ok s x" using Cons.prems [of 0] by simp
  moreover have "loop (concat (map enc xs)) (upd s x) = fin (foldl upd (upd s x) xs)"
    using Cons.prems [of "Suc i" for i] by (intro Cons.IH) simp
  ultimately show ?case by (simp add: loop_item)
qed

end

lemma foldl_snoc: "foldl (\<lambda>xs x. xs @ [x]) acc xs = acc @ xs"
  by (induction xs arbitrary: acc) auto

lemma unat_uint16: "n < 65536 \<Longrightarrow> unat (of_nat n :: u16) = n"
  by (simp add: unat_of_nat)

lemma prefixed_take [simp]: "getUint16 (take 2 (length_prefixed bs)) = of_nat (length bs)"
  by (simp add: length_prefixed_def u16.length_enc u16.dec_enc)

lemma prefixed_drop [simp]: "drop 2 (length_prefixed bs) = bs" "drop (Suc (Suc n)) (length_prefixed bs) = drop n bs"
  using drop_drop [of n 2 "length_prefixed bs"] by (simp_all add: length_prefixed_def u16.length_enc)

lemma length_prefixed_length [simp]: "length (length_prefixed bs) = length bs + 2"
  by (simp add: length_prefixed_def u16.length_enc)

lemma length_prefixed_neq [simp]: "length_prefixed bs \<noteq> []"
  using length_prefixed_length [of bs] by force

definition frame_ok :: "bytes \<Rightarrow> bool" where
  "frame_ok frame \<longleftrightarrow> 1 \<le> length frame \<and> length frame \<le> 1000"

interpretation split_loop: framed_loop split_frames length_prefixed "\<lambda>s. frame_ok" "\<lambda>s x. s @ [x]" Some
  by unfold_locales
    (auto simp: split_frames.simps [of "[]"] split_frames.simps [of "length_prefixed x @ rest" for x rest]
      frame_ok_def Let_def unat_uint16)

lemma split_frames_encoded: "list_all frame_ok fs \<Longrightarrow> split_frames (concat (map length_prefixed fs)) acc = Some (acc @ fs)"
  using split_loop.loop_items [of fs acc] by (simp add: list_all_length foldl_snoc)

text \<open>What the splitting loop accepts is an encoding of the frames it returns.\<close>

lemma prefixed_split:
  assumes "2 \<le> length packet" and "n = unat (getUint16 (take 2 packet))" and "n \<le> length (drop 2 packet)"
  shows "length_prefixed (take n (drop 2 packet)) @ drop n (drop 2 packet) = packet"
proof -
  have "length (take n (drop 2 packet)) = n" using assms(3) by simp
  moreover have "of_nat n = getUint16 (take 2 packet)" unfolding assms(2) by simp
  ultimately have "of_nat (length (take n (drop 2 packet))) = getUint16 (take 2 packet)" by simp
  moreover have "putUint16 (getUint16 (take 2 packet)) = take 2 packet"
    using be_put_get [of "take 2 packet"] be_get_less [of "take 2 packet"] assms(1)
    by (simp add: be_defs unat_uint16)
  ultimately show ?thesis
    unfolding length_prefixed_def by (metis append.assoc append_take_drop_id)
qed

lemma split_frames_canonical:
  "split_frames packet acc = Some fs \<Longrightarrow>
   \<exists>gs. fs = acc @ gs \<and> packet = concat (map length_prefixed gs) \<and> list_all frame_ok gs"
proof (induction packet acc rule: split_frames.induct)
  case (1 packet acc)
  let ?n = "unat (getUint16 (take 2 packet))" and ?rest = "drop 2 packet"
  show ?case
  proof (cases "packet = []")
    case True
    with "1.prems" show ?thesis by (simp add: split_frames.simps)
  next
    case False
    with "1.prems" have ok: "2 \<le> length packet" "\<not> (?n < 1 \<or> 1000 < ?n \<or> length ?rest < ?n)"
      "split_frames (drop ?n ?rest) (acc @ [take ?n ?rest]) = Some fs"
      by (auto simp: split_frames.simps [of packet] Let_def split: if_splits)
    obtain gs where "fs = (acc @ [take ?n ?rest]) @ gs" "drop ?n ?rest = concat (map length_prefixed gs)" "list_all frame_ok gs"
      using "1.IH" [OF False _ refl refl ok(2) ok(3)] ok(1) by auto
    moreover have "length_prefixed (take ?n ?rest) @ drop ?n ?rest = packet"
      using ok by (intro prefixed_split) auto
    moreover have "frame_ok (take ?n ?rest)" using ok by (auto simp: frame_ok_def)
    ultimately show ?thesis by (intro exI [of _ "take ?n ?rest # gs"]) auto
  qed
qed

lemma validate_frames_split:
  "validate_frames packet k =
     (case split_frames packet acc of None \<Rightarrow> (0, False) | Some fs \<Rightarrow> (k + (length fs - length acc), True))"
proof (induction packet acc arbitrary: k rule: split_frames.induct)
  case (1 packet acc)
  let ?n = "unat (getUint16 (take 2 packet))" and ?rest = "drop 2 packet"
  show ?case
  proof (cases "packet = [] \<or> length packet < 2 \<or> ?n < 1 \<or> 1000 < ?n \<or> length ?rest < ?n")
    case True
    then show ?thesis by (auto simp: validate_frames.simps [of packet] split_frames.simps [of packet] Let_def)
  next
    case False
    then have "split_frames packet acc = split_frames (drop ?n ?rest) (acc @ [take ?n ?rest])"
      "validate_frames packet k = validate_frames (drop ?n ?rest) (k + 1)"
      by (auto simp: validate_frames.simps [of packet] split_frames.simps [of packet] Let_def)
    with False show ?thesis
      using "1.IH" [of ?n ?rest "k + 1"] split_frames_canonical [of "drop ?n ?rest" "acc @ [take ?n ?rest]"]
      by (fastforce split: option.splits)
  qed
qed

lemma validateMergedFrames_split:
  "validateMergedFrames packet = (case split_frames packet [] of None \<Rightarrow> (0, False) | Some fs \<Rightarrow> (length fs, True))"
  using validate_frames_split [of packet 0 "[]"] by (simp add: validateMergedFrames_def split: option.splits)

text \<open>Packets as the writer makes them: one or two frames that fit the voice payload.\<close>

definition packet_of :: "bytes list \<Rightarrow> bytes" where
  "packet_of fs = concat (map length_prefixed fs)"

definition frames_fit :: "bytes list \<Rightarrow> bool" where
  "frames_fit fs \<longleftrightarrow> 1 \<le> length fs \<and> length fs \<le> 2 \<and> list_all frame_ok fs \<and> length (packet_of fs) \<le> 710"

lemma packet_accepted:
  "(\<exists>k. validateMergedFrames packet = (k, True) \<and> 1 \<le> k \<and> k \<le> 2) \<and> length packet \<le> 710 \<longleftrightarrow>
   (\<exists>fs. packet = packet_of fs \<and> frames_fit fs)"
proof (cases "split_frames packet []")
  case None
  then show ?thesis using split_frames_encoded [of _ "[]"]
    by (auto simp: validateMergedFrames_split frames_fit_def packet_of_def)
next
  case (Some fs)
  then have fs: "packet = packet_of fs" "list_all frame_ok fs"
    using split_frames_canonical [of packet "[]"] by (auto simp: packet_of_def)
  have "gs = fs" if "packet = packet_of gs" "list_all frame_ok gs" for gs
    using that Some split_frames_encoded [of gs "[]"] by (simp add: packet_of_def)
  then show ?thesis using fs Some unfolding validateMergedFrames_split frames_fit_def by auto
qed

lemma packet_of_split:
  assumes "frames_fit fs"
  shows "splitMergedFrames (packet_of fs) = (fs, True)" and "validateMergedFrames (packet_of fs) = (length fs, True)"
    and "3 \<le> length (packet_of fs)"
proof -
  have "split_frames (packet_of fs) [] = Some fs" "1 \<le> length fs" "length fs \<le> 2"
    using assms split_frames_encoded [of fs "[]"] by (simp_all add: frames_fit_def packet_of_def)
  then show "splitMergedFrames (packet_of fs) = (fs, True)" "validateMergedFrames (packet_of fs) = (length fs, True)"
    by (simp_all add: splitMergedFrames_def validateMergedFrames_split)
  show "3 \<le> length (packet_of fs)"
    using assms by (cases fs) (auto simp: frames_fit_def packet_of_def frame_ok_def)
qed


subsection \<open>What the writer packs\<close>

lemma fill_packet_fits:
  assumes "fill_packet count packet frames = Inr (p, rest)" and "count \<le> 2"
  shows "\<exists>fs. frames = fs @ rest \<and> p = packet @ packet_of fs \<and> count + length fs \<le> 2 \<and> list_all frame_ok fs \<and>
    (length packet \<le> 710 \<longrightarrow> length p \<le> 710)"
  using assms
proof (induction count packet frames rule: fill_packet.induct)
  case (1 count packet frames)
  let ?more = "count < 2 \<and> frames \<noteq> [] \<and> frame_ok (hd frames) \<and> length packet + 2 + length (hd frames) \<le> 710"
  show ?case
  proof (cases ?more)
    case True
    have hd: "hd frames \<noteq> []" "length (hd frames) \<le> 1000" using True by (auto simp: frame_ok_def)
    have "fill_packet (count + 1) (packet @ length_prefixed (hd frames)) (tl frames) = Inr (p, rest)"
      using True "1.prems" by (auto simp: fill_packet.simps [of count] Let_def length_prefixed_def frame_ok_def split: if_splits)
    then obtain fs where "tl frames = fs @ rest" "p = (packet @ length_prefixed (hd frames)) @ packet_of fs"
      "count + 1 + length fs \<le> 2" "list_all frame_ok fs" "length (packet @ length_prefixed (hd frames)) \<le> 710 \<longrightarrow> length p \<le> 710"
      using "1.IH" [OF _ refl] True hd by (auto simp: length_prefixed_def)
    with True show ?thesis
      by (intro exI [of _ "hd frames # fs"]) (cases frames; auto simp: packet_of_def)
  next
    case False
    then have "p = packet \<and> rest = frames"
      using "1.prems" by (auto simp: fill_packet.simps [of count] Let_def frame_ok_def Suc_le_eq split: if_splits)
    with "1.prems" show ?thesis by (auto simp: packet_of_def)
  qed
qed

lemma fill_packet_starts:
  assumes "fill_packet 0 [] frames = Inr (p, rest)" and "frames \<noteq> []"
  shows "\<exists>fs. frames = fs @ rest \<and> p = packet_of fs \<and> frames_fit fs"
proof -
  obtain fs where "frames = fs @ rest" "p = packet_of fs" "length fs \<le> 2" "list_all frame_ok fs" "length p \<le> 710"
    using fill_packet_fits [OF assms(1)] by auto
  moreover have "fs \<noteq> []" using fill_packet_progress [OF assms] calculation(1) by auto
  ultimately show ?thesis by (cases fs) (auto simp: frames_fit_def)
qed

lemma pack_frames_fit:
  "pack_frames frames = Inr packets \<Longrightarrow>
   \<exists>gs. packets = map packet_of gs \<and> concat gs = frames \<and> list_all frames_fit gs"
proof (induction frames arbitrary: packets rule: pack_frames.induct)
  case (1 frames)
  show ?case
  proof (cases "frames = []")
    case True
    with "1.prems" show ?thesis by (simp add: pack_frames.simps)
  next
    case False
    with "1.prems" obtain p rest packets' where *: "fill_packet 0 [] frames = Inr (p, rest)"
        "pack_frames rest = Inr packets'" "packets = p # packets'"
      by (auto simp: pack_frames.simps [of frames] split: sum.splits)
    obtain gs where "packets' = map packet_of gs" "concat gs = rest" "list_all frames_fit gs"
      using "1.IH" [OF False *(1) refl *(2)] by auto
    then show ?thesis using fill_packet_starts [OF *(1) False] *(3) by (auto intro!: exI [of _ "_ # gs"])
  qed
qed

text \<open>The writer refuses a frame only for its length.\<close>

definition frame_fits :: "bytes \<Rightarrow> bool" where
  "frame_fits frame \<longleftrightarrow> 1 \<le> length frame \<and> length frame \<le> 708"

lemma fill_packet_succeeds:
  "list_all frame_fits frames \<Longrightarrow> (count = 0 \<Longrightarrow> packet = []) \<Longrightarrow> \<exists>p rest. fill_packet count packet frames = Inr (p, rest)"
proof (induction count packet frames rule: fill_packet.induct)
  case (1 count packet frames)
  show ?case
  proof (cases "count < 2 \<and> frames \<noteq> [] \<and> length packet + 2 + length (hd frames) \<le> 710")
    case True
    then have fits: "frame_fits (hd frames)" "list_all frame_fits (tl frames)" "hd frames \<noteq> []" "length (hd frames) \<le> 1000"
      using "1.prems"(1) hd_in_set [of frames] by (fastforce simp: list_all_iff frame_fits_def dest: list.set_sel(2))+
    then have "\<exists>p rest. fill_packet (count + 1) (packet @ putUint16 (of_nat (length (hd frames))) @ hd frames) (tl frames) = Inr (p, rest)"
      using True by (intro "1.IH") auto
    with True fits show ?thesis by (auto simp: fill_packet.simps [of count] Let_def frame_fits_def)
  next
    case False
    with "1.prems" show ?thesis
      by (cases frames; cases "count = 0")
        (auto simp: fill_packet.simps [of count] fill_packet.simps [of 0 "[]"] Let_def frame_fits_def not_le)
  qed
qed

lemma pack_frames_succeeds: "list_all frame_fits frames \<Longrightarrow> \<exists>packets. pack_frames frames = Inr packets"
proof (induction frames rule: pack_frames.induct)
  case (1 frames)
  show ?case
  proof (cases "frames = []")
    case True
    then show ?thesis by (simp add: pack_frames.simps)
  next
    case False
    obtain p rest where *: "fill_packet 0 [] frames = Inr (p, rest)"
      using fill_packet_succeeds [OF "1.prems", of 0 "[]"] by auto
    moreover have "list_all frame_fits rest"
      using "1.prems" fill_packet_starts [OF * False] by auto
    ultimately show ?thesis using "1.IH" [OF False * refl] False by (auto simp: pack_frames.simps [of frames])
  qed
qed

lemma pack_frames_limit: "pack_frames frames = Inr packets \<Longrightarrow> list_all frame_fits frames"
  using pack_frames_fit [of frames packets]
  by (fastforce simp: list_all_iff frames_fit_def frame_fits_def frame_ok_def packet_of_def in_set_conv_decomp)

lemma packets_count:
  "list_all frames_fit gs \<Longrightarrow> length gs \<le> length (concat gs) \<and> length (concat gs) \<le> 2 * length gs"
  by (induction gs) (auto simp: frames_fit_def)

subsection \<open>What the reader accepts\<close>

definition read_upd :: "bytes list \<times> nat \<Rightarrow> bytes list \<Rightarrow> bytes list \<times> nat" where
  "read_upd s fs = (fst s @ [packet_of fs], snd s + length fs)"

interpretation read_loop: framed_loop "read_packets n" "\<lambda>fs. length_prefixed (packet_of fs)"
  "\<lambda>s fs. frames_fit fs \<and> length (fst s) < n" read_upd "\<lambda>s. Inr ([], s)"
proof unfold_locales
  fix s :: "bytes list \<times> nat" and fs rest
  assume ok: "frames_fit fs \<and> length (fst s) < n"
  then have "length (packet_of fs) \<le> 710" "3 \<le> length (packet_of fs)" "validateMergedFrames (packet_of fs) = (length fs, True)"
    "1 \<le> length fs" "length fs \<le> 2"
    using packet_of_split [of fs] by (auto simp: frames_fit_def)
  with ok show "read_packets n (length_prefixed (packet_of fs) @ rest) s = read_packets n rest (read_upd s fs)"
    by (auto simp: read_packets.simps [of n "length_prefixed (packet_of fs) @ rest"] Let_def unat_uint16 read_upd_def)
qed (simp add: read_packets.simps)

lemma foldl_read_upd: "foldl read_upd s gs = (fst s @ map packet_of gs, snd s + length (concat gs))"
  by (induction gs arbitrary: s) (auto simp: read_upd_def)

lemma read_packets_encoded:
  assumes "list_all frames_fit gs" and "length gs \<le> n"
  shows "read_packets n (container_payload (map packet_of gs)) ([], 0) = Inr ([], map packet_of gs, length (concat gs))"
  using read_loop.loop_items [of gs "([], 0)" n] assms
  by (simp add: list_all_length foldl_read_upd container_payload_def comp_def)

lemma read_packets_canonical:
  "read_packets n payload s = Inr (rest, packets, k) \<Longrightarrow>
   \<exists>gs. packets = fst s @ map packet_of gs \<and> k = snd s + length (concat gs) \<and> list_all frames_fit gs \<and>
     payload = container_payload (map packet_of gs) @ rest"
proof (induction n payload s rule: read_packets.induct)
  case (1 n payload s)
  let ?n = "unat (getUint16 (take 2 payload))" and ?rest = "drop 2 payload"
  show ?case
  proof (cases "payload \<noteq> [] \<and> length (fst s) < n")
    case False
    with "1.prems" show ?thesis by (auto simp: read_packets.simps [of n payload] container_payload_def)
  next
    case True
    then obtain m where m: "validateMergedFrames (take ?n ?rest) = (m, True)" "1 \<le> m" "m \<le> 2" "2 \<le> length payload"
        "3 \<le> ?n" "?n \<le> 710" "?n \<le> length ?rest"
        "read_packets n (drop ?n ?rest) (fst s @ [take ?n ?rest], snd s + m) = Inr (rest, packets, k)"
      using "1.prems" by (auto simp: read_packets.simps [of n payload] Let_def split: if_splits prod.splits)
    then obtain fs where fs: "take ?n ?rest = packet_of fs" "frames_fit fs"
      using packet_accepted [of "take ?n ?rest"] by auto
    moreover have "fs \<noteq> []" using fs(2) by (auto simp: frames_fit_def)
    moreover have "m = length fs" using m(1) packet_of_split(2) [OF fs(2)] by (simp add: fs(1))
    ultimately obtain gs where gs: "packets = (fst s @ [packet_of fs]) @ map packet_of gs"
        "k = snd s + length fs + length (concat gs)" "list_all frames_fit gs" "drop ?n ?rest = container_payload (map packet_of gs) @ rest"
      using "1.IH" [OF True _ refl refl _ refl m(1) [symmetric]] m by auto
    moreover have "length_prefixed (take ?n ?rest) @ drop ?n ?rest = payload"
      using m by (intro prefixed_split) auto
    ultimately show ?thesis using fs
      by (intro exI [of _ "fs # gs"]) (auto simp: container_payload_def)
  qed
qed


text \<open>The fixed part of a container.\<close>

definition container_header :: "nat \<Rightarrow> nat \<Rightarrow> bytes \<Rightarrow> bytes" where
  "container_header packetCount durationMS digest =
     containerMagic @ [1, 0] @ putUint16 60 @ putUint32 16000 @ putUint32 (of_nat packetCount) @
     putUint32 (of_nat durationMS) @ digest"

lemma container_header_fields:
  assumes "length digest = 32"
  shows "length (container_header n d digest) = 52" "take 4 (container_header n d digest) = containerMagic"
    "container_header n d digest ! 4 = 1" "container_header n d digest ! 5 = 0"
    "getUint16 (slice (container_header n d digest @ payload) 6 8) = 60"
    "getUint32 (slice (container_header n d digest @ payload) 8 12) = 16000"
    "getUint32 (slice (container_header n d digest @ payload) 12 16) = of_nat n"
    "getUint32 (slice (container_header n d digest @ payload) 16 20) = of_nat d"
    "slice (container_header n d digest @ payload) 20 52 = digest"
  using assms u32.dec_enc u16.dec_enc
  by (simp_all add: container_header_def containerMagic_def slice_def u16.length_enc u32.length_enc nth_append)

lemma unat_uint32: "n < 4294967296 \<Longrightarrow> unat (of_nat n :: u32) = n"
  by (simp add: unat_of_nat)

lemma BuildContainer_packed:
  assumes "BuildContainer frames = Inr (out, metadata)"
  obtains gs where "list_all frames_fit gs" "concat gs = frames" "1 \<le> length gs" "length gs \<le> 1000"
    "out = container_header (length gs) (length frames * 60) (sha256 (container_payload (map packet_of gs))) @
       container_payload (map packet_of gs)"
    "metadata = \<lparr>md_PacketCount = length gs, md_FrameCount = length frames, md_DurationMS = length frames * 60,
       md_Size = length out, md_SHA256 = sha256 (container_payload (map packet_of gs))\<rparr>"
proof -
  obtain packets where p: "frames \<noteq> []" "pack_frames frames = Inr packets" "length packets \<le> 1000"
    using assms by (auto simp: BuildContainer_def Let_def split: if_splits sum.splits)
  then obtain gs where gs: "packets = map packet_of gs" "concat gs = frames" "list_all frames_fit gs"
    using pack_frames_fit by blast
  show ?thesis
    by (rule that [OF gs(3,2)]) (use assms p gs in \<open>auto simp: BuildContainer_def Let_def container_header_def Suc_le_eq\<close>)
qed

lemma ReadContainer_encoded:
  assumes gs: "list_all frames_fit gs" "1 \<le> length gs" and frames: "length (concat gs) \<le> 1000"
    and out: "out = container_header (length gs) (length (concat gs) * 60) (sha256 (container_payload (map packet_of gs))) @
       container_payload (map packet_of gs)"
    and size: "int (length out) \<le> maxBytes" "maxBytes < 2 ^ 63 - 1" and reader: "io_content reader = out" "io_failure reader = None"
  shows "ReadContainer reader maxBytes = Inr \<lparr>ct_Metadata = \<lparr>md_PacketCount = length gs,
      md_FrameCount = length (concat gs), md_DurationMS = length (concat gs) * 60, md_Size = length out,
      md_SHA256 = sha256 (container_payload (map packet_of gs))\<rparr>, ct_Packets = map packet_of gs\<rparr>"
proof -
  let ?h = "container_header (length gs) (length (concat gs) * 60) (sha256 (container_payload (map packet_of gs)))"
  have counts: "length gs \<le> 1000" "1 \<le> length (concat gs)" using packets_count [OF gs(1)] gs(2) frames by auto
  note fields = container_header_fields [OF length_sha256]
  have "length out = 52 + length (container_payload (map packet_of gs))" by (simp add: out fields)
  moreover have "gs \<noteq> []" "\<exists>xs\<in>set gs. xs \<noteq> []"
    using counts(2) gs(2) by (auto simp del: length_concat simp: Suc_le_eq)
  moreover have "take 4 out = containerMagic" "out ! 4 = 1" "out ! 5 = 0"
    "drop 52 out = container_payload (map packet_of gs)"
    by (simp_all add: out fields nth_append)
  moreover have "read_all_limited reader (maxBytes + 1) = Inr out"
    using size reader by (simp add: read_all_limited_def)
  moreover have "unat (of_nat (length gs) :: u32) = length gs" "unat (of_nat (length (concat gs) * 60) :: u32) = length (concat gs) * 60"
    using counts frames by (simp_all only: unat_uint32)
  ultimately show ?thesis
    using size counts frames read_packets_encoded [OF gs(1) order_refl]
    by (simp add: ReadContainer_def Let_def out fields)
qed

lemma payload_bound: "list_all frames_fit gs \<Longrightarrow> length (container_payload (map packet_of gs)) \<le> length gs * 712"
  by (induction gs) (auto simp: container_payload_def frames_fit_def)

lemma BuildContainer_readable:
  assumes "frames \<noteq> []" and "length frames \<le> 1000" and "list_all frame_fits frames"
  obtains out c gs where "BuildContainer frames = Inr (out, ct_Metadata c)"
    "\<And>maxBytes. int (length out) \<le> maxBytes \<Longrightarrow> maxBytes < 2 ^ 63 - 1 \<Longrightarrow>
       ReadContainer \<lparr>io_content = out, io_failure = None\<rparr> maxBytes = Inr c"
    "list_all frames_fit gs" "concat gs = frames" "ct_Packets c = map packet_of gs" "length out \<le> 712052"
    "md_FrameCount (ct_Metadata c) = length frames" "md_PacketCount (ct_Metadata c) = length gs"
proof -
  obtain packets where packed: "pack_frames frames = Inr packets"
    using pack_frames_succeeds [OF assms(3)] by auto
  then obtain gs where "packets = map packet_of gs" "concat gs = frames" "list_all frames_fit gs"
    using pack_frames_fit by blast
  then have "length packets \<le> 1000" using packets_count [of gs] assms(2) by simp
  then obtain out metadata where build: "BuildContainer frames = Inr (out, metadata)"
    using packed assms(1) by (auto simp: BuildContainer_def Let_def)
  from BuildContainer_packed [OF build] obtain gs where gs: "list_all frames_fit gs" "concat gs = frames" "1 \<le> length gs"
    "length gs \<le> 1000"
    "out = container_header (length gs) (length frames * 60) (sha256 (container_payload (map packet_of gs))) @
       container_payload (map packet_of gs)"
    "metadata = \<lparr>md_PacketCount = length gs, md_FrameCount = length frames, md_DurationMS = length frames * 60,
       md_Size = length out, md_SHA256 = sha256 (container_payload (map packet_of gs))\<rparr>" by blast
  let ?c = "\<lparr>ct_Metadata = metadata, ct_Packets = map packet_of gs\<rparr>"
  have "ReadContainer \<lparr>io_content = out, io_failure = None\<rparr> maxBytes = Inr ?c"
    if "int (length out) \<le> maxBytes" "maxBytes < 2 ^ 63 - 1" for maxBytes
    using ReadContainer_encoded [OF gs(1,3) _ _ that] gs(2,5,6) assms(2) by simp
  moreover have "length out \<le> 712052"
    using payload_bound [OF gs(1)] gs(4,5) container_header_fields(1) [OF length_sha256] by simp
  ultimately show thesis using build gs by (intro that [of out ?c gs]) auto
qed

text \<open>C18: A broadcast survives its storage.  Frames of an admissible length that fit one minute are
  packed into a container, and reading the container, under any size limit that it meets, gives
  back its metadata and packets of one or two frames, each within the voice payload of a device
  packet; splitting the packets gives back the frames.\<close>

theorem container_round_trip:
  assumes "frames \<noteq> []" and "length frames \<le> 1000"
    and "\<forall>frame\<in>set frames. 1 \<le> length frame \<and> length frame \<le> 708"
  shows "\<exists>out metadata container.
    BuildContainer frames = Inr (out, metadata) \<and>
    (\<forall>maxBytes. int (length out) \<le> maxBytes \<longrightarrow> maxBytes < 2 ^ 63 - 1 \<longrightarrow>
       ReadContainer \<lparr>io_content = out, io_failure = None\<rparr> maxBytes = Inr container) \<and>
    ct_Metadata container = metadata \<and>
    md_FrameCount metadata = length frames \<and> md_PacketCount metadata = length (ct_Packets container) \<and>
    (\<forall>packet\<in>set (ct_Packets container). length packet \<le> MaxVoicePayloadBytes \<and> snd (splitMergedFrames packet)) \<and>
    concat (map (\<lambda>packet. fst (splitMergedFrames packet)) (ct_Packets container)) = frames"
proof -
  have "list_all frame_fits frames" using assms(3) by (simp add: list_all_iff frame_fits_def)
  from BuildContainer_readable [OF assms(1,2) this] obtain out and c :: Container and gs
    where c: "BuildContainer frames = Inr (out, ct_Metadata c)"
    "\<And>maxBytes. int (length out) \<le> maxBytes \<Longrightarrow> maxBytes < 2 ^ 63 - 1 \<Longrightarrow>
       ReadContainer \<lparr>io_content = out, io_failure = None\<rparr> maxBytes = Inr c"
    "list_all frames_fit gs" "concat gs = frames" "ct_Packets c = map packet_of gs" "length out \<le> 712052"
    "md_FrameCount (ct_Metadata c) = length frames" "md_PacketCount (ct_Metadata c) = length gs" by blast
  have "map (\<lambda>fs. fst (splitMergedFrames (packet_of fs))) gs = gs"
    "\<forall>fs\<in>set gs. length (packet_of fs) \<le> 710 \<and> snd (splitMergedFrames (packet_of fs))"
    using c(3) by (auto intro!: map_idI simp: list_all_iff packet_of_split) (auto simp: frames_fit_def)
  with c show ?thesis by (intro exI [of _ out] exI [of _ "ct_Metadata c"] exI [of _ c]) (auto simp: comp_def)
qed

theorem container_round_trip_witness:
  "\<exists>out metadata (container :: Container).
    BuildContainer [[1, 2], [3]] = Inr (out, metadata) \<and> ct_Metadata container = metadata \<and>
    concat (map (\<lambda>packet. fst (splitMergedFrames packet)) (ct_Packets container)) = [[1, 2], [3]]"
  using container_round_trip [of "[[1, 2], [3]]"] by auto


lemma ReadContainer_accepts:
  assumes "ReadContainer reader maxBytes = Inr c"
  obtains gs where "list_all frames_fit gs" "ct_Packets c = map packet_of gs" "1 \<le> length gs" "length gs \<le> 1000"
    "drop 52 (io_content reader) = container_payload (map packet_of gs)"
    "ct_Metadata c = \<lparr>md_PacketCount = length gs, md_FrameCount = length (concat gs), md_DurationMS = length (concat gs) * 60,
       md_Size = length (io_content reader), md_SHA256 = sha256 (container_payload (map packet_of gs))\<rparr>"
    "length (concat gs) \<le> 1000" "int (length (io_content reader)) \<le> maxBytes"
proof -
  let ?n = "if maxBytes = 2 ^ 63 - 1 then - (2 ^ 63) else maxBytes + 1"
  obtain data where data: "read_all_limited reader ?n = Inr data" "52 \<le> maxBytes" "int (length data) \<le> maxBytes" "52 \<le> length data"
    using assms by (auto simp: ReadContainer_def not_less split: if_splits sum.splits)
  then obtain rest packets k where read:
      "read_packets (unat (getUint32 (slice data 12 16))) (drop 52 data) ([], 0) = Inr (rest, packets, k)"
    using assms by (auto simp: ReadContainer_def Let_def split: if_splits sum.splits)
  have c: "rest = []" "length packets = unat (getUint32 (slice data 12 16))" "1 \<le> length packets" "length packets \<le> 1000" "k * 60 \<le> 60000"
      "c = \<lparr>ct_Metadata = \<lparr>md_PacketCount = length packets, md_FrameCount = k, md_DurationMS = k * 60,
         md_Size = length data, md_SHA256 = sha256 (drop 52 data)\<rparr>, ct_Packets = packets\<rparr>"
    using assms data read by (auto simp: ReadContainer_def Let_def not_less Suc_le_eq split: if_splits)
  have "data = io_content reader"
    using data by (auto simp: read_all_limited_def split: if_splits option.splits)
  moreover obtain gs where gs: "packets = map packet_of gs" "k = length (concat gs)" "list_all frames_fit gs"
      "drop 52 data = container_payload packets"
    using read_packets_canonical [OF read] c(1) by auto
  ultimately show thesis using c data(3) by (intro that [of gs]) auto
qed

text \<open>C33: What the reader accepts is a well-formed container and nothing else.  A file that is read has
  the size the limit allows, its header describes its contents, the digest is that of the
  payload, and the payload is exactly the encoding of the returned packets, each of one or two
  frames of at most 1000 bytes within the voice payload; the duration is the frame count times
  60 ms and at most one minute.\<close>

theorem read_container_sound:
  assumes "ReadContainer reader maxBytes = Inr c"
  shows "md_PacketCount (ct_Metadata c) = length (ct_Packets c) \<and>
    1 \<le> length (ct_Packets c) \<and> length (ct_Packets c) \<le> maxContainerPacketCount \<and>
    md_DurationMS (ct_Metadata c) = md_FrameCount (ct_Metadata c) * OpusFrameDurationMS \<and>
    md_DurationMS (ct_Metadata c) \<le> 60000 \<and>
    md_SHA256 (ct_Metadata c) = sha256 (container_payload (ct_Packets c)) \<and>
    int (md_Size (ct_Metadata c)) \<le> maxBytes \<and>
    drop containerHeaderBytes (io_content reader) = container_payload (ct_Packets c) \<and>
    md_FrameCount (ct_Metadata c) = sum_list (map (\<lambda>p. length (fst (splitMergedFrames p))) (ct_Packets c)) \<and>
    (\<forall>packet\<in>set (ct_Packets c). length packet \<le> MaxVoicePayloadBytes \<and> snd (splitMergedFrames packet) \<and>
       packet = container_payload (fst (splitMergedFrames packet)) \<and>
       (\<forall>frame\<in>set (fst (splitMergedFrames packet)). 1 \<le> length frame \<and> length frame \<le> 1000))"
proof -
  obtain gs where gs: "list_all frames_fit gs" "ct_Packets c = map packet_of gs" "1 \<le> length gs" "length gs \<le> 1000"
    "drop 52 (io_content reader) = container_payload (map packet_of gs)"
    "ct_Metadata c = \<lparr>md_PacketCount = length gs, md_FrameCount = length (concat gs), md_DurationMS = length (concat gs) * 60,
       md_Size = length (io_content reader), md_SHA256 = sha256 (container_payload (map packet_of gs))\<rparr>"
    "length (concat gs) \<le> 1000" "int (length (io_content reader)) \<le> maxBytes"
    using ReadContainer_accepts [OF assms] by blast
  have fits: "length (packet_of fs) \<le> 710" "splitMergedFrames (packet_of fs) = (fs, True)"
      "\<forall>frame\<in>set fs. 1 \<le> length frame \<and> length frame \<le> 1000" if "fs \<in> set gs" for fs
    using that gs(1) packet_of_split(1) [of fs] by (auto simp: list_all_iff frames_fit_def frame_ok_def)
  have "sum_list (map (\<lambda>fs. length (fst (splitMergedFrames (packet_of fs)))) gs) = sum_list (map length gs)"
    using fits(2) by (intro arg_cong [of _ _ sum_list] map_cong) simp_all
  moreover have "container_payload = packet_of" by (simp add: fun_eq_iff container_payload_def packet_of_def)
  ultimately show ?thesis using gs fits by (simp add: comp_def length_concat)
qed

theorem read_container_sound_witness:
  "\<exists>out c. BuildContainer [[1, 2], [3]] = Inr (out, ct_Metadata c) \<and>
    ReadContainer \<lparr>io_content = out, io_failure = None\<rparr> 1000000 = Inr c \<and>
    md_SHA256 (ct_Metadata c) = sha256 (container_payload (ct_Packets c))"
proof -
  have "list_all frame_fits [[1, 2], [3]]" by (simp add: frame_fits_def)
  then obtain out and c :: Container
    where c: "BuildContainer [[1, 2], [3]] = Inr (out, ct_Metadata c)" "length out \<le> 712052"
      "\<And>maxBytes. int (length out) \<le> maxBytes \<Longrightarrow> maxBytes < 2 ^ 63 - 1 \<Longrightarrow>
         ReadContainer \<lparr>io_content = out, io_failure = None\<rparr> maxBytes = Inr c"
    by (rule BuildContainer_readable [of "[[1, 2], [3]]", rotated 2]) simp_all
  then have "ReadContainer \<lparr>io_content = out, io_failure = None\<rparr> 1000000 = Inr c" by simp
  with c(1) read_container_sound [OF this] show ?thesis by blast
qed

end
