(* ===== verification/Broadcast_Player.thy ===== *)
theory Broadcast_Player
  imports Broadcast_Media
begin

section \<open>Playing a broadcast (\<open>internal/broadcast/player/player.go\<close>)\<close>

text \<open>
  The player sends the packets of a container to a voice source in real time.  Everything it
  calls, the playback clock, the context, the validator and the source, acts on a world \<open>'w\<close>
  and is an argument: each field below is one call, which returns its result and the world
  after it.  The calls of the source are recorded as events.
\<close>

datatype player_error =
    ErrInvalidSource
  | ErrInvalidPlayback "media_error option"
  | ErrAlreadyStarted
  | ContextDone string
  | ValidationFailed string
  | SendFailed string

record BroadcastSourceStats =
  bs_SentPackets :: int
  bs_DroppedPackets :: int

record 'w player_env =
  env_Now :: "'w \<Rightarrow> time \<times> 'w"
  env_WaitUntil :: "time \<Rightarrow> 'w \<Rightarrow> string option \<times> 'w"
  env_contextError :: "'w \<Rightarrow> string option \<times> 'w"
  env_validate :: "('w \<Rightarrow> string option \<times> 'w) option"
  env_SendVoice :: "bytes \<Rightarrow> time \<Rightarrow> 'w \<Rightarrow> string option \<times> 'w"
  env_Finish :: "'w \<Rightarrow> BroadcastSourceStats \<times> 'w"
  env_Cancel :: "'w \<Rightarrow> BroadcastSourceStats \<times> 'w"

record Player =
  pl_validateInterval :: duration
  pl_started :: bool

record Result =
  res_StartedAt :: time
  res_EndedAt :: time
  res_PlayedDuration :: duration
  res_SentPackets :: int
  res_DroppedPackets :: int
  res_SourceStats :: BroadcastSourceStats

definition no_stats :: BroadcastSourceStats where
  "no_stats = \<lparr>bs_SentPackets = 0, bs_DroppedPackets = 0\<rparr>"

definition no_result :: Result where
  "no_result = \<lparr>res_StartedAt = zero_time, res_EndedAt = zero_time, res_PlayedDuration = 0,
     res_SentPackets = 0, res_DroppedPackets = 0, res_SourceStats = no_stats\<rparr>"

datatype play_event = Sent bytes time | Finished | Canceled

fun packet_durations :: "bytes list \<Rightarrow> player_error + duration list" where
  "packet_durations [] = Inr []"
| "packet_durations (packet # packets) =
     (case PacketDuration packet of
        Inl err \<Rightarrow> Inl (ErrInvalidPlayback (Some err))
      | Inr d \<Rightarrow>
          (case packet_durations packets of Inl err \<Rightarrow> Inl err | Inr ds \<Rightarrow> Inr (d # ds)))"

definition validateContainer :: "Container option \<Rightarrow> player_error + duration list" where
  "validateContainer container =
     (case container of
        None \<Rightarrow> Inl (ErrInvalidPlayback None)
      | Some c \<Rightarrow>
          if ct_Packets c = [] \<or> md_PacketCount (ct_Metadata c) \<noteq> length (ct_Packets c)
          then Inl (ErrInvalidPlayback None)
          else case packet_durations (ct_Packets c) of
            Inl err \<Rightarrow> Inl err
          | Inr durations \<Rightarrow>
              let total = sum_list durations; frameDuration = millis (int OpusFrameDurationMS)
              in if total \<noteq> millis (int (md_DurationMS (ct_Metadata c))) \<or>
                    int (md_FrameCount (ct_Metadata c)) \<noteq> total div frameDuration \<or> seconds 60 < total
                 then Inl (ErrInvalidPlayback None)
                 else Inr durations)"

text \<open>The validation inside the loop: its error, the time of the next validation, the world.\<close>

definition validate_now ::
  "'w player_env \<Rightarrow> duration \<Rightarrow> time \<Rightarrow> 'w \<Rightarrow> string option \<times> time \<times> 'w" where
  "validate_now env interval nextValidationAt w =
     (case env_validate env of
        None \<Rightarrow> (None, nextValidationAt, w)
      | Some validate \<Rightarrow>
          let (now, w) = env_Now env w
          in if nextValidationAt = zero_time \<or> interval \<le> 0 \<or> \<not> now < nextValidationAt then
               let (err, w) = validate w
               in if err \<noteq> None then (err, nextValidationAt, w)
                  else if 0 < interval then let (now, w) = env_Now env w in (None, now + interval, w)
                  else (None, nextValidationAt, w)
             else (None, nextValidationAt, w))"

fun play_loop ::
  "'w player_env \<Rightarrow> duration \<Rightarrow> (bytes \<times> duration) list \<Rightarrow> time \<Rightarrow> time \<Rightarrow> Result \<Rightarrow> 'w \<Rightarrow>
   play_event list \<times> player_error option \<times> Result \<times> 'w" where
  "play_loop env interval [] nextSendAt nextValidationAt result w =
     (let (err, w) = env_WaitUntil env nextSendAt w
      in if err \<noteq> None then ([], map_option ContextDone err, result, w)
         else let (err, w) = env_contextError env w
              in if err \<noteq> None then ([], map_option ContextDone err, result, w)
                 else let (now, w) = env_Now env w
                      in ([], None, result\<lparr>res_EndedAt := now\<rparr>, w))"
| "play_loop env interval ((packet, duration) # packets) nextSendAt nextValidationAt result w =
     (let (err, w) = env_WaitUntil env nextSendAt w
      in if err \<noteq> None then ([], map_option ContextDone err, result, w)
         else let (err, nextValidationAt, w) = validate_now env interval nextValidationAt w
              in if err \<noteq> None then ([], map_option ValidationFailed err, result, w)
                 else let (err, w) = env_contextError env w
                      in if err \<noteq> None then ([], map_option ContextDone err, result, w)
                         else let (sentAt, w) = env_Now env w;
                                  (err, w) = env_SendVoice env packet sentAt w
                              in if err \<noteq> None then ([], map_option SendFailed err, result, w)
                                 else
                                   let result = result
                                         \<lparr>res_StartedAt := (if res_StartedAt result = zero_time then sentAt
                                                            else res_StartedAt result),
                                          res_PlayedDuration := res_PlayedDuration result + duration\<rparr>;
                                       nextSendAt = (if duration \<le> time_sub sentAt nextSendAt
                                                     then sentAt + duration else nextSendAt + duration);
                                       (events, err, result, w) =
                                         play_loop env interval packets nextSendAt nextValidationAt result w
                                   in (Sent packet sentAt # events, err, result, w))"

text \<open>The deferred function of \<^verbatim>\<open>Play\<close>.\<close>

definition close_playback :: "'w player_env \<Rightarrow> bool \<Rightarrow> Result \<Rightarrow> 'w \<Rightarrow> play_event \<times> Result \<times> 'w" where
  "close_playback env normalFinish result w =
     (let (stats, w) = (if normalFinish then env_Finish env w else env_Cancel env w);
          result = result\<lparr>res_SourceStats := stats, res_SentPackets := bs_SentPackets stats,
                     res_DroppedPackets := bs_DroppedPackets stats\<rparr>;
          event = (if normalFinish then Finished else Canceled)
      in if res_EndedAt result = zero_time \<and> res_StartedAt result \<noteq> zero_time
         then let (now, w) = env_Now env w in (event, result\<lparr>res_EndedAt := now\<rparr>, w)
         else (event, result, w))"

definition Play ::
  "'w player_env \<Rightarrow> Player \<Rightarrow> Container option \<Rightarrow> 'w \<Rightarrow>
   Player \<times> play_event list \<times> player_error option \<times> Result \<times> 'w" where
  "Play env p container w =
     (if pl_started p then (p, [], Some ErrAlreadyStarted, no_result, w)
      else
        let p = p\<lparr>pl_started := True\<rparr>
        in case validateContainer container of
             Inl err \<Rightarrow> (let (_, w) = env_Cancel env w in (p, [Canceled], Some err, no_result, w))
           | Inr durations \<Rightarrow>
               let (now, w) = env_Now env w;
                   (events, err, result, w) = play_loop env (pl_validateInterval p)
                     (zip (ct_Packets (the container)) durations) now zero_time no_result w;
                   (event, result, w) = close_playback env (err = None) result w
               in (p, events @ [event], err, result, w))"


definition New_Player :: "'w player_env option \<Rightarrow> duration \<Rightarrow> player_error + Player" where
  "New_Player source validateInterval =
     (if source = None then Inl ErrInvalidSource
      else Inr \<lparr>pl_validateInterval = validateInterval, pl_started = False\<rparr>)"

subsection \<open>A stored broadcast can be played\<close>

lemma PacketDuration_packet_of: "frames_fit fs \<Longrightarrow> PacketDuration (packet_of fs) = Inr (millis (int (length fs * 60)))"
  by (simp add: PacketDuration_def packet_of_split) (auto simp: frames_fit_def)

lemma packet_durations_fit:
  "list_all frames_fit gs \<Longrightarrow> packet_durations (map packet_of gs) = Inr (map (\<lambda>fs. millis (int (length fs * 60))) gs)"
  by (induction gs) (simp_all add: PacketDuration_packet_of)

lemma packet_durations_range:
  "packet_durations packets = Inr ds \<Longrightarrow> length ds = length packets \<and> (\<forall>d\<in>set ds. millis 60 \<le> d \<and> d \<le> millis 120)"
proof (induction packets arbitrary: ds)
  case (Cons packet packets)
  then show ?case by (fastforce simp: PacketDuration_def Suc_le_eq split: sum.splits prod.splits if_splits)
qed simp

lemma validateContainer_range:
  assumes "validateContainer container = Inr ds"
  obtains c where "container = Some c" "length ds = length (ct_Packets c)" "\<forall>d\<in>set ds. millis 60 \<le> d \<and> d \<le> millis 120"
    "sum_list ds = millis (int (md_DurationMS (ct_Metadata c)))"
  using assms packet_durations_range
  by (auto simp: validateContainer_def Let_def split: option.splits if_splits sum.splits)

lemma sum_durations: "sum_list (map (\<lambda>fs. millis (int (length fs * 60))) gs) = millis (int (length (concat gs) * 60))"
  by (induction gs) (simp_all add: algebra_simps)

subsection \<open>Pacing\<close>

text \<open>
  What a list of sending times and durations satisfies when each packet is due as the player
  computes it.
\<close>

fun paced :: "time \<Rightarrow> (time \<times> duration) list \<Rightarrow> bool" where
  "paced due [] = True"
| "paced due ((t, d) # sends) \<longleftrightarrow>
     due \<le> t \<and> paced (if d \<le> t - due then t + d else due + d) sends"

lemma paced_due:
  "paced due sends \<Longrightarrow> \<forall>s\<in>set sends. 0 \<le> snd s \<Longrightarrow> j < length sends \<Longrightarrow>
   due + sum_list (map snd (take j sends)) \<le> fst (sends ! j)"
proof (induction due sends arbitrary: j rule: paced.induct)
  case (2 due t d sends)
  show ?case
  proof (cases j)
    case 0
    with 2 show ?thesis by simp
  next
    case (Suc i)
    with "2.prems" have "(if d \<le> t - due then t + d else due + d) + sum_list (map snd (take i sends)) \<le> fst (sends ! i)"
      by (intro "2.IH") auto
    with Suc "2.prems" show ?thesis by (simp split: if_splits)
  qed
qed simp

lemma paced_gap:
  "paced due sends \<Longrightarrow> \<forall>s\<in>set sends. 0 < snd s \<Longrightarrow> i < j \<Longrightarrow> j < length sends \<Longrightarrow>
   fst (sends ! i) + sum_list (map snd (take (j - i - 1) (drop (i + 1) sends))) < fst (sends ! j)"
proof (induction due sends arbitrary: i j rule: paced.induct)
  case (2 due t d sends)
  let ?due = "if d \<le> t - due then t + d else due + d"
  obtain k where j: "j = Suc k" using "2.prems" by (cases j) auto
  show ?case
  proof (cases i)
    case 0
    have "?due + sum_list (map snd (take k sends)) \<le> fst (sends ! k)"
      using "2.prems" j by (intro paced_due) auto
    then show ?thesis using "2.prems" j 0 by (simp split: if_splits)
  next
    case (Suc l)
    then show ?thesis using "2.IH" [of l k] "2.prems" j by simp
  qed
qed simp

fun send_of :: "play_event \<Rightarrow> (bytes \<times> time) option" where
  "send_of (Sent packet t) = Some (packet, t)"
| "send_of _ = None"

definition sends :: "play_event list \<Rightarrow> (bytes \<times> time) list" where
  "sends events = List.map_filter send_of events"

lemma sends_simps [simp]:
  "sends [] = []" "sends (Sent p t # es) = (p, t) # sends es" "sends (Finished # es) = sends es"
  "sends (Canceled # es) = sends es" "sends (es @ fs) = sends es @ sends fs"
  by (simp_all add: sends_def List.map_filter_def)

text \<open>
  What the player relies on: \<open>T\<close> is the time of the world, no call turns it back, reading the
  clock gives a time between, and a wait that succeeds lasts until its target.
\<close>

definition clock_laws :: "'w player_env \<Rightarrow> ('w \<Rightarrow> time) \<Rightarrow> bool" where
  "clock_laws env T \<longleftrightarrow>
     (\<forall>w. T w \<le> fst (env_Now env w) \<and> fst (env_Now env w) \<le> T (snd (env_Now env w))) \<and>
     (\<forall>t w. T w \<le> T (snd (env_WaitUntil env t w)) \<and> (fst (env_WaitUntil env t w) = None \<longrightarrow> t \<le> T (snd (env_WaitUntil env t w)))) \<and>
     (\<forall>w. T w \<le> T (snd (env_contextError env w))) \<and>
     (\<forall>validate w. env_validate env = Some validate \<longrightarrow> T w \<le> T (snd (validate w)))"

lemma validate_now_time:
  assumes "clock_laws env T"
  shows "T w \<le> T (snd (snd (validate_now env interval v w)))"
proof -
  have now: "T w \<le> T (snd (env_Now env w))" for w
    using assms unfolding clock_laws_def by (meson order_trans)
  show ?thesis
  proof (cases "env_validate env")
    case (Some validate)
    have "T w \<le> T (snd (validate w))" for w using assms Some unfolding clock_laws_def by blast
    moreover have "T w \<le> T (snd (env_Now env (snd (validate (snd (env_Now env w))))))"
      using now [of w] now [of "snd (validate (snd (env_Now env w)))"] calculation [of "snd (env_Now env w)"] by linarith
    ultimately show ?thesis using now Some
      by (auto simp: validate_now_def Let_def split_beta intro: order_trans)
  qed (simp add: validate_now_def)
qed

text \<open>The loop, from the round in which it sends a packet.\<close>

lemma play_loop_round:
  assumes "play_loop env interval ((packet, duration) # packets) due v result w = (events, err, result', w')"
  obtains (stopped) e where "events = []" "err = Some e" "result' = result"
  | (sent) w1 sentAt events' v' w3 where
    "env_WaitUntil env due w = (None, w1)"
    "sentAt = fst (env_Now env (snd (env_contextError env (snd (snd (validate_now env interval v w1))))))"
    "events = Sent packet sentAt # events'"
    "play_loop env interval packets (if duration \<le> time_sub sentAt due then sentAt + duration else due + duration) v'
       (result\<lparr>res_StartedAt := (if res_StartedAt result = zero_time then sentAt else res_StartedAt result),
          res_PlayedDuration := res_PlayedDuration result + duration\<rparr>) w3 = (events', err, result', w')"
proof -
  obtain e1 w1 where 1: "env_WaitUntil env due w = (e1, w1)" by force
  obtain e2 v' w2 where 2: "validate_now env interval v w1 = (e2, v', w2)" by (cases "validate_now env interval v w1") auto
  obtain e3 w3 where 3: "env_contextError env w2 = (e3, w3)" by force
  obtain sentAt w4 where 4: "env_Now env w3 = (sentAt, w4)" by force
  obtain e5 w5 where 5: "env_SendVoice env packet sentAt w4 = (e5, w5)" by force
  show ?thesis
  proof (cases "e1 = None \<and> e2 = None \<and> e3 = None \<and> e5 = None")
    case False
    then show ?thesis using assms 1 2 3 4 5 by (auto split: if_splits intro: stopped)
  next
    case True
    obtain events' err' r w6 where 6: "play_loop env interval packets (if duration \<le> time_sub sentAt due then sentAt + duration else due + duration) v'
       (result\<lparr>res_StartedAt := (if res_StartedAt result = zero_time then sentAt else res_StartedAt result),
          res_PlayedDuration := res_PlayedDuration result + duration\<rparr>) w5 = (events', err', r, w6)"
      using prod_cases4 by blast
    show ?thesis
      by (rule sent [of w1 sentAt events' v' w5]) (use assms True 1 2 3 4 5 6 in \<open>simp_all add: Let_def\<close>)
  qed
qed


lemma play_loop_prefix:
  "play_loop env interval packets due v result w = (events, err, result', w') \<Longrightarrow>
   \<exists>k \<le> length packets. map fst (sends events) = map fst (take k packets) \<and>
     (err = None \<longrightarrow> k = length packets) \<and>
     length events = k \<and>
     res_PlayedDuration result' = res_PlayedDuration result + sum_list (map snd (take k packets))"
proof (induction packets arbitrary: due v result w events)
  case Nil
  then show ?case by (auto simp: Let_def split: prod.splits if_splits)
next
  case (Cons pd packets)
  obtain packet duration where pd: "pd = (packet, duration)" by force
  from Cons.prems [unfolded pd] show ?case
  proof (cases rule: play_loop_round)
    case (stopped e)
    then show ?thesis by auto
  next
    case (sent w1 sentAt events' v' w3)
    from Cons.IH [OF sent(4)] obtain k where "k \<le> length packets" "map fst (sends events') = map fst (take k packets)"
      "err = None \<longrightarrow> k = length packets" "length events' = k"
      "res_PlayedDuration result' = res_PlayedDuration result + duration + sum_list (map snd (take k packets))" by auto
    then show ?thesis using sent(3) pd by (intro exI [of _ "Suc k"]) simp
  qed
qed

lemma play_loop_paced:
  assumes "clock_laws env T"
  shows "play_loop env interval packets due v result w = (events, err, result', w') \<Longrightarrow>
    \<forall>pd\<in>set packets. 0 < snd pd \<and> snd pd < 2 ^ 62 \<Longrightarrow>
    paced due (zip (map snd (sends events)) (map snd packets))"
proof (induction packets arbitrary: due v result w events)
  case (Cons pd packets)
  obtain packet duration where pd: "pd = (packet, duration)" by force
  from Cons.prems(1) [unfolded pd] show ?case
  proof (cases rule: play_loop_round)
    case (sent w1 sentAt events' v' w3)
    have law: "\<And>w. T w \<le> fst (env_Now env w)" "\<And>w. T w \<le> T (snd (env_contextError env w))"
      "fst (env_WaitUntil env due w) = None \<longrightarrow> due \<le> T (snd (env_WaitUntil env due w))"
      using assms by (auto simp: clock_laws_def)
    have "due \<le> T w1" using law(3) sent(1) by simp
    also have "\<dots> \<le> sentAt" unfolding sent(2) using validate_now_time [OF assms] law(1,2) by (meson order_trans)
    finally have "due \<le> sentAt" .
    moreover have "duration \<le> time_sub sentAt due \<longleftrightarrow> duration \<le> sentAt - due"
      using Cons.prems(2) pd by (auto simp: not_less [symmetric])
    moreover have "paced (if duration \<le> time_sub sentAt due then sentAt + duration else due + duration)
        (zip (map snd (sends events')) (map snd packets))"
      by (rule Cons.IH [OF sent(4)]) (use Cons.prems(2) in simp)
    ultimately show ?thesis using sent(3) pd by simp
  qed simp
qed simp

text \<open>C30: A stored broadcast plays in full or is cancelled.  Once a file has been read as a container
  the player accepts it, with durations that add up to the duration in its metadata.  Whatever the
  clock, the context, the validator and the source do, the player sends a prefix of the packets in
  order and then closes the source exactly once: it finishes it when and only when it reports no
  error, and then every packet was sent.  The reported duration is that of the packets sent, and
  the player cannot be started a second time.\<close>

theorem stored_broadcast_plays:
  assumes "ReadContainer reader maxBytes = Inr c" and "\<not> pl_started p"
  shows "case Play env p (Some c) w of (p', events, err, result, w') \<Rightarrow>
    \<exists>ds k. validateContainer (Some c) = Inr ds \<and> sum_list ds = millis (int (md_DurationMS (ct_Metadata c))) \<and>
      k \<le> length (ct_Packets c) \<and>
      map fst (sends events) = take k (ct_Packets c) \<and>
      events = butlast events @ [if err = None then Finished else Canceled] \<and>
      length events = k + 1 \<and>
      (err = None \<longrightarrow> k = length (ct_Packets c) \<and> res_PlayedDuration result = millis (int (md_DurationMS (ct_Metadata c)))) \<and>
      res_PlayedDuration result = sum_list (take k ds) \<and>
      (\<forall>env' container w''. Play env' p' container w'' = (p', [], Some ErrAlreadyStarted, no_result, w''))"
proof -
  obtain gs where gs: "list_all frames_fit gs" "ct_Packets c = map packet_of gs" "1 \<le> length gs" "length (concat gs) \<le> 1000"
      "ct_Metadata c = \<lparr>md_PacketCount = length gs, md_FrameCount = length (concat gs), md_DurationMS = length (concat gs) * 60,
         md_Size = length (io_content reader), md_SHA256 = sha256 (container_payload (map packet_of gs))\<rparr>"
    using ReadContainer_accepts [OF assms(1)] by blast
  define ds where "ds = map (\<lambda>fs. millis (int (length fs * 60))) gs"
  have total: "sum_list ds = millis (int (length (concat gs) * 60))" by (simp only: ds_def sum_durations)
  have "gs \<noteq> []" using gs(3) by auto
  then have valid: "validateContainer (Some c) = Inr ds"
    using gs total packet_durations_fit [OF gs(1)] by (simp add: validateContainer_def Let_def ds_def)
  obtain now w1 where now: "env_Now env w = (now, w1)" by force
  obtain events err r w2 where loop: "play_loop env (pl_validateInterval p) (zip (ct_Packets c) ds) now zero_time no_result w1 =
      (events, err, r, w2)" using prod_cases4 by blast
  obtain r' w3 where fin: "close_playback env (err = None) r w2 = (if err = None then Finished else Canceled, r', w3)"
      "res_PlayedDuration r' = res_PlayedDuration r"
    by (cases "close_playback env (err = None) r w2") (auto simp: close_playback_def Let_def split: prod.splits if_splits)
  have play: "Play env p (Some c) w =
      (p\<lparr>pl_started := True\<rparr>, events @ [if err = None then Finished else Canceled], err, r', w3)"
    using assms(2) valid now loop fin(1) by (simp add: Play_def Let_def)
  have len: "length (zip (ct_Packets c) ds) = length (ct_Packets c)" by (simp add: gs(2) ds_def)
  obtain k where k: "k \<le> length (ct_Packets c)" "map fst (sends events) = map fst (take k (zip (ct_Packets c) ds))"
      "err = None \<longrightarrow> k = length (ct_Packets c)" "length events = k"
      "res_PlayedDuration r = sum_list (map snd (take k (zip (ct_Packets c) ds)))"
    using play_loop_prefix [OF loop] len by (auto simp: no_result_def)
  have "map fst (take k (zip (ct_Packets c) ds)) = take k (ct_Packets c)" "map snd (take k (zip (ct_Packets c) ds)) = take k ds"
    by (simp_all add: take_zip gs(2) ds_def)
  then show ?thesis using play k valid total gs(5) fin(2)
    by (auto simp: Play_def ds_def gs(2) intro!: exI [of _ ds] exI [of _ k])
qed


definition sample_env :: "time player_env" where
  "sample_env = \<lparr>env_Now = \<lambda>w. (w, w), env_WaitUntil = \<lambda>t w. (None, max t w), env_contextError = \<lambda>w. (None, w),
     env_validate = None, env_SendVoice = \<lambda>packet t w. (None, w + millis 1), env_Finish = \<lambda>w. (no_stats, w),
     env_Cancel = \<lambda>w. (no_stats, w)\<rparr>"

definition sample_player :: Player where
  "sample_player = \<lparr>pl_validateInterval = 0, pl_started = False\<rparr>"

theorem stored_broadcast_plays_witness:
  "\<exists>out c. BuildContainer [[1, 2], [3]] = Inr (out, ct_Metadata c) \<and>
    ReadContainer \<lparr>io_content = out, io_failure = None\<rparr> 1000000 = Inr c \<and>
    (case Play sample_env sample_player (Some c) 5 of (p', events, err, result, w') \<Rightarrow>
       events = butlast events @ [if err = None then Finished else Canceled])"
proof -
  have "list_all frame_fits [[1, 2], [3]]" by (simp add: frame_fits_def)
  then obtain out and c :: Container
    where c: "BuildContainer [[1, 2], [3]] = Inr (out, ct_Metadata c)" "length out \<le> 712052"
      "\<And>maxBytes. int (length out) \<le> maxBytes \<Longrightarrow> maxBytes < 2 ^ 63 - 1 \<Longrightarrow>
         ReadContainer \<lparr>io_content = out, io_failure = None\<rparr> maxBytes = Inr c"
    by (rule BuildContainer_readable [of "[[1, 2], [3]]", rotated 2]) simp_all
  then have r: "ReadContainer \<lparr>io_content = out, io_failure = None\<rparr> 1000000 = Inr c" by simp
  have "\<not> pl_started sample_player" by (simp add: sample_player_def)
  from stored_broadcast_plays [OF r this, of sample_env 5] c(1) r show ?thesis by fastforce
qed

text \<open>C24: A broadcast is never sent in a burst.  On a clock that does not run backwards, whatever
  delays occur, no packet is sent before the packets ahead of it have had their playing time since the
  start, and between any two packets lies more than the playing time of the packets between
  them, so a listener's buffer never has to hold more than the packet being played, the next
  one and the delay of the network.\<close>

theorem playback_paced:
  assumes "clock_laws env T" and "validateContainer container = Inr ds" and "\<not> pl_started p"
    and "Play env p container w = (p', events, err, result, w')"
    and "j < length (sends events)"
  shows "T w + sum_list (take j ds) \<le> snd (sends events ! j) \<and>
    (\<forall>i<j. snd (sends events ! i) + sum_list (take (j - i - 1) (drop (i + 1) ds)) < snd (sends events ! j))"
proof -
  obtain c where c: "container = Some c" "length ds = length (ct_Packets c)" "\<forall>d\<in>set ds. millis 60 \<le> d \<and> d \<le> millis 120"
    using validateContainer_range [OF assms(2)] by metis
  let ?packets = "zip (ct_Packets c) ds"
  obtain now w1 where now: "env_Now env w = (now, w1)" by force
  obtain es err' r w2 where loop: "play_loop env (pl_validateInterval p) ?packets now zero_time no_result w1 = (es, err', r, w2)"
    using prod_cases4 by blast
  obtain e r' w3 where fin: "close_playback env (err' = None) r w2 = (e, r', w3)" "e = Finished \<or> e = Canceled"
    by (cases "close_playback env (err' = None) r w2") (auto simp: close_playback_def Let_def split: prod.splits if_splits)
  have "events = es @ [e]"
    using assms(2-4) c(1) now loop fin(1) by (simp add: Play_def Let_def)
  then have sends: "sends events = sends es" using fin(2) by auto
  let ?xs = "zip (map snd (sends es)) (map snd ?packets)"
  have ds: "map snd ?packets = ds" by (simp add: c(2))
  have "length (sends es) \<le> length ds"
    using play_loop_prefix [OF loop] c(2) by (metis length_map length_take length_zip min.cobounded1 min_def)
  then have len: "length ?xs = length (sends es)" by (simp add: ds)
  have pos: "\<forall>pd\<in>set ?packets. 0 < snd pd \<and> snd pd < 2 ^ 62" "\<forall>s\<in>set ?xs. 0 < snd s"
    using c(3) by (fastforce dest: set_zip_rightD)+
  have nth: "fst (?xs ! k) = snd (sends es ! k)" if "k < length (sends es)" for k
    using that \<open>length (sends es) \<le> length ds\<close> by (simp add: ds)
  have durations: "map snd (take m (drop n ?xs)) = take m (drop n ds)" if "n + m \<le> length (sends es)" for n m
    using that \<open>length (sends es) \<le> length ds\<close> by (simp add: ds drop_zip take_zip)
  have paced: "paced now ?xs" using play_loop_paced [OF assms(1) loop pos(1)] .
  have "T w \<le> now" using assms(1) now unfolding clock_laws_def by (metis fst_conv)
  moreover have "now + sum_list (take j ds) \<le> snd (sends es ! j)"
    using paced_due [OF paced _, of j] pos(2) assms(5) len nth [of j] durations [of 0 j] by (fastforce simp: sends)
  moreover have "snd (sends es ! i) + sum_list (take (j - i - 1) (drop (i + 1) ds)) < snd (sends es ! j)" if "i < j" for i
    using paced_gap [OF paced pos(2) that] that assms(5) len nth [of j] nth [of i] durations [of "i + 1" "j - i - 1"]
      \<open>length (sends es) \<le> length ds\<close> c(2) by (simp add: sends)
  ultimately show ?thesis by (simp add: sends)
qed

lemma sample_env_laws: "clock_laws sample_env (\<lambda>w. w)"
  by (simp add: clock_laws_def sample_env_def)

definition sample_container :: Container where
  "sample_container = \<lparr>ct_Metadata = \<lparr>md_PacketCount = 2, md_FrameCount = 2, md_DurationMS = 120, md_Size = 0, md_SHA256 = []\<rparr>,
     ct_Packets = [[0, 1, 7], [0, 1, 8]]\<rparr>"

lemma sample_durations: "validateContainer (Some sample_container) = Inr [millis 60, millis 60]"
proof -
  have "sample_container = \<lparr>ct_Metadata = ct_Metadata sample_container, ct_Packets = map packet_of [[[7]], [[8]]]\<rparr>"
    by (simp add: sample_container_def packet_of_def length_prefixed_def putUint16_def unat_of_nat numeral_2_eq_2)
  moreover have "list_all frames_fit [[[7]], [[8]]]"
    by (simp add: frames_fit_def frame_ok_def packet_of_def)
  ultimately have "packet_durations (ct_Packets sample_container) = Inr [millis 60, millis 60]"
    using packet_durations_fit [of "[[[7]], [[8]]]"] by (simp add: sample_container_def)
  then show ?thesis by (simp add: validateContainer_def Let_def) (simp add: sample_container_def)
qed

lemma sample_play: "fst (snd (Play sample_env sample_player (Some sample_container) 5)) =
    [Sent [0, 1, 7] 5, Sent [0, 1, 8] 60000005, Finished]"
  by code_simp

theorem playback_paced_witness:
  "5 + sum_list (take 1 [millis 60, millis 60]) \<le> snd (sends [Sent [0, 1, 7] 5, Sent [0, 1, 8] 60000005, Finished] ! 1)"
proof -
  obtain p' err result w' where play: "Play sample_env sample_player (Some sample_container) 5 =
      (p', [Sent [0, 1, 7] 5, Sent [0, 1, 8] 60000005, Finished], err, result, w')"
    using sample_play by (metis prod.collapse)
  show ?thesis
    using playback_paced [OF sample_env_laws sample_durations _ play, of 1] by (simp add: sample_player_def)
qed

end
