(* ===== verification/Refresh_Store.thy ===== *)
theory Refresh_Store
  imports Go_Base
begin

section \<open>Refresh tokens in memory (\<open>internal/auth/refresh_token_store_memory.go\<close>)\<close>

text \<open>
  A web session is renewed with a refresh token, of which the server keeps the hash.  Each
  operation of the store runs under its lock, so an interleaving of requests is a sequence of
  operations.  A time the operation reads with \<^verbatim>\<open>time.Now\<close> is its argument \<open>now\<close>.  The loops over
  Go maps visit the keys in ascending order; every round touches the entries of its key only.
\<close>

record RefreshTokenRecord =
  tr_UserID :: int
  tr_SessionVersion :: u64
  tr_TokenHash :: string
  tr_ExpiresAt :: time
  tr_RevokedAt :: "time option"
  tr_ReplacedByHash :: string
  tr_RevokeReason :: string
  tr_CreatedIP :: string
  tr_UserAgent :: string
  tr_LastUsedAt :: "time option"

datatype store_error = ErrRefreshTokenNotActive | StoreFailure string

record memoryRefreshTokenStore =
  ms_tokens :: "(string, RefreshTokenRecord) fmap"
  ms_userTokens :: "(int, string fset) fmap"
  ms_nextCleanup :: time

abbreviation (input) expiredTokenRetention :: duration where "expiredTokenRetention \<equiv> seconds 86400"

definition newMemoryRefreshTokenStore :: memoryRefreshTokenStore where
  "newMemoryRefreshTokenStore = \<lparr>ms_tokens = fmempty, ms_userTokens = fmempty, ms_nextCleanup = zero_time\<rparr>"

definition store_Close :: "memoryRefreshTokenStore \<Rightarrow> memoryRefreshTokenStore" where
  "store_Close m = m\<lparr>ms_tokens := fmempty, ms_userTokens := fmempty, ms_nextCleanup := zero_time\<rparr>"

definition addUserTokenLocked :: "memoryRefreshTokenStore \<Rightarrow> int \<Rightarrow> string \<Rightarrow> memoryRefreshTokenStore" where
  "addUserTokenLocked m userID tokenHash =
     (if userID \<le> 0 \<or> tokenHash = [] then m
      else
        let hashSet = (case fmlookup (ms_userTokens m) userID of Some s \<Rightarrow> s | None \<Rightarrow> {||})
        in m\<lparr>ms_userTokens := fmupd userID (finsert tokenHash hashSet) (ms_userTokens m)\<rparr>)"

definition outlived :: "time \<Rightarrow> RefreshTokenRecord \<Rightarrow> bool" where
  "outlived now record \<longleftrightarrow> tr_ExpiresAt record + expiredTokenRetention < now"

definition forget_token :: "memoryRefreshTokenStore \<Rightarrow> string \<Rightarrow> RefreshTokenRecord \<Rightarrow> memoryRefreshTokenStore" where
  "forget_token m hash record =
     m\<lparr>ms_tokens := fmdrop hash (ms_tokens m),
       ms_userTokens := (case fmlookup (ms_userTokens m) (tr_UserID record) of
          None \<Rightarrow> ms_userTokens m
        | Some s \<Rightarrow>
            if s |-| {|hash|} = {||} then fmdrop (tr_UserID record) (ms_userTokens m)
            else fmupd (tr_UserID record) (s |-| {|hash|}) (ms_userTokens m))\<rparr>"

fun cleanup_loop :: "time \<Rightarrow> string list \<Rightarrow> memoryRefreshTokenStore \<Rightarrow> memoryRefreshTokenStore" where
  "cleanup_loop now [] m = m"
| "cleanup_loop now (hash # hashes) m =
     cleanup_loop now hashes
       (case fmlookup (ms_tokens m) hash of
          None \<Rightarrow> m
        | Some record \<Rightarrow> if outlived now record then forget_token m hash record else m)"

definition cleanupExpiredLocked :: "time \<Rightarrow> memoryRefreshTokenStore \<Rightarrow> memoryRefreshTokenStore" where
  "cleanupExpiredLocked now m =
     (if now < ms_nextCleanup m then m
      else cleanup_loop now (sorted_list_of_fset (fmdom (ms_tokens m))) (m\<lparr>ms_nextCleanup := now + seconds 60\<rparr>))"

definition store_Create :: "time \<Rightarrow> memoryRefreshTokenStore \<Rightarrow> RefreshTokenRecord option \<Rightarrow> memoryRefreshTokenStore" where
  "store_Create now m token =
     (case token of
        None \<Rightarrow> m
      | Some token \<Rightarrow>
          let hash = trim_space (tr_TokenHash token)
          in if hash = [] then m
             else
               let m = cleanupExpiredLocked now m;
                   m = m\<lparr>ms_tokens := fmupd hash token (ms_tokens m)\<rparr>
               in addUserTokenLocked m (tr_UserID token) hash)"

definition GetByTokenHash ::
    "time \<Rightarrow> memoryRefreshTokenStore \<Rightarrow> string \<Rightarrow> memoryRefreshTokenStore \<times> RefreshTokenRecord option" where
  "GetByTokenHash now m hash =
     (let hash = trim_space hash
      in if hash = [] then (m, None)
         else let m = cleanupExpiredLocked now m in (m, fmlookup (ms_tokens m) hash))"

definition store_Rotate ::
    "memoryRefreshTokenStore \<Rightarrow> string \<Rightarrow> RefreshTokenRecord option \<Rightarrow> string \<Rightarrow> time \<Rightarrow>
     memoryRefreshTokenStore \<times> store_error option" where
  "store_Rotate m oldTokenHash newToken revokeReason now =
     (let oldTokenHash = trim_space oldTokenHash
      in case newToken of
           None \<Rightarrow> (m, Some ErrRefreshTokenNotActive)
         | Some newToken \<Rightarrow>
             if oldTokenHash = [] \<or> trim_space (tr_TokenHash newToken) = [] then (m, Some ErrRefreshTokenNotActive)
             else
               let m = cleanupExpiredLocked now m
               in case fmlookup (ms_tokens m) oldTokenHash of
                    None \<Rightarrow> (m, Some ErrRefreshTokenNotActive)
                  | Some oldRecord \<Rightarrow>
                      if tr_RevokedAt oldRecord \<noteq> None then (m, Some ErrRefreshTokenNotActive)
                      else if tr_UserID oldRecord \<noteq> tr_UserID newToken \<or>
                              tr_SessionVersion oldRecord \<noteq> tr_SessionVersion newToken \<or>
                              \<not> now < tr_ExpiresAt oldRecord
                      then (m, Some ErrRefreshTokenNotActive)
                      else
                        let oldRecord = oldRecord\<lparr>tr_RevokedAt := Some now, tr_ReplacedByHash := tr_TokenHash newToken,
                              tr_RevokeReason := trim_space revokeReason, tr_LastUsedAt := Some now\<rparr>;
                            m = m\<lparr>ms_tokens := fmupd (tr_TokenHash newToken) newToken (fmupd oldTokenHash oldRecord (ms_tokens m))\<rparr>
                        in (addUserTokenLocked m (tr_UserID newToken) (tr_TokenHash newToken), None))"

definition revoke_record :: "string \<Rightarrow> time \<Rightarrow> RefreshTokenRecord \<Rightarrow> RefreshTokenRecord" where
  "revoke_record reason now record =
     (if tr_RevokedAt record = None
      then record\<lparr>tr_RevokedAt := Some now, tr_RevokeReason := reason, tr_LastUsedAt := Some now\<rparr> else record)"

definition RevokeByTokenHash :: "memoryRefreshTokenStore \<Rightarrow> string \<Rightarrow> string \<Rightarrow> time \<Rightarrow> memoryRefreshTokenStore" where
  "RevokeByTokenHash m hash reason now =
     (let hash = trim_space hash
      in if hash = [] then m
         else
           let m = cleanupExpiredLocked now m
           in case fmlookup (ms_tokens m) hash of
                None \<Rightarrow> m
              | Some record \<Rightarrow> m\<lparr>ms_tokens := fmupd hash (revoke_record (trim_space reason) now record) (ms_tokens m)\<rparr>)"

text \<open>The loop over the hashes of one user; the set is modified while it is visited.\<close>

fun revoke_loop ::
  "string \<Rightarrow> time \<Rightarrow> string list \<Rightarrow> (string, RefreshTokenRecord) fmap \<times> string fset \<Rightarrow>
   (string, RefreshTokenRecord) fmap \<times> string fset" where
  "revoke_loop reason now [] s = s"
| "revoke_loop reason now (hash # hashes) (tokens, hashSet) =
     revoke_loop reason now hashes
       (case fmlookup tokens hash of
          None \<Rightarrow> (tokens, hashSet |-| {|hash|})
        | Some record \<Rightarrow> (fmupd hash (revoke_record reason now record) tokens, hashSet))"

definition RevokeAllByUser :: "memoryRefreshTokenStore \<Rightarrow> int \<Rightarrow> string \<Rightarrow> time \<Rightarrow> memoryRefreshTokenStore" where
  "RevokeAllByUser m userID reason now =
     (if userID \<le> 0 then m
      else
        let m = cleanupExpiredLocked now m
        in case fmlookup (ms_userTokens m) userID of
             None \<Rightarrow> m
           | Some hashSet \<Rightarrow>
               let (tokens, hashSet) = revoke_loop (trim_space reason) now (sorted_list_of_fset hashSet) (ms_tokens m, hashSet)
               in m\<lparr>ms_tokens := tokens,
                    ms_userTokens := (if hashSet = {||} then fmdrop userID (ms_userTokens m)
                                      else fmupd userID hashSet (ms_userTokens m))\<rparr>)"

subsection \<open>Sequences of operations\<close>

datatype store_op =
    OpCreate time "RefreshTokenRecord option"
  | OpGet time string
  | OpRotate string "RefreshTokenRecord option" string time
  | OpRevoke string string time
  | OpRevokeAll int string time
  | OpClose

fun store_step :: "memoryRefreshTokenStore \<Rightarrow> store_op \<Rightarrow> memoryRefreshTokenStore" where
  "store_step m (OpCreate now token) = store_Create now m token"
| "store_step m (OpGet now hash) = fst (GetByTokenHash now m hash)"
| "store_step m (OpRotate old new reason now) = fst (store_Rotate m old new reason now)"
| "store_step m (OpRevoke hash reason now) = RevokeByTokenHash m hash reason now"
| "store_step m (OpRevokeAll userID reason now) = RevokeAllByUser m userID reason now"
| "store_step m OpClose = store_Close m"

abbreviation store_run :: "memoryRefreshTokenStore \<Rightarrow> store_op list \<Rightarrow> memoryRefreshTokenStore" where
  "store_run \<equiv> foldl store_step"

definition store_reachable :: "memoryRefreshTokenStore \<Rightarrow> bool" where
  "store_reachable m \<longleftrightarrow> (\<exists>ops. m = store_run newMemoryRefreshTokenStore ops)"

text \<open>The key under which an operation stores a new token.\<close>

fun creates :: "store_op \<Rightarrow> string \<Rightarrow> bool" where
  "creates (OpCreate now (Some token)) hash \<longleftrightarrow> hash = trim_space (tr_TokenHash token)"
| "creates (OpRotate old (Some token) reason now) hash \<longleftrightarrow> hash = tr_TokenHash token"
| "creates _ hash \<longleftrightarrow> False"

text \<open>The exchange of the token with hash \<open>hash\<close> succeeds.\<close>

fun exchanges :: "memoryRefreshTokenStore \<Rightarrow> store_op \<Rightarrow> string \<Rightarrow> bool" where
  "exchanges m (OpRotate old token reason now) hash \<longleftrightarrow>
     trim_space old = hash \<and> snd (store_Rotate m old token reason now) = None"
| "exchanges m _ hash \<longleftrightarrow> False"

subsection \<open>What cleanup leaves\<close>

lemma forget_tokens [simp]: "ms_tokens (forget_token m hash r) = fmdrop hash (ms_tokens m)"
  by (simp add: forget_token_def)

lemma cleanup_loop_lookup:
  "fmlookup (ms_tokens (cleanup_loop now hashes m)) h =
     (case fmlookup (ms_tokens m) h of
        None \<Rightarrow> None | Some r \<Rightarrow> if h \<in> set hashes \<and> outlived now r then None else Some r)"
  by (induction hashes arbitrary: m) (auto split: option.splits)

lemma cleanup_lookup:
  "fmlookup (ms_tokens (cleanupExpiredLocked now m)) h =
     (case fmlookup (ms_tokens m) h of
        None \<Rightarrow> None | Some r \<Rightarrow> if \<not> now < ms_nextCleanup m \<and> outlived now r then None else Some r)"
  by (auto simp: cleanupExpiredLocked_def cleanup_loop_lookup fmlookup_dom_iff split: option.splits)

lemma add_tokens [simp]: "ms_tokens (addUserTokenLocked m u h) = ms_tokens m"
  by (simp add: addUserTokenLocked_def Let_def)

text \<open>Every token of a user is in the index of that user.\<close>

definition indexed :: "memoryRefreshTokenStore \<Rightarrow> bool" where
  "indexed m \<longleftrightarrow>
     (\<forall>h r. fmlookup (ms_tokens m) h = Some r \<longrightarrow> 0 < tr_UserID r \<longrightarrow>
        (\<exists>s. fmlookup (ms_userTokens m) (tr_UserID r) = Some s \<and> h |\<in>| s))"

lemma indexed_forget: "indexed m \<Longrightarrow> fmlookup (ms_tokens m) h = Some r \<Longrightarrow> indexed (forget_token m h r)"
  by (fastforce simp: indexed_def forget_token_def split: option.splits if_splits)

lemma indexed_cleanup_loop: "indexed m \<Longrightarrow> indexed (cleanup_loop now hashes m)"
  by (induction hashes arbitrary: m) (auto split: option.splits intro: indexed_forget)

lemma indexed_cleanup: "indexed m \<Longrightarrow> indexed (cleanupExpiredLocked now m)"
  using indexed_cleanup_loop [of "m\<lparr>ms_nextCleanup := now + seconds 60\<rparr>"]
  by (simp add: cleanupExpiredLocked_def) (simp add: indexed_def)

lemma indexed_add:
  assumes "indexed m" and "h \<noteq> []" and "\<And>r'. fmlookup ts h = Some r' \<Longrightarrow> tr_UserID r' = u"
    and "\<And>k r. k \<noteq> h \<Longrightarrow> fmlookup ts k = Some r \<Longrightarrow> \<exists>r'. fmlookup (ms_tokens m) k = Some r' \<and> tr_UserID r' = tr_UserID r"
  shows "indexed (addUserTokenLocked (m\<lparr>ms_tokens := ts\<rparr>) u h)"
  unfolding indexed_def
proof (intro allI impI)
  fix k r
  assume "fmlookup (ms_tokens (addUserTokenLocked (m\<lparr>ms_tokens := ts\<rparr>) u h)) k = Some r" "0 < tr_UserID r"
  then have k: "fmlookup ts k = Some r" "0 < tr_UserID r" by simp_all
  show "\<exists>s. fmlookup (ms_userTokens (addUserTokenLocked (m\<lparr>ms_tokens := ts\<rparr>) u h)) (tr_UserID r) = Some s \<and> k |\<in>| s"
  proof (cases "k = h")
    case True
    with k assms(2) assms(3) [of r] show ?thesis by (auto simp: addUserTokenLocked_def Let_def)
  next
    case False
    with k assms(4) [of k r] obtain r' where "fmlookup (ms_tokens m) k = Some r'" "tr_UserID r' = tr_UserID r" by auto
    with assms(1) k obtain s where "fmlookup (ms_userTokens m) (tr_UserID r) = Some s" "k |\<in>| s"
      unfolding indexed_def by metis
    then show ?thesis by (auto simp: addUserTokenLocked_def Let_def)
  qed
qed

subsection \<open>Revocation\<close>

lemma revoke_record_simps [simp]:
  "tr_RevokedAt (revoke_record reason now r) \<noteq> None" "tr_UserID (revoke_record reason now r) = tr_UserID r"
  by (auto simp: revoke_record_def)

lemma revoke_record_revoked [simp]: "\<exists>y. tr_RevokedAt (revoke_record reason now r) = Some y"
  using revoke_record_simps(1) by blast

lemma revoke_loop_lookup:
  "distinct hashes \<Longrightarrow>
   fmlookup (fst (revoke_loop reason now hashes (tokens, hashSet))) h =
     (if h \<in> set hashes then map_option (revoke_record reason now) (fmlookup tokens h) else fmlookup tokens h)"
  by (induction hashes arbitrary: tokens hashSet) (auto split: option.splits)

lemma revoke_loop_set:
  "distinct hashes \<Longrightarrow> h |\<in>| snd (revoke_loop reason now hashes (tokens, hashSet)) \<longleftrightarrow>
     h |\<in>| hashSet \<and> \<not> (h \<in> set hashes \<and> fmlookup tokens h = None)"
  by (induction hashes arbitrary: tokens hashSet) (auto split: option.splits)

lemma RevokeAll_lookup:
  "fmlookup (ms_tokens (RevokeAllByUser m u reason now)) h =
     (if 0 < u \<and> (\<exists>s. fmlookup (ms_userTokens (cleanupExpiredLocked now m)) u = Some s \<and> h |\<in>| s)
      then map_option (revoke_record (trim_space reason) now) (fmlookup (ms_tokens (cleanupExpiredLocked now m)) h)
      else if 0 < u then fmlookup (ms_tokens (cleanupExpiredLocked now m)) h else fmlookup (ms_tokens m) h)"
  by (simp add: RevokeAllByUser_def Let_def split_beta revoke_loop_lookup split: option.splits)

lemma indexed_RevokeAll:
  assumes "indexed m"
  shows "indexed (RevokeAllByUser m u reason now)"
proof (cases "0 < u")
  case True
  let ?m = "cleanupExpiredLocked now m"
  have inv: "indexed ?m" using assms by (rule indexed_cleanup)
  show ?thesis
  proof (cases "fmlookup (ms_userTokens ?m) u")
    case None
    with True inv show ?thesis by (simp add: RevokeAllByUser_def Let_def)
  next
    case (Some s)
    obtain tokens s' where loop: "revoke_loop (trim_space reason) now (sorted_list_of_fset s) (ms_tokens ?m, s) = (tokens, s')"
      by force
    have tokens: "fmlookup tokens h = (if h |\<in>| s then map_option (revoke_record (trim_space reason) now) (fmlookup (ms_tokens ?m) h)
        else fmlookup (ms_tokens ?m) h)" for h
      using revoke_loop_lookup [of "sorted_list_of_fset s" "trim_space reason" now "ms_tokens ?m" s h] loop by simp
    have s': "h |\<in>| s' \<longleftrightarrow> h |\<in>| s \<and> fmlookup (ms_tokens ?m) h \<noteq> None" for h
      using revoke_loop_set [of "sorted_list_of_fset s" h "trim_space reason" now "ms_tokens ?m" s] loop by auto
    have new: "RevokeAllByUser m u reason now = ?m\<lparr>ms_tokens := tokens,
        ms_userTokens := (if s' = {||} then fmdrop u (ms_userTokens ?m) else fmupd u s' (ms_userTokens ?m))\<rparr>"
      using True Some loop by (simp add: RevokeAllByUser_def Let_def)
    show ?thesis
      unfolding indexed_def new
    proof (intro allI impI)
      fix h r
      assume "fmlookup (ms_tokens (?m\<lparr>ms_tokens := tokens,
        ms_userTokens := (if s' = {||} then fmdrop u (ms_userTokens ?m) else fmupd u s' (ms_userTokens ?m))\<rparr>)) h = Some r"
        and pos: "0 < tr_UserID r"
      then obtain r0 where r0: "fmlookup (ms_tokens ?m) h = Some r0" "tr_UserID r0 = tr_UserID r"
        using tokens [of h] by (auto split: if_splits)
      then obtain s0 where s0: "fmlookup (ms_userTokens ?m) (tr_UserID r) = Some s0" "h |\<in>| s0"
        using inv pos unfolding indexed_def by metis
      then show "\<exists>sa. fmlookup (ms_userTokens (?m\<lparr>ms_tokens := tokens,
        ms_userTokens := (if s' = {||} then fmdrop u (ms_userTokens ?m) else fmupd u s' (ms_userTokens ?m))\<rparr>)) (tr_UserID r) = Some sa \<and> h |\<in>| sa"
        using s' [of h] r0(1) Some by (cases "tr_UserID r = u") auto
    qed
  qed
qed (use assms in \<open>simp add: RevokeAllByUser_def\<close>)

lemma indexed_update:
  assumes "indexed m" and "\<And>k r. fmlookup ts k = Some r \<Longrightarrow> \<exists>r'. fmlookup (ms_tokens m) k = Some r' \<and> tr_UserID r' = tr_UserID r"
  shows "indexed (m\<lparr>ms_tokens := ts\<rparr>)"
  using assms unfolding indexed_def by (metis (no_types, lifting) memoryRefreshTokenStore.select_convs(1,2) memoryRefreshTokenStore.surjective memoryRefreshTokenStore.update_convs(1))

lemma trim_space_Nil [simp]: "trim_space [] = []"
  using length_strip_runes [of space_runes "[]"] by (simp add: trim_space_def) (simp add: strip_runes_stop starts_with_def)

lemma indexed_step: "indexed m \<Longrightarrow> indexed (store_step m op)"
proof (cases op)
  case (OpCreate now token)
  assume "indexed m"
  then show ?thesis using OpCreate indexed_cleanup [of m now]
    by (auto simp: store_Create_def Let_def split: option.splits intro!: indexed_add split: if_splits)
next
  case (OpRotate old token reason now)
  assume "indexed m"
  then show ?thesis using OpRotate indexed_cleanup [of m now]
    by (auto simp: store_Rotate_def Let_def split: option.splits intro!: indexed_add split: if_splits)
next
  case (OpRevoke hash reason now)
  assume "indexed m"
  then show ?thesis using OpRevoke indexed_cleanup [of m now]
    by (auto simp: RevokeByTokenHash_def Let_def split: option.splits intro!: indexed_update split: if_splits)
qed (auto simp: GetByTokenHash_def Let_def store_Close_def indexed_def [of "_\<lparr>ms_tokens := fmempty, ms_userTokens := _, ms_nextCleanup := _\<rparr>"]
    intro: indexed_cleanup indexed_RevokeAll)

lemma reachable_indexed: "store_reachable m \<Longrightarrow> indexed m"
proof -
  have "indexed (store_run m0 ops)" if "indexed m0" for m0 ops
    using that by (induction ops arbitrary: m0) (simp_all add: indexed_step)
  moreover have "indexed newMemoryRefreshTokenStore" by (simp add: indexed_def newMemoryRefreshTokenStore_def)
  ultimately show "store_reachable m \<Longrightarrow> indexed m" by (auto simp: store_reachable_def)
qed

lemma RevokeAll_complete:
  assumes "indexed m" and "0 < u" and "fmlookup (ms_tokens (RevokeAllByUser m u reason now)) h = Some r" and "tr_UserID r = u"
  shows "tr_RevokedAt r \<noteq> None"
proof -
  obtain r0 where r0: "fmlookup (ms_tokens (cleanupExpiredLocked now m)) h = Some r0" "tr_UserID r0 = u"
    using assms(2-4) RevokeAll_lookup [of m u reason now h] by (auto split: if_splits)
  then obtain s where "fmlookup (ms_userTokens (cleanupExpiredLocked now m)) u = Some s" "h |\<in>| s"
    using indexed_cleanup [OF assms(1)] assms(2) unfolding indexed_def by metis
  then have "r = revoke_record (trim_space reason) now r0"
    using assms(2,3) r0 RevokeAll_lookup [of m u reason now h] by auto
  then show ?thesis by simp
qed


subsection \<open>One exchange per token\<close>

definition spent :: "memoryRefreshTokenStore \<Rightarrow> string \<Rightarrow> bool" where
  "spent m h \<longleftrightarrow> (\<forall>r. fmlookup (ms_tokens m) h = Some r \<longrightarrow> tr_RevokedAt r \<noteq> None)"

lemma spent_cleanup: "spent m h \<Longrightarrow> spent (cleanupExpiredLocked now m) h"
  by (auto simp: spent_def cleanup_lookup split: option.splits if_splits)

lemma spent_step:
  assumes "spent m h" and "\<not> creates op h"
  shows "spent (store_step m op) h"
proof (cases op)
  case (OpCreate now token)
  then show ?thesis using assms spent_cleanup [OF assms(1), of now]
    by (auto simp: store_Create_def spent_def Let_def split: option.splits)
next
  case (OpRotate old token reason now)
  then show ?thesis using assms spent_cleanup [OF assms(1), of now]
    by (auto simp: store_Rotate_def spent_def Let_def split: option.splits)
next
  case (OpRevoke hash reason now)
  then show ?thesis using assms spent_cleanup [OF assms(1), of now]
    by (auto simp: RevokeByTokenHash_def spent_def Let_def split: option.splits)
next
  case (OpRevokeAll u reason now)
  then show ?thesis using assms spent_cleanup [OF assms(1), of now]
    by (auto simp: spent_def RevokeAll_lookup split: if_splits)
qed (use assms in \<open>auto simp: GetByTokenHash_def Let_def store_Close_def spent_cleanup, auto simp: spent_def\<close>)

lemma exchange_needs_active: "exchanges m op h \<Longrightarrow> \<not> spent m h"
  by (cases op) (auto simp: store_Rotate_def spent_def Let_def cleanup_lookup split: option.splits if_splits)

lemma exchange_spends: "exchanges m op h \<Longrightarrow> \<not> creates op h \<Longrightarrow> spent (store_step m op) h"
  by (cases op) (auto simp: store_Rotate_def spent_def Let_def split: option.splits if_splits)

lemma spent_run:
  "spent m h \<Longrightarrow> \<forall>op\<in>set ops. \<not> creates op h \<Longrightarrow> spent (store_run m ops) h"
  by (induction ops arbitrary: m) (simp_all add: spent_step)

text \<open>C12: A refresh token is good for one exchange.  In any sequence of operations on the store, in
  whatever order concurrent requests reach it, two successful exchanges of the token with one
  hash have an operation between them that stored a token under this hash again; so a token whose hash
  is issued once is exchanged at most once.\<close>

theorem refresh_token_single_use:
  assumes "exchanges (store_run m (take i ops)) (ops ! i) hash"
    and "exchanges (store_run m (take j ops)) (ops ! j) hash"
    and "i < j" and "j < length ops"
  shows "\<exists>k. i \<le> k \<and> k < j \<and> creates (ops ! k) hash"
proof (rule ccontr)
  assume none: "\<not> ?thesis"
  let ?mid = "take (j - Suc i) (drop (Suc i) ops)"
  have split: "take j ops = take i ops @ ops ! i # ?mid"
    using assms(3,4) id_take_nth_drop [of i "take j ops"] by (simp add: take_drop)
  have "\<forall>op\<in>set ?mid. \<not> creates op hash"
    using none assms(3,4) by (fastforce simp: in_set_conv_nth)
  moreover have "spent (store_step (store_run m (take i ops)) (ops ! i)) hash"
    using assms(1,3) none by (intro exchange_spends) auto
  ultimately have "spent (store_run m (take j ops)) hash" unfolding split by (simp add: spent_run)
  with exchange_needs_active [OF assms(2)] show False by simp
qed

definition sample_token :: "string \<Rightarrow> RefreshTokenRecord" where
  "sample_token hash = \<lparr>tr_UserID = 7, tr_SessionVersion = 1, tr_TokenHash = hash, tr_ExpiresAt = 1000, tr_RevokedAt = None,
     tr_ReplacedByHash = [], tr_RevokeReason = [], tr_CreatedIP = [], tr_UserAgent = [], tr_LastUsedAt = None\<rparr>"

definition sample_ops :: "store_op list" where
  "sample_ops = [OpCreate 1 (Some (sample_token ''a'')), OpRotate ''a'' (Some (sample_token ''b'')) ''rotated'' 2,
     OpCreate 3 (Some (sample_token ''a'')), OpRotate ''a'' (Some (sample_token ''c'')) ''rotated'' 4]"

lemma trim_sample [simp]: "trim_space ''a'' = ''a''" "trim_space ''b'' = ''b''" "trim_space ''c'' = ''c''"
  by (simp_all add: trim_space_printable printable_def)

lemma sample_exchanges:
  "exchanges (store_run newMemoryRefreshTokenStore (take 1 sample_ops)) (sample_ops ! 1) ''a''"
  "exchanges (store_run newMemoryRefreshTokenStore (take 3 sample_ops)) (sample_ops ! 3) ''a''"
  by (simp_all add: sample_ops_def store_Create_def store_Rotate_def newMemoryRefreshTokenStore_def cleanupExpiredLocked_def
      zero_time_def sample_token_def addUserTokenLocked_def Let_def)

theorem refresh_token_single_use_witness: "\<exists>k. 1 \<le> k \<and> k < 3 \<and> creates (sample_ops ! k) ''a''"
  using refresh_token_single_use [OF sample_exchanges] by (simp add: sample_ops_def)

subsection \<open>Revoking every session of a user\<close>

definition no_active :: "int \<Rightarrow> memoryRefreshTokenStore \<Rightarrow> bool" where
  "no_active u m \<longleftrightarrow> (\<forall>h r. fmlookup (ms_tokens m) h = Some r \<longrightarrow> tr_UserID r = u \<longrightarrow> tr_RevokedAt r \<noteq> None)"

fun logs_in :: "int \<Rightarrow> store_op \<Rightarrow> bool" where
  "logs_in u (OpCreate now (Some token)) \<longleftrightarrow> tr_UserID token = u"
| "logs_in u _ \<longleftrightarrow> False"

lemma no_active_cleanup: "no_active u m \<Longrightarrow> no_active u (cleanupExpiredLocked now m)"
  by (auto simp: no_active_def cleanup_lookup split: option.splits if_splits)

lemma no_active_step:
  assumes "no_active u m" and "\<not> logs_in u op"
  shows "no_active u (store_step m op)"
proof (cases op)
  case (OpCreate now token)
  then show ?thesis using assms no_active_cleanup [OF assms(1), of now]
    by (auto simp: store_Create_def no_active_def Let_def split: option.splits)
next
  case (OpRotate old token reason now)
  then show ?thesis using assms no_active_cleanup [OF assms(1), of now]
    by (fastforce simp: store_Rotate_def no_active_def Let_def split: option.splits)
next
  case (OpRevoke hash reason now)
  then show ?thesis using assms no_active_cleanup [OF assms(1), of now]
    by (auto simp: RevokeByTokenHash_def no_active_def Let_def split: option.splits)
next
  case (OpRevokeAll v reason now)
  then show ?thesis using assms no_active_cleanup [OF assms(1), of now]
    by (auto simp: no_active_def RevokeAll_lookup split: if_splits)
qed (use assms in \<open>auto simp: GetByTokenHash_def Let_def store_Close_def no_active_cleanup, auto simp: no_active_def\<close>)

lemma no_active_run: "no_active u m \<Longrightarrow> \<forall>op\<in>set ops. \<not> logs_in u op \<Longrightarrow> no_active u (store_run m ops)"
  by (induction ops arbitrary: m) (simp_all add: no_active_step)

lemma no_active_refuses:
  "no_active (tr_UserID token) m \<Longrightarrow> snd (store_Rotate m old (Some token) reason now) = Some ErrRefreshTokenNotActive"
  using no_active_cleanup [of "tr_UserID token" m now]
  by (fastforce simp: store_Rotate_def no_active_def Let_def split: option.splits)

text \<open>C29: Revoking a user's sessions ends all of them.  In every state the store reaches, once
  \<^verbatim>\<open>RevokeAllByUser\<close> has run no stored token of the user is active, and however requests
  interleave afterwards, no exchange for this user succeeds until the user logs in again.\<close>

theorem revoke_all_ends_sessions:
  assumes "store_reachable m" and "0 < userID" and "\<forall>op\<in>set ops. \<not> logs_in userID op"
  shows "(\<forall>hash r. fmlookup (ms_tokens (store_run (RevokeAllByUser m userID reason now) ops)) hash = Some r \<longrightarrow>
        tr_UserID r = userID \<longrightarrow> tr_RevokedAt r \<noteq> None) \<and>
    (\<forall>token old reason' now'. tr_UserID token = userID \<longrightarrow>
      snd (store_Rotate (store_run (RevokeAllByUser m userID reason now) ops) old (Some token) reason' now') =
        Some ErrRefreshTokenNotActive)"
proof -
  have "no_active userID (RevokeAllByUser m userID reason now)"
    using RevokeAll_complete [OF reachable_indexed [OF assms(1)] assms(2)] by (auto simp: no_active_def)
  then have "no_active userID (store_run (RevokeAllByUser m userID reason now) ops)"
    using assms(3) by (rule no_active_run)
  then show ?thesis
    using no_active_refuses by (auto simp: no_active_def)
qed

theorem revoke_all_ends_sessions_witness:
  "snd (store_Rotate (store_run (RevokeAllByUser (store_run newMemoryRefreshTokenStore (take 2 sample_ops)) 7 ''reuse'' 3) [OpGet 4 ''a''])
     ''b'' (Some (sample_token ''c'')) ''rotated'' 5) = Some ErrRefreshTokenNotActive"
proof -
  have "store_reachable (store_run newMemoryRefreshTokenStore (take 2 sample_ops))" by (auto simp: store_reachable_def)
  from revoke_all_ends_sessions [OF this, of 7 "[OpGet 4 ''a'']" "''reuse''" 3] show ?thesis
    by (simp add: sample_token_def)
qed

end
