(* ===== verification/Refresh_Handler.thy ===== *)
theory Refresh_Handler
  imports Refresh_Store Go_Base64 Go_Crypto
begin

section \<open>Issuing and refreshing web sessions (\<open>internal/handler/auth_refresh.go\<close>)\<close>

text \<open>
  The endpoint exchanges a refresh token for a new pair of tokens and treats a second use of an
  exchanged token as theft.  It is written against the interface \<^verbatim>\<open>RefreshTokenStore\<close>, which is a
  record of operations here; other requests may act on the store between its calls, which is
  the argument \<open>re_other\<close> (the \<open>n\<close>-th element acts before the \<open>n\<close>-th call).  The signature of the
  access token is made by a JWT package outside the repository and is an argument, as are the
  user repository, the random source and the clock (\<open>re_clock n\<close> is the \<open>n\<close>-th reading).  The user row
  is read once, before the exchange, as in the code; a change of it during the request is not seen.
\<close>

record 'st refresh_ops =
  ro_Create :: "time \<Rightarrow> 'st \<Rightarrow> RefreshTokenRecord option \<Rightarrow> 'st \<times> string option"
  ro_Get :: "time \<Rightarrow> 'st \<Rightarrow> string \<Rightarrow> 'st \<times> (string + RefreshTokenRecord option)"
  ro_Rotate :: "'st \<Rightarrow> string \<Rightarrow> RefreshTokenRecord option \<Rightarrow> string \<Rightarrow> time \<Rightarrow> 'st \<times> store_error option"
  ro_Revoke :: "'st \<Rightarrow> string \<Rightarrow> string \<Rightarrow> time \<Rightarrow> 'st \<times> string option"
  ro_RevokeAll :: "'st \<Rightarrow> int \<Rightarrow> string \<Rightarrow> time \<Rightarrow> 'st \<times> string option"

definition memory_ops :: "memoryRefreshTokenStore refresh_ops" where
  "memory_ops = \<lparr>ro_Create = \<lambda>now m token. (store_Create now m token, None),
     ro_Get = \<lambda>now m hash. (let (m, r) = GetByTokenHash now m hash in (m, Inr r)),
     ro_Rotate = store_Rotate,
     ro_Revoke = \<lambda>m hash reason now. (RevokeByTokenHash m hash reason now, None),
     ro_RevokeAll = \<lambda>m userID reason now. (RevokeAllByUser m userID reason now, None)\<rparr>"

abbreviation (input) refreshTokenTTL :: duration where "refreshTokenTTL \<equiv> seconds (14 * 24 * 3600)"
abbreviation (input) AccessTokenTTL :: duration where "AccessTokenTTL \<equiv> seconds (3 * 3600)"

record session_user =
  su_ID :: int
  su_Name :: string
  su_Roles :: string
  su_Status :: int
  su_ApprovalStatus :: int
  su_SessionVersion :: u64

definition GetRoles :: "session_user \<Rightarrow> string list" where
  "GetRoles user = (if su_Roles user = [] then [''user''] else [su_Roles user])"

record Claims =
  cl_Username :: string
  cl_UserID :: int
  cl_SessionVersion :: u64
  cl_Roles :: "string list"
  cl_TokenUse :: string
  cl_Subject :: string
  cl_ExpiresAt :: time
  cl_IssuedAt :: time
  cl_Issuer :: string

record issuedAuthTokens =
  it_AccessToken :: string
  it_RefreshToken :: string
  it_AccessExpiresIn :: int
  it_RefreshExpiresIn :: int

record 'st refresh_env =
  re_ops :: "'st refresh_ops"
  re_clock :: "nat \<Rightarrow> time"
  re_user :: "int \<Rightarrow> string + session_user option"
  re_secret :: bytes
  re_sign :: "bytes \<Rightarrow> Claims \<Rightarrow> string + string"
  re_rand :: "string + bytes"
  re_other :: "nat \<Rightarrow> 'st \<Rightarrow> 'st"
  re_ClientIP :: string
  re_UserAgent :: string

subsection \<open>Tokens\<close>

definition generateToken :: "'st refresh_env \<Rightarrow> time \<Rightarrow> int \<Rightarrow> string \<Rightarrow> string list \<Rightarrow> u64 \<Rightarrow> string + string" where
  "generateToken env now userID username roles sessionVersion =
     (let claims = \<lparr>cl_Username = username, cl_UserID = userID, cl_SessionVersion = sessionVersion, cl_Roles = roles,
            cl_TokenUse = ''access'', cl_Subject = (if 0 < userID then itoa userID else []),
            cl_ExpiresAt = now + AccessTokenTTL, cl_IssuedAt = now, cl_Issuer = ''draarl''\<rparr>
      in if re_secret env = [] then Inl ''JWT secret not initialised'' else re_sign env (re_secret env) claims)"

definition GenerateTokenForUser :: "'st refresh_env \<Rightarrow> time \<Rightarrow> int \<Rightarrow> string \<Rightarrow> string list \<Rightarrow> u64 \<Rightarrow> string + string" where
  "GenerateTokenForUser env now userID username roles sessionVersion =
     (if userID \<le> 0 \<or> sessionVersion = 0 then Inl ''user ID and session version must be positive''
      else generateToken env now userID username roles sessionVersion)"

definition hashRefreshToken :: "string \<Rightarrow> string" where
  "hashRefreshToken token = hex_encode (sha256 (bytes_of (trim_space token)))"

text \<open>\<^verbatim>\<open>base64.RawURLEncoding\<close> has the standard alphabet but for its last two symbols.\<close>

definition raw_url_encode :: "bytes \<Rightarrow> string" where
  "raw_url_encode bs = map (\<lambda>c. if c = CHR ''+'' then CHR ''-'' else if c = CHR ''/'' then CHR ''_'' else c) (b64_encode bs)"

definition generateRefreshTokenPair :: "'st refresh_env \<Rightarrow> string + string \<times> string" where
  "generateRefreshTokenPair env =
     (case re_rand env of
        Inl err \<Rightarrow> Inl err
      | Inr buf \<Rightarrow> let plainToken = raw_url_encode buf in Inr (plainToken, hashRefreshToken plainToken))"

definition trimUserAgent :: "string \<Rightarrow> string" where
  "trimUserAgent userAgent =
     (let userAgent = trim_space userAgent in if length userAgent \<le> 512 then userAgent else take 512 userAgent)"

definition new_record :: "'st refresh_env \<Rightarrow> session_user \<Rightarrow> string \<Rightarrow> time \<Rightarrow> RefreshTokenRecord" where
  "new_record env user hash now =
     \<lparr>tr_UserID = su_ID user, tr_SessionVersion = su_SessionVersion user, tr_TokenHash = hash,
      tr_ExpiresAt = now + refreshTokenTTL, tr_RevokedAt = None, tr_ReplacedByHash = [], tr_RevokeReason = [],
      tr_CreatedIP = re_ClientIP env, tr_UserAgent = trimUserAgent (re_UserAgent env), tr_LastUsedAt = None\<rparr>"

definition issued_tokens :: "string \<Rightarrow> string \<Rightarrow> issuedAuthTokens" where
  "issued_tokens accessToken refreshToken =
     \<lparr>it_AccessToken = accessToken, it_RefreshToken = refreshToken,
      it_AccessExpiresIn = AccessTokenTTL div seconds 1, it_RefreshExpiresIn = refreshTokenTTL div seconds 1\<rparr>"

definition issueAuthTokens :: "'st refresh_env \<Rightarrow> 'st \<Rightarrow> session_user \<Rightarrow> 'st \<times> (string + issuedAuthTokens)" where
  "issueAuthTokens env s user =
     (case GenerateTokenForUser env (re_clock env 0) (su_ID user) (su_Name user) (GetRoles user) (su_SessionVersion user) of
        Inl err \<Rightarrow> (s, Inl err)
      | Inr accessToken \<Rightarrow>
          case generateRefreshTokenPair env of
            Inl err \<Rightarrow> (s, Inl err)
          | Inr (refreshToken, refreshHash) \<Rightarrow>
              let (s, err) = ro_Create (re_ops env) (re_clock env 2) (re_other env 0 s)
                    (Some (new_record env user refreshHash (re_clock env 1)))
              in case err of
                   Some err \<Rightarrow> (s, Inl err)
                 | None \<Rightarrow> (s, Inr (issued_tokens accessToken refreshToken)))"

datatype rotate_error = RotateStore store_error | RotateOther string

text \<open>The clock readings 2 and 3 are those of the access token and of the rotation.\<close>

definition rotateAuthTokens ::
    "'st refresh_env \<Rightarrow> 'st \<Rightarrow> session_user \<Rightarrow> RefreshTokenRecord \<Rightarrow> 'st \<times> (rotate_error + issuedAuthTokens)" where
  "rotateAuthTokens env s user oldToken =
     (case GenerateTokenForUser env (re_clock env 2) (su_ID user) (su_Name user) (GetRoles user) (su_SessionVersion user) of
        Inl err \<Rightarrow> (s, Inl (RotateOther err))
      | Inr accessToken \<Rightarrow>
          case generateRefreshTokenPair env of
            Inl err \<Rightarrow> (s, Inl (RotateOther err))
          | Inr (newRefreshToken, newHash) \<Rightarrow>
              let now = re_clock env 3;
                  (s, err) = ro_Rotate (re_ops env) (re_other env 1 s) (tr_TokenHash oldToken)
                    (Some (new_record env user newHash now)) ''rotated'' now
              in case err of
                   Some err \<Rightarrow> (s, Inl (RotateStore err))
                 | None \<Rightarrow> (s, Inr (issued_tokens accessToken newRefreshToken)))"

subsection \<open>The endpoint\<close>

datatype bind_result = BindEOF | BindFailed | BindOK string

record refresh_request =
  rq_cookie :: "string option"
  rq_ContentLength :: int
  rq_body :: bind_result

definition readRefreshTokenFromRequest :: "refresh_request \<Rightarrow> string \<times> bool \<times> bool" where
  "readRefreshTokenFromRequest req =
     (let val = (case rq_cookie req of None \<Rightarrow> [] | Some v \<Rightarrow> trim_space v)
      in if val \<noteq> [] then (val, True, False)
         else if rq_ContentLength req = 0 then ([], False, False)
         else case rq_body req of
                BindEOF \<Rightarrow> ([], False, False)
              | BindFailed \<Rightarrow> ([], False, True)
              | BindOK token \<Rightarrow> (trim_space token, False, False))"

text \<open>
  The response: its status and message, whether the cookies are cleared, and the tokens that
  are set as cookies; the refresh token is in the body unless it came in a cookie.
\<close>

record refresh_response =
  rp_status :: nat
  rp_message :: string
  rp_cleared :: bool
  rp_tokens :: "issuedAuthTokens option"
  rp_inBody :: bool

definition refused :: "nat \<Rightarrow> string \<Rightarrow> bool \<Rightarrow> refresh_response" where
  "refused status message cleared =
     \<lparr>rp_status = status, rp_message = message, rp_cleared = cleared, rp_tokens = None, rp_inBody = False\<rparr>"

definition valid_account :: "string + session_user option \<Rightarrow> u64 \<Rightarrow> session_user option" where
  "valid_account result version =
     (case result of
        Inr (Some user) \<Rightarrow>
          if su_Status user \<noteq> 1 \<or> su_ApprovalStatus user \<noteq> 1 \<or> version \<noteq> su_SessionVersion user then None else Some user
      | _ \<Rightarrow> None)"

definition RefreshToken :: "'st refresh_env \<Rightarrow> 'st \<Rightarrow> refresh_request \<Rightarrow> 'st \<times> refresh_response" where
  "RefreshToken env s req =
     (case readRefreshTokenFromRequest req of (rawToken, fromCookie, bindErr) \<Rightarrow>
        if bindErr then (s, refused 400 ''bad_request'' False)
        else if rawToken = [] then (s, refused 401 ''refresh_token_required'' True)
        else
          let ops = re_ops env; tokenHash = hashRefreshToken rawToken;
              (s, found) = ro_Get ops (re_clock env 0) (re_other env 0 s) tokenHash
          in case found of
               Inl err \<Rightarrow> (s, refused 500 ''token_check_failed'' False)
             | Inr None \<Rightarrow> (s, refused 401 ''invalid_refresh_token'' True)
             | Inr (Some stored) \<Rightarrow>
                 let now = re_clock env 1
                 in if tr_RevokedAt stored \<noteq> None then
                      if tr_ReplacedByHash stored \<noteq> [] then
                        let (s, err) = ro_RevokeAll ops (re_other env 1 s) (tr_UserID stored) ''reuse_detected'' now
                        in if err \<noteq> None then (s, refused 503 ''revocation_failed'' False)
                           else (s, refused 401 ''refresh_token_revoked'' True)
                      else (s, refused 401 ''refresh_token_revoked'' True)
                    else if tr_ExpiresAt stored < now then
                      let (s, _) = ro_Revoke ops (re_other env 1 s) tokenHash ''expired'' now
                      in (s, refused 401 ''refresh_token_expired'' True)
                    else case valid_account (re_user env (tr_UserID stored)) (tr_SessionVersion stored) of
                      None \<Rightarrow>
                        let (s, _) = ro_RevokeAll ops (re_other env 1 s) (tr_UserID stored) ''user_invalid'' now
                        in (s, refused 401 ''user_invalid'' True)
                    | Some user \<Rightarrow>
                        let (s, issued) = rotateAuthTokens env s user stored
                        in case issued of
                             Inl (RotateStore ErrRefreshTokenNotActive) \<Rightarrow>
                               let (s, latest) = ro_Get ops (re_clock env 4) (re_other env 2 s) tokenHash
                               in (case latest of
                                     Inl err \<Rightarrow> (s, refused 503 ''token_check_failed'' False)
                                   | Inr (Some latest) \<Rightarrow>
                                       if tr_ReplacedByHash latest \<noteq> [] then
                                         let (s, err) = ro_RevokeAll ops (re_other env 3 s) (tr_UserID stored) ''reuse_detected'' (re_clock env 5)
                                         in if err \<noteq> None then (s, refused 503 ''revocation_failed'' False)
                                            else (s, refused 401 ''refresh_token_revoked'' True)
                                       else (s, refused 401 ''refresh_token_revoked'' True)
                                   | Inr None \<Rightarrow> (s, refused 401 ''refresh_token_revoked'' True))
                           | Inl _ \<Rightarrow> (s, refused 500 ''refresh_failed'' False)
                           | Inr issued \<Rightarrow>
                               (s, \<lparr>rp_status = 200, rp_message = ''ok'', rp_cleared = False, rp_tokens = Some issued,
                                   rp_inBody = \<not> fromCookie\<rparr>))"

definition revokeCurrentRefreshToken :: "'st refresh_env \<Rightarrow> 'st \<Rightarrow> refresh_request \<Rightarrow> string \<Rightarrow> 'st" where
  "revokeCurrentRefreshToken env s req reason =
     (case readRefreshTokenFromRequest req of (rawToken, _, _) \<Rightarrow>
        if rawToken = [] then s
        else fst (ro_Revoke (re_ops env) (re_other env 0 s) (hashRefreshToken rawToken) reason (re_clock env 0)))"

definition revokeUserRefreshSessions :: "'st refresh_env \<Rightarrow> 'st \<Rightarrow> int \<Rightarrow> string \<Rightarrow> 'st" where
  "revokeUserRefreshSessions env s userID reason =
     (if userID \<le> 0 then s
      else fst (ro_RevokeAll (re_ops env) (re_other env 0 s) userID reason (re_clock env 0)))"


text \<open>The branch for a token that was exchanged before.\<close>

lemma RefreshToken_reused:
  assumes "readRefreshTokenFromRequest req = (raw, fromCookie, False)" and "raw \<noteq> []"
    and "ro_Get (re_ops env) (re_clock env 0) (re_other env 0 s) (hashRefreshToken raw) = (s0, Inr (Some stored))"
    and "tr_RevokedAt stored \<noteq> None" and "tr_ReplacedByHash stored \<noteq> []"
    and "ro_RevokeAll (re_ops env) (re_other env 1 s0) (tr_UserID stored) ''reuse_detected'' (re_clock env 1) = (s1, err)"
  shows "RefreshToken env s req =
    (s1, if err \<noteq> None then refused 503 ''revocation_failed'' False else refused 401 ''refresh_token_revoked'' True)"
  using assms(2,4,5) by (simp add: RefreshToken_def assms(1,3,6) Let_def del: One_nat_def)

lemma read_no_error:
  assumes "fst (readRefreshTokenFromRequest req) \<noteq> []"
  obtains fromCookie where "readRefreshTokenFromRequest req = (fst (readRefreshTokenFromRequest req), fromCookie, False)"
  using assms by (auto simp: readRefreshTokenFromRequest_def Let_def split: if_splits bind_result.splits)

subsection \<open>What the endpoint relies on\<close>

text \<open>
  The contract of \<^verbatim>\<open>RefreshTokenStore\<close>: \<open>look s h\<close> is the record stored under a hash.  Reading
  may forget records but changes none; an exchange succeeds only for an active record of the same
  user and session version that has not expired, revokes it and stores the new one; revoking
  all tokens of a user leaves none active.
\<close>

locale refresh_store =
  fixes ops :: "'st refresh_ops" and ok :: "'st \<Rightarrow> bool" and look :: "'st \<Rightarrow> string \<Rightarrow> RefreshTokenRecord option"
  assumes look_hash: "ok s \<Longrightarrow> look s h = Some r \<Longrightarrow> tr_TokenHash r = h"
    and get_law: "ok s \<Longrightarrow> ro_Get ops now s h = (s', Inr found) \<Longrightarrow> trim_space h = h \<Longrightarrow> h \<noteq> [] \<Longrightarrow>
      ok s' \<and> found = look s' h \<and> (look s' k = look s k \<or> look s' k = None)"
    and rotate_ok: "ok s \<Longrightarrow> ro_Rotate ops s old (Some t) reason now = (s', None) \<Longrightarrow> trim_space old = old \<Longrightarrow>
      ok s' \<and> look s' (tr_TokenHash t) = Some t \<and>
      (\<exists>r. look s old = Some r \<and> tr_RevokedAt r = None \<and> tr_UserID r = tr_UserID t \<and>
         tr_SessionVersion r = tr_SessionVersion t \<and> now < tr_ExpiresAt r) \<and>
      (old \<noteq> tr_TokenHash t \<longrightarrow> (\<exists>r. look s' old = Some r \<and> tr_RevokedAt r = Some now \<and> tr_ReplacedByHash r = tr_TokenHash t))"
    and rotate_err: "ok s \<Longrightarrow> ro_Rotate ops s old (Some t) reason now = (s', Some err) \<Longrightarrow> ok s'"
    and revoke_all: "ok s \<Longrightarrow> ro_RevokeAll ops s u reason now = (s', None) \<Longrightarrow> 0 < u \<Longrightarrow>
      ok s' \<and> (look s' h = Some r \<longrightarrow> tr_UserID r = u \<longrightarrow> tr_RevokedAt r \<noteq> None)"
begin

lemma refresh_success:
  assumes env: "re_ops env = ops" "\<forall>n s. ok s \<longrightarrow> ok (re_other env n s)" and s: "ok s"
    and run: "RefreshToken env s req = (s', resp)" "rp_tokens resp = Some issued"
    and hash: "h = hashRefreshToken (fst (readRefreshTokenFromRequest req))" "trim_space h = h" "h \<noteq> []"
  shows "let s0 = fst (ro_Get ops (re_clock env 0) (re_other env 0 s) h); h' = hashRefreshToken (it_RefreshToken issued)
    in \<exists>stored user r. look s0 h = Some stored \<and> tr_RevokedAt stored = None \<and>
      re_user env (tr_UserID stored) = Inr (Some user) \<and> su_Status user = 1 \<and> su_ApprovalStatus user = 1 \<and>
      su_SessionVersion user = tr_SessionVersion stored \<and>
      look (re_other env 1 s0) h = Some r \<and> tr_RevokedAt r = None \<and> re_clock env 3 < tr_ExpiresAt r \<and>
      tr_UserID r = su_ID user \<and> tr_SessionVersion r = su_SessionVersion user \<and>
      look s' h' = Some (new_record env user h' (re_clock env 3)) \<and>
      (h \<noteq> h' \<longrightarrow> (\<exists>r'. look s' h = Some r' \<and> tr_RevokedAt r' = Some (re_clock env 3) \<and> tr_ReplacedByHash r' = h'))"
proof -
  obtain s0 stored user where
      get: "ro_Get ops (re_clock env 0) (re_other env 0 s) h = (s0, Inr (Some stored))" and
      stored: "tr_RevokedAt stored = None" "valid_account (re_user env (tr_UserID stored)) (tr_SessionVersion stored) = Some user" and
      rotate: "rotateAuthTokens env s0 user stored = (s', Inr issued)"
    using run env(1) hash(1)
    by (auto simp: RefreshToken_def Let_def refused_def
        split: prod.splits if_splits sum.splits option.splits rotate_error.splits store_error.splits)
  have s0: "ok s0" "look s0 h = Some stored" using get_law [OF env(2) [rule_format, OF s] get hash(2,3)] by auto
  then have old: "tr_TokenHash stored = h" by (rule look_hash)
  have user: "re_user env (tr_UserID stored) = Inr (Some user)" "su_Status user = 1" "su_ApprovalStatus user = 1"
      "su_SessionVersion user = tr_SessionVersion stored"
    using stored(2) by (auto simp: valid_account_def split: sum.splits option.splits if_splits)
  obtain h' where h': "h' = hashRefreshToken (it_RefreshToken issued)"
      "ro_Rotate ops (re_other env 1 s0) h (Some (new_record env user h' (re_clock env 3))) ''rotated'' (re_clock env 3) = (s', None)"
    using rotate env(1) old
    by (auto simp: rotateAuthTokens_def generateRefreshTokenPair_def issued_tokens_def Let_def split: sum.splits prod.splits option.splits)
  have new: "tr_TokenHash (new_record env user h' now) = h'" "tr_UserID (new_record env user h' now) = su_ID user"
      "tr_SessionVersion (new_record env user h' now) = su_SessionVersion user" for now
    by (simp_all add: new_record_def)
  show ?thesis
    using rotate_ok [OF env(2) [rule_format, OF s0(1)] h'(2) hash(2)] s0(2) stored(1) user
    unfolding new Let_def h'(1) [symmetric] get fst_conv by blast
qed

lemma refresh_replay:
  assumes env: "re_ops env = ops" "\<forall>n s. ok s \<longrightarrow> ok (re_other env n s)" and s: "ok s"
    and run: "RefreshToken env s req = (s', resp)" "rp_status resp = 401"
    and get: "ro_Get ops (re_clock env 0) (re_other env 0 s) h = (s0, Inr (Some stored))"
      "tr_RevokedAt stored \<noteq> None" "tr_ReplacedByHash stored \<noteq> []" "0 < tr_UserID stored"
    and hash: "h = hashRefreshToken (fst (readRefreshTokenFromRequest req))" "trim_space h = h" "h \<noteq> []"
    and read: "fst (readRefreshTokenFromRequest req) \<noteq> []"
  shows "rp_tokens resp = None \<and> (\<forall>k r. look s' k = Some r \<longrightarrow> tr_UserID r = tr_UserID stored \<longrightarrow> tr_RevokedAt r \<noteq> None)"
proof -
  obtain fromCookie where rd: "readRefreshTokenFromRequest req = (fst (readRefreshTokenFromRequest req), fromCookie, False)"
    using read_no_error [OF read] .
  obtain s1 err where all: "ro_RevokeAll ops (re_other env 1 s0) (tr_UserID stored) ''reuse_detected'' (re_clock env 1) = (s1, err)"
    by force
  have "(s', resp) = (s1, if err \<noteq> None then refused 503 ''revocation_failed'' False else refused 401 ''refresh_token_revoked'' True)"
    using RefreshToken_reused [OF rd read _ get(2,3), of env s s0 s1 err] get(1) all env(1) hash(1) run(1) by simp
  then have "s' = s1" "err = None" "resp = refused 401 ''refresh_token_revoked'' True"
    using run(2) by (auto simp: refused_def split: if_splits)
  have "ok s0" using get_law [OF env(2) [rule_format, OF s] get(1) hash(2,3)] by auto
  then show ?thesis
    using revoke_all [OF env(2) [rule_format] all [unfolded \<open>err = None\<close>] get(4)] \<open>s' = s1\<close> \<open>resp = _\<close> by (auto simp: refused_def)
qed

end

subsection \<open>The memory store keeps the contract\<close>

definition store_ok :: "memoryRefreshTokenStore \<Rightarrow> bool" where
  "store_ok m \<longleftrightarrow> indexed m \<and> (\<forall>h r. fmlookup (ms_tokens m) h = Some r \<longrightarrow> tr_TokenHash r = h)"

lemma store_ok_cleanup: "store_ok m \<Longrightarrow> store_ok (cleanupExpiredLocked now m)"
  by (auto simp: store_ok_def indexed_cleanup cleanup_lookup split: option.splits if_splits)

lemma revoke_record_hash [simp]: "tr_TokenHash (revoke_record reason now r) = tr_TokenHash r"
  by (simp add: revoke_record_def)

fun clean_op :: "store_op \<Rightarrow> bool" where
  "clean_op (OpCreate now (Some token)) \<longleftrightarrow> trim_space (tr_TokenHash token) = tr_TokenHash token"
| "clean_op _ \<longleftrightarrow> True"

lemma store_ok_step:
  assumes "store_ok m" and "clean_op op"
  shows "store_ok (store_step m op)"
proof -
  note clean = store_ok_cleanup [OF assms(1)]
  have "indexed (store_step m op)" using assms(1) by (simp add: store_ok_def indexed_step)
  moreover have "tr_TokenHash r = h" if "fmlookup (ms_tokens (store_step m op)) h = Some r" for h r
  proof (cases op)
    case (OpCreate now token)
    then show ?thesis using that assms clean [of now]
      by (auto simp: store_Create_def Let_def store_ok_def split: option.splits if_splits)
  next
    case (OpRotate old token reason now)
    then show ?thesis using that assms(1) clean [of now]
      by (auto simp: store_Rotate_def Let_def store_ok_def split: option.splits if_splits)
  next
    case (OpRevoke hash reason now)
    then show ?thesis using that assms(1) clean [of now]
      by (auto simp: RevokeByTokenHash_def Let_def store_ok_def split: option.splits if_splits)
  next
    case (OpRevokeAll u reason now)
    then show ?thesis using that assms(1) clean [of now]
      by (auto simp: RevokeAll_lookup store_ok_def split: if_splits)
  next
    case (OpGet now hash)
    then show ?thesis using that assms(1) clean [of now]
      by (auto simp: GetByTokenHash_def Let_def store_ok_def split: if_splits)
  next
    case OpClose
    then show ?thesis using that by (simp add: store_Close_def)
  qed
  ultimately show ?thesis by (simp add: store_ok_def)
qed

lemma store_ok_run: "store_ok m \<Longrightarrow> \<forall>op\<in>set ops. clean_op op \<Longrightarrow> store_ok (store_run m ops)"
  by (induction ops arbitrary: m) (simp_all add: store_ok_step)

interpretation memory: refresh_store memory_ops store_ok "\<lambda>m. fmlookup (ms_tokens m)"
proof
  show "tr_TokenHash r = h" if "store_ok s" "fmlookup (ms_tokens s) h = Some r" for s h r
    using that by (simp add: store_ok_def)
next
  fix s s' :: memoryRefreshTokenStore and now h found k
  assume *: "store_ok s" "ro_Get memory_ops now s h = (s', Inr found)" "trim_space h = h" "h \<noteq> []"
  then have "s' = cleanupExpiredLocked now s" "found = fmlookup (ms_tokens s') h"
    by (auto simp: memory_ops_def GetByTokenHash_def Let_def)
  then show "store_ok s' \<and> found = fmlookup (ms_tokens s') h \<and>
      (fmlookup (ms_tokens s') k = fmlookup (ms_tokens s) k \<or> fmlookup (ms_tokens s') k = None)"
    using *(1) by (auto simp: store_ok_cleanup cleanup_lookup split: option.splits)
next
  fix s s' :: memoryRefreshTokenStore and old t reason now
  assume *: "store_ok s" "ro_Rotate memory_ops s old (Some t) reason now = (s', None)" "trim_space old = old"
  then have "store_ok s'"
    using store_ok_step [of s "OpRotate old (Some t) reason now"] by (simp add: memory_ops_def)
  then show "store_ok s' \<and> fmlookup (ms_tokens s') (tr_TokenHash t) = Some t \<and>
      (\<exists>r. fmlookup (ms_tokens s) old = Some r \<and> tr_RevokedAt r = None \<and> tr_UserID r = tr_UserID t \<and>
         tr_SessionVersion r = tr_SessionVersion t \<and> now < tr_ExpiresAt r) \<and>
      (old \<noteq> tr_TokenHash t \<longrightarrow>
         (\<exists>r. fmlookup (ms_tokens s') old = Some r \<and> tr_RevokedAt r = Some now \<and> tr_ReplacedByHash r = tr_TokenHash t))"
    using *(2,3) by (auto simp: memory_ops_def store_Rotate_def Let_def cleanup_lookup split: option.splits if_splits)
next
  fix s s' :: memoryRefreshTokenStore and old t reason now err
  assume "store_ok s" "ro_Rotate memory_ops s old (Some t) reason now = (s', Some err)"
  then show "store_ok s'"
    using store_ok_step [of s "OpRotate old (Some t) reason now"] by (simp add: memory_ops_def)
next
  fix s s' :: memoryRefreshTokenStore and u reason now h r
  assume *: "store_ok s" "ro_RevokeAll memory_ops s u reason now = (s', None)" "0 < u"
  then have "s' = RevokeAllByUser s u reason now" by (simp add: memory_ops_def)
  then show "store_ok s' \<and> (fmlookup (ms_tokens s') h = Some r \<longrightarrow> tr_UserID r = u \<longrightarrow> tr_RevokedAt r \<noteq> None)"
    using * store_ok_step [of s "OpRevokeAll u reason now"] RevokeAll_complete [of s u reason now h r]
    by (auto simp: store_ok_def)
qed


subsection \<open>The endpoint on the memory store\<close>

lemma hex_digit_printable: "is_hex_digit c \<Longrightarrow> printable [c]"
  by (auto simp: is_hex_digit_def printable_def)

lemma hashRefreshToken_trimmed [simp]: "trim_space (hashRefreshToken t) = hashRefreshToken t"
proof -
  have "printable (hex_encode bs)" for bs
    using hex_encode_digits [of bs] hex_digit_printable by (auto simp: list_all_iff printable_def)
  then show ?thesis by (simp add: hashRefreshToken_def trim_space_printable)
qed

lemma hashRefreshToken_neq [simp]: "hashRefreshToken t \<noteq> []"
proof -
  have "length (hashRefreshToken t) = 64" by (simp add: hashRefreshToken_def)
  then show ?thesis by force
qed

text \<open>
  Requests interleaved with this one: any sequences of store operations whose new tokens have
  hashes without surrounding space, as those of \<^verbatim>\<open>hashRefreshToken\<close> are.
\<close>

definition interleaved :: "memoryRefreshTokenStore refresh_env \<Rightarrow> bool" where
  "interleaved env \<longleftrightarrow> re_ops env = memory_ops \<and>
     (\<forall>n. \<exists>ops. list_all clean_op ops \<and> (\<forall>m. re_other env n m = store_run m ops))"

definition clean_reachable :: "memoryRefreshTokenStore \<Rightarrow> bool" where
  "clean_reachable m \<longleftrightarrow> (\<exists>ops. list_all clean_op ops \<and> m = store_run newMemoryRefreshTokenStore ops)"

lemma interleaved_ok: "interleaved env \<Longrightarrow> \<forall>n m. store_ok m \<longrightarrow> store_ok (re_other env n m)"
  unfolding interleaved_def list_all_iff by (metis store_ok_run)

lemma clean_reachable_ok: "clean_reachable m \<Longrightarrow> store_ok m"
proof -
  have "store_ok newMemoryRefreshTokenStore" by (simp add: store_ok_def indexed_def newMemoryRefreshTokenStore_def)
  then show "clean_reachable m \<Longrightarrow> store_ok m" by (auto simp: clean_reachable_def list_all_iff intro: store_ok_run)
qed

text \<open>C23: Only an active session is renewed.  However other requests interleave with this one, when the
  endpoint hands out tokens the presented token was stored, not revoked and not expired at the
  moment of the exchange, its user exists, is enabled and approved, and has not raised the
  session version since the token was issued; the exchange has stored the new token for this user for
  fourteen days and left the old one revoked and linked to its successor.\<close>

theorem refresh_exchanges_active_token:
  assumes "interleaved env" and "clean_reachable s"
    and "RefreshToken env s req = (s', resp)" and "rp_tokens resp = Some issued"
  shows "let h = hashRefreshToken (fst (readRefreshTokenFromRequest req)); h' = hashRefreshToken (it_RefreshToken issued);
      read = fst (GetByTokenHash (re_clock env 0) (re_other env 0 s) h); exchange = re_other env 1 read; now = re_clock env 3
    in \<exists>stored user r. fmlookup (ms_tokens read) h = Some stored \<and> tr_RevokedAt stored = None \<and>
      re_user env (tr_UserID stored) = Inr (Some user) \<and> su_Status user = 1 \<and> su_ApprovalStatus user = 1 \<and>
      su_SessionVersion user = tr_SessionVersion stored \<and>
      fmlookup (ms_tokens exchange) h = Some r \<and> tr_RevokedAt r = None \<and> now < tr_ExpiresAt r \<and>
      tr_UserID r = su_ID user \<and> tr_SessionVersion r = su_SessionVersion user \<and>
      (\<exists>n. fmlookup (ms_tokens s') h' = Some n \<and> tr_UserID n = su_ID user \<and> tr_RevokedAt n = None \<and>
         tr_ExpiresAt n = now + refreshTokenTTL) \<and>
      (h \<noteq> h' \<longrightarrow> (\<exists>r'. fmlookup (ms_tokens s') h = Some r' \<and> tr_RevokedAt r' = Some now \<and> tr_ReplacedByHash r' = h'))"
proof -
  have ops: "re_ops env = memory_ops" using assms(1) by (simp add: interleaved_def)
  have new: "tr_UserID (new_record env user h now) = su_ID user" "tr_RevokedAt (new_record env user h now) = None"
      "tr_ExpiresAt (new_record env user h now) = now + refreshTokenTTL" for user h now
    by (simp_all add: new_record_def)
  have get: "fst (ro_Get memory_ops now m h) = fst (GetByTokenHash now m h)" for now m h
    by (simp add: memory_ops_def split_beta)
  show ?thesis
    using memory.refresh_success [OF ops interleaved_ok [OF assms(1)] clean_reachable_ok [OF assms(2)] assms(3,4) refl
        hashRefreshToken_trimmed hashRefreshToken_neq] new unfolding Let_def get by blast
qed

definition sample_user :: session_user where
  "sample_user = \<lparr>su_ID = 7, su_Name = ''ann'', su_Roles = [], su_Status = 1, su_ApprovalStatus = 1, su_SessionVersion = 1\<rparr>"

definition sample_refresh_env :: "memoryRefreshTokenStore refresh_env" where
  "sample_refresh_env = \<lparr>re_ops = memory_ops, re_clock = \<lambda>n. int n, re_user = \<lambda>u. Inr (Some sample_user), re_secret = [1],
     re_sign = \<lambda>secret claims. Inr ''jwt'', re_rand = Inr [2, 3], re_other = \<lambda>n m. m, re_ClientIP = [], re_UserAgent = []\<rparr>"

definition sample_request :: refresh_request where
  "sample_request = \<lparr>rq_cookie = Some ''t'', rq_ContentLength = 0, rq_body = BindEOF\<rparr>"

definition sample_store :: memoryRefreshTokenStore where
  "sample_store = store_Create 0 newMemoryRefreshTokenStore (Some (sample_token (hashRefreshToken ''t'')))"

lemma sample_interleaved: "interleaved sample_refresh_env"
  by (auto simp: interleaved_def sample_refresh_env_def intro!: exI [of _ "[]"])

lemma sample_store_reachable: "clean_reachable sample_store"
  unfolding clean_reachable_def sample_store_def
  by (rule exI [of _ "[OpCreate 0 (Some (sample_token (hashRefreshToken ''t'')))]"]) (simp add: sample_token_def)

lemma sample_read: "readRefreshTokenFromRequest sample_request = (''t'', True, False)"
  by (simp add: readRefreshTokenFromRequest_def sample_request_def trim_space_printable printable_def)

lemma sample_refresh: "rp_tokens (snd (RefreshToken sample_refresh_env sample_store sample_request)) =
    Some (issued_tokens ''jwt'' (raw_url_encode [2, 3]))"
  unfolding RefreshToken_def sample_read
  by (simp add: sample_refresh_env_def memory_ops_def sample_store_def store_Create_def sample_token_def GetByTokenHash_def
      newMemoryRefreshTokenStore_def cleanupExpiredLocked_def addUserTokenLocked_def zero_time_def valid_account_def sample_user_def
      rotateAuthTokens_def GenerateTokenForUser_def generateToken_def generateRefreshTokenPair_def store_Rotate_def new_record_def Let_def)

theorem refresh_exchanges_active_token_witness:
  "\<exists>s' resp issued. RefreshToken sample_refresh_env sample_store sample_request = (s', resp) \<and> rp_tokens resp = Some issued \<and>
    (\<exists>n. fmlookup (ms_tokens s') (hashRefreshToken (it_RefreshToken issued)) = Some n \<and> tr_RevokedAt n = None)"
proof -
  obtain s' resp where run: "RefreshToken sample_refresh_env sample_store sample_request = (s', resp)" by force
  then have "rp_tokens resp = Some (issued_tokens ''jwt'' (raw_url_encode [2, 3]))" using sample_refresh by simp
  from refresh_exchanges_active_token [OF sample_interleaved sample_store_reachable run this] run this
  show ?thesis unfolding Let_def by blast
qed


definition sample_used_store :: memoryRefreshTokenStore where
  "sample_used_store = fst (store_Rotate sample_store (hashRefreshToken ''t'') (Some (sample_token ''b'')) ''rotated'' 0)"

lemma sample_used_reachable: "clean_reachable sample_used_store"
  unfolding clean_reachable_def sample_used_store_def sample_store_def
  by (rule exI [of _ "[OpCreate 0 (Some (sample_token (hashRefreshToken ''t''))), OpRotate (hashRefreshToken ''t'') (Some (sample_token ''b'')) ''rotated'' 0]"])
    (simp add: sample_token_def)

lemma length_hashRefreshToken: "length (hashRefreshToken t) = 64"
  by (simp add: hashRefreshToken_def)

lemma sample_used_get: "\<exists>s0 stored. GetByTokenHash 0 sample_used_store (hashRefreshToken ''t'') = (s0, Some stored) \<and>
    tr_RevokedAt stored \<noteq> None \<and> tr_ReplacedByHash stored \<noteq> [] \<and> tr_UserID stored = 7"
proof -
  have "hashRefreshToken ''t'' \<noteq> ''b''" using length_hashRefreshToken [of "''t''"] by force
  then show ?thesis
    by (simp add: sample_used_store_def sample_store_def store_Create_def sample_token_def GetByTokenHash_def store_Rotate_def
      newMemoryRefreshTokenStore_def cleanupExpiredLocked_def addUserTokenLocked_def zero_time_def Let_def)
qed


end
