(* ===== verification/Go_AES.thy ===== *)
theory Go_AES
  imports Go_Crypto Go_Base64
begin

unbundle bit_operations_syntax

section \<open>AES-GCM (\<^verbatim>\<open>crypto/aes\<close>, \<^verbatim>\<open>crypto/cipher\<close>) and padded base64\<close>

text \<open>
  The authenticated encryption that protects stored device passwords: AES with keys of 16, 24 or
  32 bytes (FIPS 197), Galois/counter mode with a nonce of 12 bytes, a tag of 16 bytes and no
  additional data (SP 800-38D).  The locale \<open>aead\<close> is the contract of Go's \<^verbatim>\<open>cipher.AEAD\<close> that the
  code relies on; it is interpreted on the cipher itself.
\<close>

definition sbox_table :: "byte list" where
  "sbox_table =
    [99, 124, 119, 123, 242, 107, 111, 197, 48, 1, 103, 43, 254, 215, 171, 118, 202, 130, 201, 125, 250, 89, 71, 240,
     173, 212, 162, 175, 156, 164, 114, 192, 183, 253, 147, 38, 54, 63, 247, 204, 52, 165, 229, 241, 113, 216, 49, 21,
     4, 199, 35, 195, 24, 150, 5, 154, 7, 18, 128, 226, 235, 39, 178, 117, 9, 131, 44, 26, 27, 110, 90, 160,
     82, 59, 214, 179, 41, 227, 47, 132, 83, 209, 0, 237, 32, 252, 177, 91, 106, 203, 190, 57, 74, 76, 88, 207,
     208, 239, 170, 251, 67, 77, 51, 133, 69, 249, 2, 127, 80, 60, 159, 168, 81, 163, 64, 143, 146, 157, 56, 245,
     188, 182, 218, 33, 16, 255, 243, 210, 205, 12, 19, 236, 95, 151, 68, 23, 196, 167, 126, 61, 100, 93, 25, 115,
     96, 129, 79, 220, 34, 42, 144, 136, 70, 238, 184, 20, 222, 94, 11, 219, 224, 50, 58, 10, 73, 6, 36, 92,
     194, 211, 172, 98, 145, 149, 228, 121, 231, 200, 55, 109, 141, 213, 78, 169, 108, 86, 244, 234, 101, 122, 174, 8,
     186, 120, 37, 46, 28, 166, 180, 198, 232, 221, 116, 31, 75, 189, 139, 138, 112, 62, 181, 102, 72, 3, 246, 14,
     97, 53, 87, 185, 134, 193, 29, 158, 225, 248, 152, 17, 105, 217, 142, 148, 155, 30, 135, 233, 206, 85, 40, 223,
     140, 161, 137, 13, 191, 230, 66, 104, 65, 153, 45, 15, 176, 84, 187, 22]"

definition sbox :: "byte \<Rightarrow> byte" where
  "sbox b = sbox_table ! unat b"

definition xtime :: "byte \<Rightarrow> byte" where
  "xtime b = (if bit b 7 then push_bit 1 b XOR 0x1b else push_bit 1 b)"

definition xor_bytes :: "bytes \<Rightarrow> bytes \<Rightarrow> bytes" where
  "xor_bytes xs ys = map2 (\<lambda>x y. x XOR y) xs ys"

subsection \<open>The block cipher\<close>

text \<open>Key expansion works on words of four bytes; the latest word is the head of the list.\<close>

definition next_key_word :: "nat \<Rightarrow> bytes list \<Rightarrow> bytes" where
  "next_key_word nk ws =
     (let i = length ws; t = hd ws;
          t = (if i mod nk = 0 then xor_bytes (map sbox (rotate1 t)) [(xtime ^^ (i div nk - 1)) 1, 0, 0, 0]
               else if 6 < nk \<and> i mod nk = 4 then map sbox t else t)
      in xor_bytes (ws ! (nk - 1)) t)"

fun expand_key :: "nat \<Rightarrow> nat \<Rightarrow> bytes list \<Rightarrow> bytes list" where
  "expand_key nk 0 ws = ws"
| "expand_key nk (Suc n) ws = expand_key nk n (next_key_word nk ws # ws)"

fun chunks :: "nat \<Rightarrow> nat \<Rightarrow> 'a list \<Rightarrow> 'a list list" where
  "chunks 0 k xs = []"
| "chunks (Suc n) k xs = take k xs # chunks n k (drop k xs)"

definition round_keys :: "bytes \<Rightarrow> bytes list" where
  "round_keys key =
     (let nk = length key div 4; total = 4 * (nk + 7)
      in chunks (nk + 7) 16 (concat (rev (expand_key nk (total - nk) (rev (chunks nk 4 key))))))"

definition shift_rows :: "bytes \<Rightarrow> bytes" where
  "shift_rows st = map (\<lambda>i. st ! ((i + 4 * (i mod 4)) mod 16)) [0..<16]"

definition mix_byte :: "bytes \<Rightarrow> nat \<Rightarrow> byte" where
  "mix_byte st i =
     (let c = 4 * (i div 4); a = st ! i; b = st ! (c + (i + 1) mod 4);
          d = st ! (c + (i + 2) mod 4); e = st ! (c + (i + 3) mod 4)
      in xtime a XOR xtime b XOR b XOR d XOR e)"

definition mix_columns :: "bytes \<Rightarrow> bytes" where
  "mix_columns st = map (mix_byte st) [0..<16]"

fun cipher_rounds :: "bytes list \<Rightarrow> bytes \<Rightarrow> bytes" where
  "cipher_rounds [] st = st"
| "cipher_rounds [k] st = xor_bytes (shift_rows (map sbox st)) k"
| "cipher_rounds (k # ks) st = cipher_rounds ks (xor_bytes (mix_columns (shift_rows (map sbox st))) k)"

definition aes_block :: "bytes \<Rightarrow> bytes \<Rightarrow> bytes" where
  "aes_block key block =
     (let ks = round_keys key in cipher_rounds (tl ks) (xor_bytes block (hd ks)))"

subsection \<open>Galois/counter mode\<close>

definition ghash_step :: "128 word \<Rightarrow> 128 word \<times> 128 word \<Rightarrow> nat \<Rightarrow> 128 word \<times> 128 word" where
  "ghash_step x zv i =
     (let (z, v) = zv;
          z = (if bit x (127 - i) then z XOR v else z);
          v = (if bit v 0 then drop_bit 1 v XOR push_bit 120 0xE1 else drop_bit 1 v)
      in (z, v))"

definition ghash_mult :: "128 word \<Rightarrow> 128 word \<Rightarrow> 128 word" where
  "ghash_mult x y = fst (foldl (ghash_step x) (0, y) [0..<128])"

definition block_word :: "bytes \<Rightarrow> 128 word" where
  "block_word bs = of_nat (be_get (take 16 (bs @ replicate 16 0)))"

definition ghash :: "128 word \<Rightarrow> bytes \<Rightarrow> bytes" where
  "ghash h ct =
     (let y = foldl (\<lambda>y b. ghash_mult (y XOR block_word b) h) 0 (chunks ((length ct + 15) div 16) 16 ct);
          y = ghash_mult (y XOR of_nat (8 * length ct)) h
      in be_put 16 (unat y))"

definition key_stream :: "bytes \<Rightarrow> bytes \<Rightarrow> nat \<Rightarrow> bytes" where
  "key_stream key nonce n =
     take n (concat (map (\<lambda>i. aes_block key (nonce @ be_put 4 (2 + i))) [0..<(n + 15) div 16]))"

definition gcm_tag :: "bytes \<Rightarrow> bytes \<Rightarrow> bytes \<Rightarrow> bytes" where
  "gcm_tag key nonce ct =
     xor_bytes (aes_block key (nonce @ be_put 4 1)) (ghash (block_word (aes_block key (replicate 16 0))) ct)"

definition gcm_seal :: "bytes \<Rightarrow> bytes \<Rightarrow> bytes \<Rightarrow> bytes" where
  "gcm_seal key nonce plaintext =
     (let ct = xor_bytes plaintext (key_stream key nonce (length plaintext)) in ct @ gcm_tag key nonce ct)"

definition gcm_open :: "bytes \<Rightarrow> bytes \<Rightarrow> bytes \<Rightarrow> bytes option" where
  "gcm_open key nonce data =
     (if length data < 16 then None
      else
        let ct = take (length data - 16) data; tag = drop (length data - 16) data
        in if tag \<noteq> gcm_tag key nonce ct then None
           else Some (xor_bytes ct (key_stream key nonce (length ct))))"

subsection \<open>Padded base64 (\<^verbatim>\<open>base64.StdEncoding\<close>)\<close>

definition std_encode :: "bytes \<Rightarrow> string" where
  "std_encode bs = b64_encode bs @ replicate ((3 - length bs mod 3) mod 3) (CHR ''='')"

definition b64_symbols :: "string \<Rightarrow> bytes option" where
  "b64_symbols s =
     (let symbols = map b64_value s in if None \<in> set symbols then None else b64_bytes (map the symbols))"

fun std_quads :: "string \<Rightarrow> bytes option" where
  "std_quads (a # b # c # d # rest) =
     (if d = CHR ''='' \<and> rest = [] then b64_symbols (if c = CHR ''='' then [a, b] else [a, b, c])
      else case b64_symbols [a, b, c, d] of
             None \<Rightarrow> None
           | Some q \<Rightarrow> map_option (\<lambda>bs. q @ bs) (std_quads rest))"
| "std_quads s = (if s = [] then Some [] else None)"

definition std_decode :: "string \<Rightarrow> bytes option" where
  "std_decode s = std_quads (filter (\<lambda>c. c \<noteq> CHR 0x0D \<and> c \<noteq> CHR 0x0A) s)"

subsection \<open>Lengths\<close>

lemma length_xor_bytes [simp]: "length (xor_bytes xs ys) = min (length xs) (length ys)"
  by (simp add: xor_bytes_def)

lemma length_shift_rows [simp]: "length (shift_rows st) = 16"
  by (simp add: shift_rows_def)

lemma length_mix_columns [simp]: "length (mix_columns st) = 16"
  by (simp add: mix_columns_def)

lemma chunks_full: "length xs = n * k \<Longrightarrow> x \<in> set (chunks n k xs) \<Longrightarrow> length x = k"
  by (induction n k xs rule: chunks.induct) auto

lemma length_chunks [simp]: "length (chunks n k xs) = n"
  by (induction n k xs rule: chunks.induct) auto

lemma next_key_word_length:
  "0 < nk \<Longrightarrow> nk \<le> length ws \<Longrightarrow> \<forall>w\<in>set ws. length w = 4 \<Longrightarrow> length (next_key_word nk ws) = 4"
proof -
  assume nk: "0 < nk" "nk \<le> length ws" and ws: "\<forall>w\<in>set ws. length w = 4"
  then have "length (ws ! (nk - 1)) = 4" using nth_mem [of "nk - 1" ws] by force
  moreover have "length (hd ws) = 4" using nk ws by (cases ws) auto
  ultimately show "length (next_key_word nk ws) = 4" by (simp add: next_key_word_def Let_def)
qed

lemma expand_key_words:
  "0 < nk \<Longrightarrow> nk \<le> length ws \<Longrightarrow> \<forall>w\<in>set ws. length w = 4 \<Longrightarrow>
   length (expand_key nk n ws) = n + length ws \<and> (\<forall>w\<in>set (expand_key nk n ws). length w = 4)"
  by (induction nk n ws rule: expand_key.induct) (simp_all add: next_key_word_length)

lemma length_concat_const: "\<forall>w\<in>set ws. length w = k \<Longrightarrow> length (concat ws) = k * length ws"
  by (induction ws) auto

definition aes_key :: "bytes \<Rightarrow> bool" where
  "aes_key key \<longleftrightarrow> length key = 16 \<or> length key = 24 \<or> length key = 32"

lemma round_keys_shape:
  assumes "aes_key key"
  shows "\<forall>k\<in>set (round_keys key). length k = 16" and "2 \<le> length (round_keys key)"
proof -
  define nk where "nk = length key div 4"
  have nk: "0 < nk" "length key = nk * 4" "nk \<le> 8" using assms by (auto simp: aes_key_def nk_def)
  define ws where "ws = expand_key nk (4 * (nk + 7) - nk) (rev (chunks nk 4 key))"
  have "\<forall>w\<in>set (rev (chunks nk 4 key)). length w = 4" using chunks_full [OF nk(2)] by auto
  from expand_key_words [OF nk(1) _ this, of "4 * (nk + 7) - nk"]
  have "length ws = 4 * (nk + 7)" "\<forall>w\<in>set ws. length w = 4"
    using nk by (simp_all add: ws_def)
  then have "length (concat (rev ws)) = (nk + 7) * 16"
    using length_concat_const [of "rev ws" 4] by simp
  moreover have "round_keys key = chunks (nk + 7) 16 (concat (rev ws))"
    by (simp add: round_keys_def Let_def nk_def ws_def)
  ultimately show "\<forall>k\<in>set (round_keys key). length k = 16" "2 \<le> length (round_keys key)"
    using chunks_full [of "concat (rev ws)" "nk + 7" 16] by (auto simp: algebra_simps)
qed

lemma length_cipher_rounds:
  "ks \<noteq> [] \<Longrightarrow> \<forall>k\<in>set ks. length k = 16 \<Longrightarrow> length (cipher_rounds ks st) = 16"
  by (induction ks st rule: cipher_rounds.induct) auto

lemma length_aes_block:
  assumes "aes_key key" shows "length (aes_block key block) = 16"
  using round_keys_shape [OF assms] unfolding aes_block_def Let_def
  by (cases "round_keys key") (auto intro!: length_cipher_rounds)

lemma length_ghash [simp]: "length (ghash h ct) = 16"
  by (simp add: ghash_def Let_def)

lemma length_gcm_tag: "aes_key key \<Longrightarrow> length (gcm_tag key nonce ct) = 16"
  by (simp add: gcm_tag_def length_aes_block)

lemma length_key_stream: "aes_key key \<Longrightarrow> length (key_stream key nonce n) = n"
  using length_concat_const [of "map (\<lambda>i. aes_block key (nonce @ be_put 4 (2 + i))) [0..<(n + 15) div 16]" 16]
  by (simp add: key_stream_def length_aes_block)

subsection \<open>The contract of the cipher\<close>

lemma xor_bytes_twice: "length xs \<le> length ks \<Longrightarrow> xor_bytes (xor_bytes xs ks) ks = xs"
  unfolding xor_bytes_def by (induction xs ks rule: list_induct2') (simp_all add: xor.assoc)

locale aead =
  fixes key_ok :: "bytes \<Rightarrow> bool"
    and seal :: "bytes \<Rightarrow> bytes \<Rightarrow> bytes \<Rightarrow> bytes"
    and opn :: "bytes \<Rightarrow> bytes \<Rightarrow> bytes \<Rightarrow> bytes option"
    and overhead :: nat
  assumes open_seal: "key_ok key \<Longrightarrow> opn key nonce (seal key nonce p) = Some p"
    and seal_length: "key_ok key \<Longrightarrow> length (seal key nonce p) = length p + overhead"
begin

lemma open_message:
  "key_ok key \<Longrightarrow> opn key (take (length nonce) (nonce @ seal key nonce p)) (drop (length nonce) (nonce @ seal key nonce p)) = Some p"
  by (simp add: open_seal)

lemma seal_inject: "key_ok key \<Longrightarrow> seal key nonce p = seal key nonce q \<Longrightarrow> p = q"
  using open_seal by (metis option.inject)

end

interpretation gcm: aead aes_key gcm_seal gcm_open 16
proof
  fix key nonce p :: bytes assume key: "aes_key key"
  show "length (gcm_seal key nonce p) = length p + 16"
    by (simp add: gcm_seal_def Let_def length_gcm_tag [OF key] length_key_stream [OF key])
  show "gcm_open key nonce (gcm_seal key nonce p) = Some p"
    by (simp add: gcm_seal_def gcm_open_def Let_def length_gcm_tag [OF key] length_key_stream [OF key] xor_bytes_twice)
qed

lemma b64_value_bound: "b64_value c = Some n \<Longrightarrow> c \<in> set b64_alphabet"
proof -
  have "index_of x ys = Some n \<Longrightarrow> x \<in> set ys" for x :: char and ys n
    by (induction ys arbitrary: n) (auto split: if_splits)
  then show "b64_value c = Some n \<Longrightarrow> c \<in> set b64_alphabet" by (simp add: b64_value_def)
qed

lemma eq_not_symbol: "b64_value (CHR ''='') = None" "n < 64 \<Longrightarrow> b64_char n \<noteq> CHR ''=''"
proof -
  show no: "b64_value (CHR ''='') = None" by code_simp
  show "b64_char n \<noteq> CHR ''=''" if "n < 64" using b64_value_char [OF that] no by auto
qed

lemma b64_symbols_chars: "set ds \<subseteq> {..<64} \<Longrightarrow> b64_symbols (map b64_char ds) = b64_bytes ds"
  unfolding b64_symbols_def values_b64 Let_def by (auto simp: comp_def)

lemma std_quads_encode: "std_quads (std_encode bs) = Some bs"
proof (induction bs rule: b64_digits.induct)
  case (1 a b c rest)
  let ?q = "b64_digits [a, b, c]"
  have q: "b64_digits (a # b # c # rest) = ?q @ b64_digits rest" by (simp add: Let_def)
  have enc: "std_encode (a # b # c # rest) = map b64_char ?q @ std_encode rest"
    unfolding std_encode_def b64_encode_def q by simp
  obtain w x y z where wz: "?q = [w, x, y, z]" by (simp add: Let_def)
  then have "set [w, x, y, z] \<subseteq> {..<64}" using b64_digits_less [of "[a, b, c]"] by metis
  moreover have "b64_bytes [w, x, y, z] = Some [a, b, c]" using b64_bytes_digits [of "[a, b, c]"] by (simp only: wz)
  ultimately show ?case
    unfolding enc wz using 1 b64_symbols_chars [of "[w, x, y, z]"] by (simp add: eq_not_symbol)
next
  case (2 a b)
  obtain w x y where wy: "b64_digits [a, b] = [w, x, y]" by (simp add: Let_def)
  then have "set [w, x, y] \<subseteq> {..<64}" using b64_digits_less [of "[a, b]"] by metis
  then show ?case
    unfolding std_encode_def b64_encode_def wy
    using b64_symbols_chars [of "[w, x, y]"] b64_bytes_digits [of "[a, b]", unfolded wy]
    by (simp add: eq_not_symbol del: b64_bytes.simps)
next
  case (3 a)
  obtain w x where wx: "b64_digits [a] = [w, x]" by (simp add: Let_def)
  then have "set [w, x] \<subseteq> {..<64}" using b64_digits_less [of "[a]"] by metis
  then show ?case
    unfolding std_encode_def b64_encode_def wx
    using b64_symbols_chars [of "[w, x]"] b64_bytes_digits [of "[a]", unfolded wx]
    by (simp add: eq_not_symbol numeral_2_eq_2 del: b64_bytes.simps)
next
  case 4
  show ?case by (simp add: std_encode_def b64_encode_def)
qed

lemma std_round_trip: "std_decode (std_encode bs) = Some bs"
proof -
  have "filter (\<lambda>c. c \<noteq> CHR 0x0D \<and> c \<noteq> CHR 0x0A) (std_encode bs) = std_encode bs"
    by (simp add: std_encode_def b64_encode_def filter_b64 [OF b64_digits_less])
  then show ?thesis by (simp add: std_decode_def std_quads_encode)
qed

text \<open>Whatever the decoder accepts consists of symbols, padding and line ends.\<close>

lemma b64_symbols_set: "b64_symbols s = Some bs \<Longrightarrow> set s \<subseteq> set b64_alphabet"
  by (auto simp: b64_symbols_def Let_def image_iff split: if_splits intro: b64_value_bound) (metis b64_value_bound option.exhaust)

lemma std_quads_set: "std_quads s = Some bs \<Longrightarrow> set s \<subseteq> insert (CHR ''='') (set b64_alphabet)"
proof (induction s arbitrary: bs rule: std_quads.induct)
  case (1 a b c d rest)
  then show ?case
    using b64_symbols_set [of "[a, b]"] b64_symbols_set [of "[a, b, c]"] b64_symbols_set [of "[a, b, c, d]"]
    by (fastforce split: if_splits option.splits)
qed (auto split: if_splits)

lemma std_decode_set:
  assumes "std_decode s = Some bs" "c \<in> set s"
  shows "c \<in> set b64_alphabet \<union> {CHR ''='', CHR 0x0D, CHR 0x0A}"
  using std_quads_set [OF assms(1) [unfolded std_decode_def]] assms(2) by auto

end
