(* ===== verification/Device_Password.thy ===== *)
theory Device_Password
  imports Go_AES
begin

section \<open>Stored device passwords (\<open>pkg/crypto/aes.go\<close>)\<close>

text \<open>
  A device logs in with a password that the server must be able to show again, so it is stored
  encrypted (AES-GCM, base64); older accounts still hold a bcrypt hash.  The random source is the
  bytes it will deliver, and an early end of it is its failure.  \<^verbatim>\<open>bcrypt\<close> is a package outside the
  repository and an argument.  The global cipher of the process is the argument \<open>globalCrypto\<close>.
\<close>

datatype crypto_error =
    ErrInvalidKey | ErrInvalidCiphertext | ErrDecryptionFailed | ErrNotInitialized
  | KeySizeError | UnexpectedEOF | ErrMismatchedHashAndPassword | BcryptFailure string

record AESCrypto =
  ac_key :: bytes

definition NewAESCrypto :: "string \<Rightarrow> crypto_error + AESCrypto" where
  "NewAESCrypto key =
     (let keyBytes = bytes_of key; keyLen = length keyBytes
      in if keyLen \<noteq> 16 \<and> keyLen \<noteq> 24 \<and> keyLen \<noteq> 32 then Inl ErrInvalidKey
         else Inr \<lparr>ac_key = keyBytes\<rparr>)"

definition aes_Encrypt :: "AESCrypto \<Rightarrow> bytes \<Rightarrow> string \<Rightarrow> crypto_error + string" where
  "aes_Encrypt a random plaintext =
     (if plaintext = [] then Inr []
      else if \<not> aes_key (ac_key a) then Inl KeySizeError
      else if length random < 12 then Inl UnexpectedEOF
      else
        let nonce = take 12 random;
            ciphertext = nonce @ gcm_seal (ac_key a) nonce (bytes_of plaintext)
        in Inr (std_encode ciphertext))"

definition aes_Decrypt :: "AESCrypto \<Rightarrow> string \<Rightarrow> crypto_error + string" where
  "aes_Decrypt a ciphertext =
     (if ciphertext = [] then Inr []
      else case std_decode ciphertext of
             None \<Rightarrow> Inl ErrInvalidCiphertext
           | Some data \<Rightarrow>
               if \<not> aes_key (ac_key a) then Inl KeySizeError
               else if length data < 12 then Inl ErrInvalidCiphertext
               else
                 case gcm_open (ac_key a) (take 12 data) (drop 12 data) of
                   None \<Rightarrow> Inl ErrDecryptionFailed
                 | Some plaintext \<Rightarrow> Inr (string_of plaintext))"

definition InitAES :: "AESCrypto option \<Rightarrow> string \<Rightarrow> AESCrypto option \<times> crypto_error option" where
  "InitAES globalCrypto key =
     (case NewAESCrypto key of Inl err \<Rightarrow> (globalCrypto, Some err) | Inr crypto \<Rightarrow> (Some crypto, None))"

definition Encrypt :: "AESCrypto option \<Rightarrow> bytes \<Rightarrow> string \<Rightarrow> crypto_error + string" where
  "Encrypt globalCrypto random plaintext =
     (case globalCrypto of None \<Rightarrow> Inl ErrNotInitialized | Some a \<Rightarrow> aes_Encrypt a random plaintext)"

definition Decrypt :: "AESCrypto option \<Rightarrow> string \<Rightarrow> crypto_error + string" where
  "Decrypt globalCrypto ciphertext =
     (case globalCrypto of None \<Rightarrow> Inl ErrNotInitialized | Some a \<Rightarrow> aes_Decrypt a ciphertext)"

definition IsEncrypted :: "string \<Rightarrow> bool" where
  "IsEncrypted s \<longleftrightarrow> (if length s < 28 then False else std_decode s \<noteq> None)"

definition IsBcryptHash :: "string \<Rightarrow> bool" where
  "IsBcryptHash s \<longleftrightarrow> starts_with ''$2a$'' s \<or> starts_with ''$2b$'' s \<or> starts_with ''$2y$'' s"

definition VerifyDevicePassword ::
    "(string \<Rightarrow> string \<Rightarrow> crypto_error option) \<Rightarrow> AESCrypto option \<Rightarrow> string \<Rightarrow> string \<Rightarrow> bool \<times> bool \<times> crypto_error option" where
  "VerifyDevicePassword bcrypt globalCrypto stored plainInput =
     (if stored = [] then (False, False, None)
      else case Decrypt globalCrypto stored of
             Inr decrypted \<Rightarrow> (decrypted = plainInput, False, None)
           | Inl decErr \<Rightarrow>
               if IsBcryptHash stored then
                 (case bcrypt stored plainInput of
                    None \<Rightarrow> (True, True, None)
                  | Some err \<Rightarrow>
                      if err = ErrMismatchedHashAndPassword then (False, True, None) else (False, True, Some err))
               else (False, False, Some decErr))"

definition DecodeDevicePassword :: "AESCrypto option \<Rightarrow> string \<Rightarrow> string \<times> bool \<times> crypto_error option" where
  "DecodeDevicePassword globalCrypto stored =
     (if stored = [] then ([], False, None)
      else case Decrypt globalCrypto stored of
             Inr decrypted \<Rightarrow> (decrypted, False, None)
           | Inl decErr \<Rightarrow> if IsBcryptHash stored then ([], True, None) else ([], False, Some decErr))"

subsection \<open>What is stored can be read again\<close>

lemma NewAESCrypto_key: "NewAESCrypto key = Inr a \<Longrightarrow> aes_key (ac_key a)"
  by (auto simp: NewAESCrypto_def aes_key_def Let_def split: if_splits)

lemma std_encode_nonempty: "bs \<noteq> [] \<Longrightarrow> std_encode bs \<noteq> []"
  using std_quads_encode [of bs] by (cases "std_encode bs") auto

lemma aes_round_trip:
  assumes "aes_key (ac_key a)" "12 \<le> length random"
  obtains stored where "aes_Encrypt a random p = Inr stored" "aes_Decrypt a stored = Inr p" "stored = [] \<longleftrightarrow> p = []"
proof (cases "p = []")
  case True
  then show ?thesis using that by (simp add: aes_Encrypt_def aes_Decrypt_def)
next
  case False
  let ?nonce = "take 12 random"
  let ?data = "?nonce @ gcm_seal (ac_key a) ?nonce (bytes_of p)"
  have "length ?data = 28 + length p" using assms by (simp add: gcm.seal_length)
  moreover have "gcm_open (ac_key a) (take 12 ?data) (drop 12 ?data) = Some (bytes_of p)"
    using gcm.open_seal [OF assms(1)] assms(2) by simp
  moreover have "?data \<noteq> []" using \<open>length ?data = 28 + length p\<close> by (metis add_is_0 list.size(3) zero_neq_numeral)
  ultimately have "aes_Decrypt a (std_encode ?data) = Inr p" "std_encode ?data \<noteq> []"
    using assms std_encode_nonempty [of ?data] by (simp_all add: aes_Decrypt_def std_round_trip)
  then show ?thesis using that [of "std_encode ?data"] False assms by (simp add: aes_Encrypt_def Let_def)
qed

lemma starts_with_mem: "starts_with p s \<Longrightarrow> c \<in> set p \<Longrightarrow> c \<in> set s"
  unfolding starts_with_def by (metis in_set_takeD)

lemma dollar_not_base64: "CHR ''$'' \<in> set s \<Longrightarrow> std_decode s = None"
proof -
  assume dollar: "CHR ''$'' \<in> set s"
  have "CHR ''$'' \<notin> set b64_alphabet \<union> {CHR ''='', CHR 0x0D, CHR 0x0A}" by (simp add: b64_alphabet_def)
  then show "std_decode s = None" using std_decode_set [OF _ dollar] by (cases "std_decode s") blast+
qed

lemma bcrypt_not_base64: "IsBcryptHash s \<Longrightarrow> std_decode s = None"
  unfolding IsBcryptHash_def by (elim disjE; drule starts_with_mem [where c = "CHR ''$''"]) (simp_all add: dollar_not_base64)

lemma bcrypt_not_decrypted: "IsBcryptHash s \<Longrightarrow> \<exists>err. Decrypt globalCrypto s = Inl err"
  using bcrypt_not_base64 [of s]
  by (cases "s = []"; cases globalCrypto) (auto simp: Decrypt_def aes_Decrypt_def IsBcryptHash_def starts_with_def)

text \<open>C16: Device passwords can be read back and checked.  Under a cipher made from a key of a valid
  length and a random source that delivers a nonce, encrypting a non-empty password succeeds; the
  stored text decodes to exactly this password as a current-format value, and verification accepts
  it and no other password.\<close>

theorem stored_password_verifies:
  assumes "InitAES g0 key = (g, None)" and "12 \<le> length random" and "p \<noteq> []"
  shows "\<exists>stored. Encrypt g random p = Inr stored \<and> DecodeDevicePassword g stored = (p, False, None) \<and>
    (\<forall>q. VerifyDevicePassword bcrypt g stored q = (q = p, False, None))"
proof -
  obtain a where g: "g = Some a" and key: "aes_key (ac_key a)"
    using assms(1) NewAESCrypto_key by (auto simp: InitAES_def split: sum.splits)
  obtain stored where "aes_Encrypt a random p = Inr stored" "aes_Decrypt a stored = Inr p" "stored \<noteq> []"
    using aes_round_trip [OF key assms(2), of p] assms(3) by metis
  then show ?thesis
    by (auto simp: g Encrypt_def Decrypt_def DecodeDevicePassword_def VerifyDevicePassword_def intro!: exI [of _ stored])
qed

theorem stored_password_verifies_witness:
  "\<exists>stored. Encrypt (Some \<lparr>ac_key = replicate 16 107\<rparr>) (replicate 12 9) ''pw'' = Inr stored \<and>
     DecodeDevicePassword (Some \<lparr>ac_key = replicate 16 107\<rparr>) stored = (''pw'', False, None) \<and>
     (\<forall>q. VerifyDevicePassword (\<lambda>_ _. None) (Some \<lparr>ac_key = replicate 16 107\<rparr>) stored q = (q = ''pw'', False, None))"
proof -
  have "bytes_of (replicate 16 (CHR ''k'')) = replicate 16 107" by code_simp
  then have "InitAES None (replicate 16 (CHR ''k'')) = (Some \<lparr>ac_key = replicate 16 107\<rparr>, None)"
    by (simp add: InitAES_def NewAESCrypto_def Let_def)
  from stored_password_verifies [OF this, of "replicate 12 9" "''pw''" "\<lambda>_ _. None"] show ?thesis by simp
qed

text \<open>The two storage formats are never confused.  A bcrypt hash is not a base64 text, so it never
  decrypts under any key: it is always recognised as an old password that cannot be shown again,
  and only bcrypt decides whether a password matches it.\<close>

theorem bcrypt_hash_is_legacy:
  assumes "IsBcryptHash stored"
  shows "DecodeDevicePassword g stored = ([], True, None) \<and>
    (\<exists>err. VerifyDevicePassword bcrypt g stored q = (bcrypt stored q = None, True, err)) \<and> \<not> IsEncrypted stored"
proof -
  obtain err where "Decrypt g stored = Inl err" using bcrypt_not_decrypted [OF assms] by auto
  then show ?thesis
    using assms bcrypt_not_base64 [OF assms]
    by (auto simp: DecodeDevicePassword_def VerifyDevicePassword_def IsEncrypted_def IsBcryptHash_def starts_with_def split: option.splits)
qed

theorem bcrypt_hash_is_legacy_witness:
  "DecodeDevicePassword None ''$2a$10$abcdefg'' = ([], True, None)"
  using bcrypt_hash_is_legacy [of "''$2a$10$abcdefg''" None "\<lambda>_ _. None" "''pw''"]
  by (simp add: IsBcryptHash_def starts_with_def)

end
