(* ===== verification/Pending_Device.thy ===== *)
theory Pending_Device
  imports Go_Crypto
begin

section \<open>Devices waiting to be bound (\<open>internal/udphub/pending_device.go\<close>)\<close>

text \<open>
  A device without an account asks for a dynamic code, a user enters the code on the web site, and
  the device polls for its configuration.  The manager keeps two indexes of shared objects, so an
  object is a reference (a position in \<open>pm_heap\<close>), and an update through one index is seen through
  the other.  Each method runs under the manager's lock; the times it reads and the random bytes it
  consumes are arguments.  A nil configuration makes \<^verbatim>\<open>SetDeviceConfig\<close> panic in its log line,
  after the fields are set; this is the error \<open>NilConfigPanic\<close>.
\<close>

record PendingDeviceConfig =
  pc_Username :: string
  pc_DevicePassword :: string
  pc_SSID :: int
  pc_DMRID :: int

record PendingDevice =
  pd_MAC :: string
  pd_IP :: string
  pd_Code :: string
  pd_CodeExpires :: time
  pd_Bound :: bool
  pd_BoundUserID :: u64
  pd_BoundAt :: time
  pd_ConfigReady :: bool
  pd_Config :: "PendingDeviceConfig option"
  pd_CreatedAt :: time

record PendingDeviceManager =
  pm_heap :: "PendingDevice list"
  pm_byCode :: "(string, nat) fmap"
  pm_byMAC :: "(string, nat) fmap"
  pm_codeDuration :: duration
  pm_bindDuration :: duration

datatype pending_error =
    ErrAlreadyBound | ErrCodeGeneration | ErrCodeInvalid | ErrCodeExpired | ErrDeviceBound
  | ErrDeviceNotFound | ErrDeviceNotBound | ErrNotRequested | ErrBindExpired | NilConfigPanic

definition newPendingDeviceManager :: PendingDeviceManager where
  "newPendingDeviceManager =
     \<lparr>pm_heap = [], pm_byCode = fmempty, pm_byMAC = fmempty,
      pm_codeDuration = seconds (5 * 60), pm_bindDuration = seconds (10 * 60)\<rparr>"

abbreviation device_at :: "PendingDeviceManager \<Rightarrow> nat \<Rightarrow> PendingDevice" where
  "device_at m r \<equiv> pm_heap m ! r"

definition update_device :: "PendingDeviceManager \<Rightarrow> nat \<Rightarrow> (PendingDevice \<Rightarrow> PendingDevice) \<Rightarrow> PendingDeviceManager" where
  "update_device m r f = m\<lparr>pm_heap := (pm_heap m)[r := f (device_at m r)]\<rparr>"

subsection \<open>Operations\<close>

definition format_code :: "nat \<Rightarrow> string" where
  "format_code n = replicate (6 - length (nat_digits n)) (CHR ''0'') @ nat_digits n"

definition generateDynamicCode :: "bytes \<Rightarrow> (string \<times> bytes) option" where
  "generateDynamicCode random =
     (case rand_int 1000000 random of None \<Rightarrow> None | Some (n, rest) \<Rightarrow> Some (format_code n, rest))"

function unused_code :: "PendingDeviceManager \<Rightarrow> bytes \<Rightarrow> string option" where
  "unused_code m random =
     (case generateDynamicCode random of
        None \<Rightarrow> None
      | Some (code, rest) \<Rightarrow> if fmlookup (pm_byCode m) code = None then Some code else unused_code m rest)"
  by auto
termination
  by (relation "measure (\<lambda>(m, random). length random)")
    (auto simp: generateDynamicCode_def dest!: rand_int_draw [rotated] split: option.splits)

declare unused_code.simps [simp del]

definition RequestCode ::
    "PendingDeviceManager \<Rightarrow> (nat \<Rightarrow> time) \<Rightarrow> bytes \<Rightarrow> string \<Rightarrow> string \<Rightarrow> PendingDeviceManager \<times> (pending_error + nat)" where
  "RequestCode m clock random mac ip =
     (let generate =
        (case unused_code m random of
           None \<Rightarrow> (m, Inl ErrCodeGeneration)
         | Some code \<Rightarrow>
             let r = length (pm_heap m);
                 device = \<lparr>pd_MAC = mac, pd_IP = ip, pd_Code = code, pd_CodeExpires = clock 1 + pm_codeDuration m,
                   pd_Bound = False, pd_BoundUserID = 0, pd_BoundAt = zero_time, pd_ConfigReady = False, pd_Config = None,
                   pd_CreatedAt = clock 2\<rparr>
             in (m\<lparr>pm_heap := pm_heap m @ [device], pm_byCode := fmupd code r (pm_byCode m),
                   pm_byMAC := fmupd mac r (pm_byMAC m)\<rparr>, Inr r))
      in case fmlookup (pm_byMAC m) mac of
           None \<Rightarrow> generate
         | Some r \<Rightarrow>
             if pd_Bound (device_at m r) then (m, Inl ErrAlreadyBound)
             else if clock 0 < pd_CodeExpires (device_at m r) then (m, Inr r)
             else generate)"

definition BindDevice ::
    "PendingDeviceManager \<Rightarrow> time \<Rightarrow> time \<Rightarrow> string \<Rightarrow> u64 \<Rightarrow> PendingDeviceManager \<times> (pending_error + nat)" where
  "BindDevice m now boundAt code userID =
     (case fmlookup (pm_byCode m) code of
        None \<Rightarrow> (m, Inl ErrCodeInvalid)
      | Some r \<Rightarrow>
          if pd_CodeExpires (device_at m r) < now
          then (m\<lparr>pm_byCode := fmdrop code (pm_byCode m),
                  pm_byMAC := fmdrop (pd_MAC (device_at m r)) (pm_byMAC m)\<rparr>, Inl ErrCodeExpired)
          else if pd_Bound (device_at m r) then (m, Inl ErrDeviceBound)
          else
            let m = update_device m r (\<lambda>d. d\<lparr>pd_Bound := True, pd_BoundUserID := userID, pd_BoundAt := boundAt\<rparr>)
            in (m\<lparr>pm_byCode := fmdrop code (pm_byCode m)\<rparr>, Inr r))"

definition SetDeviceConfig ::
    "PendingDeviceManager \<Rightarrow> string \<Rightarrow> PendingDeviceConfig option \<Rightarrow> PendingDeviceManager \<times> pending_error option" where
  "SetDeviceConfig m mac config =
     (case fmlookup (pm_byMAC m) mac of
        None \<Rightarrow> (m, Some ErrDeviceNotFound)
      | Some r \<Rightarrow>
          if \<not> pd_Bound (device_at m r) then (m, Some ErrDeviceNotBound)
          else
            (update_device m r (\<lambda>d. d\<lparr>pd_Config := config, pd_ConfigReady := True\<rparr>),
             if config = None then Some NilConfigPanic else None))"

definition pending_ConfirmBind :: "PendingDeviceManager \<Rightarrow> time \<Rightarrow> string \<Rightarrow> pending_error + nat" where
  "pending_ConfirmBind m now mac =
     (case fmlookup (pm_byMAC m) mac of
        None \<Rightarrow> Inl ErrNotRequested
      | Some r \<Rightarrow>
          if pd_Bound (device_at m r) \<and> time_sub now (pd_BoundAt (device_at m r)) > pm_bindDuration m
          then Inl ErrBindExpired else Inr r)"

definition GetByMAC :: "PendingDeviceManager \<Rightarrow> string \<Rightarrow> nat option" where
  "GetByMAC m mac = fmlookup (pm_byMAC m) mac"

definition GetByCode :: "PendingDeviceManager \<Rightarrow> string \<Rightarrow> nat option" where
  "GetByCode m code = fmlookup (pm_byCode m) code"

definition pending_devices :: "PendingDeviceManager \<Rightarrow> (string \<times> PendingDevice) list" where
  "pending_devices m =
     map (\<lambda>mac. (mac, device_at m (the (fmlookup (pm_byMAC m) mac)))) (sorted_list_of_fset (fmdom (pm_byMAC m)))"

definition ListConfiguredSSIDsByUser :: "PendingDeviceManager \<Rightarrow> u64 \<Rightarrow> string \<Rightarrow> int set" where
  "ListConfiguredSSIDsByUser m userID excludeMAC =
     set (map (\<lambda>(mac, d). pc_SSID (the (pd_Config d)))
       (filter (\<lambda>(mac, d). \<not> (\<not> pd_Bound d \<or> pd_BoundUserID d \<noteq> userID \<or> pd_Config d = None) \<and>
                  \<not> (excludeMAC \<noteq> [] \<and> mac = excludeMAC)) (pending_devices m)))"

definition pending_Remove :: "PendingDeviceManager \<Rightarrow> string \<Rightarrow> PendingDeviceManager" where
  "pending_Remove m mac =
     (case fmlookup (pm_byMAC m) mac of
        None \<Rightarrow> m
      | Some r \<Rightarrow> m\<lparr>pm_byCode := fmdrop (pd_Code (device_at m r)) (pm_byCode m), pm_byMAC := fmdrop mac (pm_byMAC m)\<rparr>)"

definition pending_stale :: "PendingDeviceManager \<Rightarrow> time \<Rightarrow> PendingDevice \<Rightarrow> bool" where
  "pending_stale m now d \<longleftrightarrow>
     (\<not> pd_Bound d \<and> pd_CodeExpires d < now) \<or>
     (pd_Bound d \<and> time_sub now (pd_BoundAt d) > pm_bindDuration m) \<or> pd_ConfigReady d"

text \<open>One round of the clean-up over the device addresses in some order.\<close>

fun cleanup_round :: "time \<Rightarrow> string list \<Rightarrow> PendingDeviceManager \<Rightarrow> PendingDeviceManager" where
  "cleanup_round now [] m = m"
| "cleanup_round now (mac # macs) m =
     cleanup_round now macs
       (case fmlookup (pm_byMAC m) mac of
          None \<Rightarrow> m
        | Some r \<Rightarrow>
            if pending_stale m now (device_at m r)
            then m\<lparr>pm_byCode := fmdrop (pd_Code (device_at m r)) (pm_byCode m), pm_byMAC := fmdrop mac (pm_byMAC m)\<rparr>
            else m)"

definition pending_cleanup :: "time \<Rightarrow> PendingDeviceManager \<Rightarrow> PendingDeviceManager" where
  "pending_cleanup now m = cleanup_round now (sorted_list_of_fset (fmdom (pm_byMAC m))) m"

record pending_stats =
  pt_total :: nat
  pt_pending :: nat
  pt_bound :: nat
  pt_configured :: nat
  pt_code_expiry :: int
  pt_bind_expiry :: int

definition pending_Stats :: "PendingDeviceManager \<Rightarrow> pending_stats" where
  "pending_Stats m =
     (let devices = map snd (pending_devices m)
      in \<lparr>pt_total = fcard (fmdom (pm_byMAC m)),
          pt_pending = length (filter (\<lambda>d. \<not> pd_ConfigReady d \<and> \<not> pd_Bound d) devices),
          pt_bound = length (filter (\<lambda>d. \<not> pd_ConfigReady d \<and> pd_Bound d) devices),
          pt_configured = length (filter pd_ConfigReady devices),
          pt_code_expiry = pm_codeDuration m div 1000000000, pt_bind_expiry = pm_bindDuration m div 1000000000\<rparr>)"

subsection \<open>Addresses\<close>

definition mac_byte_ok :: "string \<Rightarrow> nat \<Rightarrow> bool" where
  "mac_byte_ok mac i \<longleftrightarrow>
     (if i mod 3 = 2 then mac ! i = CHR '':''
      else let c = (of_char (mac ! i) :: nat)
           in (48 \<le> c \<and> c \<le> 57) \<or> (65 \<le> c \<and> c \<le> 70) \<or> (97 \<le> c \<and> c \<le> 102))"

definition ValidateMAC :: "string \<Rightarrow> bool" where
  "ValidateMAC mac \<longleftrightarrow> (if length mac \<noteq> 17 then False else list_all (mac_byte_ok mac) [0..<17])"

definition upper_hex :: "char \<Rightarrow> char" where
  "upper_hex c = (if 97 \<le> (of_char c :: nat) \<and> (of_char c :: nat) \<le> 102 then char_of (of_char c - 32 :: nat) else c)"

text \<open>Indexing a string of fewer than 17 bytes panics, which is \<open>None\<close>.\<close>

definition pending_NormalizeMAC :: "string \<Rightarrow> string option" where
  "pending_NormalizeMAC mac = (if length mac < 17 then None else Some (map (\<lambda>i. upper_hex (mac ! i)) [0..<17]))"

definition GenerateRandomHex :: "bytes \<Rightarrow> nat \<Rightarrow> string option option" where
  "GenerateRandomHex random len =
     (let n = len div 2
      in if length random < n then Some None
         else let s = hex_encode (take n random) in if length s < len then None else Some (Some (take len s)))"

subsection \<open>Runs of the manager\<close>

text \<open>Every interleaving of requests is a sequence of operations.\<close>

datatype pend_op =
    OpRequest time time time bytes string string
  | OpBind time time string u64
  | OpConfig string "PendingDeviceConfig option"
  | OpRemove string
  | OpCleanup time

definition clock3 :: "time \<Rightarrow> time \<Rightarrow> time \<Rightarrow> nat \<Rightarrow> time" where
  "clock3 a b c n = (if n = 0 then a else if n = 1 then b else c)"

fun pend_step :: "PendingDeviceManager \<Rightarrow> pend_op \<Rightarrow> PendingDeviceManager" where
  "pend_step m (OpRequest t0 t1 t2 random mac ip) = fst (RequestCode m (clock3 t0 t1 t2) random mac ip)"
| "pend_step m (OpBind now boundAt code userID) = fst (BindDevice m now boundAt code userID)"
| "pend_step m (OpConfig mac config) = fst (SetDeviceConfig m mac config)"
| "pend_step m (OpRemove mac) = pending_Remove m mac"
| "pend_step m (OpCleanup now) = pending_cleanup now m"

abbreviation pend_run :: "PendingDeviceManager \<Rightarrow> pend_op list \<Rightarrow> PendingDeviceManager" where
  "pend_run \<equiv> foldl pend_step"

definition pend_inv :: "PendingDeviceManager \<Rightarrow> bool" where
  "pend_inv m \<longleftrightarrow>
     (\<forall>code r. fmlookup (pm_byCode m) code = Some r \<longrightarrow>
        r < length (pm_heap m) \<and> pd_Code (device_at m r) = code \<and> \<not> pd_Bound (device_at m r)) \<and>
     (\<forall>mac r. fmlookup (pm_byMAC m) mac = Some r \<longrightarrow> r < length (pm_heap m) \<and> pd_MAC (device_at m r) = mac) \<and>
     (\<forall>d\<in>set (pm_heap m). pd_ConfigReady d \<longrightarrow> pd_Bound d)"

lemma pend_invD:
  assumes "pend_inv m"
  shows "fmlookup (pm_byCode m) code = Some r \<Longrightarrow> r < length (pm_heap m)"
    and "fmlookup (pm_byCode m) code = Some r \<Longrightarrow> pd_Code (device_at m r) = code"
    and "fmlookup (pm_byCode m) code = Some r \<Longrightarrow> \<not> pd_Bound (device_at m r)"
    and "fmlookup (pm_byMAC m) mac = Some r \<Longrightarrow> r < length (pm_heap m)"
    and "fmlookup (pm_byMAC m) mac = Some r \<Longrightarrow> pd_MAC (device_at m r) = mac"
    and "r < length (pm_heap m) \<Longrightarrow> pd_ConfigReady (device_at m r) \<Longrightarrow> pd_Bound (device_at m r)"
  using assms by (auto simp: pend_inv_def)

lemma pend_inv_init: "pend_inv newPendingDeviceManager"
  by (simp add: pend_inv_def newPendingDeviceManager_def)

text \<open>Removing entries from the indexes keeps the invariant.\<close>

lemma pend_inv_shrink:
  assumes "pend_inv m" "pm_heap m' = pm_heap m"
    and "\<And>c r. fmlookup (pm_byCode m') c = Some r \<Longrightarrow> fmlookup (pm_byCode m) c = Some r"
    and "\<And>c r. fmlookup (pm_byMAC m') c = Some r \<Longrightarrow> fmlookup (pm_byMAC m) c = Some r"
  shows "pend_inv m'"
  using assms unfolding pend_inv_def by (metis (no_types, lifting))

lemma cleanup_round_heap [simp]: "pm_heap (cleanup_round now macs m) = pm_heap m"
  by (induction now macs m rule: cleanup_round.induct) (auto split: option.splits)

lemma cleanup_round_code:
  "fmlookup (pm_byCode (cleanup_round now macs m)) c = Some r \<Longrightarrow> fmlookup (pm_byCode m) c = Some r"
  by (induction now macs m rule: cleanup_round.induct) (auto split: option.splits if_splits)

lemma pending_stale_cong: "pm_bindDuration m' = pm_bindDuration m \<Longrightarrow> pending_stale m' now d = pending_stale m now d"
  by (simp add: pending_stale_def)

lemma cleanup_round_mac:
  "fmlookup (pm_byMAC (cleanup_round now macs m)) x =
     (case fmlookup (pm_byMAC m) x of
        None \<Rightarrow> None | Some r \<Rightarrow> if x \<in> set macs \<and> pending_stale m now (device_at m r) then None else Some r)"
proof (induction now macs m rule: cleanup_round.induct)
  case (2 now mac macs m)
  then show ?case
    by (cases "fmlookup (pm_byMAC m) mac")
      (auto split: option.splits if_splits simp: pending_stale_def)
qed (auto split: option.splits)

lemma pend_inv_cleanup: "pend_inv m \<Longrightarrow> pend_inv (pending_cleanup now m)"
  unfolding pending_cleanup_def
  by (erule pend_inv_shrink) (auto simp: cleanup_round_mac dest: cleanup_round_code split: option.splits if_splits)

lemma pend_inv_remove: "pend_inv m \<Longrightarrow> pend_inv (pending_Remove m mac)"
  unfolding pending_Remove_def
  by (auto split: option.splits if_splits elim!: pend_inv_shrink)

lemma pend_inv_alloc:
  assumes "pend_inv m" and "\<not> pd_ConfigReady d" and "\<not> pd_Bound d"
  shows "pend_inv (m\<lparr>pm_heap := pm_heap m @ [d], pm_byCode := fmupd (pd_Code d) (length (pm_heap m)) (pm_byCode m),
    pm_byMAC := fmupd (pd_MAC d) (length (pm_heap m)) (pm_byMAC m)\<rparr>)"
  using assms unfolding pend_inv_def by (auto simp: nth_append) (metis less_SucI)+

lemma pend_inv_request: "pend_inv m \<Longrightarrow> pend_inv (fst (RequestCode m clock random mac ip))"
proof -
  assume inv: "pend_inv m"
  show "pend_inv (fst (RequestCode m clock random mac ip))"
    using inv pend_inv_alloc [OF inv, of "\<lparr>pd_MAC = mac, pd_IP = ip, pd_Code = code, pd_CodeExpires = clock 1 + pm_codeDuration m,
        pd_Bound = False, pd_BoundUserID = 0, pd_BoundAt = zero_time, pd_ConfigReady = False, pd_Config = None,
        pd_CreatedAt = clock 2\<rparr>" for code]
    by (auto simp: RequestCode_def Let_def split: option.splits)
qed

lemma pend_inv_bind: "pend_inv m \<Longrightarrow> pend_inv (fst (BindDevice m now boundAt code userID))"
proof -
  assume inv: "pend_inv m"
  show "pend_inv (fst (BindDevice m now boundAt code userID))"
  proof (cases "fmlookup (pm_byCode m) code")
    case (Some r)
    note r = pend_invD [OF inv] Some
    show ?thesis
    proof (cases "pd_CodeExpires (device_at m r) < now")
      case True
      then show ?thesis using Some inv by (auto simp: BindDevice_def split: if_splits elim!: pend_inv_shrink)
    next
      case False
      have "r' \<noteq> r" if "fmlookup (pm_byCode m) c = Some r'" "c \<noteq> code" for c r'
        using that r(2) [OF that(1)] r(2) [OF Some] by auto
      then show ?thesis
        using Some False inv r(3) [OF Some]
        unfolding pend_inv_def BindDevice_def update_device_def Let_def
        by (auto simp: nth_list_update dest!: set_update_subset_insert [THEN subsetD] split: if_splits)
    qed
  qed (use inv in \<open>simp add: BindDevice_def\<close>)
qed

lemma pend_inv_config: "pend_inv m \<Longrightarrow> pend_inv (fst (SetDeviceConfig m mac config))"
  unfolding pend_inv_def SetDeviceConfig_def update_device_def
  by (auto simp: nth_list_update dest!: set_update_subset_insert [THEN subsetD] split: option.splits)

lemma pend_inv_step: "pend_inv m \<Longrightarrow> pend_inv (pend_step m op)"
  by (cases op) (simp_all add: pend_inv_cleanup pend_inv_remove pend_inv_request pend_inv_bind pend_inv_config)

lemma pend_inv_run: "pend_inv m \<Longrightarrow> pend_inv (pend_run m ops)"
  by (induction ops arbitrary: m) (simp_all add: pend_inv_step)

lemmas reachable_inv = pend_inv_run [OF pend_inv_init]

subsection \<open>Codes and bindings\<close>

definition binds :: "PendingDeviceManager \<Rightarrow> pend_op \<Rightarrow> string \<Rightarrow> bool" where
  "binds m op code \<longleftrightarrow> (\<exists>now boundAt userID r. op = OpBind now boundAt code userID \<and> snd (BindDevice m now boundAt code userID) = Inr r)"

definition issues :: "PendingDeviceManager \<Rightarrow> pend_op \<Rightarrow> string \<Rightarrow> bool" where
  "issues m op code \<longleftrightarrow>
     (\<exists>t0 t1 t2 random mac ip m'. op = OpRequest t0 t1 t2 random mac ip \<and>
        RequestCode m (clock3 t0 t1 t2) random mac ip = (m', Inr (length (pm_heap m))) \<and>
        pd_Code (device_at m' (length (pm_heap m))) = code)"

lemma code_listed_step:
  assumes "fmlookup (pm_byCode m) code = None" and "\<not> issues m op code"
  shows "fmlookup (pm_byCode (pend_step m op)) code = None"
proof (cases op)
  case (OpRequest t0 t1 t2 random mac ip)
  then show ?thesis
    using assms by (auto simp: issues_def RequestCode_def Let_def split: option.splits if_splits)
next
  case (OpCleanup now)
  then show ?thesis using assms cleanup_round_code [of now _ m code] by (cases "fmlookup (pm_byCode (pend_step m op)) code") (auto simp: pending_cleanup_def)
qed (use assms in \<open>auto simp: BindDevice_def SetDeviceConfig_def pending_Remove_def update_device_def Let_def split: option.splits\<close>)

lemma code_listed_run:
  "fmlookup (pm_byCode m) code = None \<Longrightarrow> \<forall>k<length ops. \<not> issues (pend_run m (take k ops)) (ops ! k) code \<Longrightarrow>
   fmlookup (pm_byCode (pend_run m ops)) code = None"
proof (induction ops rule: rev_induct)
  case (snoc op ops)
  have "\<forall>k<length ops. \<not> issues (pend_run m (take k ops)) (ops ! k) code"
  proof (intro allI impI)
    show "\<not> issues (pend_run m (take k ops)) (ops ! k) code" if "k < length ops" for k
      using snoc(3) [rule_format, of k] that by (simp add: nth_append)
  qed
  moreover have "\<not> issues (pend_run m ops) op code" using snoc(3) by (metis append_eq_conv_conj length_append_singleton lessI nth_append_length)
  ultimately show ?case using snoc code_listed_step by simp
qed simp

lemma binds_listed:
  assumes "binds m op code"
  shows "fmlookup (pm_byCode m) code \<noteq> None" "fmlookup (pm_byCode (pend_step m op)) code = None"
  using assms by (auto simp: binds_def BindDevice_def update_device_def Let_def split: option.splits if_splits)

lemma pend_run_drop:
  "i \<le> j \<Longrightarrow> pend_run m (take j ops) = pend_run (pend_run m (take i ops)) (take (j - i) (drop i ops))"
  by (metis foldl_append le_add_diff_inverse take_add)

text \<open>C8: A dynamic code is used once.  However requests, bindings, configuration and clean-up
  interleave, between two successful bindings with the same code the server has issued this code
  anew.\<close>

theorem dynamic_code_single_use:
  assumes "i < j" and "j < length ops"
    and "binds (pend_run newPendingDeviceManager (take i ops)) (ops ! i) code"
    and "binds (pend_run newPendingDeviceManager (take j ops)) (ops ! j) code"
  shows "\<exists>k. i < k \<and> k < j \<and> issues (pend_run newPendingDeviceManager (take k ops)) (ops ! k) code"
proof (rule ccontr)
  let ?run = "\<lambda>k. pend_run newPendingDeviceManager (take k ops)"
  assume "\<nexists>k. i < k \<and> k < j \<and> issues (?run k) (ops ! k) code"
  then have none: "\<not> issues (?run k) (ops ! k) code" if "i < k" "k < j" for k using that by blast
  have "fmlookup (pm_byCode (?run (Suc i))) code = None"
    using binds_listed(2) [OF assms(3)] assms(1,2) by (simp add: take_Suc_conv_app_nth)
  moreover have "\<not> issues (pend_run (?run (Suc i)) (take k (take (j - Suc i) (drop (Suc i) ops)))) (take (j - Suc i) (drop (Suc i) ops) ! k) code"
    if "k < length (take (j - Suc i) (drop (Suc i) ops))" for k
    using none [of "Suc i + k"] pend_run_drop [of "Suc i" "Suc i + k" newPendingDeviceManager ops] that assms(1,2)
    by (simp add: min_absorb1)
  ultimately have "fmlookup (pm_byCode (?run j)) code = None"
    using code_listed_run [of "?run (Suc i)" code "take (j - Suc i) (drop (Suc i) ops)"] pend_run_drop [of "Suc i" j newPendingDeviceManager ops] assms(1)
    by simp
  then show False using binds_listed(1) [OF assms(4)] by simp
qed

text \<open>A binding is final: the object keeps the user and the time of the binding.\<close>

lemma nth_update_at: "r < length xs \<Longrightarrow> xs[i := v] ! r = (if i = r then v else xs ! r)"
  by (auto simp: nth_list_update)

lemma binding_kept_step:
  assumes "pend_inv m" "r < length (pm_heap m)" "pd_Bound (device_at m r)"
  shows "r < length (pm_heap (pend_step m op)) \<and> pd_Bound (device_at (pend_step m op) r) \<and>
    pd_BoundUserID (device_at (pend_step m op) r) = pd_BoundUserID (device_at m r) \<and>
    pd_BoundAt (device_at (pend_step m op) r) = pd_BoundAt (device_at m r)"
proof (cases op)
  case (OpBind now boundAt code userID)
  then show ?thesis
    using assms pend_invD(3) [OF assms(1), of code]
    by (cases "fmlookup (pm_byCode m) code = Some r")
      (auto simp: BindDevice_def update_device_def Let_def nth_update_at split: option.splits)
qed (use assms in \<open>auto simp: RequestCode_def SetDeviceConfig_def pending_Remove_def pending_cleanup_def update_device_def
       Let_def nth_append nth_update_at split: option.splits\<close>)

lemma binding_kept_run:
  "pend_inv m \<Longrightarrow> r < length (pm_heap m) \<Longrightarrow> pd_Bound (device_at m r) \<Longrightarrow>
   pd_Bound (device_at (pend_run m ops) r) \<and> pd_BoundUserID (device_at (pend_run m ops) r) = pd_BoundUserID (device_at m r) \<and>
   pd_BoundAt (device_at (pend_run m ops) r) = pd_BoundAt (device_at m r)"
proof (induction ops arbitrary: m)
  case (Cons op ops)
  then show ?case using binding_kept_step [of m r op] Cons.IH [OF pend_inv_step, of m op] by simp
qed simp

subsection \<open>A sample run\<close>

lemma sample_draws:
  "generateDynamicCode [0, 0, 5] = Some (''000005'', [])" "generateDynamicCode [0, 0, 7] = Some (''000007'', [])"
proof -
  have bl: "bit_len 999999 = 20" by (simp add: bit_len.simps)
  have get: "be_get [0, 0, 5] = 5" "be_get [0, 0, 7] = 7" by (simp_all add: be_get_def)
  have draw: "rand_int 1000000 [0, 0, 5] = Some (5, [])" "rand_int 1000000 [0, 0, 7] = Some (7, [])"
    by (subst rand_int.simps, simp add: bl get Let_def)+
  have fmt: "format_code 5 = ''000005''" "format_code 7 = ''000007''" by code_simp+
  show "generateDynamicCode [0, 0, 5] = Some (''000005'', [])" "generateDynamicCode [0, 0, 7] = Some (''000007'', [])"
    unfolding generateDynamicCode_def draw by (simp_all add: fmt)
qed

lemma sample_codes:
  "fmlookup (pm_byCode m) ''000005'' = None \<Longrightarrow> unused_code m [0, 0, 5] = Some ''000005''"
  "fmlookup (pm_byCode m) ''000007'' = None \<Longrightarrow> unused_code m [0, 0, 7] = Some ''000007''"
  by (subst unused_code.simps, simp add: sample_draws)+

definition sample_waiting :: "string \<Rightarrow> string \<Rightarrow> time \<Rightarrow> PendingDevice" where
  "sample_waiting mac code t = \<lparr>pd_MAC = mac, pd_IP = ''10.0.0.1'', pd_Code = code, pd_CodeExpires = t + seconds 300,
     pd_Bound = False, pd_BoundUserID = 0, pd_BoundAt = zero_time, pd_ConfigReady = False, pd_Config = None, pd_CreatedAt = t\<rparr>"

definition sample_pend_ops :: "pend_op list" where
  "sample_pend_ops =
     [OpRequest 0 0 0 [0, 0, 5] ''A'' ''10.0.0.1'', OpBind 1 1 ''000005'' 7,
      OpRequest 2 2 2 [0, 0, 5] ''B'' ''10.0.0.1'', OpBind 3 3 ''000005'' 8]"

lemma sample_request:
  assumes "fmlookup (pm_byMAC m) mac = None" "fmlookup (pm_byCode m) ''000005'' = None" "pm_codeDuration m = seconds 300"
  shows "RequestCode m (clock3 t t t) [0, 0, 5] mac ''10.0.0.1'' =
    (m\<lparr>pm_heap := pm_heap m @ [sample_waiting mac ''000005'' t], pm_byCode := fmupd ''000005'' (length (pm_heap m)) (pm_byCode m),
       pm_byMAC := fmupd mac (length (pm_heap m)) (pm_byMAC m)\<rparr>, Inr (length (pm_heap m)))"
  using assms by (simp add: RequestCode_def sample_codes clock3_def sample_waiting_def Let_def)

theorem dynamic_code_single_use_witness:
  "\<exists>k. 1 < k \<and> k < 3 \<and> issues (pend_run newPendingDeviceManager (take k sample_pend_ops)) (sample_pend_ops ! k) ''000005''"
proof (rule dynamic_code_single_use)
  show "binds (pend_run newPendingDeviceManager (take 1 sample_pend_ops)) (sample_pend_ops ! 1) ''000005''"
    by (simp add: sample_pend_ops_def sample_request newPendingDeviceManager_def binds_def BindDevice_def sample_waiting_def Let_def)
  show "binds (pend_run newPendingDeviceManager (take 3 sample_pend_ops)) (sample_pend_ops ! 3) ''000005''"
    by (simp add: sample_pend_ops_def sample_request newPendingDeviceManager_def binds_def BindDevice_def sample_waiting_def
      update_device_def numeral_3_eq_3 Let_def)
qed (simp_all add: sample_pend_ops_def)

text \<open>A binding is final.  Once a code has bound a device to a user, no later sequence of
  requests, bindings, configurations and clean-ups changes the user or the time of the binding
  that the device object carries.\<close>

theorem binding_is_final:
  assumes "BindDevice (pend_run newPendingDeviceManager before) now boundAt code userID = (m, Inr r)"
  shows "pd_Bound (device_at (pend_run m after) r) \<and> pd_BoundUserID (device_at (pend_run m after) r) = userID \<and>
    pd_BoundAt (device_at (pend_run m after) r) = boundAt"
proof -
  have inv: "pend_inv m" using pend_inv_bind [OF reachable_inv, of before now boundAt code userID] assms by simp
  have "r < length (pm_heap m)" "pd_Bound (device_at m r)" "pd_BoundUserID (device_at m r) = userID" "pd_BoundAt (device_at m r) = boundAt"
    using assms pend_invD(1) [OF reachable_inv, of before code r]
    by (auto simp: BindDevice_def update_device_def Let_def split: option.splits if_splits)
  then show ?thesis using binding_kept_run [OF inv, of r after] by simp
qed

theorem binding_is_final_witness:
  "pd_BoundUserID (device_at (pend_run (fst (BindDevice (pend_run newPendingDeviceManager (take 1 sample_pend_ops)) 1 1 ''000005'' 7))
     [OpCleanup (seconds 900), OpConfig ''A'' None]) 0) = 7"
proof -
  have "snd (BindDevice (pend_run newPendingDeviceManager (take 1 sample_pend_ops)) 1 1 ''000005'' 7) = Inr 0"
    by (simp add: sample_pend_ops_def sample_request newPendingDeviceManager_def BindDevice_def sample_waiting_def Let_def)
  then show ?thesis
    using binding_is_final [of "take 1 sample_pend_ops" 1 1 "''000005''" 7 _ 0 "[OpCleanup (seconds 900), OpConfig ''A'' None]"]
    by (metis prod.collapse)
qed

subsection \<open>Clean-up and stale codes\<close>

text \<open>The clean-up removes exactly the entries that have run out.  After a round at time \<open>now\<close>, the
  device of an address is still listed if and only if it was and neither its unbound code has
  expired, nor its binding is older than ten minutes, nor its configuration has been submitted; in
  whatever order the round visits the addresses.\<close>

theorem cleanup_exact:
  assumes "set order = fset (fmdom (pm_byMAC m))"
  shows "pm_byMAC (cleanup_round now order m) = pm_byMAC (pending_cleanup now m) \<and>
    GetByMAC (pending_cleanup now m) mac =
      (case GetByMAC m mac of
         None \<Rightarrow> None
       | Some r \<Rightarrow> if (\<not> pd_Bound (device_at m r) \<and> pd_CodeExpires (device_at m r) < now) \<or>
                     (pd_Bound (device_at m r) \<and> pm_bindDuration m < time_sub now (pd_BoundAt (device_at m r))) \<or>
                     pd_ConfigReady (device_at m r)
                  then None else Some r)"
proof
  show "pm_byMAC (cleanup_round now order m) = pm_byMAC (pending_cleanup now m)"
    using assms by (intro fmap_ext) (auto simp: pending_cleanup_def cleanup_round_mac split: option.splits)
  show "GetByMAC (pending_cleanup now m) mac =
      (case GetByMAC m mac of
         None \<Rightarrow> None
       | Some r \<Rightarrow> if (\<not> pd_Bound (device_at m r) \<and> pd_CodeExpires (device_at m r) < now) \<or>
                     (pd_Bound (device_at m r) \<and> pm_bindDuration m < time_sub now (pd_BoundAt (device_at m r))) \<or>
                     pd_ConfigReady (device_at m r)
                  then None else Some r)"
    by (auto simp: GetByMAC_def pending_cleanup_def cleanup_round_mac pending_stale_def
      intro: fmdomI split: option.splits)
qed

theorem cleanup_exact_witness:
  "GetByMAC (pending_cleanup (seconds 301) (fst (RequestCode newPendingDeviceManager (clock3 0 0 0) [0, 0, 5] ''A'' ''10.0.0.1''))) ''A'' = None"
  using cleanup_exact [of "[''A'']" "fst (RequestCode newPendingDeviceManager (clock3 0 0 0) [0, 0, 5] ''A'' ''10.0.0.1'')" "seconds 301" "''A''"]
  by (simp add: sample_request newPendingDeviceManager_def GetByMAC_def sample_waiting_def)

text \<open>A request that replaces an expired code leaves the old code listed.\<close>

lemma request_replaces:
  assumes "fmlookup (pm_byMAC m) mac = Some r" "\<not> pd_Bound (device_at m r)" "pd_CodeExpires (device_at m r) \<le> clock 0"
    and "RequestCode m clock random mac ip = (m1, Inr r1)"
  obtains code where "unused_code m random = Some code" "r1 = length (pm_heap m)"
    "m1 = m\<lparr>pm_heap := pm_heap m @ [\<lparr>pd_MAC = mac, pd_IP = ip, pd_Code = code, pd_CodeExpires = clock 1 + pm_codeDuration m,
        pd_Bound = False, pd_BoundUserID = 0, pd_BoundAt = zero_time, pd_ConfigReady = False, pd_Config = None,
        pd_CreatedAt = clock 2\<rparr>], pm_byCode := fmupd code r1 (pm_byCode m), pm_byMAC := fmupd mac r1 (pm_byMAC m)\<rparr>"
  using assms by (auto simp: RequestCode_def Let_def split: option.splits)

lemma unused_code_unlisted: "unused_code m random = Some code \<Longrightarrow> fmlookup (pm_byCode m) code = None"
  by (induction m random rule: unused_code.induct)
    (subst (asm) (2) unused_code.simps, auto split: option.splits if_splits)

text \<open>An expired code can break the binding that replaced it.  When a device whose code has expired
  asks for a new one, the old code stays listed; anyone who enters the old code afterwards gets the
  error for an expired code, and the device's new entry is removed with it: its polls are refused,
  its configuration cannot be stored, although its new code can still be bound.\<close>

theorem stale_code_unlinks_device:
  assumes "m = pend_run newPendingDeviceManager ops" and "GetByMAC m mac = Some r" and "\<not> pd_Bound (device_at m r)"
    and "GetByCode m old = Some r" and "pd_CodeExpires (device_at m r) \<le> clock 0"
    and "RequestCode m clock random mac ip = (m1, Inr r1)" and "pd_CodeExpires (device_at m r) < now"
    and "BindDevice m1 now boundAt old userID = (m2, res)"
    and "t \<le> clock 1 + pm_codeDuration m"
  shows "res = Inl ErrCodeExpired \<and> pending_ConfirmBind m2 t mac = Inl ErrNotRequested \<and>
    (\<exists>m3. BindDevice m2 t t' (pd_Code (device_at m1 r1)) user' = (m3, Inr r1) \<and>
       SetDeviceConfig m3 mac config = (m3, Some ErrDeviceNotFound))"
proof -
  note inv = pend_invD [OF reachable_inv [of ops, folded assms(1)]]
  have r: "fmlookup (pm_byMAC m) mac = Some r" "fmlookup (pm_byCode m) old = Some r"
    using assms by (simp_all add: GetByMAC_def GetByCode_def)
  obtain code where code: "unused_code m random = Some code" "r1 = length (pm_heap m)"
    "m1 = m\<lparr>pm_heap := pm_heap m @ [\<lparr>pd_MAC = mac, pd_IP = ip, pd_Code = code, pd_CodeExpires = clock 1 + pm_codeDuration m,
        pd_Bound = False, pd_BoundUserID = 0, pd_BoundAt = zero_time, pd_ConfigReady = False, pd_Config = None,
        pd_CreatedAt = clock 2\<rparr>], pm_byCode := fmupd code r1 (pm_byCode m), pm_byMAC := fmupd mac r1 (pm_byMAC m)\<rparr>"
    using request_replaces [OF r(1) assms(3,5,6)] by metis
  have "code \<noteq> old" using unused_code_unlisted [OF code(1)] r(2) by auto
  moreover have "device_at m1 r = device_at m r" using code(3) inv(4) [OF r(1)] by (simp add: nth_append)
  ultimately have m2: "res = Inl ErrCodeExpired" "m2 = m1\<lparr>pm_byCode := fmdrop old (pm_byCode m1), pm_byMAC := fmdrop mac (pm_byMAC m1)\<rparr>"
    using assms(7,8) r(2) code(3) inv(5) [OF r(1)] by (auto simp: BindDevice_def)
  have "device_at m1 r1 = \<lparr>pd_MAC = mac, pd_IP = ip, pd_Code = code, pd_CodeExpires = clock 1 + pm_codeDuration m,
        pd_Bound = False, pd_BoundUserID = 0, pd_BoundAt = zero_time, pd_ConfigReady = False, pd_Config = None,
        pd_CreatedAt = clock 2\<rparr>" using code(2,3) by simp
  then show ?thesis
    using m2 \<open>code \<noteq> old\<close> code(3) assms(9)
    by (simp add: pending_ConfirmBind_def BindDevice_def SetDeviceConfig_def update_device_def Let_def)
qed

theorem stale_code_unlinks_device_witness:
  "pending_ConfirmBind (pend_run newPendingDeviceManager
     [OpRequest 0 0 0 [0, 0, 5] ''A'' ''10.0.0.1'', OpRequest (seconds 300) (seconds 300) (seconds 300) [0, 0, 7] ''A'' ''10.0.0.1'',
      OpBind (seconds 301) (seconds 301) ''000005'' 7]) (seconds 302) ''A'' = Inl ErrNotRequested"
proof -
  define m where "m = pend_run newPendingDeviceManager [OpRequest 0 0 0 [0, 0, 5] ''A'' ''10.0.0.1'']"
  let ?c = "clock3 (seconds 300) (seconds 300) (seconds 300)"
  have m: "m = \<lparr>pm_heap = [sample_waiting ''A'' ''000005'' 0], pm_byCode = fmupd ''000005'' 0 fmempty,
      pm_byMAC = fmupd ''A'' 0 fmempty, pm_codeDuration = seconds 300, pm_bindDuration = seconds 600\<rparr>"
    by (simp add: m_def sample_request newPendingDeviceManager_def)
  obtain m1 where m1: "RequestCode m ?c [0, 0, 7] ''A'' ''10.0.0.1'' = (m1, Inr 1)"
    by (simp add: m RequestCode_def sample_waiting_def clock3_def sample_codes Let_def)
  obtain m2 res where m2: "BindDevice m1 (seconds 301) (seconds 301) ''000005'' 7 = (m2, res)" by (metis surj_pair)
  have "pending_ConfirmBind m2 (seconds 302) ''A'' = Inl ErrNotRequested"
    using stale_code_unlinks_device [OF m_def _ _ _ _ m1 _ m2, of 0 "seconds 302" 0 0 None]
    by (simp add: m GetByMAC_def GetByCode_def sample_waiting_def clock3_def)
  moreover have "m2 = pend_run m [OpRequest (seconds 300) (seconds 300) (seconds 300) [0, 0, 7] ''A'' ''10.0.0.1'',
      OpBind (seconds 301) (seconds 301) ''000005'' 7]" using m1 m2 by simp
  ultimately show ?thesis unfolding m_def by simp
qed

text \<open>A bound device no longer owns its code, but its removal still withdraws it from whoever has it now.\<close>

lemma cleanup_round_code_gone:
  assumes "mac \<in> set macs" "fmlookup (pm_byMAC m) mac = Some r" "pending_stale m now (device_at m r)"
  shows "fmlookup (pm_byCode (cleanup_round now macs m)) (pd_Code (device_at m r)) = None"
  using assms
proof (induction now macs m rule: cleanup_round.induct)
  case (2 now x macs m)
  let ?m = "m\<lparr>pm_byCode := fmdrop (pd_Code (device_at m r)) (pm_byCode m), pm_byMAC := fmdrop mac (pm_byMAC m)\<rparr>"
  show ?case
  proof (cases "x = mac")
    case True
    then show ?thesis
      using 2 cleanup_round_code [of now macs ?m "pd_Code (device_at m r)"]
      by (cases "fmlookup (pm_byCode (cleanup_round now macs ?m)) (pd_Code (device_at m r))") auto
  next
    case False
    then show ?thesis using 2 by (auto simp: pending_stale_def split: option.splits)
  qed
qed simp

theorem reused_code_withdrawn:
  assumes "GetByMAC m mac = Some r" and "pd_ConfigReady (device_at m r)"
    and "GetByCode m (pd_Code (device_at m r)) = Some r'" and "r' \<noteq> r"
  shows "GetByCode (pending_cleanup now m) (pd_Code (device_at m r)) = None"
  using assms cleanup_round_code_gone [of mac "sorted_list_of_fset (fmdom (pm_byMAC m))" m r now]
  by (auto simp: GetByMAC_def GetByCode_def pending_cleanup_def pending_stale_def intro: fmdomI)

end
