(* ===== verification/Device_Bind.thy ===== *)
theory Device_Bind
  imports Device_Password Pending_Device Draarl_Packet "HOL-Library.Product_Lexorder"
begin

section \<open>Binding a device to an account (\<open>internal/handler/device_bind.go\<close>)\<close>

text \<open>
  The four endpoints of the binding protocol and the check of a configured device.  The tables
  \<^verbatim>\<open>users\<close> and \<^verbatim>\<open>devices\<close> are lists in the order of their primary keys, and \<open>be_name_eq\<close> is the
  comparison of the database's collation; a failing query is a flag of the environment.  A request
  that does not bind to its struct is \<open>None\<close>.  Replies carry the status code and the reason or the
  data; log lines and the audit log are left out.  A request is one step: other requests run
  before or after it, not between its queries.
\<close>

record bind_user =
  bu_ID :: int
  bu_Name :: string
  bu_CallSign :: string
  bu_Status :: int
  bu_ApprovalStatus :: int
  bu_DevicePassword :: string
  bu_DMRID :: int

record bind_device =
  bd_ID :: int
  bd_Name :: string
  bd_SSID :: byte
  bd_OwnerID :: int
  bd_ISOnline :: bool
  bd_LastOnlineIP :: string
  bd_OnlineTime :: time

record bind_world =
  bw_users :: "bind_user list"
  bw_devices :: "bind_device list"
  bw_manager :: "PendingDeviceManager option"

record bind_env =
  be_name_eq :: "string \<Rightarrow> string \<Rightarrow> bool"
  be_userErr :: bool
  be_listErr :: bool
  be_deviceErr :: bool
  be_updateErr :: bool
  be_crypto :: "AESCrypto option"
  be_bcrypt :: "string \<Rightarrow> string \<Rightarrow> crypto_error option"
  be_active :: "int \<Rightarrow> byte \<Rightarrow> bool"
  be_clock :: "nat \<Rightarrow> time"
  be_random :: bytes
  be_nonce :: bytes
  be_format :: "time \<Rightarrow> string"
  be_ClientIP :: string

record DynamicBindReplaceableDevice =
  rd_DeviceID :: int
  rd_Name :: string
  rd_CallSign :: string
  rd_SSID :: int
  rd_LastOnlineIP :: string
  rd_OnlineTime :: string

datatype bind_reason =
    BadBody | BadMAC | NotInitialised | PendingFailure pending_error | UserNotFound | NotApproved
  | NoDevicePassword | OptionsFailed | ChooseTarget | SSIDOutOfRange | InvalidReplaceID
  | ReplaceLookupFailed | ReplaceMissing | ReplaceNotNormal | ReplaceOnline | ReplacePending
  | ReplaceMismatch | SSIDCheckFailed | SSIDTaken | PasswordUnreadable | PasswordGeneration | PasswordUpdate

datatype bind_reply =
    Rejected nat bind_reason
  | NeedBind bool
  | Authenticated string
  | CodeIssued string int
  | Ready string string int int
  | Waiting
  | BoundOptions string string "int list" int "DynamicBindReplaceableDevice list"
  | Saved int string string int

subsection \<open>The tables\<close>

definition GetUserByName :: "bind_env \<Rightarrow> bind_world \<Rightarrow> string \<Rightarrow> unit + bind_user option" where
  "GetUserByName env w name =
     (if be_userErr env then Inl () else Inr (find (\<lambda>u. be_name_eq env (bu_Name u) name) (bw_users w)))"

definition UpdateUserDevicePassword :: "bind_env \<Rightarrow> bind_world \<Rightarrow> int \<Rightarrow> string \<Rightarrow> bind_world \<times> bool" where
  "UpdateUserDevicePassword env w ident devicePassword =
     (if be_updateErr env then (w, False)
      else (w\<lparr>bw_users := map (\<lambda>u. if bu_ID u = ident then u\<lparr>bu_DevicePassword := devicePassword\<rparr> else u) (bw_users w)\<rparr>, True))"

definition ListDevicesByOwnerID :: "bind_env \<Rightarrow> bind_world \<Rightarrow> int \<Rightarrow> bind_device list option" where
  "ListDevicesByOwnerID env w ownerID =
     (if be_listErr env then None else Some (filter (\<lambda>d. bd_OwnerID d = ownerID) (bw_devices w)))"

definition GetDeviceByID :: "bind_env \<Rightarrow> bind_world \<Rightarrow> int \<Rightarrow> unit + bind_device option" where
  "GetDeviceByID env w ident = (if be_deviceErr env then Inl () else Inr (find (\<lambda>d. bd_ID d = ident) (bw_devices w)))"

subsection \<open>The check of a configured device\<close>

definition PreCheck :: "bind_env \<Rightarrow> bind_world \<Rightarrow> (string \<times> string \<times> string) option \<Rightarrow> bind_world \<times> bind_reply" where
  "PreCheck env w req =
     (case req of
        None \<Rightarrow> (w, Rejected 400 BadBody)
      | Some (mac, username, password) \<Rightarrow>
          if \<not> ValidateMAC mac then (w, Rejected 400 BadMAC)
          else case GetUserByName env w username of
                 Inl _ \<Rightarrow> (w, NeedBind False)
               | Inr None \<Rightarrow> (w, NeedBind False)
               | Inr (Some user) \<Rightarrow>
                   if bu_Status user \<noteq> 1 \<or> bu_ApprovalStatus user \<noteq> 1 then (w, NeedBind False)
                   else if bu_DevicePassword user = [] then (w, NeedBind True)
                   else
                     case VerifyDevicePassword (be_bcrypt env) (be_crypto env) (bu_DevicePassword user) password of
                       (match, legacyPassword, err) \<Rightarrow>
                         if err \<noteq> None then (w, NeedBind False)
                         else if \<not> match then (w, NeedBind False)
                         else
                           let w = (if legacyPassword
                                    then case Encrypt (be_crypto env) (be_nonce env) password of
                                           Inl _ \<Rightarrow> w
                                         | Inr encryptedPassword \<Rightarrow> fst (UpdateUserDevicePassword env w (bu_ID user) encryptedPassword)
                                    else w)
                           in (w, Authenticated (bu_CallSign user)))"

subsection \<open>The device's endpoints\<close>

definition seconds_up :: "duration \<Rightarrow> int" where
  "seconds_up d =
     (let x = d + seconds 1 - 1; q = (if x < 0 then - ((- x) div seconds 1) else x div seconds 1)
      in if q < 0 then 0 else q)"

definition handle_RequestCode :: "bind_env \<Rightarrow> bind_world \<Rightarrow> string option \<Rightarrow> bind_world \<times> bind_reply" where
  "handle_RequestCode env w req =
     (case req of
        None \<Rightarrow> (w, Rejected 400 BadBody)
      | Some reqMAC \<Rightarrow>
          if \<not> ValidateMAC reqMAC then (w, Rejected 400 BadMAC)
          else
            let mac = the (pending_NormalizeMAC reqMAC)
            in case bw_manager w of
                 None \<Rightarrow> (w, Rejected 500 NotInitialised)
               | Some manager \<Rightarrow>
                   (case RequestCode manager (be_clock env) (be_random env) mac (be_ClientIP env) of
                      (manager, Inl err) \<Rightarrow> (w\<lparr>bw_manager := Some manager\<rparr>, Rejected 400 (PendingFailure err))
                    | (manager, Inr r) \<Rightarrow>
                        (w\<lparr>bw_manager := Some manager\<rparr>,
                         CodeIssued (pd_Code (device_at manager r))
                           (seconds_up (time_sub (pd_CodeExpires (device_at manager r)) (be_clock env 4))))))"

definition handle_ConfirmBind :: "bind_env \<Rightarrow> bind_world \<Rightarrow> string option \<Rightarrow> bind_reply" where
  "handle_ConfirmBind env w req =
     (case req of
        None \<Rightarrow> Rejected 400 BadBody
      | Some reqMAC \<Rightarrow>
          if \<not> ValidateMAC reqMAC then Rejected 400 BadMAC
          else
            let mac = the (pending_NormalizeMAC reqMAC)
            in case bw_manager w of
                 None \<Rightarrow> Rejected 500 NotInitialised
               | Some manager \<Rightarrow>
                   (case pending_ConfirmBind manager (be_clock env 0) mac of
                      Inl err \<Rightarrow> Rejected 404 (PendingFailure err)
                    | Inr r \<Rightarrow>
                        let device = device_at manager r
                        in case pd_Config device of
                             Some config \<Rightarrow>
                               if pd_Bound device \<and> pd_ConfigReady device
                               then Ready (pc_Username config) (pc_DevicePassword config) (pc_SSID config) (pc_DMRID config)
                               else Waiting
                           | None \<Rightarrow> Waiting))"

subsection \<open>The choice of an SSID\<close>

definition listPendingConfiguredDynamicBindSSIDs :: "PendingDeviceManager option \<Rightarrow> u64 \<Rightarrow> string \<Rightarrow> int set" where
  "listPendingConfiguredDynamicBindSSIDs manager userID excludeMAC =
     (case manager of None \<Rightarrow> {} | Some m \<Rightarrow> ListConfiguredSSIDsByUser m userID excludeMAC)"

definition listUserUsedDynamicBindSSIDs :: "bind_env \<Rightarrow> bind_world \<Rightarrow> int \<Rightarrow> string \<Rightarrow> int set option" where
  "listUserUsedDynamicBindSSIDs env w userID excludeMAC =
     (case ListDevicesByOwnerID env w userID of
        None \<Rightarrow> None
      | Some devices \<Rightarrow>
          Some (set (map (\<lambda>d. uint (bd_SSID d)) devices) \<union>
                listPendingConfiguredDynamicBindSSIDs (bw_manager w) (of_int userID) excludeMAC))"

definition buildReplaceableDynamicBindDevices ::
    "bind_env \<Rightarrow> bind_device list \<Rightarrow> int set \<Rightarrow> string \<Rightarrow> DynamicBindReplaceableDevice list" where
  "buildReplaceableDynamicBindDevices env devices pendingUsed callSign =
     sort_key (\<lambda>d. (rd_SSID d, rd_DeviceID d))
       (map (\<lambda>d. \<lparr>rd_DeviceID = bd_ID d, rd_Name = bd_Name d, rd_CallSign = callSign, rd_SSID = uint (bd_SSID d),
              rd_LastOnlineIP = bd_LastOnlineIP d, rd_OnlineTime = be_format env (bd_OnlineTime d)\<rparr>)
         (filter (\<lambda>d. IsValidNormalSSID (bd_SSID d) \<and> \<not> bd_ISOnline d \<and> \<not> be_active env (bd_OwnerID d) (bd_SSID d) \<and>
                    uint (bd_SSID d) \<notin> pendingUsed) devices))"

definition buildAvailableDynamicBindSSIDs :: "int set \<Rightarrow> int list" where
  "buildAvailableDynamicBindSSIDs used = filter (\<lambda>ssid. IsValidNormalSSID (of_int ssid) \<and> ssid \<notin> used) [1..255]"

definition buildDynamicBindOptions ::
    "bind_env \<Rightarrow> bind_world \<Rightarrow> bind_user \<Rightarrow> string \<Rightarrow> (int list \<times> int \<times> DynamicBindReplaceableDevice list) option" where
  "buildDynamicBindOptions env w user excludeMAC =
     (case ListDevicesByOwnerID env w (bu_ID user) of
        None \<Rightarrow> None
      | Some devices \<Rightarrow>
          let pendingUsed = listPendingConfiguredDynamicBindSSIDs (bw_manager w) (of_int (bu_ID user)) excludeMAC;
              used = set (map (\<lambda>d. uint (bd_SSID d)) devices) \<union> pendingUsed;
              availableSSIDs = buildAvailableDynamicBindSSIDs used;
              recommendedSSID = (case availableSSIDs of [] \<Rightarrow> 0 | s # _ \<Rightarrow> s)
          in Some (availableSSIDs, recommendedSSID, buildReplaceableDynamicBindDevices env devices pendingUsed (bu_CallSign user)))"

definition isValidDynamicBindSSID :: "int \<Rightarrow> bool" where
  "isValidDynamicBindSSID ssid \<longleftrightarrow> (if ssid < 0 \<or> 255 < ssid then False else IsValidNormalSSID (of_int ssid))"

record SubmitConfigRequest =
  sr_DeviceMAC :: string
  sr_SSID :: "int option"
  sr_ReplaceDeviceID :: "int option"

definition resolveDynamicBindSelectedSSID ::
    "bind_env \<Rightarrow> bind_world \<Rightarrow> bind_user \<Rightarrow> string \<Rightarrow> SubmitConfigRequest \<Rightarrow> bind_reason + (int \<times> bind_device option)" where
  "resolveDynamicBindSelectedSSID env w user excludeMAC req =
     (case sr_ReplaceDeviceID req of
        Some ident \<Rightarrow>
          if ident \<le> 0 then Inl InvalidReplaceID
          else (case GetDeviceByID env w ident of
                  Inl _ \<Rightarrow> Inl ReplaceLookupFailed
                | Inr None \<Rightarrow> Inl ReplaceMissing
                | Inr (Some device) \<Rightarrow>
                    if bd_OwnerID device \<noteq> bu_ID user then Inl ReplaceMissing
                    else if \<not> IsValidNormalSSID (bd_SSID device) then Inl ReplaceNotNormal
                    else if bd_ISOnline device \<or> be_active env (bu_ID user) (bd_SSID device) then Inl ReplaceOnline
                    else if uint (bd_SSID device) \<in>
                        listPendingConfiguredDynamicBindSSIDs (bw_manager w) (of_int (bu_ID user)) excludeMAC then Inl ReplacePending
                    else if sr_SSID req \<noteq> None \<and> sr_SSID req \<noteq> Some (uint (bd_SSID device)) then Inl ReplaceMismatch
                    else Inr (uint (bd_SSID device), Some device))
      | None \<Rightarrow>
          (case sr_SSID req of
             None \<Rightarrow> Inl ChooseTarget
           | Some ssid \<Rightarrow>
               if \<not> isValidDynamicBindSSID ssid then Inl SSIDOutOfRange
               else (case listUserUsedDynamicBindSSIDs env w (bu_ID user) excludeMAC of
                       None \<Rightarrow> Inl SSIDCheckFailed
                     | Some usedSSIDs \<Rightarrow> if ssid \<in> usedSSIDs then Inl SSIDTaken else Inr (ssid, None))))"

subsection \<open>The user's endpoints\<close>

definition handle_BindDevice :: "bind_env \<Rightarrow> bind_world \<Rightarrow> string \<Rightarrow> string option \<Rightarrow> bind_world \<times> bind_reply" where
  "handle_BindDevice env w username req =
     (case req of
        None \<Rightarrow> (w, Rejected 400 BadBody)
      | Some dynamicCode \<Rightarrow>
          (case GetUserByName env w username of
             Inl _ \<Rightarrow> (w, Rejected 404 UserNotFound)
           | Inr None \<Rightarrow> (w, Rejected 404 UserNotFound)
           | Inr (Some user) \<Rightarrow>
               if bu_ApprovalStatus user \<noteq> 1 then (w, Rejected 403 NotApproved)
               else if bu_DevicePassword user = [] then (w, Rejected 400 NoDevicePassword)
               else case bw_manager w of
                      None \<Rightarrow> (w, Rejected 500 NotInitialised)
                    | Some manager \<Rightarrow>
                        (case BindDevice manager (be_clock env 0) (be_clock env 1) dynamicCode (of_int (bu_ID user)) of
                           (manager, Inl err) \<Rightarrow> (w\<lparr>bw_manager := Some manager\<rparr>, Rejected 400 (PendingFailure err))
                         | (manager, Inr r) \<Rightarrow>
                             let w = w\<lparr>bw_manager := Some manager\<rparr>
                             in case buildDynamicBindOptions env w user (pd_MAC (device_at manager r)) of
                                  None \<Rightarrow> (w, Rejected 500 OptionsFailed)
                                | Some (availableSSIDs, recommendedSSID, replaceableDevices) \<Rightarrow>
                                    (w, BoundOptions (pd_MAC (device_at manager r)) (bu_CallSign user) availableSSIDs
                                          recommendedSSID replaceableDevices))))"

abbreviation (input) password_charset :: string where
  "password_charset \<equiv> ''abcdefghijklmnopqrstuvwxyzABCDEFGHIJKLMNOPQRSTUVWXYZ0123456789''"

fun password_chars :: "nat \<Rightarrow> bytes \<Rightarrow> string option" where
  "password_chars 0 random = Some []"
| "password_chars (Suc n) random =
     (case rand_int (length password_charset) random of
        None \<Rightarrow> None
      | Some (k, rest) \<Rightarrow> map_option (\<lambda>cs. password_charset ! k # cs) (password_chars n rest))"

definition generateDevicePasswordFromReader :: "bytes \<Rightarrow> string option" where
  "generateDevicePasswordFromReader reader = password_chars 8 reader"

text \<open>The part of \<^verbatim>\<open>SubmitDeviceConfig\<close> that reads the user's password or makes a new one.\<close>

definition submit_password :: "bind_env \<Rightarrow> bind_world \<Rightarrow> bind_user \<Rightarrow> bind_world \<times> (bind_reason + string)" where
  "submit_password env w user =
     (case (if bu_DevicePassword user \<noteq> [] then DecodeDevicePassword (be_crypto env) (bu_DevicePassword user)
            else ([], False, None)) of
        (devicePassword, legacyPassword, err) \<Rightarrow>
          if err \<noteq> None then (w, Inl PasswordUnreadable)
          else if bu_DevicePassword user = [] \<or> legacyPassword \<or> devicePassword = [] then
            (case generateDevicePasswordFromReader (be_random env) of
               None \<Rightarrow> (w, Inl PasswordGeneration)
             | Some devicePassword \<Rightarrow>
                 (case Encrypt (be_crypto env) (be_nonce env) devicePassword of
                    Inl _ \<Rightarrow> (w, Inl PasswordGeneration)
                  | Inr encryptedPassword \<Rightarrow>
                      (case UpdateUserDevicePassword env w (bu_ID user) encryptedPassword of
                         (w, updated) \<Rightarrow> if \<not> updated then (w, Inl PasswordUpdate) else (w, Inr devicePassword))))
          else (w, Inr devicePassword))"

definition SubmitDeviceConfig ::
    "bind_env \<Rightarrow> bind_world \<Rightarrow> string \<Rightarrow> SubmitConfigRequest option \<Rightarrow> bind_world \<times> bind_reply" where
  "SubmitDeviceConfig env w username req =
     (case req of
        None \<Rightarrow> (w, Rejected 400 BadBody)
      | Some req \<Rightarrow>
          if sr_ReplaceDeviceID req = None \<and> sr_SSID req = None then (w, Rejected 400 ChooseTarget)
          else if sr_ReplaceDeviceID req = None \<and> \<not> isValidDynamicBindSSID (the (sr_SSID req)) then (w, Rejected 400 SSIDOutOfRange)
          else if \<not> ValidateMAC (sr_DeviceMAC req) then (w, Rejected 400 BadMAC)
          else
            let mac = the (pending_NormalizeMAC (sr_DeviceMAC req))
            in case GetUserByName env w username of
                 Inl _ \<Rightarrow> (w, Rejected 404 UserNotFound)
               | Inr None \<Rightarrow> (w, Rejected 404 UserNotFound)
               | Inr (Some user) \<Rightarrow>
                   (case bw_manager w of
                      None \<Rightarrow> (w, Rejected 500 NotInitialised)
                    | Some manager \<Rightarrow>
                        (case resolveDynamicBindSelectedSSID env w user mac req of
                           Inl err \<Rightarrow> (w, Rejected 400 err)
                         | Inr (selectedSSID, reusedDevice) \<Rightarrow>
                             (case submit_password env w user of
                                (w, Inl err) \<Rightarrow> (w, Rejected 500 err)
                              | (w, Inr devicePassword) \<Rightarrow>
                                  let config = \<lparr>pc_Username = bu_Name user, pc_DevicePassword = devicePassword,
                                        pc_SSID = selectedSSID, pc_DMRID = bu_DMRID user\<rparr>
                                  in case SetDeviceConfig manager mac (Some config) of
                                       (manager, Some err) \<Rightarrow> (w\<lparr>bw_manager := Some manager\<rparr>, Rejected 400 (PendingFailure err))
                                     | (manager, None) \<Rightarrow>
                                         (w\<lparr>bw_manager := Some manager\<rparr>,
                                          Saved selectedSSID (bu_Name user) devicePassword (bu_DMRID user))))))"

subsection \<open>Addresses\<close>

definition mac_input_chars :: string where
  "mac_input_chars = ''0123456789ABCDEFabcdef:''"

lemma mac_input_table:
  "\<forall>c \<in> set mac_input_chars. (of_char c :: nat) < 128 \<and> printable [c] \<and> upper_hex c = ascii_upper c \<and>
     (c = CHR '':'' \<longrightarrow> upper_hex c = CHR '':'') \<and>
     (c \<noteq> CHR '':'' \<longrightarrow> (CHR ''0'' \<le> upper_hex c \<and> upper_hex c \<le> CHR ''9'') \<or> (CHR ''A'' \<le> upper_hex c \<and> upper_hex c \<le> CHR ''F''))"
  by code_simp

lemma hex_range_chars:
  "list_all (\<lambda>n. char_of n \<in> set mac_input_chars \<and> char_of n \<noteq> CHR '':'')
     ([48..<58] @ [65..<71] @ [97..<(103::nat)])"
  by code_simp

lemma hex_char: "(48 \<le> n \<and> n \<le> 57) \<or> (65 \<le> n \<and> n \<le> 70) \<or> (97 \<le> n \<and> n \<le> 102) \<Longrightarrow> n = (of_char c :: nat) \<Longrightarrow>
    c \<in> set mac_input_chars \<and> c \<noteq> CHR '':''"
proof -
  assume "(48 \<le> n \<and> n \<le> 57) \<or> (65 \<le> n \<and> n \<le> 70) \<or> (97 \<le> n \<and> n \<le> 102)" and n: "n = (of_char c :: nat)"
  then have "n \<in> set ([48..<58] @ [65..<71] @ [97..<(103::nat)])"
    by (simp only: set_append set_upt Un_iff atLeastLessThan_iff) linarith
  from hex_range_chars [unfolded list_all_iff, rule_format, OF this] show ?thesis by (simp add: n)
qed

lemma mac_byte_ok_char: "mac_byte_ok mac i \<Longrightarrow> mac ! i \<in> set mac_input_chars \<and> (i mod 3 = 2 \<longleftrightarrow> mac ! i = CHR '':'')"
  using hex_char [OF _ refl, of "mac ! i"] by (auto simp: mac_byte_ok_def Let_def mac_input_chars_def split: if_splits)

lemma normal_mac:
  assumes "ValidateMAC mac"
  shows "pending_NormalizeMAC mac = Some (map ascii_upper mac)" and "NormalizeMAC uni mac = map ascii_upper mac"
    and "list_all (mac_char_ok (map ascii_upper mac)) [0..<17]"
proof -
  have len: "length mac = 17" and ok: "\<And>i. i < 17 \<Longrightarrow> mac_byte_ok mac i"
    using assms by (auto simp: ValidateMAC_def list_all_iff split: if_splits)
  have chars: "c \<in> set mac_input_chars" if "c \<in> set mac" for c
    using that len ok mac_byte_ok_char by (metis in_set_conv_nth)
  note table = mac_input_table [rule_format, OF chars]
  have "map (\<lambda>i. upper_hex (mac ! i)) [0..<17] = map upper_hex mac"
    using len by (intro nth_equalityI) simp_all
  also have "\<dots> = map ascii_upper mac" using table by (intro map_cong refl) blast
  finally show "pending_NormalizeMAC mac = Some (map ascii_upper mac)" by (simp add: pending_NormalizeMAC_def len)
  show ok': "list_all (mac_char_ok (map ascii_upper mac)) [0..<17]"
    unfolding list_all_iff
  proof
    fix i assume "i \<in> set [0..<17]"
    then have i: "i < 17" by simp
    then have "mac ! i \<in> set mac" using len by simp
    from table [OF this] mac_byte_ok_char [OF ok [OF i]] i show "mac_char_ok (map ascii_upper mac) i"
      by (auto simp: mac_char_ok_def len)
  qed
  have "trim_space mac = mac" using table by (intro trim_space_printable) (auto simp: printable_def list_all_iff)
  moreover have "is_ascii mac" using table by (simp add: is_ascii_def)
  ultimately show "NormalizeMAC uni mac = map ascii_upper mac"
    using ok' by (simp add: NormalizeMAC_def to_upper_def Let_def len)
qed

text \<open>The web site and the radio side use the same key for a device.  Every address the binding
  endpoints accept is normalised to exactly what the heartbeat's normalisation of it gives, which
  is again an accepted address and its own normal form.\<close>

theorem mac_forms_agree:
  assumes "ValidateMAC mac"
  shows "pending_NormalizeMAC mac = Some (NormalizeMAC uni mac) \<and> ValidateMAC (NormalizeMAC uni mac) \<and>
    pending_NormalizeMAC (NormalizeMAC uni mac) = Some (NormalizeMAC uni mac)"
proof -
  note norm = normal_mac [OF assms]
  let ?n = "map ascii_upper mac"
  have len: "length mac = 17" using assms by (auto simp: ValidateMAC_def split: if_splits)
  have "mac_byte_ok ?n i" if "mac_char_ok ?n i" for i
    using that by (auto simp: mac_char_ok_def mac_byte_ok_def char_between_iff Let_def split: if_splits)
  then have valid: "ValidateMAC ?n" using norm(3) len by (auto simp: ValidateMAC_def list_all_iff)
  have "map ascii_upper ?n = ?n" using NormalizeMAC_idem [of uni mac] norm(2) normal_mac(2) [OF valid, of uni] by simp
  then show ?thesis using norm(1,2) valid normal_mac(1) [OF valid] by simp
qed

theorem mac_forms_agree_witness:
  "pending_NormalizeMAC ''aa:bb:cc:00:11:22'' = Some (NormalizeMAC (\<lambda>s. s) ''aa:bb:cc:00:11:22'')"
proof -
  have "ValidateMAC ''aa:bb:cc:00:11:22''" by code_simp
  from mac_forms_agree [OF this] show ?thesis by blast
qed

subsection \<open>The password a device receives\<close>

lemma find_map_keep: "(\<And>x. P (f x) = P x) \<Longrightarrow> find P (map f xs) = map_option f (find P xs)"
  by (induction xs) auto

definition unique_names :: "bind_env \<Rightarrow> bind_world \<Rightarrow> bool" where
  "unique_names env w \<longleftrightarrow>
     (\<forall>x\<in>set (bw_users w). be_name_eq env (bu_Name x) (bu_Name x)) \<and>
     (\<forall>x\<in>set (bw_users w). \<forall>y\<in>set (bw_users w). be_name_eq env (bu_Name x) (bu_Name y) \<longrightarrow> x = y)"

lemma GetUserByName_self:
  assumes "unique_names env w" "user \<in> set (bw_users w)"
  shows "find (\<lambda>u. be_name_eq env (bu_Name u) (bu_Name user)) (bw_users w) = Some user"
  using assms unfolding unique_names_def
  by (cases "find (\<lambda>u. be_name_eq env (bu_Name u) (bu_Name user)) (bw_users w)")
    (auto simp: find_None_iff find_Some_iff, metis nth_mem)

lemma password_chars_length: "password_chars n random = Some cs \<Longrightarrow> length cs = n"
  by (induction n random arbitrary: cs rule: password_chars.induct) (auto split: option.splits)

lemma decoded_password_verifies:
  "DecodeDevicePassword g stored = (p, False, None) \<Longrightarrow> p \<noteq> [] \<Longrightarrow> VerifyDevicePassword bcrypt g stored p = (True, False, None)"
  by (auto simp: DecodeDevicePassword_def VerifyDevicePassword_def split: if_splits sum.splits)

lemma encrypted_password_verifies:
  assumes "Encrypt g random p = Inr stored" "p \<noteq> []"
  shows "stored \<noteq> [] \<and> VerifyDevicePassword bcrypt g stored p = (True, False, None)"
proof -
  obtain a where g: "g = Some a" and e: "aes_Encrypt a random p = Inr stored"
    using assms(1) by (auto simp: Encrypt_def split: option.splits)
  then have "aes_key (ac_key a)" "12 \<le> length random" using assms(2) by (auto simp: aes_Encrypt_def split: if_splits)
  from aes_round_trip [OF this, of p] obtain s where s: "aes_Encrypt a random p = Inr s" "aes_Decrypt a s = Inr p" "s = [] \<longleftrightarrow> p = []"
    by metis
  then show ?thesis using e assms(2) by (auto simp: g VerifyDevicePassword_def Decrypt_def)
qed

lemma submit_password_verifies:
  assumes "submit_password env w user = (w', Inr pw)" "unique_names env w" "user \<in> set (bw_users w)"
  obtains stored where "find (\<lambda>u. be_name_eq env (bu_Name u) (bu_Name user)) (bw_users w') = Some (user\<lparr>bu_DevicePassword := stored\<rparr>)"
    "stored \<noteq> []" "VerifyDevicePassword bcrypt (be_crypto env) stored pw = (True, False, None)" "bw_manager w' = bw_manager w"
proof (cases "w' = w \<and> DecodeDevicePassword (be_crypto env) (bu_DevicePassword user) = (pw, False, None) \<and> bu_DevicePassword user \<noteq> [] \<and> pw \<noteq> []")
  case True
  then show ?thesis
    using that [of "bu_DevicePassword user"] GetUserByName_self [OF assms(2,3)] decoded_password_verifies by simp
next
  case False
  then obtain enc where "generateDevicePasswordFromReader (be_random env) = Some pw"
      and enc: "Encrypt (be_crypto env) (be_nonce env) pw = Inr enc"
      and w': "w' = w\<lparr>bw_users := map (\<lambda>u. if bu_ID u = bu_ID user then u\<lparr>bu_DevicePassword := enc\<rparr> else u) (bw_users w)\<rparr>"
    using assms(1) by (auto simp: submit_password_def UpdateUserDevicePassword_def split: prod.splits if_splits option.splits sum.splits)
  then have "pw \<noteq> []" using password_chars_length [of 8 "be_random env" pw] by (auto simp: generateDevicePasswordFromReader_def)
  moreover have "find (\<lambda>u. be_name_eq env (bu_Name u) (bu_Name user)) (bw_users w') = Some (user\<lparr>bu_DevicePassword := enc\<rparr>)"
    unfolding w' using GetUserByName_self [OF assms(2,3)] by (simp add: find_map_keep)
  ultimately show ?thesis using that [of enc] encrypted_password_verifies [OF enc] w' by simp
qed

lemma submit_cases:
  assumes "SubmitDeviceConfig env w username (Some req) = (w', Saved ssid name pw dmr)"
  obtains user manager reused w1 r mac where
    "GetUserByName env w username = Inr (Some user)" "bw_manager w = Some manager" "ValidateMAC (sr_DeviceMAC req)"
    "mac = the (pending_NormalizeMAC (sr_DeviceMAC req))" "resolveDynamicBindSelectedSSID env w user mac req = Inr (ssid, reused)"
    "submit_password env w user = (w1, Inr pw)" "name = bu_Name user" "dmr = bu_DMRID user"
    "fmlookup (pm_byMAC manager) mac = Some r" "pd_Bound (device_at manager r)"
    "w' = w1\<lparr>bw_manager := Some (update_device manager r (\<lambda>d. d\<lparr>pd_Config := Some \<lparr>pc_Username = name, pc_DevicePassword = pw,
       pc_SSID = ssid, pc_DMRID = dmr\<rparr>, pd_ConfigReady := True\<rparr>))\<rparr>"
  using assms that
  by (auto simp: SubmitDeviceConfig_def SetDeviceConfig_def Let_def split: if_splits sum.splits option.splits prod.splits)

lemma GetUserByName_member: "GetUserByName env w name = Inr (Some user) \<Longrightarrow> user \<in> set (bw_users w)"
  by (auto simp: GetUserByName_def find_Some_iff split: if_splits)



text \<open>The options shown after a binding are the options the server accepts.  A new SSID is accepted for
  the device if and only if it was offered; the recommended one is the smallest of them (0 when
  there is none); and every offered stored device is accepted for replacement with its SSID.
  (Device ids are positive and unique.)\<close>

theorem offered_options_accepted:
  assumes "buildDynamicBindOptions env w user mac = Some (available, recommended, replaceable)"
    and "\<not> be_deviceErr env" and "\<forall>d\<in>set (bw_devices w). 0 < bd_ID d" and "distinct (map bd_ID (bw_devices w))"
  shows "(\<forall>s. resolveDynamicBindSelectedSSID env w user mac (req\<lparr>sr_SSID := Some s, sr_ReplaceDeviceID := None\<rparr>) = Inr (s, None) \<longleftrightarrow>
      s \<in> set available) \<and>
    (if available = [] then recommended = 0 else recommended = Min (set available)) \<and>
    (\<forall>rd\<in>set replaceable. \<exists>d. resolveDynamicBindSelectedSSID env w user mac
        (req\<lparr>sr_SSID := Some (rd_SSID rd), sr_ReplaceDeviceID := Some (rd_DeviceID rd)\<rparr>) = Inr (rd_SSID rd, Some d))"
proof (intro conjI)
  let ?pending = "listPendingConfiguredDynamicBindSSIDs (bw_manager w) (of_int (bu_ID user)) mac"
  define own where "own = filter (\<lambda>d. bd_OwnerID d = bu_ID user) (bw_devices w)"
  have opts: "\<not> be_listErr env" "available = buildAvailableDynamicBindSSIDs (set (map (\<lambda>d. uint (bd_SSID d)) own) \<union> ?pending)"
      "recommended = (case available of [] \<Rightarrow> 0 | s # _ \<Rightarrow> s)" "replaceable = buildReplaceableDynamicBindDevices env own ?pending (bu_CallSign user)"
    using assms(1) by (auto simp: buildDynamicBindOptions_def ListDevicesByOwnerID_def own_def Let_def split: if_splits option.splits)
  have valid: "isValidDynamicBindSSID s \<longleftrightarrow> s \<in> set [1..255] \<and> IsValidNormalSSID (of_int s)" for s
    by (cases "s = 0") (auto simp: isValidDynamicBindSSID_def IsValidNormalSSID_def)
  show "\<forall>s. resolveDynamicBindSelectedSSID env w user mac (req\<lparr>sr_SSID := Some s, sr_ReplaceDeviceID := None\<rparr>) = Inr (s, None) \<longleftrightarrow>
      s \<in> set available"
    using opts(1) by (auto simp: resolveDynamicBindSelectedSSID_def valid opts(2) buildAvailableDynamicBindSSIDs_def
        listUserUsedDynamicBindSSIDs_def ListDevicesByOwnerID_def own_def [symmetric])
  have "sorted available" by (simp add: opts(2) buildAvailableDynamicBindSSIDs_def sorted_wrt_filter)
  then show "if available = [] then recommended = 0 else recommended = Min (set available)"
    unfolding opts(3) by (cases available) (auto intro!: Min_eqI [symmetric])
  show "\<forall>rd\<in>set replaceable. \<exists>d. resolveDynamicBindSelectedSSID env w user mac
        (req\<lparr>sr_SSID := Some (rd_SSID rd), sr_ReplaceDeviceID := Some (rd_DeviceID rd)\<rparr>) = Inr (rd_SSID rd, Some d)"
  proof
    fix rd assume "rd \<in> set replaceable"
    then obtain d where d: "d \<in> set (bw_devices w)" "bd_OwnerID d = bu_ID user" "IsValidNormalSSID (bd_SSID d)" "\<not> bd_ISOnline d"
        "\<not> be_active env (bu_ID user) (bd_SSID d)" "uint (bd_SSID d) \<notin> ?pending" "rd_DeviceID rd = bd_ID d" "rd_SSID rd = uint (bd_SSID d)"
      by (auto simp: opts(4) buildReplaceableDynamicBindDevices_def own_def)
    have "find (\<lambda>x. bd_ID x = bd_ID d) (bw_devices w) = Some d"
    proof (cases "find (\<lambda>x. bd_ID x = bd_ID d) (bw_devices w)")
      case (Some y)
      then have "y \<in> set (bw_devices w)" "bd_ID y = bd_ID d" by (auto simp: find_Some_iff)
      then show ?thesis using Some d(1) assms(4) by (metis eq_key_imp_eq_value imageI inj_onD distinct_map)
    qed (use d(1) in \<open>auto simp: find_None_iff\<close>)
    moreover have "\<not> bd_ID d \<le> 0" using assms(3) d(1) by auto
    ultimately show "\<exists>d. resolveDynamicBindSelectedSSID env w user mac
        (req\<lparr>sr_SSID := Some (rd_SSID rd), sr_ReplaceDeviceID := Some (rd_DeviceID rd)\<rparr>) = Inr (rd_SSID rd, Some d)"
      using d assms(2) by (simp add: resolveDynamicBindSelectedSSID_def GetDeviceByID_def)
  qed
qed

text \<open>The endpoint that configures a bound device does not ask who bound it.  Any user who knows the
  address of a device that another account has bound can submit the configuration, and the
  device's next poll receives this user's name and password.\<close>

theorem any_user_configures_bound_device:
  assumes "GetUserByName env w username = Inr (Some user)" and "bw_manager w = Some (pend_run newPendingDeviceManager ops)"
    and "ValidateMAC (sr_DeviceMAC req)" and "mac = the (pending_NormalizeMAC (sr_DeviceMAC req))"
    and "GetByMAC (pend_run newPendingDeviceManager ops) mac = Some r" and "pd_Bound (device_at (pend_run newPendingDeviceManager ops) r)"
    and "pd_BoundUserID (device_at (pend_run newPendingDeviceManager ops) r) \<noteq> of_int (bu_ID user)"
    and "sr_ReplaceDeviceID req = None" and "sr_SSID req = Some ssid"
    and "resolveDynamicBindSelectedSSID env w user mac req = Inr (ssid, None)" and "submit_password env w user = (w1, Inr pw)"
    and "time_sub now (pd_BoundAt (device_at (pend_run newPendingDeviceManager ops) r)) \<le> pm_bindDuration (pend_run newPendingDeviceManager ops)"
  shows "\<exists>w'. SubmitDeviceConfig env w username (Some req) = (w', Saved ssid (bu_Name user) pw (bu_DMRID user)) \<and>
    handle_ConfirmBind (env\<lparr>be_clock := \<lambda>_. now\<rparr>) w' (Some (sr_DeviceMAC req)) = Ready (bu_Name user) pw ssid (bu_DMRID user)"
proof -
  let ?m = "pend_run newPendingDeviceManager ops"
  have r: "fmlookup (pm_byMAC ?m) mac = Some r" using assms(5) by (simp add: GetByMAC_def)
  have "r < length (pm_heap ?m)" using pend_invD(4) [OF reachable_inv r] .
  moreover have "isValidDynamicBindSSID ssid"
    using assms(8,9,10) by (auto simp: resolveDynamicBindSelectedSSID_def split: if_splits)
  ultimately show ?thesis
    using assms r
    by (simp add: SubmitDeviceConfig_def SetDeviceConfig_def handle_ConfirmBind_def pending_ConfirmBind_def update_device_def Let_def)
qed

text \<open>A saved configuration can be lost before the device fetches it.  The clean-up drops a device as
  soon as its configuration is submitted: a round that runs between the submission and the
  device's next poll, at whatever time, makes the poll answer that the device never asked.\<close>

theorem cleanup_drops_unfetched_config:
  assumes "SubmitDeviceConfig env w username (Some req) = (w', Saved ssid name pw dmr)"
    and "bw_manager w = Some (pend_run newPendingDeviceManager ops)"
  shows "handle_ConfirmBind env' (w'\<lparr>bw_manager := map_option (pending_cleanup now) (bw_manager w')\<rparr>) (Some (sr_DeviceMAC req)) =
    Rejected 404 (PendingFailure ErrNotRequested)"
  using assms(1)
proof (rule submit_cases)
  fix user manager reused w1 r mac
  assume valid: "ValidateMAC (sr_DeviceMAC req)" and mac: "mac = the (pending_NormalizeMAC (sr_DeviceMAC req))"
    and m: "bw_manager w = Some manager" and r: "fmlookup (pm_byMAC manager) mac = Some r"
    and w': "w' = w1\<lparr>bw_manager := Some (update_device manager r (\<lambda>d. d\<lparr>pd_Config := Some \<lparr>pc_Username = name, pc_DevicePassword = pw,
       pc_SSID = ssid, pc_DMRID = dmr\<rparr>, pd_ConfigReady := True\<rparr>))\<rparr>"
  have len: "r < length (pm_heap manager)" using pend_invD(4) [OF reachable_inv] r m assms(2) by auto
  have "fmlookup (pm_byMAC (pending_cleanup now (the (bw_manager w')))) mac = None"
    using r len fmdomI [OF r] by (simp add: w' pending_cleanup_def cleanup_round_mac update_device_def pending_stale_def)
  then show ?thesis
    using valid by (simp add: w' handle_ConfirmBind_def pending_ConfirmBind_def mac [symmetric] Let_def)
qed

subsection \<open>A sample binding\<close>

definition sample_cipher :: AESCrypto where
  "sample_cipher = \<lparr>ac_key = replicate 16 107\<rparr>"

definition sample_stored :: string where
  "sample_stored = (case Encrypt (Some sample_cipher) (replicate 12 9) ''pw'' of Inr s \<Rightarrow> s | Inl _ \<Rightarrow> [])"

definition sample_user :: "int \<Rightarrow> string \<Rightarrow> bind_user" where
  "sample_user ident name = \<lparr>bu_ID = ident, bu_Name = name, bu_CallSign = ''B1AAA'', bu_Status = 1, bu_ApprovalStatus = 1,
     bu_DevicePassword = sample_stored, bu_DMRID = 460\<rparr>"

abbreviation (input) sample_mac :: string where "sample_mac \<equiv> ''AA:BB:CC:00:11:22''"

definition sample_env :: bind_env where
  "sample_env = \<lparr>be_name_eq = (=), be_userErr = False, be_listErr = False, be_deviceErr = False, be_updateErr = False,
     be_crypto = Some sample_cipher, be_bcrypt = \<lambda>_ _. None, be_active = \<lambda>_ _. False, be_clock = \<lambda>n. 2,
     be_random = [], be_nonce = [], be_format = \<lambda>_. [], be_ClientIP = []\<rparr>"

definition sample_world :: bind_world where
  "sample_world = \<lparr>bw_users = [sample_user 7 ''u'', sample_user 8 ''v''], bw_devices = [],
     bw_manager = Some (pend_run newPendingDeviceManager [OpRequest 0 0 0 [0, 0, 5] sample_mac ''10.0.0.1'', OpBind 1 1 ''000005'' 7])\<rparr>"

definition sample_req :: SubmitConfigRequest where
  "sample_req = \<lparr>sr_DeviceMAC = sample_mac, sr_SSID = Some 5, sr_ReplaceDeviceID = None\<rparr>"

lemma sample_stored_decodes: "sample_stored \<noteq> []" "DecodeDevicePassword (Some sample_cipher) sample_stored = (''pw'', False, None)"
proof -
  have key: "aes_key (ac_key sample_cipher)" by (simp add: sample_cipher_def aes_key_def)
  obtain s where s: "aes_Encrypt sample_cipher (replicate 12 9) ''pw'' = Inr s" "aes_Decrypt sample_cipher s = Inr ''pw''" "s \<noteq> []"
    using aes_round_trip [OF key, of "replicate 12 9" "''pw''"] by (metis eq_refl length_replicate list.distinct(1))
  then have "sample_stored = s" by (simp add: sample_stored_def Encrypt_def)
  with s show "sample_stored \<noteq> []" "DecodeDevicePassword (Some sample_cipher) sample_stored = (''pw'', False, None)"
    by (simp_all add: DecodeDevicePassword_def Decrypt_def)
qed

lemma sample_mac_valid: "ValidateMAC sample_mac" "pending_NormalizeMAC sample_mac = Some sample_mac"
  by code_simp+

lemma sample_manager:
  "pend_run newPendingDeviceManager [OpRequest 0 0 0 [0, 0, 5] sample_mac ''10.0.0.1'', OpBind 1 1 ''000005'' 7] =
   \<lparr>pm_heap = [(sample_waiting sample_mac ''000005'' 0)\<lparr>pd_Bound := True, pd_BoundUserID := 7, pd_BoundAt := 1\<rparr>],
    pm_byCode = fmdrop ''000005'' (fmupd ''000005'' 0 fmempty), pm_byMAC = fmupd sample_mac 0 fmempty,
    pm_codeDuration = seconds 300, pm_bindDuration = seconds 600\<rparr>"
  by (simp add: sample_request newPendingDeviceManager_def BindDevice_def update_device_def sample_waiting_def Let_def)

lemma sample_resolve:
  "user \<in> {sample_user 7 ''u'', sample_user 8 ''v''} \<Longrightarrow>
   resolveDynamicBindSelectedSSID sample_env sample_world user sample_mac sample_req = Inr (5, None)"
  unfolding sample_world_def sample_manager
  by (auto simp: resolveDynamicBindSelectedSSID_def sample_req_def sample_env_def isValidDynamicBindSSID_def
      IsValidNormalSSID_def listUserUsedDynamicBindSSIDs_def ListDevicesByOwnerID_def
      listPendingConfiguredDynamicBindSSIDs_def ListConfiguredSSIDsByUser_def pending_devices_def sorted_list_of_fset.rep_eq)

lemma sample_password:
  "user \<in> {sample_user 7 ''u'', sample_user 8 ''v''} \<Longrightarrow> submit_password sample_env sample_world user = (sample_world, Inr ''pw'')"
  by (auto simp: submit_password_def sample_user_def sample_env_def sample_stored_decodes)

lemma sample_lookup:
  "GetUserByName sample_env sample_world ''u'' = Inr (Some (sample_user 7 ''u''))"
  "GetUserByName sample_env sample_world ''v'' = Inr (Some (sample_user 8 ''v''))"
  by (simp_all add: GetUserByName_def sample_env_def sample_world_def sample_user_def)

lemma sample_submit:
  "\<exists>w'. SubmitDeviceConfig sample_env sample_world ''u'' (Some sample_req) = (w', Saved 5 ''u'' ''pw'' 460)"
proof -
  have manager: "bw_manager sample_world = Some (pend_run newPendingDeviceManager [OpRequest 0 0 0 [0, 0, 5] sample_mac ''10.0.0.1'', OpBind 1 1 ''000005'' 7])"
    by (simp add: sample_world_def)
  have "isValidDynamicBindSSID 5" by (simp add: isValidDynamicBindSSID_def IsValidNormalSSID_def)
  then show ?thesis
    using sample_resolve [of "sample_user 7 ''u''"] sample_password [of "sample_user 7 ''u''"]
    unfolding SubmitDeviceConfig_def manager sample_manager sample_lookup
    by (simp add: SetDeviceConfig_def sample_req_def sample_mac_valid sample_waiting_def sample_user_def Let_def)
qed



definition sample_offline :: bind_device where
  "sample_offline = \<lparr>bd_ID = 3, bd_Name = ''d'', bd_SSID = 9, bd_OwnerID = 7, bd_ISOnline = False, bd_LastOnlineIP = [], bd_OnlineTime = 0\<rparr>"

lemma sample_options:
  "\<exists>available recommended replaceable.
     buildDynamicBindOptions sample_env (sample_world\<lparr>bw_devices := [sample_offline]\<rparr>) (sample_user 7 ''u'') sample_mac =
       Some (available, recommended, replaceable) \<and> rd_SSID (hd replaceable) = 9 \<and> rd_DeviceID (hd replaceable) = 3 \<and> replaceable \<noteq> []"
  unfolding sample_world_def sample_manager
  by (simp add: buildDynamicBindOptions_def ListDevicesByOwnerID_def sample_env_def sample_user_def sample_offline_def
      buildReplaceableDynamicBindDevices_def IsValidNormalSSID_def listPendingConfiguredDynamicBindSSIDs_def
      ListConfiguredSSIDsByUser_def pending_devices_def sorted_list_of_fset.rep_eq Let_def)

theorem offered_options_accepted_witness:
  "\<exists>d. resolveDynamicBindSelectedSSID sample_env (sample_world\<lparr>bw_devices := [sample_offline]\<rparr>) (sample_user 7 ''u'') sample_mac
     (sample_req\<lparr>sr_SSID := Some 9, sr_ReplaceDeviceID := Some 3\<rparr>) = Inr (9, Some d)"
proof -
  obtain available recommended replaceable where
    o: "buildDynamicBindOptions sample_env (sample_world\<lparr>bw_devices := [sample_offline]\<rparr>) (sample_user 7 ''u'') sample_mac =
       Some (available, recommended, replaceable)"
    and hd: "rd_SSID (hd replaceable) = 9" "rd_DeviceID (hd replaceable) = 3" "hd replaceable \<in> set replaceable"
    using sample_options by (metis hd_in_set)
  from offered_options_accepted [OF o, of sample_req] hd show ?thesis
    by (auto simp: sample_env_def sample_offline_def)
qed

theorem any_user_configures_bound_device_witness:
  "\<exists>w'. SubmitDeviceConfig sample_env sample_world ''v'' (Some sample_req) = (w', Saved 5 ''v'' ''pw'' 460) \<and>
     handle_ConfirmBind (sample_env\<lparr>be_clock := \<lambda>_. 2\<rparr>) w' (Some sample_mac) = Ready ''v'' ''pw'' 5 460"
proof -
  have manager: "bw_manager sample_world = Some (pend_run newPendingDeviceManager [OpRequest 0 0 0 [0, 0, 5] sample_mac ''10.0.0.1'', OpBind 1 1 ''000005'' 7])"
    by (simp add: sample_world_def)
  have mac: "ValidateMAC (sr_DeviceMAC sample_req)" "sample_mac = the (pending_NormalizeMAC (sr_DeviceMAC sample_req))"
    by (simp_all add: sample_req_def sample_mac_valid)
  have req: "sr_ReplaceDeviceID sample_req = None" "sr_SSID sample_req = Some 5" "sr_DeviceMAC sample_req = sample_mac"
    by (simp_all add: sample_req_def)
  have user: "bu_Name (sample_user 8 ''v'') = ''v''" "bu_DMRID (sample_user 8 ''v'') = 460" by (simp_all add: sample_user_def)
  show ?thesis
    using any_user_configures_bound_device [OF sample_lookup(2) manager mac _ _ _ req(1,2) sample_resolve [of "sample_user 8 ''v''"] sample_password [of "sample_user 8 ''v''"],
        of 0 2, unfolded req(3) user]
    unfolding sample_manager by (simp add: GetByMAC_def sample_user_def time_sub_def)
qed

theorem cleanup_drops_unfetched_config_witness:
  "\<exists>w'. SubmitDeviceConfig sample_env sample_world ''u'' (Some sample_req) = (w', Saved 5 ''u'' ''pw'' 460) \<and>
     handle_ConfirmBind sample_env (w'\<lparr>bw_manager := map_option (pending_cleanup 2) (bw_manager w')\<rparr>) (Some sample_mac) =
       Rejected 404 (PendingFailure ErrNotRequested)"
proof -
  obtain w' where w': "SubmitDeviceConfig sample_env sample_world ''u'' (Some sample_req) = (w', Saved 5 ''u'' ''pw'' 460)"
    using sample_submit by blast
  have "bw_manager sample_world = Some (pend_run newPendingDeviceManager [OpRequest 0 0 0 [0, 0, 5] sample_mac ''10.0.0.1'', OpBind 1 1 ''000005'' 7])"
    by (simp add: sample_world_def)
  from cleanup_drops_unfetched_config [OF w' this, of sample_env 2] w' show ?thesis by (auto simp: sample_req_def)
qed

end
