(* ===== verification/Domain_Receivers.thy ===== *)
theory Domain_Receivers
  imports Half_Duplex "HOL-Library.Multiset"
begin

unbundle bit_operations_syntax

section \<open>The receivers of a voice domain (\<open>udphub/domain_receiver_cache.go\<close>)\<close>

text \<open>
  A voice packet goes to every online receiver in the groups linked to the sender's group.  The
  receivers of a domain are kept as a snapshot, already split among the writers of the fan-out, and
  invalidated by a generation counter.  A device is read through \<^verbatim>\<open>RuntimeSnapshot\<close>, so its state is
  the record of the fields used here; \<open>rw_groups\<close> is the group cache with the connection list of each
  pool and \<open>rw_ghosts\<close> the receive index of the ghost sessions.  Metrics of build times are left out.
\<close>

subsection \<open>Addresses (\<open>udphub/udp_addr.go\<close>)\<close>

datatype netip_addr = InvalidIP | IP4 bytes | IP6 bytes string

record addr_port =
  ap_Addr :: netip_addr
  ap_Port :: u16

definition AddrFromSlice :: "bytes \<Rightarrow> netip_addr" where
  "AddrFromSlice ip = (if length ip = 4 then IP4 ip else if length ip = 16 then IP6 ip [] else InvalidIP)"

definition AddrPort :: "udp_addr \<Rightarrow> addr_port" where
  "AddrPort addr =
     \<lparr>ap_Addr = (case AddrFromSlice (addr_IP addr) of IP6 bs _ \<Rightarrow> IP6 bs (addr_Zone addr) | a \<Rightarrow> a),
      ap_Port = of_int (addr_Port addr)\<rparr>"

definition udpAddrPort :: "udp_addr option \<Rightarrow> addr_port option" where
  "udpAddrPort addr =
     (case addr of
        None \<Rightarrow> None
      | Some addr \<Rightarrow> let ap = AddrPort addr in if ap_Addr ap = InvalidIP then None else Some ap)"

fun Unmap4In6 :: "netip_addr \<Rightarrow> netip_addr" where
  "Unmap4In6 (IP6 bs zone) = (if take 12 bs = replicate 10 0 @ [255, 255] then IP4 (drop 12 bs) else IP6 bs zone)"
| "Unmap4In6 a = a"

definition fnv64_step :: "u64 \<Rightarrow> byte \<Rightarrow> u64" where
  "fnv64_step h b = (h XOR ucast b) * 1099511628211"

definition hashAddrPort :: "addr_port \<Rightarrow> u64" where
  "hashAddrPort ap =
     (if ap_Addr ap = InvalidIP then 0
      else
        let bs = (case Unmap4In6 (ap_Addr ap) of IP4 b \<Rightarrow> b | IP6 b zone \<Rightarrow> b @ bytes_of zone | InvalidIP \<Rightarrow> [])
        in foldl fnv64_step 1469598103934665603 (bs @ putUint16 (ap_Port ap)))"

definition udpAddrShard :: "udp_addr option \<Rightarrow> int \<Rightarrow> nat" where
  "udpAddrShard addr shards =
     (if shards \<le> 1 then 0
      else case udpAddrPort addr of None \<Rightarrow> 0 | Some ap \<Rightarrow> unat (hashAddrPort ap mod of_int shards))"

definition addrPortShard :: "addr_port \<Rightarrow> int \<Rightarrow> nat" where
  "addrPortShard ap shards = (if shards \<le> 1 then 0 else unat (hashAddrPort ap mod of_int shards))"

subsection \<open>Snapshots\<close>

record receiver_state =
  rs_ID :: int
  rs_Username :: string
  rs_SSID :: byte
  rs_GroupID :: int
  rs_ISOnline :: bool
  rs_UDPAddr :: "udp_addr option"
  rs_DisableRecv :: bool
  rs_GhostSessionID :: string
  rs_GhostRxGroupIDs :: "int list"

record receiver_group =
  rg_Status :: int
  rg_ConnList :: "receiver_state list option"

record receiver_world =
  rw_groups :: "(int, receiver_group) fmap"
  rw_ghosts :: "int \<Rightarrow> receiver_state list"

record domainReceiverEntry =
  dr_addr :: addr_port
  dr_deviceID :: int
  dr_username :: string
  dr_ssid :: byte
  dr_sessionID :: string
  dr_sourceGroupV1 :: bool

record domainReceiverSnap =
  ds_entries :: "domainReceiverEntry list"
  ds_partitions :: "domainReceiverEntry list list"
  ds_workers :: nat
  ds_updatedAt :: time
  ds_gen :: u64

definition CanReceiveRoute :: "bool \<Rightarrow> int list \<Rightarrow> int \<Rightarrow> bool" where
  "CanReceiveRoute disableRecv rxGroupIDs groupID \<longleftrightarrow> \<not> disableRecv \<and> 0 < groupID \<and> groupID \<in> set rxGroupIDs"

definition CanTransmitRoute :: "bool \<Rightarrow> int \<Rightarrow> int \<Rightarrow> bool" where
  "CanTransmitRoute disableSend txGroupID groupID \<longleftrightarrow> \<not> disableSend \<and> 0 < groupID \<and> txGroupID = groupID"

definition receiver_addr :: "int \<Rightarrow> receiver_state \<Rightarrow> addr_port option" where
  "receiver_addr expectedGroupID state =
     (if \<not> rs_ISOnline state \<or> rs_UDPAddr state = None then None
      else
        let rxGroupIDs = (if rs_GhostSessionID state = [] then [rs_GroupID state] else rs_GhostRxGroupIDs state)
        in if \<not> CanReceiveRoute (rs_DisableRecv state) rxGroupIDs expectedGroupID then None
           else udpAddrPort (rs_UDPAddr state))"

definition receiver_entry :: "receiver_state \<Rightarrow> addr_port \<Rightarrow> domainReceiverEntry" where
  "receiver_entry state addr =
     \<lparr>dr_addr = addr, dr_deviceID = rs_ID state, dr_username = rs_Username state, dr_ssid = rs_SSID state,
      dr_sessionID = rs_GhostSessionID state, dr_sourceGroupV1 = (rs_GhostSessionID state \<noteq> [])\<rparr>"

definition addDev :: "int \<Rightarrow> domainReceiverEntry list \<Rightarrow> receiver_state \<Rightarrow> domainReceiverEntry list" where
  "addDev expectedGroupID entries state =
     (case receiver_addr expectedGroupID state of
        None \<Rightarrow> entries
      | Some addr \<Rightarrow> if addr \<in> dr_addr ` set entries then entries else entries @ [receiver_entry state addr])"

definition group_candidates :: "receiver_world \<Rightarrow> int \<Rightarrow> receiver_state list" where
  "group_candidates w gid =
     (case fmlookup (rw_groups w) gid of
        None \<Rightarrow> []
      | Some gp \<Rightarrow>
          if rg_Status gp \<noteq> 1 then []
          else (case rg_ConnList gp of None \<Rightarrow> [] | Some devs \<Rightarrow> filter (\<lambda>d. rs_GhostSessionID d = []) devs) @
               filter rs_ISOnline (rw_ghosts w gid))"

definition domain_entries :: "receiver_world \<Rightarrow> int list \<Rightarrow> domainReceiverEntry list" where
  "domain_entries w groupIDs = foldl (\<lambda>entries gid. foldl (addDev gid) entries (group_candidates w gid)) [] groupIDs"

definition split_entries :: "domainReceiverEntry list \<Rightarrow> nat \<Rightarrow> domainReceiverEntry list list" where
  "split_entries entries workers =
     foldl (\<lambda>parts e. let index = addrPortShard (dr_addr e) (int workers) in parts[index := parts ! index @ [e]])
       (replicate workers []) entries"

definition buildDomainReceiverSnap ::
    "receiver_world \<Rightarrow> hub \<Rightarrow> int \<Rightarrow> u64 \<Rightarrow> int \<Rightarrow> time \<Rightarrow> hub \<times> domainReceiverSnap" where
  "buildDomainReceiverSnap w h sourceGroupID gen workers now =
     (let (h, groupIDs) = GetHalfDuplexDomainGroupIDs h sourceGroupID;
          groupIDs = (if groupIDs = [] then [sourceGroupID] else groupIDs);
          entries = domain_entries w groupIDs;
          workers = (if workers < 1 then 1 else nat workers)
      in (h, \<lparr>ds_entries = entries, ds_partitions = split_entries entries workers, ds_workers = workers,
              ds_updatedAt = now, ds_gen = gen\<rparr>))"

subsection \<open>The cache\<close>

text \<open>Between the first look at the cache and the build lock other goroutines may change the hub and
  the cache, which is the argument \<open>other\<close>; the rest runs under the lock.  The number of writers
  does not change while the sender runs.\<close>

record receiver_cache =
  rc_snaps :: "(string, domainReceiverSnap) fmap"
  rc_hits :: nat
  rc_misses :: nat

abbreviation (input) domainReceiverTTL :: duration where "domainReceiverTTL \<equiv> seconds 30"

definition validDomainReceiverSnap :: "domainReceiverSnap \<Rightarrow> u64 \<Rightarrow> nat \<Rightarrow> time \<Rightarrow> bool" where
  "validDomainReceiverSnap snap gen workers now \<longleftrightarrow>
     ds_gen snap = gen \<and> ds_workers snap = workers \<and> time_sub now (ds_updatedAt snap) < domainReceiverTTL"

definition cached_snap :: "receiver_cache \<Rightarrow> string \<Rightarrow> u64 \<Rightarrow> nat \<Rightarrow> time \<Rightarrow> domainReceiverSnap option" where
  "cached_snap c domainKey gen workers now =
     (case fmlookup (rc_snaps c) domainKey of
        Some snap \<Rightarrow> if validDomainReceiverSnap snap gen workers now then Some snap else None
      | None \<Rightarrow> None)"

definition build_locked ::
    "receiver_world \<Rightarrow> nat \<Rightarrow> time \<Rightarrow> string \<Rightarrow> int \<Rightarrow> hub \<times> receiver_cache \<Rightarrow> (hub \<times> receiver_cache) \<times> domainReceiverSnap" where
  "build_locked w workers now domainKey sourceGroupID st =
     (let (h, c) = st; gen = hub_receiverGen h
      in case cached_snap c domainKey gen workers now of
           Some snap \<Rightarrow> ((h, c\<lparr>rc_hits := rc_hits c + 1\<rparr>), snap)
         | None \<Rightarrow>
             let (h, snap) = buildDomainReceiverSnap w h sourceGroupID gen (int workers) now
             in ((h, c\<lparr>rc_snaps := fmupd domainKey snap (rc_snaps c)\<rparr>), snap))"

definition getDomainReceiverSnap ::
    "(hub \<times> receiver_cache \<Rightarrow> hub \<times> receiver_cache) \<Rightarrow> receiver_world \<Rightarrow> nat \<Rightarrow> time \<Rightarrow> hub \<times> receiver_cache \<Rightarrow> int \<Rightarrow>
     (hub \<times> receiver_cache) \<times> domainReceiverSnap" where
  "getDomainReceiverSnap other w workers now st sourceGroupID =
     (let (h, c) = st;
          (h, domainKey) = getHalfDuplexDomainKey h sourceGroupID;
          gen = hub_receiverGen h
      in if domainKey = [] then
           let (h, snap) = buildDomainReceiverSnap w h sourceGroupID gen (int workers) now in ((h, c), snap)
         else
           case cached_snap c domainKey gen workers now of
             Some snap \<Rightarrow> ((h, c\<lparr>rc_hits := rc_hits c + 1\<rparr>), snap)
           | None \<Rightarrow> build_locked w workers now domainKey sourceGroupID (other (h, c\<lparr>rc_misses := rc_misses c + 1\<rparr>)))"

definition clean_receiver_cache :: "u64 \<Rightarrow> time \<Rightarrow> receiver_cache \<Rightarrow> receiver_cache" where
  "clean_receiver_cache gen now c =
     c\<lparr>rc_snaps := fm_filter_out (\<lambda>_ snap. ds_gen snap \<noteq> gen \<or> 3 * domainReceiverTTL < time_sub now (ds_updatedAt snap)) (rc_snaps c)\<rparr>"

fun prewarmDomainReceiverSnapshots ::
    "receiver_world \<Rightarrow> u64 \<Rightarrow> nat \<Rightarrow> time \<Rightarrow> (string \<times> int list) list \<Rightarrow> hub \<times> receiver_cache \<Rightarrow> hub \<times> receiver_cache" where
  "prewarmDomainReceiverSnapshots w gen workers now [] st = st"
| "prewarmDomainReceiverSnapshots w gen workers now ((domainKey, groupIDs) # domains) (h, c) =
     prewarmDomainReceiverSnapshots w gen workers now domains
       (if groupIDs = [] \<or> fmlookup (rc_snaps c) domainKey = None then (h, c)
        else let (h, snap) = buildDomainReceiverSnap w h (hd groupIDs) gen (int workers) now
             in (h, c\<lparr>rc_snaps := fmupd domainKey snap (rc_snaps c)\<rparr>))"

subsection \<open>What a snapshot holds\<close>

lemma addDev_addrs: "dr_addr ` set (addDev gid es st) = dr_addr ` set es \<union> set_option (receiver_addr gid st)"
  by (auto simp: addDev_def receiver_entry_def split: option.splits)

lemma addDev_distinct: "distinct (map dr_addr es) \<Longrightarrow> distinct (map dr_addr (addDev gid es st))"
  by (auto simp: addDev_def receiver_entry_def split: option.splits)

lemma addDevs_addrs:
  "dr_addr ` set (foldl (addDev gid) es sts) = dr_addr ` set es \<union> {a. \<exists>st\<in>set sts. receiver_addr gid st = Some a}"
  by (induction sts arbitrary: es) (auto simp: addDev_addrs)

lemma addDevs_distinct: "distinct (map dr_addr es) \<Longrightarrow> distinct (map dr_addr (foldl (addDev gid) es sts))"
  by (induction sts arbitrary: es) (auto simp: addDev_distinct)

lemma domain_entries_from:
  "dr_addr ` set (foldl (\<lambda>entries gid. foldl (addDev gid) entries (group_candidates w gid)) es gids) =
     dr_addr ` set es \<union> {a. \<exists>gid\<in>set gids. \<exists>st\<in>set (group_candidates w gid). receiver_addr gid st = Some a}"
  "distinct (map dr_addr es) \<Longrightarrow>
   distinct (map dr_addr (foldl (\<lambda>entries gid. foldl (addDev gid) entries (group_candidates w gid)) es gids))"
  by (induction gids arbitrary: es) (auto simp: addDevs_addrs addDevs_distinct)

text \<open>Every entry stands for a device that may receive in a group of the domain.\<close>

lemma addDevs_sound:
  "e \<in> set (foldl (addDev gid) es sts) \<Longrightarrow> e \<in> set es \<or> (\<exists>st\<in>set sts. \<exists>a. receiver_addr gid st = Some a \<and> e = receiver_entry st a)"
proof (induction sts arbitrary: es)
  case (Cons st sts)
  then have "e \<in> set (addDev gid es st) \<or> (\<exists>st\<in>set sts. \<exists>a. receiver_addr gid st = Some a \<and> e = receiver_entry st a)" by simp
  then show ?case by (auto simp: addDev_def split: option.splits if_splits)
qed simp

lemma domain_entries_sound:
  "e \<in> set (foldl (\<lambda>entries gid. foldl (addDev gid) entries (group_candidates w gid)) es gids) \<Longrightarrow>
   e \<in> set es \<or> (\<exists>gid\<in>set gids. \<exists>st\<in>set (group_candidates w gid). \<exists>a. receiver_addr gid st = Some a \<and> e = receiver_entry st a)"
proof (induction gids arbitrary: es)
  case (Cons gid gids)
  then show ?case using addDevs_sound [of e gid es "group_candidates w gid"] by fastforce
qed simp

lemma shard_less: "0 < workers \<Longrightarrow> workers < 2 ^ 31 \<Longrightarrow> addrPortShard ap (int workers) < workers"
  by (auto simp: addrPortShard_def unat_mod unat_of_nat)

lemma split_step:
  assumes "0 < workers" "workers < 2 ^ 31"
  shows "length parts = workers \<Longrightarrow>
    length (foldl (\<lambda>parts e. let index = addrPortShard (dr_addr e) (int workers) in parts[index := parts ! index @ [e]]) parts es) = workers \<and>
    (\<forall>i<workers. foldl (\<lambda>parts e. let index = addrPortShard (dr_addr e) (int workers) in parts[index := parts ! index @ [e]]) parts es ! i =
       parts ! i @ filter (\<lambda>e. addrPortShard (dr_addr e) (int workers) = i) es)"
proof (induction es arbitrary: parts)
  case (Cons e es)
  show ?case using Cons.IH [of "parts[addrPortShard (dr_addr e) (int workers) := parts ! addrPortShard (dr_addr e) (int workers) @ [e]]"] Cons.prems
      shard_less [OF assms, of "dr_addr e"] by (simp add: Let_def nth_list_update)
qed simp

lemma split_entries_nth:
  assumes "0 < workers" "workers < 2 ^ 31"
  shows "length (split_entries es workers) = workers"
    and "i < workers \<Longrightarrow> split_entries es workers ! i = filter (\<lambda>e. addrPortShard (dr_addr e) (int workers) = i) es"
  using split_step [OF assms, of "replicate workers []" es] by (simp_all add: split_entries_def)

lemma count_list_upt: "k < n \<Longrightarrow> count_list [0..<n] k = 1"
  by (induction n) (auto simp: less_Suc_eq)

lemma concat_filter_mset:
  "\<forall>e\<in>set es. f e < n \<Longrightarrow> mset (concat (map (\<lambda>i. filter (\<lambda>e. f e = i) es) [0..<n])) = mset es"
proof (induction es)
  case (Cons e es)
  have "mset (concat (map (\<lambda>i. filter (\<lambda>x. f x = i) (e # es)) is)) =
      mset (concat (map (\<lambda>i. filter (\<lambda>x. f x = i) es) is)) + replicate_mset (count_list is (f e)) e" for "is"
    by (induction "is") auto
  moreover have "count_list [0..<n] (f e) = 1" using Cons.prems by (intro count_list_upt) simp
  ultimately show ?case using Cons by simp
qed simp

lemma split_entries_mset:
  assumes "0 < workers" "workers < 2 ^ 31"
  shows "mset (concat (split_entries es workers)) = mset es"
proof -
  have "split_entries es workers = map (\<lambda>i. filter (\<lambda>e. addrPortShard (dr_addr e) (int workers) = i) es) [0..<workers]"
    using split_entries_nth [OF assms] by (intro nth_equalityI) simp_all
  then show ?thesis using concat_filter_mset [of es "\<lambda>e. addrPortShard (dr_addr e) (int workers)" workers] shard_less [OF assms] by simp
qed

lemma buildSnap_fields:
  assumes "hub_settled h" "0 < workers" "workers < 2 ^ 31"
  shows "snd (buildDomainReceiverSnap w h g gen (int workers) now) =
    \<lparr>ds_entries = domain_entries w (domain_groups (hub_links h) g),
     ds_partitions = split_entries (domain_entries w (domain_groups (hub_links h) g)) workers,
     ds_workers = workers, ds_updatedAt = now, ds_gen = gen\<rparr>"
proof -
  have "domain_groups (hub_links h) g \<noteq> []" using self_in_domain [of g "hub_links h"] by auto
  then show ?thesis
    using getGroups(1) [OF hub_settled_ok [OF assms(1)], of g] assms(2)
    by (auto simp: buildDomainReceiverSnap_def Let_def split: prod.splits)
qed

text \<open>C15: Voice reaches exactly the receivers of the linked groups.  With a hub settled after the last
  change of the links and a positive number of writers (below 2 to the 31), the addresses of a snapshot for a group
  are those of the online devices and ghost sessions that may receive in some active group connected
  to it through the links; no address occurs twice, every entry describes such a device,
  and the writers' shares divide the entries among them without loss or repetition.\<close>

theorem snapshot_receivers_exact:
  assumes "hub_settled h" and "hub_links h = build_link_cache groups links" and "0 < workers" and "workers < 2 ^ 31"
    and "snap = snd (buildDomainReceiverSnap w h g gen (int workers) now)"
  shows "dr_addr ` set (ds_entries snap) =
      {a. \<exists>gid st. (linked groups links)\<^sup>*\<^sup>* g gid \<and> st \<in> set (group_candidates w gid) \<and> receiver_addr gid st = Some a} \<and>
    distinct (map dr_addr (ds_entries snap)) \<and>
    (\<forall>e\<in>set (ds_entries snap). \<exists>gid st. (linked groups links)\<^sup>*\<^sup>* g gid \<and> st \<in> set (group_candidates w gid) \<and>
       receiver_addr gid st = Some (dr_addr e) \<and> e = receiver_entry st (dr_addr e)) \<and>
    length (ds_partitions snap) = workers \<and> mset (concat (ds_partitions snap)) = mset (ds_entries snap)"
proof -
  have E: "set (domain_groups (hub_links h) g) = {g'. (linked groups links)\<^sup>*\<^sup>* g g'}"
    using rtranclp_rtrancl_eq [of "linked groups links"] by (auto simp: set_domain_groups assms(2) forwards_built)
  note snap = assms(5) [unfolded buildSnap_fields [OF assms(1,3,4)]]
  let ?es = "domain_entries w (domain_groups (hub_links h) g)"
  have addrs: "dr_addr ` set ?es = {a. \<exists>gid st. (linked groups links)\<^sup>*\<^sup>* g gid \<and> st \<in> set (group_candidates w gid) \<and> receiver_addr gid st = Some a}"
    using domain_entries_from(1) [of w "[]" "domain_groups (hub_links h) g"] unfolding domain_entries_def E by auto
  have sound: "\<exists>gid st. (linked groups links)\<^sup>*\<^sup>* g gid \<and> st \<in> set (group_candidates w gid) \<and>
       receiver_addr gid st = Some (dr_addr e) \<and> e = receiver_entry st (dr_addr e)" if "e \<in> set ?es" for e
    using domain_entries_sound [OF that [unfolded domain_entries_def]] unfolding E
    by (metis (no_types, lifting) domainReceiverEntry.select_convs(1) empty_iff empty_set mem_Collect_eq receiver_entry_def)
  have "distinct (map dr_addr ?es)" using domain_entries_from(2) [of "[]" w] by (simp add: domain_entries_def)
  then show ?thesis
    using addrs sound split_entries_nth(1) [OF assms(3,4)] split_entries_mset [OF assms(3,4)] by (simp add: snap)
qed

lemma domain_lookup_gen [simp]:
  "hub_receiverGen (fst (getHalfDuplexDomainKey h g)) = hub_receiverGen h"
  "hub_receiverGen (fst (GetHalfDuplexDomainGroupIDs h g)) = hub_receiverGen h"
  by (simp_all add: getHalfDuplexDomainKey_def GetHalfDuplexDomainGroupIDs_def store_domain_def Let_def split: option.splits)

lemma build_meta:
  "hub_receiverGen (fst (buildDomainReceiverSnap w h g gen (int workers) now)) = hub_receiverGen h"
  "ds_gen (snd (buildDomainReceiverSnap w h g gen (int workers) now)) = gen"
  "ds_updatedAt (snd (buildDomainReceiverSnap w h g gen (int workers) now)) = now"
  "0 < workers \<Longrightarrow> ds_workers (snd (buildDomainReceiverSnap w h g gen (int workers) now)) = workers"
  by (simp_all add: buildDomainReceiverSnap_def Let_def split_beta)

lemma cached_snap_valid: "cached_snap c key gen workers now = Some snap \<Longrightarrow>
    fmlookup (rc_snaps c) key = Some snap \<and> validDomainReceiverSnap snap gen workers now"
  by (auto simp: cached_snap_def split: option.splits if_splits)

definition current_snap :: "receiver_world \<Rightarrow> int \<Rightarrow> nat \<Rightarrow> time \<Rightarrow> string \<Rightarrow> hub \<times> receiver_cache \<Rightarrow> domainReceiverSnap \<Rightarrow> bool" where
  "current_snap w g workers now key st snap \<longleftrightarrow>
     ds_gen snap = hub_receiverGen (fst st) \<and> ds_workers snap = workers \<and> time_sub now (ds_updatedAt snap) < domainReceiverTTL \<and>
     ((\<exists>h1. snap = snd (buildDomainReceiverSnap w h1 g (hub_receiverGen h1) (int workers) now)) \<or>
      fmlookup (rc_snaps (snd st)) key = Some snap)"

lemma time_sub_refl [simp]: "time_sub now now = 0"
  by (simp add: time_sub_def)

lemma build_current:
  "0 < workers \<Longrightarrow> current_snap w g workers now key (fst (buildDomainReceiverSnap w h g (hub_receiverGen h) (int workers) now), c)
     (snd (buildDomainReceiverSnap w h g (hub_receiverGen h) (int workers) now))"
  unfolding current_snap_def by (auto simp: build_meta)

lemma hit_current:
  "cached_snap c key (hub_receiverGen h) workers now = Some snap \<Longrightarrow> current_snap w g workers now key (h, c\<lparr>rc_hits := n\<rparr>) snap"
  using cached_snap_valid [of c key "hub_receiverGen h" workers now snap] by (auto simp: current_snap_def validDomainReceiverSnap_def)

lemma build_locked_current:
  "0 < workers \<Longrightarrow> current_snap w g workers now key (fst (build_locked w workers now key g st)) (snd (build_locked w workers now key g st))"
  using build_current hit_current by (auto simp: build_locked_def Let_def split_beta split: option.splits)

text \<open>A cached snapshot is served only while it is current.  Whatever other goroutines do while the
  request waits for the build lock, the snapshot it gets carries the generation of the receivers
  at the moment it is handed out and the number of writers, is less than 30 seconds old, and if it
  does not come from the cache it has just been built from the present groups and devices.\<close>

theorem served_snapshot_current:
  assumes "getDomainReceiverSnap other w workers now (h, c) g = ((h', c'), snap)" and "0 < workers"
  shows "ds_gen snap = hub_receiverGen h' \<and> ds_workers snap = workers \<and> time_sub now (ds_updatedAt snap) < domainReceiverTTL \<and>
    ((\<exists>h1. snap = snd (buildDomainReceiverSnap w h1 g (hub_receiverGen h1) (int workers) now)) \<or>
     fmlookup (rc_snaps c') (snd (getHalfDuplexDomainKey h g)) = Some snap)"
proof -
  let ?key = "snd (getHalfDuplexDomainKey h g)"
  have "current_snap w g workers now ?key (fst (getDomainReceiverSnap other w workers now (h, c) g)) (snd (getDomainReceiverSnap other w workers now (h, c) g))"
    using build_current [OF assms(2)] hit_current build_locked_current [OF assms(2)]
    by (auto simp: getDomainReceiverSnap_def Let_def split_beta simp del: domain_lookup_gen split: option.splits)
  then show ?thesis by (simp add: assms(1) current_snap_def)
qed

subsection \<open>Examples\<close>

definition sample_receivers :: receiver_world where
  "sample_receivers = \<lparr>rw_groups = fmupd 1 \<lparr>rg_Status = 1, rg_ConnList = Some [\<lparr>rs_ID = 4, rs_Username = ''u'', rs_SSID = 5, rs_GroupID = 1,
     rs_ISOnline = True, rs_UDPAddr = Some \<lparr>addr_IP = [10, 0, 0, 1], addr_Port = 9000, addr_Zone = []\<rparr>, rs_DisableRecv = False,
     rs_GhostSessionID = [], rs_GhostRxGroupIDs = []\<rparr>]\<rparr> fmempty, rw_ghosts = \<lambda>_. []\<rparr>"

theorem snapshot_receivers_exact_witness:
  "\<lparr>ap_Addr = IP4 [10, 0, 0, 1], ap_Port = 9000\<rparr> \<in>
     dr_addr ` set (ds_entries (snd (buildDomainReceiverSnap sample_receivers sample_hub 1 0 (int 2) 0)))"
proof -
  have "dr_addr ` set (ds_entries (snd (buildDomainReceiverSnap sample_receivers sample_hub 1 0 (int 2) 0))) =
      {a. \<exists>gid st. (linked sample_groups sample_links)\<^sup>*\<^sup>* 1 gid \<and> st \<in> set (group_candidates sample_receivers gid) \<and> receiver_addr gid st = Some a}"
    using snapshot_receivers_exact [OF sample_hub_settled sample_hub_links, of 2 _ sample_receivers 1 0 0] by simp
  moreover have "receiver_addr 1 (hd (group_candidates sample_receivers 1)) = Some \<lparr>ap_Addr = IP4 [10, 0, 0, 1], ap_Port = 9000\<rparr> \<and>
      hd (group_candidates sample_receivers 1) \<in> set (group_candidates sample_receivers 1)"
    by (simp add: sample_receivers_def group_candidates_def receiver_addr_def CanReceiveRoute_def udpAddrPort_def AddrPort_def AddrFromSlice_def Let_def)
  ultimately show ?thesis by blast
qed

theorem served_snapshot_current_witness:
  "ds_gen (snd (getDomainReceiverSnap (\<lambda>(h, c). (h\<lparr>hub_receiverGen := 9\<rparr>, c)) sample_receivers 2 0
     (sample_hub, \<lparr>rc_snaps = fmempty, rc_hits = 0, rc_misses = 0\<rparr>) 1)) =
   hub_receiverGen (fst (fst (getDomainReceiverSnap (\<lambda>(h, c). (h\<lparr>hub_receiverGen := 9\<rparr>, c)) sample_receivers 2 0
     (sample_hub, \<lparr>rc_snaps = fmempty, rc_hits = 0, rc_misses = 0\<rparr>) 1)))"
  using served_snapshot_current [of _ sample_receivers 2 0 sample_hub _ 1]
  by (metis prod.collapse zero_less_numeral)

end
