(* ===== verification/Fanout_Sender.thy ===== *)
theory Fanout_Sender
  imports Domain_Receivers Draarl_Packet
begin

section \<open>Sending voice frames to many receivers (\<open>udphub/fanout_sender.go\<close>)\<close>

text \<open>
  Callers put frames into a bounded queue; a dispatcher hands each writer its share of the targets
  through bounded queues of their own; the writers send the datagrams.  A full queue gives up its
  oldest element.  All of them are goroutines, so the state holds the queues, what every goroutine
  is about to do and the counters, and an operation of \<open>fan_op\<close> is what a goroutine does up to its
  next access to something shared.  Statistics of one call are added in one step.

  A callback is a number and its calls are logged in \<open>fo_callbacks\<close>; a goroutine that has left the
  critical section of \<^verbatim>\<open>finishPartition\<close> and has not yet counted down is an element of
  \<open>fo_finish\<close>; \<open>fo_wire\<close> logs the datagrams.  \<open>fo_offered\<close> is a specification variable: the number of
  targets of all frames that were offered to the running sender.  Counters are natural numbers.
\<close>

record fanoutWriteResult =
  fw_attempted :: nat
  fw_sent :: nat
  fw_dropped :: nat
  fw_errors :: nat
  fw_noBuffer :: nat
  fw_wouldBlock :: nat
  fw_tooLarge :: nat

abbreviation zero_result :: fanoutWriteResult where
  "zero_result \<equiv> \<lparr>fw_attempted = 0, fw_sent = 0, fw_dropped = 0, fw_errors = 0, fw_noBuffer = 0, fw_wouldBlock = 0, fw_tooLarge = 0\<rparr>"

definition add_result :: "fanoutWriteResult \<Rightarrow> fanoutWriteResult \<Rightarrow> fanoutWriteResult" where
  "add_result a b =
     \<lparr>fw_attempted = fw_attempted a + fw_attempted b, fw_sent = fw_sent a + fw_sent b, fw_dropped = fw_dropped a + fw_dropped b,
      fw_errors = fw_errors a + fw_errors b, fw_noBuffer = fw_noBuffer a + fw_noBuffer b,
      fw_wouldBlock = fw_wouldBlock a + fw_wouldBlock b, fw_tooLarge = fw_tooLarge a + fw_tooLarge b\<rparr>"

record fanoutFrameJob =
  fj_data :: bytes
  fj_sourceGroupData :: bytes
  fj_partitions :: "domainReceiverEntry list list"
  fj_sourceID :: int
  fj_sourceUser :: string
  fj_sourceSSID :: byte
  fj_sourceSessionID :: string
  fj_enqueuedAt :: time
  fj_snapshotGen :: u64
  fj_validateGen :: bool
  fj_generation :: "nat option"
  fj_onComplete :: "nat option"
  fj_collect :: "nat option"

record fanoutWorkerJob =
  wj_frame :: fanoutFrameJob
  wj_targets :: "domainReceiverEntry list"

record fanoutCollector =
  fc_remaining :: nat
  fc_onComplete :: nat
  fc_result :: fanoutWriteResult

subsection \<open>Targets\<close>

definition isSourceTarget :: "domainReceiverEntry \<Rightarrow> int \<Rightarrow> string \<Rightarrow> byte \<Rightarrow> string \<Rightarrow> bool" where
  "isSourceTarget target sourceID sourceUser sourceSSID sourceSessionID \<longleftrightarrow>
     (if sourceSessionID \<noteq> [] then dr_sessionID target = sourceSessionID
      else if 0 < sourceID \<and> dr_deviceID target = sourceID then True
      else sourceUser \<noteq> [] \<and> dr_username target = sourceUser \<and> dr_ssid target = sourceSSID)"

abbreviation is_source :: "fanoutFrameJob \<Rightarrow> domainReceiverEntry \<Rightarrow> bool" where
  "is_source f target \<equiv> isSourceTarget target (fj_sourceID f) (fj_sourceUser f) (fj_sourceSSID f) (fj_sourceSessionID f)"

definition countPartitionTargets :: "fanoutFrameJob \<Rightarrow> domainReceiverEntry list \<Rightarrow> nat" where
  "countPartitionTargets f targets = length (filter (\<lambda>t. \<not> is_source f t) targets)"

definition partitionHasTarget :: "fanoutFrameJob \<Rightarrow> domainReceiverEntry list \<Rightarrow> bool" where
  "partitionHasTarget f targets = list_ex (\<lambda>t. \<not> is_source f t) targets"

definition countFrameTargets :: "fanoutFrameJob \<Rightarrow> nat" where
  "countFrameTargets f = sum_list (map (countPartitionTargets f) (fj_partitions f))"

definition target_payload :: "fanoutFrameJob \<Rightarrow> domainReceiverEntry \<Rightarrow> bytes" where
  "target_payload f target =
     (if dr_sourceGroupV1 target \<and> 0 < length (fj_sourceGroupData f) then fj_sourceGroupData f else fj_data f)"

subsection \<open>State\<close>

datatype enq_state = EnqFull fanoutFrameJob | EnqRetry fanoutFrameJob "fanoutFrameJob option" | EnqDone

datatype disp_state =
    DispIdle
  | DispParts fanoutFrameJob "(nat \<times> domainReceiverEntry list) list"
  | DispFull fanoutFrameJob "(nat \<times> domainReceiverEntry list) list" nat fanoutWorkerJob
  | DispRetry fanoutFrameJob "(nat \<times> domainReceiverEntry list) list" nat fanoutWorkerJob fanoutWorkerJob

datatype worker_state = WorkerIdle | WorkerBusy fanoutWorkerJob "domainReceiverEntry list" fanoutWriteResult

datatype write_outcome = Written | ENOBUFS | EAGAIN | EMSGSIZE | WriteFailed

record fanout =
  fo_queueSize :: nat
  fo_writerBuffer :: nat
  fo_maxFrameAge :: duration
  fo_running :: bool
  fo_frames :: "fanoutFrameJob list"
  fo_enq :: "enq_state list"
  fo_disp :: disp_state
  fo_queues :: "fanoutWorkerJob list list"
  fo_workers :: "worker_state list"
  fo_collectors :: "fanoutCollector list"
  fo_finish :: "(nat \<times> fanoutWriteResult) list"
  fo_callbacks :: "(nat option \<times> nat \<times> fanoutWriteResult) list"
  fo_result :: fanoutWriteResult
  fo_framesAccepted :: nat
  fo_framesSent :: nat
  fo_framesDropped :: nat
  fo_framesStale :: nat
  fo_writerEvictions :: nat
  fo_generations :: "nat \<Rightarrow> u64"
  fo_receiverGen :: u64
  fo_wire :: "(fanoutFrameJob \<times> domainReceiverEntry \<times> bytes) list"
  fo_offered :: nat

definition writer_queue_buffer :: "nat \<Rightarrow> nat \<Rightarrow> nat" where
  "writer_queue_buffer queueSize workers = min 256 (max 2 (queueSize div workers))"

definition newFanoutSenderWithMaxAge :: "nat \<Rightarrow> int \<Rightarrow> int \<Rightarrow> duration \<Rightarrow> fanout" where
  "newFanoutSenderWithMaxAge opened workers queueSize maxFrameAge =
     (let workers = (if workers < 1 then 1 else nat workers);
          queueSize = (if queueSize < 1 then 1 else nat queueSize);
          writers = min opened workers
      in \<lparr>fo_queueSize = queueSize, fo_writerBuffer = writer_queue_buffer queueSize workers, fo_maxFrameAge = maxFrameAge,
          fo_running = (writers \<noteq> 0), fo_frames = [], fo_enq = [], fo_disp = DispIdle, fo_queues = replicate writers [],
          fo_workers = replicate writers WorkerIdle, fo_collectors = [], fo_finish = [], fo_callbacks = [], fo_result = zero_result,
          fo_framesAccepted = 0, fo_framesSent = 0, fo_framesDropped = 0, fo_framesStale = 0, fo_writerEvictions = 0,
          fo_generations = \<lambda>_. 0, fo_receiverGen = 0, fo_wire = [], fo_offered = 0\<rparr>)"

subsection \<open>Results and completion\<close>

definition addWriteResult :: "fanoutWriteResult \<Rightarrow> fanout \<Rightarrow> fanout" where
  "addWriteResult result s = s\<lparr>fo_result := add_result (fo_result s) result\<rparr>"

abbreviation dropped_result :: "nat \<Rightarrow> fanoutWriteResult" where
  "dropped_result n \<equiv> zero_result\<lparr>fw_dropped := n\<rparr>"

definition call_back :: "nat option \<Rightarrow> fanoutWriteResult \<Rightarrow> fanout \<Rightarrow> fanout" where
  "call_back onComplete result s =
     (case onComplete of None \<Rightarrow> s | Some cb \<Rightarrow> s\<lparr>fo_callbacks := fo_callbacks s @ [(None, cb, result)]\<rparr>)"

text \<open>\<^verbatim>\<open>finishPartition\<close>: the part under the collector's lock, and the countdown after it.\<close>

definition finish_add :: "nat option \<Rightarrow> fanoutWriteResult \<Rightarrow> fanout \<Rightarrow> fanout" where
  "finish_add collect result s =
     (case collect of
        None \<Rightarrow> s
      | Some c \<Rightarrow>
          let total = add_result (fc_result (fo_collectors s ! c)) result
          in s\<lparr>fo_collectors := (fo_collectors s)[c := (fo_collectors s ! c)\<lparr>fc_result := total\<rparr>],
               fo_finish := fo_finish s @ [(c, total)]\<rparr>)"

definition finish_count :: "nat \<Rightarrow> fanout \<Rightarrow> fanout" where
  "finish_count k s =
     (if k < length (fo_finish s) then
        let (c, total) = fo_finish s ! k;
            remaining = fc_remaining (fo_collectors s ! c) - 1;
            s = s\<lparr>fo_finish := take k (fo_finish s) @ drop (Suc k) (fo_finish s),
                  fo_collectors := (fo_collectors s)[c := (fo_collectors s ! c)\<lparr>fc_remaining := remaining\<rparr>]\<rparr>
        in if remaining = 0
           then s\<lparr>fo_callbacks := fo_callbacks s @ [(Some c, fc_onComplete (fo_collectors s ! c), total)]\<rparr>
           else s
      else s)"

subsection \<open>Admission of frames\<close>

definition enqueue_first :: "fanoutFrameJob \<Rightarrow> fanout \<Rightarrow> fanout" where
  "enqueue_first job s =
     (if fj_data job = [] \<or> fj_partitions job = [] then s
      else if \<not> fo_running s \<or> fo_queues s = [] then s
      else
        let s = s\<lparr>fo_offered := fo_offered s + countFrameTargets job\<rparr>
        in if length (fo_frames s) < fo_queueSize s
           then s\<lparr>fo_frames := fo_frames s @ [job], fo_framesAccepted := fo_framesAccepted s + 1\<rparr>
           else s\<lparr>fo_enq := fo_enq s @ [EnqFull job]\<rparr>)"

definition enqueue_evict :: "nat \<Rightarrow> fanout \<Rightarrow> fanout" where
  "enqueue_evict i s =
     (if i < length (fo_enq s) then
        case fo_enq s ! i of
          EnqFull job \<Rightarrow>
            (case fo_frames s of
               [] \<Rightarrow> s\<lparr>fo_enq := (fo_enq s)[i := EnqRetry job None]\<rparr>
             | old # frames \<Rightarrow> s\<lparr>fo_frames := frames, fo_enq := (fo_enq s)[i := EnqRetry job (Some old)]\<rparr>)
        | _ \<Rightarrow> s
      else s)"

definition account_evicted :: "fanoutFrameJob option \<Rightarrow> fanout \<Rightarrow> fanout" where
  "account_evicted evicted s =
     (case evicted of
        None \<Rightarrow> s
      | Some old \<Rightarrow>
          let dropped = countFrameTargets old
          in call_back (fj_onComplete old) (dropped_result dropped)
               (addWriteResult (dropped_result dropped) (s\<lparr>fo_framesDropped := fo_framesDropped s + 1\<rparr>)))"

definition enqueue_second :: "nat \<Rightarrow> fanout \<Rightarrow> fanout" where
  "enqueue_second i s =
     (if i < length (fo_enq s) then
        case fo_enq s ! i of
          EnqRetry job evicted \<Rightarrow>
            let s = s\<lparr>fo_enq := (fo_enq s)[i := EnqDone]\<rparr>
            in if length (fo_frames s) < fo_queueSize s
               then account_evicted evicted
                      (s\<lparr>fo_frames := fo_frames s @ [job], fo_framesAccepted := fo_framesAccepted s + 1\<rparr>)
               else account_evicted evicted
                      (addWriteResult (dropped_result (countFrameTargets job))
                        (s\<lparr>fo_framesDropped := fo_framesDropped s + 1\<rparr>))
        | _ \<Rightarrow> s
      else s)"

definition source_group_data :: "bytes \<Rightarrow> domainReceiverSnap \<Rightarrow> int \<Rightarrow> bytes" where
  "source_group_data data snap sourceGroupID =
     (if list_ex dr_sourceGroupV1 (ds_entries snap)
      then (case WithSourceGroupID data sourceGroupID of Some d \<Rightarrow> d | None \<Rightarrow> []) else [])"

definition enqueueDomainFrame ::
    "time \<Rightarrow> bytes \<Rightarrow> domainReceiverSnap \<Rightarrow> int \<Rightarrow> string \<Rightarrow> byte \<Rightarrow> string \<Rightarrow> int \<Rightarrow> fanout \<Rightarrow> fanout" where
  "enqueueDomainFrame now data snap sourceID sourceUser sourceSSID sourceSessionID sourceGroupID s =
     (if data = [] \<or> ds_entries snap = [] \<or> ds_workers snap \<noteq> length (fo_queues s) then s
      else enqueue_first
        \<lparr>fj_data = data, fj_sourceGroupData = source_group_data data snap sourceGroupID, fj_partitions = ds_partitions snap,
         fj_sourceID = sourceID, fj_sourceUser = sourceUser, fj_sourceSSID = sourceSSID, fj_sourceSessionID = sourceSessionID,
         fj_enqueuedAt = now, fj_snapshotGen = ds_gen snap, fj_validateGen = True, fj_generation = None,
         fj_onComplete = None, fj_collect = None\<rparr> s)"

definition enqueueFixedDomainFrame :: "time \<Rightarrow> bytes \<Rightarrow> domainReceiverSnap \<Rightarrow> int \<Rightarrow> nat \<Rightarrow> nat option \<Rightarrow> fanout \<Rightarrow> fanout" where
  "enqueueFixedDomainFrame now data snap sourceGroupID generation onComplete s =
     (if data = [] \<or> ds_entries snap = [] \<or> ds_workers snap \<noteq> length (fo_queues s) then s
      else enqueue_first
        \<lparr>fj_data = data, fj_sourceGroupData = source_group_data data snap sourceGroupID, fj_partitions = ds_partitions snap,
         fj_sourceID = 0, fj_sourceUser = [], fj_sourceSSID = 0, fj_sourceSessionID = [],
         fj_enqueuedAt = now, fj_snapshotGen = fo_generations s generation, fj_validateGen = False, fj_generation = Some generation,
         fj_onComplete = onComplete, fj_collect = None\<rparr> s)"

definition fanout_stop :: "fanout \<Rightarrow> fanout" where
  "fanout_stop s = s\<lparr>fo_running := False\<rparr>"

subsection \<open>The dispatcher\<close>

definition frameExpired :: "fanout \<Rightarrow> time \<Rightarrow> fanoutFrameJob \<Rightarrow> bool" where
  "frameExpired s now f \<longleftrightarrow> 0 < fo_maxFrameAge s \<and> fo_maxFrameAge s < time_sub now (fj_enqueuedAt f)"

definition frame_stale :: "fanout \<Rightarrow> time \<Rightarrow> fanoutFrameJob \<Rightarrow> bool" where
  "frame_stale s now f \<longleftrightarrow>
     frameExpired s now f \<or> (case fj_generation f of None \<Rightarrow> False | Some g \<Rightarrow> fj_snapshotGen f \<noteq> fo_generations s g) \<or>
     (fj_validateGen f \<and> fj_snapshotGen f \<noteq> fo_receiverGen s)"

definition planned_partitions :: "fanout \<Rightarrow> fanoutFrameJob \<Rightarrow> nat" where
  "planned_partitions s f =
     length (filter (\<lambda>(index, targets). index < length (fo_queues s) \<and> partitionHasTarget f targets)
       (List.enumerate 0 (fj_partitions f)))"

definition dispatch_take :: "time \<Rightarrow> fanout \<Rightarrow> fanout" where
  "dispatch_take now s =
     (case (fo_disp s, fo_frames s) of
        (DispIdle, frame # frames) \<Rightarrow>
          let s = s\<lparr>fo_frames := frames\<rparr>
          in if frame_stale s now frame then
               let dropped = countFrameTargets frame
               in call_back (fj_onComplete frame) (dropped_result dropped)
                    (addWriteResult (dropped_result dropped)
                      (s\<lparr>fo_framesStale := fo_framesStale s + 1, fo_framesDropped := fo_framesDropped s + 1\<rparr>))
             else (case fj_onComplete frame of
                     None \<Rightarrow> s\<lparr>fo_disp := DispParts frame (List.enumerate 0 (fj_partitions frame))\<rparr>
                   | Some cb \<Rightarrow>
                       if planned_partitions s frame = 0
                       then call_back (Some cb) zero_result (s\<lparr>fo_framesSent := fo_framesSent s + 1\<rparr>)
                       else
                         let collect = length (fo_collectors s)
                         in s\<lparr>fo_collectors := fo_collectors s @
                                [\<lparr>fc_remaining = planned_partitions s frame, fc_onComplete = cb, fc_result = zero_result\<rparr>],
                              fo_disp := DispParts (frame\<lparr>fj_collect := Some collect\<rparr>) (List.enumerate 0 (fj_partitions frame))\<rparr>)
      | _ \<Rightarrow> s)"

definition reject_job :: "fanoutWorkerJob \<Rightarrow> fanout \<Rightarrow> fanout" where
  "reject_job job s =
     (let dropped = countPartitionTargets (wj_frame job) (wj_targets job)
      in finish_add (fj_collect (wj_frame job)) (dropped_result dropped) (addWriteResult (dropped_result dropped) s))"

definition dropWorkerJob :: "fanoutWorkerJob \<Rightarrow> fanout \<Rightarrow> fanout" where
  "dropWorkerJob job s =
     (let dropped = countPartitionTargets (wj_frame job) (wj_targets job);
          s = addWriteResult (dropped_result dropped) s
      in finish_add (fj_collect (wj_frame job)) (dropped_result dropped) (s\<lparr>fo_writerEvictions := fo_writerEvictions s + 1\<rparr>))"

definition push_job :: "nat \<Rightarrow> fanoutWorkerJob \<Rightarrow> fanout \<Rightarrow> fanout" where
  "push_job i job s = s\<lparr>fo_queues := (fo_queues s)[i := fo_queues s ! i @ [job]]\<rparr>"

definition dispatch_part :: "fanout \<Rightarrow> fanout" where
  "dispatch_part s =
     (case fo_disp s of
        DispParts frame [] \<Rightarrow> s\<lparr>fo_disp := DispIdle, fo_framesSent := fo_framesSent s + 1\<rparr>
      | DispParts frame ((index, targets) # rest) \<Rightarrow>
          if length (fo_queues s) \<le> index \<or> \<not> partitionHasTarget frame targets then s\<lparr>fo_disp := DispParts frame rest\<rparr>
          else
            let job = \<lparr>wj_frame = frame, wj_targets = targets\<rparr>
            in if length (fo_queues s ! index) < fo_writerBuffer s
               then push_job index job (s\<lparr>fo_disp := DispParts frame rest\<rparr>)
               else s\<lparr>fo_disp := DispFull frame rest index job\<rparr>
      | _ \<Rightarrow> s)"

definition dispatch_evict :: "fanout \<Rightarrow> fanout" where
  "dispatch_evict s =
     (case fo_disp s of
        DispFull frame rest index job \<Rightarrow>
          (case fo_queues s ! index of
             [] \<Rightarrow> reject_job job (s\<lparr>fo_disp := DispParts frame rest\<rparr>)
           | old # jobs \<Rightarrow> s\<lparr>fo_queues := (fo_queues s)[index := jobs], fo_disp := DispRetry frame rest index job old\<rparr>)
      | _ \<Rightarrow> s)"

definition dispatch_second :: "fanout \<Rightarrow> fanout" where
  "dispatch_second s =
     (case fo_disp s of
        DispRetry frame rest index job old \<Rightarrow>
          let s = s\<lparr>fo_disp := DispParts frame rest\<rparr>
          in if length (fo_queues s ! index) < fo_writerBuffer s then dropWorkerJob old (push_job index job s)
             else reject_job job (dropWorkerJob old s)
      | _ \<Rightarrow> s)"

subsection \<open>The writers\<close>

definition worker_take :: "nat \<Rightarrow> fanout \<Rightarrow> fanout" where
  "worker_take i s =
     (if i < length (fo_workers s) \<and> fo_workers s ! i = WorkerIdle then
        case fo_queues s ! i of
          [] \<Rightarrow> s
        | job # jobs \<Rightarrow>
            s\<lparr>fo_queues := (fo_queues s)[i := jobs], fo_workers := (fo_workers s)[i := WorkerBusy job (wj_targets job) zero_result]\<rparr>
      else s)"

definition count_outcome :: "write_outcome \<Rightarrow> fanoutWriteResult \<Rightarrow> fanoutWriteResult" where
  "count_outcome outcome r =
     (let r = r\<lparr>fw_attempted := fw_attempted r + 1\<rparr>
      in case outcome of
           Written \<Rightarrow> r\<lparr>fw_sent := fw_sent r + 1\<rparr>
         | ENOBUFS \<Rightarrow> r\<lparr>fw_errors := fw_errors r + 1, fw_noBuffer := fw_noBuffer r + 1\<rparr>
         | EAGAIN \<Rightarrow> r\<lparr>fw_errors := fw_errors r + 1, fw_wouldBlock := fw_wouldBlock r + 1\<rparr>
         | EMSGSIZE \<Rightarrow> r\<lparr>fw_errors := fw_errors r + 1, fw_tooLarge := fw_tooLarge r + 1\<rparr>
         | WriteFailed \<Rightarrow> r\<lparr>fw_errors := fw_errors r + 1\<rparr>)"

definition worker_write :: "nat \<Rightarrow> write_outcome \<Rightarrow> fanout \<Rightarrow> fanout" where
  "worker_write i outcome s =
     (if i < length (fo_workers s) then
        case fo_workers s ! i of
          WorkerBusy job (target # targets) result \<Rightarrow>
            if is_source (wj_frame job) target then s\<lparr>fo_workers := (fo_workers s)[i := WorkerBusy job targets result]\<rparr>
            else
              s\<lparr>fo_workers := (fo_workers s)[i := WorkerBusy job targets (count_outcome outcome result)],
                fo_wire := fo_wire s @ [(wj_frame job, target, target_payload (wj_frame job) target)]\<rparr>
        | WorkerBusy job [] result \<Rightarrow>
            finish_add (fj_collect (wj_frame job)) result
              (addWriteResult result (s\<lparr>fo_workers := (fo_workers s)[i := WorkerIdle]\<rparr>))
        | WorkerIdle \<Rightarrow> s
      else s)"

subsection \<open>Interleavings\<close>

datatype fan_op =
    Voice time bytes domainReceiverSnap int string byte string int
  | Broadcast time bytes domainReceiverSnap int nat "nat option"
  | EnqueueEvict nat
  | EnqueueSecond nat
  | DispatchTake time
  | DispatchPart
  | DispatchEvict
  | DispatchSecond
  | WorkerTake nat
  | WorkerWrite nat write_outcome
  | FinishCount nat
  | StopSender
  | SetGeneration nat u64
  | SetReceiverGen u64

fun fan_exec :: "fan_op \<Rightarrow> fanout \<Rightarrow> fanout" where
  "fan_exec (Voice now data snap sid su ss sess gid) s = enqueueDomainFrame now data snap sid su ss sess gid s"
| "fan_exec (Broadcast now data snap gid gen cb) s = enqueueFixedDomainFrame now data snap gid gen cb s"
| "fan_exec (EnqueueEvict i) s = enqueue_evict i s"
| "fan_exec (EnqueueSecond i) s = enqueue_second i s"
| "fan_exec (DispatchTake now) s = dispatch_take now s"
| "fan_exec DispatchPart s = dispatch_part s"
| "fan_exec DispatchEvict s = dispatch_evict s"
| "fan_exec DispatchSecond s = dispatch_second s"
| "fan_exec (WorkerTake i) s = worker_take i s"
| "fan_exec (WorkerWrite i outcome) s = worker_write i outcome s"
| "fan_exec (FinishCount k) s = finish_count k s"
| "fan_exec StopSender s = fanout_stop s"
| "fan_exec (SetGeneration g v) s = s\<lparr>fo_generations := (fo_generations s)(g := v)\<rparr>"
| "fan_exec (SetReceiverGen v) s = s\<lparr>fo_receiverGen := v\<rparr>"

text \<open>The snapshots handed to the sender have one share per writer they were built for.\<close>

definition op_ok :: "fan_op \<Rightarrow> bool" where
  "op_ok op \<longleftrightarrow>
     (case op of
        Voice now data snap _ _ _ _ _ \<Rightarrow> length (ds_partitions snap) = ds_workers snap
      | Broadcast now data snap _ _ _ \<Rightarrow> length (ds_partitions snap) = ds_workers snap
      | _ \<Rightarrow> True)"

inductive fan_reachable :: "fanout \<Rightarrow> bool" where
  start: "fan_reachable (newFanoutSenderWithMaxAge opened workers queueSize maxFrameAge)"
| step: "fan_reachable s \<Longrightarrow> op_ok op \<Longrightarrow> fan_reachable (fan_exec op s)"

subsection \<open>Targets in flight\<close>

abbreviation job_targets :: "fanoutWorkerJob \<Rightarrow> nat" where
  "job_targets job \<equiv> countPartitionTargets (wj_frame job) (wj_targets job)"

fun enq_targets :: "enq_state \<Rightarrow> nat" where
  "enq_targets (EnqFull f) = countFrameTargets f"
| "enq_targets (EnqRetry f evicted) = countFrameTargets f + (case evicted of None \<Rightarrow> 0 | Some old \<Rightarrow> countFrameTargets old)"
| "enq_targets EnqDone = 0"

abbreviation parts_targets :: "fanoutFrameJob \<Rightarrow> (nat \<times> domainReceiverEntry list) list \<Rightarrow> nat" where
  "parts_targets f rest \<equiv> sum_list (map (\<lambda>(index, targets). countPartitionTargets f targets) rest)"

fun disp_targets :: "disp_state \<Rightarrow> nat" where
  "disp_targets DispIdle = 0"
| "disp_targets (DispParts f rest) = parts_targets f rest"
| "disp_targets (DispFull f rest index job) = job_targets job + parts_targets f rest"
| "disp_targets (DispRetry f rest index job old) = job_targets job + job_targets old + parts_targets f rest"

fun worker_targets :: "worker_state \<Rightarrow> nat" where
  "worker_targets WorkerIdle = 0"
| "worker_targets (WorkerBusy job rest result) = fw_attempted result + countPartitionTargets (wj_frame job) rest"

definition in_flight :: "fanout \<Rightarrow> nat" where
  "in_flight s =
     sum_list (map countFrameTargets (fo_frames s)) + sum_list (map enq_targets (fo_enq s)) + disp_targets (fo_disp s) +
     sum_list (map (\<lambda>q. sum_list (map job_targets q)) (fo_queues s)) + sum_list (map worker_targets (fo_workers s))"

definition conserved :: "fanout \<Rightarrow> bool" where
  "conserved s \<longleftrightarrow> fo_offered s = fw_attempted (fo_result s) + fw_dropped (fo_result s) + in_flight s"

definition balanced :: "fanoutWriteResult \<Rightarrow> bool" where
  "balanced r \<longleftrightarrow> fw_attempted r = fw_sent r + fw_errors r"

fun worker_ok :: "worker_state \<Rightarrow> bool" where
  "worker_ok WorkerIdle = True"
| "worker_ok (WorkerBusy job rest result) = (balanced result \<and> fw_dropped result = 0)"

fun disp_ok :: "nat \<Rightarrow> disp_state \<Rightarrow> bool" where
  "disp_ok n DispIdle = True"
| "disp_ok n (DispParts f rest) = (\<forall>(index, targets)\<in>set rest. index < n)"
| "disp_ok n (DispFull f rest index job) = (index < n \<and> (\<forall>(index, targets)\<in>set rest. index < n))"
| "disp_ok n (DispRetry f rest index job old) = (index < n \<and> (\<forall>(index, targets)\<in>set rest. index < n))"

fun enq_frames :: "enq_state \<Rightarrow> fanoutFrameJob set" where
  "enq_frames (EnqFull f) = {f}"
| "enq_frames (EnqRetry f evicted) = insert f (set_option evicted)"
| "enq_frames EnqDone = {}"

definition fan_shape :: "fanout \<Rightarrow> bool" where
  "fan_shape s \<longleftrightarrow>
     length (fo_workers s) = length (fo_queues s) \<and> disp_ok (length (fo_queues s)) (fo_disp s) \<and>
     (\<forall>f\<in>set (fo_frames s) \<union> \<Union> (enq_frames ` set (fo_enq s)). length (fj_partitions f) = length (fo_queues s)) \<and>
     list_all worker_ok (fo_workers s) \<and> balanced (fo_result s) \<and>
     length (fo_frames s) \<le> fo_queueSize s \<and> list_all (\<lambda>q. length q \<le> fo_writerBuffer s) (fo_queues s)"

lemma sum_map_update:
  "i < length xs \<Longrightarrow> sum_list (map g (xs[i := x])) = sum_list (map g xs) + g x - (g (xs ! i) :: nat)"
  by (simp add: map_update sum_list_update)

lemma sum_map_ge: "i < length xs \<Longrightarrow> (g (xs ! i) :: nat) \<le> sum_list (map g xs)"
  using elem_le_sum_list [of i "map g xs"] by simp

lemma countPartitionTargets_collect [simp]: "countPartitionTargets (f\<lparr>fj_collect := c\<rparr>) = countPartitionTargets f"
  by (simp add: countPartitionTargets_def fun_eq_iff)

lemma no_target_count: "\<not> partitionHasTarget f ts \<Longrightarrow> countPartitionTargets f ts = 0"
  by (auto simp: partitionHasTarget_def countPartitionTargets_def list_ex_iff filter_empty_conv)

lemma map_enumerate_snd: "map (\<lambda>(i, t). g t) (List.enumerate n ts) = map g ts"
  by (induction ts arbitrary: n) auto

lemma enumerate_bound: "(i, t) \<in> set (List.enumerate 0 ts) \<Longrightarrow> i < length ts"
  by (auto simp: in_set_enumerate_eq)

lemma planned_zero:
  assumes "planned_partitions s f = 0" "length (fj_partitions f) = length (fo_queues s)"
  shows "countFrameTargets f = 0"
proof -
  have "\<not> partitionHasTarget f t" if t: "t \<in> set (fj_partitions f)" for t
  proof -
    obtain i where "i < length (fj_partitions f)" "fj_partitions f ! i = t" using t by (metis in_set_conv_nth)
    then have "(i, t) \<in> set (List.enumerate 0 (fj_partitions f))" by (auto simp: in_set_enumerate_eq)
    then show ?thesis using assms \<open>i < _\<close> by (fastforce simp: planned_partitions_def filter_empty_conv)
  qed
  then show ?thesis by (simp add: countFrameTargets_def no_target_count)
qed

text \<open>Accounting touches neither the queues nor the goroutines.\<close>

lemma call_back_fields [simp]:
  "fo_queueSize (call_back cb r s) = fo_queueSize s"
  "fo_writerBuffer (call_back cb r s) = fo_writerBuffer s"
  "fo_frames (call_back cb r s) = fo_frames s"
  "fo_enq (call_back cb r s) = fo_enq s"
  "fo_disp (call_back cb r s) = fo_disp s"
  "fo_queues (call_back cb r s) = fo_queues s"
  "fo_workers (call_back cb r s) = fo_workers s"
  "fo_offered (call_back cb r s) = fo_offered s"
  "fo_result (call_back cb r s) = fo_result s"
  by (simp_all add: call_back_def split: option.split)

lemma finish_add_fields [simp]:
  "fo_queueSize (finish_add c r s) = fo_queueSize s"
  "fo_writerBuffer (finish_add c r s) = fo_writerBuffer s"
  "fo_frames (finish_add c r s) = fo_frames s"
  "fo_enq (finish_add c r s) = fo_enq s"
  "fo_disp (finish_add c r s) = fo_disp s"
  "fo_queues (finish_add c r s) = fo_queues s"
  "fo_workers (finish_add c r s) = fo_workers s"
  "fo_offered (finish_add c r s) = fo_offered s"
  "fo_result (finish_add c r s) = fo_result s"
  by (simp_all add: finish_add_def Let_def split: option.split)

lemma addWriteResult_fields [simp]:
  "fo_queueSize (addWriteResult r s) = fo_queueSize s"
  "fo_writerBuffer (addWriteResult r s) = fo_writerBuffer s"
  "fo_frames (addWriteResult r s) = fo_frames s"
  "fo_enq (addWriteResult r s) = fo_enq s"
  "fo_disp (addWriteResult r s) = fo_disp s"
  "fo_queues (addWriteResult r s) = fo_queues s"
  "fo_workers (addWriteResult r s) = fo_workers s"
  "fo_offered (addWriteResult r s) = fo_offered s"
  "fo_result (addWriteResult r s) = add_result (fo_result s) r"
  by (simp_all add: addWriteResult_def)

lemma account_evicted_fields [simp]:
  "fo_queueSize (account_evicted ev s) = fo_queueSize s"
  "fo_writerBuffer (account_evicted ev s) = fo_writerBuffer s"
  "fo_frames (account_evicted ev s) = fo_frames s"
  "fo_enq (account_evicted ev s) = fo_enq s"
  "fo_disp (account_evicted ev s) = fo_disp s"
  "fo_queues (account_evicted ev s) = fo_queues s"
  "fo_workers (account_evicted ev s) = fo_workers s"
  "fo_offered (account_evicted ev s) = fo_offered s"
  "fo_result (account_evicted ev s) = (case ev of None \<Rightarrow> fo_result s | Some old \<Rightarrow> add_result (fo_result s) (dropped_result (countFrameTargets old)))"
  by (simp_all add: account_evicted_def Let_def split: option.split)

lemma reject_job_fields [simp]:
  "fo_queueSize (reject_job job s) = fo_queueSize s"
  "fo_writerBuffer (reject_job job s) = fo_writerBuffer s"
  "fo_frames (reject_job job s) = fo_frames s"
  "fo_enq (reject_job job s) = fo_enq s"
  "fo_disp (reject_job job s) = fo_disp s"
  "fo_queues (reject_job job s) = fo_queues s"
  "fo_workers (reject_job job s) = fo_workers s"
  "fo_offered (reject_job job s) = fo_offered s"
  "fo_result (reject_job job s) = add_result (fo_result s) (dropped_result (job_targets job))"
  by (simp_all add: reject_job_def Let_def)

lemma dropWorkerJob_fields [simp]:
  "fo_queueSize (dropWorkerJob job s) = fo_queueSize s"
  "fo_writerBuffer (dropWorkerJob job s) = fo_writerBuffer s"
  "fo_frames (dropWorkerJob job s) = fo_frames s"
  "fo_enq (dropWorkerJob job s) = fo_enq s"
  "fo_disp (dropWorkerJob job s) = fo_disp s"
  "fo_queues (dropWorkerJob job s) = fo_queues s"
  "fo_workers (dropWorkerJob job s) = fo_workers s"
  "fo_offered (dropWorkerJob job s) = fo_offered s"
  "fo_result (dropWorkerJob job s) = add_result (fo_result s) (dropped_result (job_targets job))"
  by (simp_all add: dropWorkerJob_def Let_def)

lemma push_job_fields [simp]:
  "fo_queueSize (push_job i job s) = fo_queueSize s" "fo_writerBuffer (push_job i job s) = fo_writerBuffer s"
  "fo_frames (push_job i job s) = fo_frames s" "fo_enq (push_job i job s) = fo_enq s" "fo_disp (push_job i job s) = fo_disp s"
  "fo_queues (push_job i job s) = (fo_queues s)[i := fo_queues s ! i @ [job]]" "fo_workers (push_job i job s) = fo_workers s"
  "fo_offered (push_job i job s) = fo_offered s" "fo_result (push_job i job s) = fo_result s"
  by (simp_all add: push_job_def)

lemma add_result_fields [simp]:
  "fw_attempted (add_result a b) = fw_attempted a + fw_attempted b" "fw_dropped (add_result a b) = fw_dropped a + fw_dropped b"
  "balanced a \<Longrightarrow> balanced b \<Longrightarrow> balanced (add_result a b)" "balanced (dropped_result n)"
  by (simp_all add: add_result_def balanced_def)

lemma balanced_dropped [simp]:
  "balanced (add_result a \<lparr>fw_attempted = 0, fw_sent = 0, fw_dropped = n, fw_errors = 0, fw_noBuffer = 0, fw_wouldBlock = 0, fw_tooLarge = 0\<rparr>) =
   balanced a"
  by (simp add: add_result_def balanced_def)

lemma finish_count_fields [simp]:
  "fo_queueSize (finish_count k s) = fo_queueSize s"
  "fo_writerBuffer (finish_count k s) = fo_writerBuffer s"
  "fo_frames (finish_count k s) = fo_frames s"
  "fo_enq (finish_count k s) = fo_enq s"
  "fo_disp (finish_count k s) = fo_disp s"
  "fo_queues (finish_count k s) = fo_queues s"
  "fo_workers (finish_count k s) = fo_workers s"
  "fo_offered (finish_count k s) = fo_offered s"
  "fo_result (finish_count k s) = fo_result s"
  by (simp_all add: finish_count_def Let_def split: prod.split)

lemma conserved_finish: "conserved (finish_count k s) = conserved s"
  by (simp add: conserved_def in_flight_def)

subsection \<open>No target is lost\<close>

lemma enqueue_first_conserved: "conserved s \<Longrightarrow> conserved (enqueue_first job s)"
  by (auto simp: enqueue_first_def conserved_def in_flight_def Let_def)

lemma enqueue_evict_conserved: "conserved s \<Longrightarrow> conserved (enqueue_evict i s)"
  using sum_map_ge [of i "fo_enq s" enq_targets]
  by (auto simp: enqueue_evict_def conserved_def in_flight_def sum_map_update split: enq_state.splits list.splits)

lemma enqueue_second_conserved: "conserved s \<Longrightarrow> conserved (enqueue_second i s)"
  using sum_map_ge [of i "fo_enq s" enq_targets]
  by (auto simp: enqueue_second_def conserved_def in_flight_def sum_map_update Let_def split: enq_state.splits option.splits)

lemma dispatch_take_conserved:
  assumes "conserved s" "fan_shape s" shows "conserved (dispatch_take now s)"
proof (cases "fo_disp s = DispIdle \<and> fo_frames s \<noteq> []")
  case True
  then obtain f fs where f: "fo_frames s = f # fs" "fo_disp s = DispIdle" by (cases "fo_frames s") auto
  have len: "length (fj_partitions f) = length (fo_queues s)" using assms(2) f by (simp add: fan_shape_def)
  have W: "parts_targets f (List.enumerate 0 (fj_partitions f)) = countFrameTargets f" for f
    by (simp add: map_enumerate_snd countFrameTargets_def)
  have "countFrameTargets f = 0" if "planned_partitions (s\<lparr>fo_frames := fs\<rparr>) f = 0"
    using planned_zero [OF that] len by simp
  then show ?thesis
    using assms(1) f W [of f] W [of "f\<lparr>fj_collect := Some (length (fo_collectors s))\<rparr>"]
    by (auto simp: dispatch_take_def conserved_def in_flight_def Let_def countFrameTargets_def split: option.splits)
next
  case False
  then show ?thesis using assms(1) by (auto simp: dispatch_take_def split: disp_state.splits list.splits)
qed

lemma dispatch_part_conserved:
  assumes "conserved s" "fan_shape s" shows "conserved (dispatch_part s)"
  using assms sum_map_ge [of _ "fo_queues s" "\<lambda>q. sum_list (map job_targets q)"]
  by (auto simp: dispatch_part_def conserved_def in_flight_def Let_def no_target_count fan_shape_def sum_map_update
      split: disp_state.splits list.splits)

lemma dispatch_evict_conserved:
  assumes "conserved s" "fan_shape s" shows "conserved (dispatch_evict s)"
proof (cases "fo_disp s")
  case (DispFull f rest i job)
  then have "i < length (fo_queues s)" using assms(2) by (simp add: fan_shape_def)
  then show ?thesis
    using assms(1) DispFull sum_map_ge [of i "fo_queues s" "\<lambda>q. sum_list (map job_targets q)"]
    by (auto simp: dispatch_evict_def conserved_def in_flight_def sum_map_update split: list.splits)
qed (use assms(1) in \<open>simp_all add: dispatch_evict_def\<close>)

lemma dispatch_second_conserved:
  assumes "conserved s" "fan_shape s" shows "conserved (dispatch_second s)"
proof (cases "fo_disp s")
  case (DispRetry f rest i job old)
  then have "i < length (fo_queues s)" using assms(2) by (simp add: fan_shape_def)
  then show ?thesis
    using assms(1) DispRetry sum_map_ge [of i "fo_queues s" "\<lambda>q. sum_list (map job_targets q)"]
    by (auto simp: dispatch_second_def conserved_def in_flight_def sum_map_update Let_def)
qed (use assms(1) in \<open>simp_all add: dispatch_second_def\<close>)

lemma worker_take_conserved:
  assumes "conserved s" "fan_shape s" shows "conserved (worker_take i s)"
  using assms sum_map_ge [of i "fo_queues s" "\<lambda>q. sum_list (map job_targets q)"]
  by (auto simp: worker_take_def conserved_def in_flight_def fan_shape_def sum_map_update split: list.splits)

lemma count_outcome_fields [simp]:
  "fw_attempted (count_outcome outcome r) = fw_attempted r + 1" "fw_dropped (count_outcome outcome r) = fw_dropped r"
  "balanced r \<Longrightarrow> balanced (count_outcome outcome r)"
  by (cases outcome; simp add: count_outcome_def balanced_def)+

lemma worker_write_conserved:
  assumes "conserved s" "fan_shape s" shows "conserved (worker_write i outcome s)"
proof (cases "i < length (fo_workers s)")
  case True
  then have "worker_ok (fo_workers s ! i)" using assms(2) by (simp add: fan_shape_def list_all_length)
  then show ?thesis
    using assms True sum_map_ge [OF True, of worker_targets]
    by (auto simp: worker_write_def conserved_def in_flight_def sum_map_update countPartitionTargets_def split: worker_state.splits list.splits)
qed (use assms in \<open>simp add: worker_write_def\<close>)

lemma fan_exec_conserved: "conserved s \<Longrightarrow> fan_shape s \<Longrightarrow> conserved (fan_exec op s)"
  by (cases op)
    (simp_all add: enqueueDomainFrame_def enqueueFixedDomainFrame_def enqueue_first_conserved enqueue_evict_conserved
      enqueue_second_conserved dispatch_take_conserved dispatch_part_conserved dispatch_evict_conserved
      dispatch_second_conserved worker_take_conserved worker_write_conserved conserved_finish fanout_stop_def,
     simp_all add: conserved_def in_flight_def)

subsection \<open>The shape of the state\<close>

lemma shape_enqueue_first: "fan_shape s \<Longrightarrow> length (fj_partitions job) = length (fo_queues s) \<Longrightarrow> fan_shape (enqueue_first job s)"
  by (auto simp: enqueue_first_def fan_shape_def Let_def)

abbreviation waiting_frames :: "fanout \<Rightarrow> fanoutFrameJob set" where
  "waiting_frames s \<equiv> set (fo_frames s) \<union> \<Union> (enq_frames ` set (fo_enq s))"

lemma shape_waiting:
  assumes "fan_shape s" "waiting_frames s' \<subseteq> waiting_frames s" "fo_workers s' = fo_workers s" "fo_queues s' = fo_queues s"
    "fo_disp s' = fo_disp s" "fo_queueSize s' = fo_queueSize s" "fo_writerBuffer s' = fo_writerBuffer s"
    "length (fo_frames s') \<le> fo_queueSize s" "balanced (fo_result s')"
  shows "fan_shape s'"
  using assms unfolding fan_shape_def by auto

lemma enq_frames_update: "\<Union> (enq_frames ` set (xs[i := y])) \<subseteq> enq_frames y \<union> \<Union> (enq_frames ` set xs)"
  using set_update_subset_insert [of xs i y] by blast

lemma enq_frames_nth: "i < length xs \<Longrightarrow> enq_frames (xs ! i) \<subseteq> \<Union> (enq_frames ` set xs)"
  using nth_mem by blast

lemma waiting_enqueue_evict: "waiting_frames (enqueue_evict i s) \<subseteq> waiting_frames s"
proof (cases "i < length (fo_enq s) \<and> (\<exists>job. fo_enq s ! i = EnqFull job)")
  case True
  then obtain job where i: "i < length (fo_enq s)" "fo_enq s ! i = EnqFull job" by blast
  have job: "job \<in> \<Union> (enq_frames ` set (fo_enq s))" using enq_frames_nth [OF i(1)] i(2) by simp
  show ?thesis
  proof (cases "fo_frames s")
    case Nil
    then show ?thesis using enq_frames_update [of "fo_enq s" i "EnqRetry job None"] i job by (simp add: enqueue_evict_def) blast
  next
    case (Cons f fs)
    then show ?thesis using enq_frames_update [of "fo_enq s" i "EnqRetry job (Some f)"] i job by (simp add: enqueue_evict_def) blast
  qed
qed (auto simp: enqueue_evict_def split: enq_state.splits)

lemma waiting_enqueue_second: "waiting_frames (enqueue_second i s) \<subseteq> waiting_frames s"
proof (cases "i < length (fo_enq s) \<and> (\<exists>job evicted. fo_enq s ! i = EnqRetry job evicted)")
  case True
  then obtain job evicted where i: "i < length (fo_enq s)" "fo_enq s ! i = EnqRetry job evicted" by blast
  then show ?thesis
    using enq_frames_update [of "fo_enq s" i EnqDone] enq_frames_nth [OF i(1)] by (auto simp: enqueue_second_def Let_def)
qed (auto simp: enqueue_second_def split: enq_state.splits)

lemma shape_enqueue_evict: "fan_shape s \<Longrightarrow> fan_shape (enqueue_evict i s)"
  by (rule shape_waiting [OF _ waiting_enqueue_evict])
    (auto simp: enqueue_evict_def fan_shape_def split: enq_state.splits list.splits)

lemma shape_enqueue_second: "fan_shape s \<Longrightarrow> fan_shape (enqueue_second i s)"
  by (rule shape_waiting [OF _ waiting_enqueue_second])
    (auto simp: enqueue_second_def fan_shape_def Let_def split: enq_state.splits option.splits)

lemma disp_ok_enumerate: "length ts = n \<Longrightarrow> \<forall>(i, t)\<in>set (List.enumerate 0 ts). i < n"
  using enumerate_bound by fastforce

lemma shape_dispatch_take:
  assumes "fan_shape s" shows "fan_shape (dispatch_take now s)"
proof (cases "fo_disp s = DispIdle \<and> fo_frames s \<noteq> []")
  case True
  then obtain f fs where f: "fo_frames s = f # fs" "fo_disp s = DispIdle" by (cases "fo_frames s") auto
  then have len: "length (fj_partitions f) = length (fo_queues s)" using assms by (simp add: fan_shape_def)
  show ?thesis
    using assms f disp_ok_enumerate [OF len]
    by (auto simp: dispatch_take_def fan_shape_def Let_def split: option.split)
next
  case False
  then show ?thesis using assms by (auto simp: dispatch_take_def split: disp_state.splits list.splits)
qed

lemma shape_queue_update:
  "list_all P xs \<Longrightarrow> P x \<Longrightarrow> list_all P (xs[i := x])"
  using set_update_subset_insert [of xs i x] by (auto simp: list_all_iff)

lemma shape_dispatch_part: "fan_shape s \<Longrightarrow> fan_shape (dispatch_part s)"
  by (auto simp: dispatch_part_def fan_shape_def Let_def intro!: shape_queue_update split: disp_state.splits list.splits)

lemma shape_dispatch_evict:
  assumes "fan_shape s" shows "fan_shape (dispatch_evict s)"
proof (cases "fo_disp s")
  case (DispFull f rest i job)
  then have "i < length (fo_queues s)" using assms by (simp add: fan_shape_def)
  then have "length (fo_queues s ! i) \<le> fo_writerBuffer s" using assms by (simp add: fan_shape_def list_all_length)
  then show ?thesis
    using assms DispFull by (cases "fo_queues s ! i") (simp_all add: dispatch_evict_def fan_shape_def shape_queue_update)
qed (use assms in \<open>simp_all add: dispatch_evict_def\<close>)

lemma shape_dispatch_second: "fan_shape s \<Longrightarrow> fan_shape (dispatch_second s)"
  by (auto simp: dispatch_second_def fan_shape_def Let_def intro!: shape_queue_update split: disp_state.splits)

lemma shape_worker_take: "fan_shape s \<Longrightarrow> fan_shape (worker_take i s)"
  by (auto simp: worker_take_def fan_shape_def list_all_length balanced_def nth_list_update split: list.splits)

lemma shape_worker_write: "fan_shape s \<Longrightarrow> fan_shape (worker_write i outcome s)"
proof (cases "i < length (fo_workers s)")
  case True
  assume shape: "fan_shape s"
  then have "worker_ok (fo_workers s ! i)" using True by (simp add: fan_shape_def list_all_length)
  then show "fan_shape (worker_write i outcome s)"
    using shape True
    by (auto simp: worker_write_def fan_shape_def intro!: shape_queue_update split: list.splits worker_state.splits)
qed (simp add: worker_write_def)

lemma shape_other:
  "fan_shape (s\<lparr>fo_generations := g\<rparr>) = fan_shape s" "fan_shape (s\<lparr>fo_receiverGen := v\<rparr>) = fan_shape s"
  "fan_shape (s\<lparr>fo_running := run\<rparr>) = fan_shape s" "fan_shape (finish_count k s) = fan_shape s"
  by (simp_all add: fan_shape_def)

lemma fan_exec_shape: "fan_shape s \<Longrightarrow> op_ok op \<Longrightarrow> fan_shape (fan_exec op s)"
  by (cases op)
    (simp_all add: enqueueDomainFrame_def enqueueFixedDomainFrame_def op_ok_def shape_enqueue_first shape_enqueue_evict
      shape_enqueue_second shape_dispatch_take shape_dispatch_part shape_dispatch_evict shape_dispatch_second
      shape_worker_take shape_worker_write fanout_stop_def shape_other)

lemma sum_list_replicate_zero: "sum_list (map g (replicate n x)) = n * (g x :: nat)"
  by (induction n) auto

lemma start_shape: "fan_shape (newFanoutSenderWithMaxAge opened workers queueSize maxFrameAge)"
  by (simp add: newFanoutSenderWithMaxAge_def Let_def fan_shape_def balanced_def list_all_length)

lemma start_conserved: "conserved (newFanoutSenderWithMaxAge opened workers queueSize maxFrameAge)"
  by (simp add: newFanoutSenderWithMaxAge_def Let_def conserved_def in_flight_def sum_list_replicate_zero)

lemma fan_invariant: "fan_reachable s \<Longrightarrow> fan_shape s \<and> conserved s"
  by (induction rule: fan_reachable.induct) (simp_all add: start_shape start_conserved fan_exec_shape fan_exec_conserved)

text \<open>C6: The sender loses no target and its queues are bounded.  In every interleaving of callers,
  dispatcher and writers, of evictions, stale frames, write errors and shutdown, the targets of all
  frames offered to the running sender are the datagrams sent, the failed writes, the counted drops
  and those still queued or in the hands of a goroutine.  (The snapshots offered have one share per
  writer they were built for, as \<open>buildDomainReceiverSnap\<close> makes them.)\<close>

theorem fanout_conserves_targets:
  assumes "fan_reachable s"
  shows "fo_offered s = fw_sent (fo_result s) + fw_errors (fo_result s) + fw_dropped (fo_result s) + in_flight s \<and>
    length (fo_frames s) \<le> fo_queueSize s \<and> (\<forall>q\<in>set (fo_queues s). length q \<le> fo_writerBuffer s)"
  using fan_invariant [OF assms] by (auto simp: conserved_def fan_shape_def balanced_def list_all_iff)

subsection \<open>What is sent\<close>

fun disp_served :: "disp_state \<Rightarrow> bool" where
  "disp_served DispIdle = True"
| "disp_served (DispParts f rest) = (snd ` set rest \<subseteq> set (fj_partitions f))"
| "disp_served (DispFull f rest index job) =
     (snd ` set rest \<subseteq> set (fj_partitions f) \<and> wj_targets job \<in> set (fj_partitions (wj_frame job)))"
| "disp_served (DispRetry f rest index job old) =
     (snd ` set rest \<subseteq> set (fj_partitions f) \<and> wj_targets job \<in> set (fj_partitions (wj_frame job)) \<and>
      wj_targets old \<in> set (fj_partitions (wj_frame old)))"

fun worker_served :: "worker_state \<Rightarrow> bool" where
  "worker_served WorkerIdle = True"
| "worker_served (WorkerBusy job rest result) =
     (wj_targets job \<in> set (fj_partitions (wj_frame job)) \<and> set rest \<subseteq> set (wj_targets job))"

definition wire_ok :: "fanout \<Rightarrow> bool" where
  "wire_ok s \<longleftrightarrow>
     disp_served (fo_disp s) \<and> list_all worker_served (fo_workers s) \<and>
     list_all (list_all (\<lambda>job. wj_targets job \<in> set (fj_partitions (wj_frame job)))) (fo_queues s) \<and>
     list_all (\<lambda>(f, t, payload). \<not> is_source f t \<and> t \<in> \<Union> (set ` set (fj_partitions f)) \<and> payload = target_payload f t) (fo_wire s)"

lemma wire_fields [simp]:
  "fo_wire (call_back cb r s) = fo_wire s" "fo_wire (finish_add c r s) = fo_wire s" "fo_wire (addWriteResult r s) = fo_wire s"
  "fo_wire (account_evicted ev s) = fo_wire s" "fo_wire (reject_job job s) = fo_wire s" "fo_wire (dropWorkerJob job s) = fo_wire s"
  "fo_wire (push_job i job s) = fo_wire s" "fo_wire (finish_count k s) = fo_wire s"
  by (simp_all add: call_back_def finish_add_def addWriteResult_def account_evicted_def reject_job_def dropWorkerJob_def
      push_job_def finish_count_def Let_def split: option.split prod.split)

lemma wire_dispatch:
  assumes "wire_ok s" "fan_shape s"
  shows "wire_ok (dispatch_take now s)" "wire_ok (dispatch_part s)" "wire_ok (dispatch_evict s)" "wire_ok (dispatch_second s)"
proof -
  have enum: "snd ` set (List.enumerate 0 ts) \<subseteq> set ts" for ts :: "domainReceiverEntry list list"
    by (auto simp: in_set_enumerate_eq)
  show "wire_ok (dispatch_take now s)"
  proof (cases "fo_disp s = DispIdle \<and> fo_frames s \<noteq> []")
    case True
    then obtain f fs where "fo_frames s = f # fs" "fo_disp s = DispIdle" by (cases "fo_frames s") auto
    then show ?thesis using assms(1) enum [of "fj_partitions f"] by (simp add: dispatch_take_def wire_ok_def Let_def split: option.split)
  next
    case False
    then have "dispatch_take now s = s" by (auto simp: dispatch_take_def split: disp_state.splits list.splits)
    then show ?thesis using assms(1) by simp
  qed
  show "wire_ok (dispatch_part s)"
  proof (cases "fo_disp s")
    case (DispParts f rest)
    then show ?thesis
    proof (cases rest)
      case (Cons p rest')
      obtain index targets where p: "p = (index, targets)" by (cases p)
      have "index < length (fo_queues s)" using assms(2) DispParts Cons p by (simp add: fan_shape_def)
      then have "list_all (\<lambda>job. wj_targets job \<in> set (fj_partitions (wj_frame job))) (fo_queues s ! index)"
        using assms(1) by (simp add: wire_ok_def list_all_length)
      then show ?thesis
        using assms(1) DispParts Cons p by (simp add: dispatch_part_def wire_ok_def Let_def shape_queue_update)
    qed (use assms(1) in \<open>simp add: dispatch_part_def wire_ok_def\<close>)
  qed (use assms(1) in \<open>simp_all add: dispatch_part_def\<close>)
  show "wire_ok (dispatch_evict s)"
  proof (cases "fo_disp s")
    case (DispFull f rest i job)
    then have "i < length (fo_queues s)" using assms(2) by (simp add: fan_shape_def)
    then have "list_all (\<lambda>job. wj_targets job \<in> set (fj_partitions (wj_frame job))) (fo_queues s ! i)"
      using assms(1) by (simp add: wire_ok_def list_all_length)
    then show ?thesis
      using assms(1) DispFull by (cases "fo_queues s ! i") (simp_all add: dispatch_evict_def wire_ok_def shape_queue_update)
  qed (use assms(1) in \<open>simp_all add: dispatch_evict_def\<close>)
  show "wire_ok (dispatch_second s)"
  proof (cases "fo_disp s")
    case (DispRetry f rest i job old)
    then have "i < length (fo_queues s)" using assms(2) by (simp add: fan_shape_def)
    then have "list_all (\<lambda>job. wj_targets job \<in> set (fj_partitions (wj_frame job))) (fo_queues s ! i)"
      using assms(1) by (simp add: wire_ok_def list_all_length)
    then show ?thesis
      using assms(1) DispRetry by (simp add: dispatch_second_def wire_ok_def Let_def shape_queue_update)
  qed (use assms(1) in \<open>simp_all add: dispatch_second_def\<close>)
qed

lemma wire_worker_take:
  assumes "wire_ok s" "fan_shape s" shows "wire_ok (worker_take i s)"
proof (cases "i < length (fo_workers s)")
  case True
  then have "list_all (\<lambda>job. wj_targets job \<in> set (fj_partitions (wj_frame job))) (fo_queues s ! i)"
    using assms by (simp add: wire_ok_def list_all_length fan_shape_def)
  then show ?thesis
    using assms(1) by (cases "fo_queues s ! i") (simp_all add: worker_take_def wire_ok_def shape_queue_update)
qed (use assms(1) in \<open>simp add: worker_take_def\<close>)

lemma wire_worker_write:
  assumes "wire_ok s" shows "wire_ok (worker_write i outcome s)"
proof (cases "i < length (fo_workers s)")
  case True
  then have w: "worker_served (fo_workers s ! i)" using assms by (simp add: wire_ok_def list_all_length)
  show ?thesis
  proof (cases "fo_workers s ! i")
    case (WorkerBusy job rest result)
    then show ?thesis
      using w assms True by (cases rest) (auto simp: worker_write_def wire_ok_def shape_queue_update)
  qed (use assms True in \<open>simp add: worker_write_def\<close>)
qed (use assms in \<open>simp add: worker_write_def\<close>)

lemma wire_enqueue:
  "wire_ok s \<Longrightarrow> wire_ok (enqueue_first job s)" "wire_ok s \<Longrightarrow> wire_ok (enqueue_evict i s)" "wire_ok s \<Longrightarrow> wire_ok (enqueue_second i s)"
  by (simp_all add: enqueue_first_def enqueue_evict_def enqueue_second_def wire_ok_def Let_def split: enq_state.split list.split)

lemma wire_invariant: "fan_reachable s \<Longrightarrow> wire_ok s"
proof (induction rule: fan_reachable.induct)
  case (start opened workers queueSize maxFrameAge)
  show ?case by (simp add: newFanoutSenderWithMaxAge_def Let_def wire_ok_def list_all_length)
next
  case (step s op)
  have "fan_shape s" using fan_invariant step by blast
  with step.IH show ?case
    by (cases op)
      (simp_all add: enqueueDomainFrame_def enqueueFixedDomainFrame_def wire_enqueue wire_dispatch wire_worker_take wire_worker_write
        fanout_stop_def, simp_all add: wire_ok_def)
qed


subsection \<open>Completion\<close>

abbreviation collected :: "nat \<Rightarrow> fanoutFrameJob \<Rightarrow> nat" where
  "collected c f \<equiv> (if fj_collect f = Some c then 1 else 0)"

abbreviation parts_open :: "nat \<Rightarrow> fanoutFrameJob \<Rightarrow> (nat \<times> domainReceiverEntry list) list \<Rightarrow> nat" where
  "parts_open c f rest \<equiv> collected c f * length (filter (\<lambda>(index, targets). partitionHasTarget f targets) rest)"

fun disp_open :: "nat \<Rightarrow> disp_state \<Rightarrow> nat" where
  "disp_open c DispIdle = 0"
| "disp_open c (DispParts f rest) = parts_open c f rest"
| "disp_open c (DispFull f rest index job) = collected c (wj_frame job) + parts_open c f rest"
| "disp_open c (DispRetry f rest index job old) = collected c (wj_frame job) + collected c (wj_frame old) + parts_open c f rest"

fun worker_open :: "nat \<Rightarrow> worker_state \<Rightarrow> nat" where
  "worker_open c WorkerIdle = 0"
| "worker_open c (WorkerBusy job rest result) = collected c (wj_frame job)"

text \<open>The shares of collector \<open>c\<close> that are not finished, and its calls of the callback.\<close>

definition open_shares :: "fanout \<Rightarrow> nat \<Rightarrow> nat" where
  "open_shares s c =
     disp_open c (fo_disp s) + sum_list (map (\<lambda>q. sum_list (map (\<lambda>job. collected c (wj_frame job)) q)) (fo_queues s)) +
     sum_list (map (worker_open c) (fo_workers s)) + length (filter (\<lambda>(c', total). c' = c) (fo_finish s))"

definition completions :: "fanout \<Rightarrow> nat \<Rightarrow> nat" where
  "completions s c = length (filter (\<lambda>(origin, cb, total). origin = Some c) (fo_callbacks s))"

definition collectors_ok :: "fanout \<Rightarrow> bool" where
  "collectors_ok s \<longleftrightarrow>
     (\<forall>c. if c < length (fo_collectors s)
          then fc_remaining (fo_collectors s ! c) = open_shares s c \<and>
               completions s c = (if open_shares s c = 0 then 1 else 0)
          else open_shares s c = 0 \<and> completions s c = 0) \<and>
     (\<forall>f\<in>waiting_frames s. fj_collect f = None)"

abbreviation same_collectors :: "fanout \<Rightarrow> fanout \<Rightarrow> bool" where
  "same_collectors s s' \<equiv> map fc_remaining (fo_collectors s') = map fc_remaining (fo_collectors s)"

lemma collectors_okI:
  assumes "collectors_ok s" "same_collectors s s'" "\<And>c. open_shares s' c = open_shares s c" "\<And>c. completions s' c = completions s c"
    "\<And>f. f \<in> waiting_frames s' \<Longrightarrow> fj_collect f = None"
  shows "collectors_ok s'"
proof -
  have "length (fo_collectors s') = length (fo_collectors s)" using assms(2) map_eq_imp_length_eq by blast
  moreover have "fc_remaining (fo_collectors s' ! c) = fc_remaining (fo_collectors s ! c)" if "c < length (fo_collectors s)" for c
    using assms(2) that calculation by (metis nth_map)
  ultimately show ?thesis using assms unfolding collectors_ok_def by simp
qed

lemma finish_add_open [simp]:
  "open_shares (finish_add collect r s) c = open_shares s c + (if collect = Some c then 1 else 0)"
  "completions (finish_add collect r s) c = completions s c"
  "map fc_remaining (fo_collectors (finish_add collect r s)) = map fc_remaining (fo_collectors s)"
  by (auto simp: open_shares_def completions_def finish_add_def Let_def map_update list_update_beyond split: option.split)
    (metis list_update_id map_update fanoutCollector.simps)+

lemma open_fields [simp]:
  "open_shares (call_back cb r s) c = open_shares s c" "open_shares (addWriteResult r s) c = open_shares s c"
  "open_shares (account_evicted ev s) c = open_shares s c"
  "open_shares (s\<lparr>fo_framesDropped := n\<rparr>) c = open_shares s c" "open_shares (s\<lparr>fo_framesStale := n\<rparr>) c = open_shares s c"
  "open_shares (s\<lparr>fo_framesSent := n\<rparr>) c = open_shares s c" "open_shares (s\<lparr>fo_framesAccepted := n\<rparr>) c = open_shares s c"
  "open_shares (s\<lparr>fo_writerEvictions := n\<rparr>) c = open_shares s c" "open_shares (s\<lparr>fo_frames := fs\<rparr>) c = open_shares s c"
  "open_shares (s\<lparr>fo_enq := es\<rparr>) c = open_shares s c" "open_shares (s\<lparr>fo_offered := n\<rparr>) c = open_shares s c"
  "open_shares (s\<lparr>fo_wire := ws\<rparr>) c = open_shares s c" "open_shares (s\<lparr>fo_collectors := cs\<rparr>) c = open_shares s c"
  "open_shares (s\<lparr>fo_running := run\<rparr>) c = open_shares s c" "open_shares (s\<lparr>fo_generations := g\<rparr>) c = open_shares s c"
  "open_shares (s\<lparr>fo_receiverGen := v\<rparr>) c = open_shares s c"
  by (simp_all add: open_shares_def call_back_def addWriteResult_def account_evicted_def Let_def split: option.split)

lemma completion_fields [simp]:
  "completions (call_back cb r s) c = completions s c" "completions (addWriteResult r s) c = completions s c"
  "completions (account_evicted ev s) c = completions s c" "completions (push_job i job s) c = completions s c"
  "completions (s\<lparr>fo_framesDropped := n\<rparr>) c = completions s c" "completions (s\<lparr>fo_framesStale := n\<rparr>) c = completions s c"
  "completions (s\<lparr>fo_framesSent := n\<rparr>) c = completions s c" "completions (s\<lparr>fo_framesAccepted := n\<rparr>) c = completions s c"
  "completions (s\<lparr>fo_writerEvictions := n\<rparr>) c = completions s c" "completions (s\<lparr>fo_frames := fs\<rparr>) c = completions s c"
  "completions (s\<lparr>fo_enq := es\<rparr>) c = completions s c" "completions (s\<lparr>fo_offered := n\<rparr>) c = completions s c"
  "completions (s\<lparr>fo_wire := ws\<rparr>) c = completions s c" "completions (s\<lparr>fo_collectors := cs\<rparr>) c = completions s c"
  "completions (s\<lparr>fo_disp := d\<rparr>) c = completions s c" "completions (s\<lparr>fo_queues := qs\<rparr>) c = completions s c"
  "completions (s\<lparr>fo_workers := ws'\<rparr>) c = completions s c" "completions (s\<lparr>fo_running := run\<rparr>) c = completions s c"
  "completions (s\<lparr>fo_generations := g\<rparr>) c = completions s c" "completions (s\<lparr>fo_receiverGen := v\<rparr>) c = completions s c"
  by (simp_all add: completions_def call_back_def addWriteResult_def account_evicted_def push_job_def Let_def split: option.split)

lemma collector_fields [simp]:
  "fo_collectors (call_back cb r s) = fo_collectors s" "fo_collectors (addWriteResult r s) = fo_collectors s"
  "fo_collectors (account_evicted ev s) = fo_collectors s" "fo_collectors (push_job i job s) = fo_collectors s"
  by (simp_all add: call_back_def addWriteResult_def account_evicted_def push_job_def Let_def split: option.split)

lemma reject_open [simp]:
  "open_shares (reject_job job s) c = open_shares s c + collected c (wj_frame job)" "completions (reject_job job s) c = completions s c"
  "map fc_remaining (fo_collectors (reject_job job s)) = map fc_remaining (fo_collectors s)"
  by (simp_all add: reject_job_def Let_def)

lemma dropWorkerJob_open [simp]:
  "open_shares (dropWorkerJob job s) c = open_shares s c + collected c (wj_frame job)" "completions (dropWorkerJob job s) c = completions s c"
  "map fc_remaining (fo_collectors (dropWorkerJob job s)) = map fc_remaining (fo_collectors s)"
  by (simp_all add: dropWorkerJob_def Let_def)

lemma open_queue_update:
  "i < length (fo_queues s) \<Longrightarrow>
   open_shares (s\<lparr>fo_queues := (fo_queues s)[i := q]\<rparr>) c + sum_list (map (\<lambda>job. collected c (wj_frame job)) (fo_queues s ! i)) =
   open_shares s c + sum_list (map (\<lambda>job. collected c (wj_frame job)) q)"
  using sum_map_ge [of i "fo_queues s" "\<lambda>q. sum_list (map (\<lambda>job. collected c (wj_frame job)) q)"]
  by (simp add: open_shares_def sum_map_update)

lemma open_push [simp]:
  "i < length (fo_queues s) \<Longrightarrow> open_shares (push_job i job s) c = open_shares s c + collected c (wj_frame job)"
  using open_queue_update [of i s "fo_queues s ! i @ [job]" c] by (simp add: push_job_def)

lemma open_disp: "open_shares (s\<lparr>fo_disp := d\<rparr>) c + disp_open c (fo_disp s) = open_shares s c + disp_open c d"
  by (simp add: open_shares_def)

lemma open_worker_update:
  "i < length (fo_workers s) \<Longrightarrow>
   open_shares (s\<lparr>fo_workers := (fo_workers s)[i := v]\<rparr>) c + worker_open c (fo_workers s ! i) = open_shares s c + worker_open c v"
  using sum_map_ge [of i "fo_workers s" "worker_open c"] by (simp add: open_shares_def sum_map_update)

subsubsection \<open>Every operation keeps the count\<close>

lemma collectors_enqueue_first: "collectors_ok s \<Longrightarrow> fj_collect job = None \<Longrightarrow> collectors_ok (enqueue_first job s)"
  by (rule collectors_okI) (auto simp: enqueue_first_def collectors_ok_def Let_def split: if_splits)

lemma collectors_waiting:
  assumes ok: "collectors_ok s" and rem: "same_collectors s s'" and open_eq: "\<And>c. open_shares s' c = open_shares s c"
    and done_eq: "\<And>c. completions s' c = completions s c" and sub: "waiting_frames s' \<subseteq> waiting_frames s"
  shows "collectors_ok s'"
proof -
  have "\<forall>f\<in>waiting_frames s. fj_collect f = None" using ok unfolding collectors_ok_def by (elim conjE)
  then have "fj_collect f = None" if "f \<in> waiting_frames s'" for f using sub that by blast
  then show ?thesis by (rule collectors_okI [OF ok rem open_eq done_eq])
qed

lemma collectors_enqueue_evict: "collectors_ok s \<Longrightarrow> collectors_ok (enqueue_evict i s)"
  by (rule collectors_waiting [OF _ _ _ _ waiting_enqueue_evict]) (simp_all add: enqueue_evict_def split: enq_state.split list.split)

lemma collectors_enqueue_second: "collectors_ok s \<Longrightarrow> collectors_ok (enqueue_second i s)"
  by (rule collectors_waiting [OF _ _ _ _ waiting_enqueue_second]) (simp_all add: enqueue_second_def Let_def split: enq_state.split)

lemma planned_open:
  assumes "length (fj_partitions f) = length (fo_queues s)"
  shows "length (filter (\<lambda>(index, targets). partitionHasTarget f targets) (List.enumerate 0 (fj_partitions f))) = planned_partitions s f"
  unfolding planned_partitions_def
  using assms disp_ok_enumerate [of "fj_partitions f"] by (intro arg_cong [where f = length] filter_cong) auto

lemma partitionHasTarget_collect [simp]: "partitionHasTarget (f\<lparr>fj_collect := c\<rparr>) = partitionHasTarget f"
  by (simp add: partitionHasTarget_def fun_eq_iff)

lemma collectors_dispatch_take:
  assumes "collectors_ok s" "fan_shape s" shows "collectors_ok (dispatch_take now s)"
proof (cases "fo_disp s = DispIdle \<and> fo_frames s \<noteq> []")
  case True
  then obtain f fs where f: "fo_frames s = f # fs" "fo_disp s = DispIdle" by (cases "fo_frames s") auto
  have len: "length (fj_partitions f) = length (fo_queues s)" using assms(2) f by (simp add: fan_shape_def)
  have none: "fj_collect f = None" using assms(1) f by (simp add: collectors_ok_def)
  have idle: "open_shares (s\<lparr>fo_frames := fs, fo_disp := d\<rparr>) c = open_shares s c + disp_open c d" for c d
    using f(2) by (simp add: open_shares_def)
  show ?thesis
  proof (cases "frame_stale (s\<lparr>fo_frames := fs\<rparr>) now f \<or> fj_onComplete f = None \<or> planned_partitions (s\<lparr>fo_frames := fs\<rparr>) f = 0")
    case True
    show ?thesis
      by (rule collectors_waiting [OF assms(1)])
        (use f True none idle in \<open>auto simp: dispatch_take_def Let_def split: option.splits\<close>)
  next
    case False
    then obtain cb where cb: "fj_onComplete f = Some cb" by auto
    let ?n = "length (fo_collectors s)"
    let ?p = "planned_partitions (s\<lparr>fo_frames := fs\<rparr>) f"
    have s': "dispatch_take now s = s\<lparr>fo_frames := fs, fo_collectors := fo_collectors s @ [\<lparr>fc_remaining = ?p, fc_onComplete = cb, fc_result = zero_result\<rparr>],
        fo_disp := DispParts (f\<lparr>fj_collect := Some ?n\<rparr>) (List.enumerate 0 (fj_partitions f))\<rparr>"
      using f False cb by (simp add: dispatch_take_def Let_def)
    have "open_shares (dispatch_take now s) c = open_shares s c + (if c = ?n then ?p else 0)" for c
      using planned_open [of f "s\<lparr>fo_frames := fs\<rparr>"] len f(2) by (simp add: s' open_shares_def)
    moreover have "completions (dispatch_take now s) c = completions s c" for c by (simp add: s' completions_def)
    moreover have "waiting_frames (dispatch_take now s) \<subseteq> waiting_frames s" using f by (auto simp: s')
    ultimately show ?thesis
      using assms(1) False unfolding collectors_ok_def by (auto simp: s' nth_append less_Suc_eq)
  qed
next
  case False
  then have "dispatch_take now s = s" by (auto simp: dispatch_take_def split: disp_state.splits list.splits)
  then show ?thesis using assms(1) by simp
qed

lemma collectors_dispatch_part:
  assumes "collectors_ok s" "fan_shape s" shows "collectors_ok (dispatch_part s)"
proof -
  have "open_shares (dispatch_part s) c = open_shares s c" for c
  proof (cases "fo_disp s")
    case (DispParts f rest)
    then show ?thesis
    proof (cases rest)
      case (Cons p rest')
      obtain index targets where p: "p = (index, targets)" by (cases p)
      have "index < length (fo_queues s)" using assms(2) DispParts Cons p by (simp add: fan_shape_def)
      then show ?thesis
        using DispParts Cons p open_disp [where s = s and d = "DispParts f rest'" and c = c]
          open_disp [where s = s and d = "DispFull f rest' index \<lparr>wj_frame = f, wj_targets = targets\<rparr>" and c = c]
        by (auto simp: dispatch_part_def Let_def)
    qed (use open_disp [where s = s and d = DispIdle and c = c] in \<open>simp add: dispatch_part_def\<close>)
  qed (simp_all add: dispatch_part_def)
  then show ?thesis
    by (intro collectors_waiting [OF assms(1)]) (simp_all add: dispatch_part_def Let_def split: disp_state.split list.split)
qed

lemma collectors_dispatch_evict:
  assumes "collectors_ok s" "fan_shape s" shows "collectors_ok (dispatch_evict s)"
proof (cases "fo_disp s")
  case (DispFull f rest i job)
  then have i: "i < length (fo_queues s)" using assms(2) by (simp add: fan_shape_def)
  have "open_shares (dispatch_evict s) c = open_shares s c" for c
  proof (cases "fo_queues s ! i")
    case Nil
    then show ?thesis using DispFull open_disp [where s = s and d = "DispParts f rest" and c = c] by (simp add: dispatch_evict_def)
  next
    case (Cons old jobs)
    then show ?thesis
      using DispFull open_disp [where s = "s\<lparr>fo_queues := (fo_queues s)[i := jobs]\<rparr>" and d = "DispRetry f rest i job old" and c = c]
        open_queue_update [OF i, of jobs c] by (simp add: dispatch_evict_def)
  qed
  then show ?thesis
    using DispFull by (intro collectors_waiting [OF assms(1)]) (simp_all add: dispatch_evict_def split: list.split)
qed (use assms(1) in \<open>simp_all add: dispatch_evict_def\<close>)

lemma collectors_dispatch_second:
  assumes "collectors_ok s" "fan_shape s" shows "collectors_ok (dispatch_second s)"
proof (cases "fo_disp s")
  case (DispRetry f rest i job old)
  then have "i < length (fo_queues s)" using assms(2) by (simp add: fan_shape_def)
  then have "open_shares (dispatch_second s) c = open_shares s c" for c
    using DispRetry open_disp [where s = s and d = "DispParts f rest" and c = c] by (simp add: dispatch_second_def Let_def)
  then show ?thesis
    using DispRetry by (intro collectors_waiting [OF assms(1)]) (simp_all add: dispatch_second_def Let_def)
qed (use assms(1) in \<open>simp_all add: dispatch_second_def\<close>)

lemma collectors_worker_take:
  assumes "collectors_ok s" "fan_shape s" shows "collectors_ok (worker_take i s)"
proof (cases "i < length (fo_workers s) \<and> fo_workers s ! i = WorkerIdle \<and> fo_queues s ! i \<noteq> []")
  case True
  then obtain job jobs where i: "i < length (fo_workers s)" "fo_workers s ! i = WorkerIdle" "fo_queues s ! i = job # jobs"
    by (cases "fo_queues s ! i") auto
  then have q: "i < length (fo_queues s)" using assms(2) by (simp add: fan_shape_def)
  have "open_shares (worker_take i s) c = open_shares s c" for c
    using i open_queue_update [OF q, of jobs c]
      open_worker_update [where s = "s\<lparr>fo_queues := (fo_queues s)[i := jobs]\<rparr>" and i = i and v = "WorkerBusy job (wj_targets job) zero_result" and c = c]
    by (simp add: worker_take_def)
  then show ?thesis using i by (intro collectors_waiting [OF assms(1)]) (simp_all add: worker_take_def)
next
  case False
  then have "worker_take i s = s" by (auto simp: worker_take_def split: list.splits)
  then show ?thesis using assms(1) by simp
qed

lemma collectors_worker_write:
  assumes "collectors_ok s" shows "collectors_ok (worker_write i outcome s)"
proof (cases "i < length (fo_workers s) \<and> fo_workers s ! i \<noteq> WorkerIdle")
  case True
  then obtain job rest result where i: "i < length (fo_workers s)" "fo_workers s ! i = WorkerBusy job rest result"
    by (cases "fo_workers s ! i") auto
  have "open_shares (worker_write i outcome s) c = open_shares s c" for c
  proof (cases rest)
    case Nil
    then show ?thesis using i open_worker_update [OF i(1), of WorkerIdle c] by (simp add: worker_write_def)
  next
    case (Cons t ts)
    then show ?thesis
      using i open_worker_update [OF i(1), of "WorkerBusy job ts result" c]
        open_worker_update [OF i(1), of "WorkerBusy job ts (count_outcome outcome result)" c]
      by (simp add: worker_write_def)
  qed
  then show ?thesis
    using i by (intro collectors_waiting [OF assms(1)]) (simp_all add: worker_write_def split: list.split)
next
  case False
  then have "worker_write i outcome s = s" by (auto simp: worker_write_def)
  then show ?thesis using assms(1) by simp
qed

lemma filter_remove_nth:
  "k < length xs \<Longrightarrow> length (filter P (take k xs @ drop (Suc k) xs)) + (if P (xs ! k) then 1 else 0) = length (filter P xs)"
proof -
  assume "k < length xs"
  then have "filter P xs = filter P (take k xs) @ (if P (xs ! k) then [xs ! k] else []) @ filter P (drop (Suc k) xs)"
    using arg_cong [OF id_take_nth_drop [of k xs], of "filter P"] by simp
  then show "length (filter P (take k xs @ drop (Suc k) xs)) + (if P (xs ! k) then 1 else 0) = length (filter P xs)" by simp
qed

lemma collectors_at:
  "collectors_ok s \<Longrightarrow> if c < length (fo_collectors s)
     then fc_remaining (fo_collectors s ! c) = open_shares s c \<and> completions s c = (if open_shares s c = 0 then 1 else 0)
     else open_shares s c = 0 \<and> completions s c = 0"
  unfolding collectors_ok_def by (elim conjE) (erule spec)

lemma collectors_finish_count:
  assumes "collectors_ok s" shows "collectors_ok (finish_count k s)"
proof (cases "k < length (fo_finish s)")
  case True
  obtain c total where ct: "fo_finish s ! k = (c, total)" by (cases "fo_finish s ! k")
  have rest: "length (filter (\<lambda>(c', total). c' = x) (take k (fo_finish s) @ drop (Suc k) (fo_finish s))) + (if x = c then 1 else 0) =
      length (filter (\<lambda>(c', total). c' = x) (fo_finish s))" for x
    using filter_remove_nth [OF True, of "\<lambda>(c', total). c' = x"] ct by auto
  have "length (filter (\<lambda>(c', total). c' = c) (fo_finish s)) \<noteq> 0" using rest [of c, unfolded if_P [OF refl]] by linarith
  then have "0 < open_shares s c" unfolding open_shares_def by linarith
  then have c: "c < length (fo_collectors s)" "fc_remaining (fo_collectors s ! c) = open_shares s c" "completions s c = 0"
    using collectors_at [OF assms, of c] by (auto split: if_splits)
  have open': "open_shares (finish_count k s) x = open_shares s x - (if x = c then 1 else 0)" for x
    using rest [of x] True ct by (auto simp: finish_count_def open_shares_def Let_def)
  have done': "completions (finish_count k s) x = completions s x + (if x = c \<and> open_shares s c = 1 then 1 else 0)" for x
    using True ct c(2) \<open>0 < open_shares s c\<close> by (auto simp: finish_count_def completions_def Let_def)
  have "fo_collectors (finish_count k s) = (fo_collectors s)[c := (fo_collectors s ! c)\<lparr>fc_remaining := open_shares s c - 1\<rparr>]"
    using True ct c(2) by (simp add: finish_count_def Let_def)
  then show ?thesis
    using assms c open' done' \<open>0 < open_shares s c\<close> unfolding collectors_ok_def by (auto simp: nth_list_update)
qed (use assms in \<open>simp add: finish_count_def\<close>)

lemma collectors_invariant: "fan_reachable s \<Longrightarrow> collectors_ok s"
proof (induction rule: fan_reachable.induct)
  case (start opened workers queueSize maxFrameAge)
  show ?case
    by (simp add: newFanoutSenderWithMaxAge_def Let_def collectors_ok_def open_shares_def completions_def sum_list_replicate_zero)
next
  case (step s op)
  have shape: "fan_shape s" using fan_invariant step by blast
  have other: "collectors_ok (s\<lparr>fo_generations := g\<rparr>)" "collectors_ok (s\<lparr>fo_receiverGen := v\<rparr>)" "collectors_ok (s\<lparr>fo_running := run\<rparr>)" for g v run
    by (rule collectors_waiting [OF step.IH]; simp)+
  from step.IH shape show ?case
    by (cases op)
      (simp_all add: enqueueDomainFrame_def enqueueFixedDomainFrame_def collectors_enqueue_first collectors_enqueue_evict
        collectors_enqueue_second collectors_dispatch_take collectors_dispatch_part collectors_dispatch_evict
        collectors_dispatch_second collectors_worker_take collectors_worker_write collectors_finish_count fanout_stop_def other)
qed


subsection \<open>A broadcast to two receivers\<close>

definition sample_target :: "byte \<Rightarrow> domainReceiverEntry" where
  "sample_target n = \<lparr>dr_addr = \<lparr>ap_Addr = IP4 [10, 0, 0, n], ap_Port = 9000\<rparr>, dr_deviceID = uint n, dr_username = ''u'', dr_ssid = n,
     dr_sessionID = [], dr_sourceGroupV1 = False\<rparr>"

definition sample_snap :: domainReceiverSnap where
  "sample_snap = \<lparr>ds_entries = [sample_target 1, sample_target 2], ds_partitions = [[sample_target 1], [sample_target 2]],
     ds_workers = 2, ds_updatedAt = 0, ds_gen = 0\<rparr>"

definition sample_fan_ops :: "fan_op list" where
  "sample_fan_ops =
     [Broadcast 0 [1] sample_snap 1 0 (Some 7), DispatchTake 0, DispatchPart, DispatchPart, DispatchPart,
      WorkerTake 0, WorkerTake 1, WorkerWrite 0 Written, WorkerWrite 1 Written, WorkerWrite 0 Written, WorkerWrite 1 Written,
      FinishCount 1, FinishCount 0]"

definition sample_fan :: "nat \<Rightarrow> fanout" where
  "sample_fan n = fold fan_exec (take n sample_fan_ops) (newFanoutSenderWithMaxAge 2 2 4 0)"

lemma run_reachable: "list_all op_ok ops \<Longrightarrow> fan_reachable s \<Longrightarrow> fan_reachable (fold fan_exec ops s)"
  by (induction ops arbitrary: s) (simp_all add: fan_reachable.step)

lemma sample_fan_reachable: "fan_reachable (sample_fan n)"
  unfolding sample_fan_def
  by (rule run_reachable) (auto simp: sample_fan_ops_def sample_snap_def op_ok_def list_all_iff fan_reachable.start dest!: in_set_takeD)

lemma sample_fan_facts:
  "length (fo_collectors (sample_fan 13)) = 1" "open_shares (sample_fan 13) 0 = 0" "in_flight (sample_fan 13) = 0"
  "fo_offered (sample_fan 13) = 2"
  by code_simp+

theorem fanout_conserves_targets_witness:
  "fw_sent (fo_result (sample_fan 13)) + fw_errors (fo_result (sample_fan 13)) + fw_dropped (fo_result (sample_fan 13)) = 2"
  using fanout_conserves_targets [OF sample_fan_reachable [of 13]] by (simp add: sample_fan_facts)



text \<open>The reported totals can be incomplete.  \<^verbatim>\<open>finishPartition\<close> reads the total under the lock but
  counts down after it, so the share that counts down last need not be the one that added last: in
  this run of two writers both datagrams are sent and counted, but the callback reports one.\<close>

theorem completion_reports_partial_total:
  "fan_reachable (sample_fan 13) \<and>
   map (\<lambda>(origin, cb, total). (origin, cb, fw_sent total)) (fo_callbacks (sample_fan 13)) = [(Some 0, 7, 1)] \<and>
   fw_sent (fc_result (fo_collectors (sample_fan 13) ! 0)) = 2 \<and> fw_sent (fo_result (sample_fan 13)) = 2"
proof (intro conjI)
  show "fan_reachable (sample_fan 13)" by (rule sample_fan_reachable)
qed code_simp+

end
