(* ===== verification/Spec2Isabelle.thy ===== *)
theory Spec2Isabelle
  imports Relay_Inner Node_Envelope Replay_Window Credential Projection Node_Messages
    Resource_Guard Handshake_Limiter Speaker_Lease Half_Duplex Ghost_Registry Auth_Failures
    Node_Control Node_Server Node_Datagram Relay_Path Broadcast_Player Refresh_Handler
    Device_Bind Domain_Receivers Fanout_Sender
begin

text \<open>
  This development verifies the core of the DraARL server, a Go program that relays amateur-radio
  voice and text between devices, web clients and federated nodes.

  \<^bold>\<open>The program.\<close>  Devices send DraARL packets over UDP to a hub (\<^verbatim>\<open>internal/udphub\<close>), which
  authenticates them, arbitrates who may speak in a group of linked talk groups, and forwards
  packets to the receivers.  A centre connects edge nodes (\<^verbatim>\<open>internal/interconnect\<close>): a TLS control
  connection carries registration, route projections and leases, and datagrams of a private type share
  the hub's UDP port to relay voice.  Clients without a device of their own hold ghost sessions
  (\<^verbatim>\<open>internal/ghostsession\<close>).  New devices are bound to an account with a dynamic code, web users hold
  refresh tokens, and stored broadcasts are played into groups.

  \<^bold>\<open>The theories\<close> (source paths are below \<^verbatim>\<open>src/internal\<close> unless they start with \<^verbatim>\<open>pkg\<close>):

  \<^item> \<open>Go_Base\<close>, \<open>Go_Crypto\<close>, \<open>Go_Base64\<close>, \<open>Go_AES\<close>: the parts of the Go language and library that the code
    uses (byte buffers, big-endian fields, time, strings, UTF-8, SHA-256 and HMAC, random numbers, FNV,
    base64, AES-GCM), with the lemma collections the other theories share.  \<open>Rate_Contract\<close>,
    \<open>Voice_Contract\<close> and \<open>Shards\<close> state interfaces as locales: a windowed budget, an arbiter of a voice
    domain, and a table split into locked shards.
  \<^item> \<open>Draarl_Packet\<close> (\<^verbatim>\<open>protocol/draarl.go\<close>) and \<open>Relay_Inner\<close> (\<^verbatim>\<open>relay_validation.go\<close>): the device
    packet, its codecs and forwarding, and the checks on relayed packets.
  \<^item> \<open>Node_Envelope\<close> (\<^verbatim>\<open>interconnect/protocol.go\<close>), \<open>Replay_Window\<close> (\<^verbatim>\<open>replay_window.go\<close>),
    \<open>Credential\<close> (\<^verbatim>\<open>credential.go\<close>), \<open>Projection\<close> (\<^verbatim>\<open>projection.go\<close>), \<open>Node_Messages\<close>
    (\<^verbatim>\<open>messages.go\<close>): the authenticated envelope, the replay filter, credentials, route deltas and
    snapshots, relay frames.
  \<^item> \<open>Resource_Guard\<close> (\<^verbatim>\<open>resource_guard.go\<close>, \<^verbatim>\<open>metrics.go\<close>), \<open>Handshake_Limiter\<close>
    (\<^verbatim>\<open>handshake_limiter.go\<close>), \<open>Speaker_Lease\<close> (\<^verbatim>\<open>speaker_lease.go\<close>): budgets, admission and the
    centre's speaker leases.
  \<^item> \<open>Node_Control\<close>, \<open>Node_Server\<close> (\<^verbatim>\<open>control.go\<close>): negotiation, frames, node sessions, the handshake of
    both sides, the slots of the server and its read loop.  \<open>Node_Datagram\<close> (\<^verbatim>\<open>datagram.go\<close>): the
    data plane with its bounded queue.  \<open>Relay_Path\<close> (\<^verbatim>\<open>edge_gateway_voice.go\<close>,
    \<^verbatim>\<open>center_gateway_relay.go\<close>): sending a relay frame, accepting it, claiming a lease.
  \<^item> \<open>Auth_Failures\<close> (\<^verbatim>\<open>udphub/sharded_map.go\<close>, \<^verbatim>\<open>auth.go\<close>): failed authentications and blocks.
  \<^item> \<open>Group_Links\<close>, \<open>Half_Duplex\<close> (\<^verbatim>\<open>udphub/group_link.go\<close>, \<^verbatim>\<open>half_duplex.go\<close>): voice domains and local
    arbitration.  \<open>Domain_Receivers\<close> (\<^verbatim>\<open>domain_receiver_cache.go\<close>, \<^verbatim>\<open>udp_addr.go\<close>) and
    \<open>Fanout_Sender\<close> (\<^verbatim>\<open>fanout_sender.go\<close>): who hears a packet, and the goroutines that send it.
  \<^item> \<open>Ghost_Session\<close>, \<open>Ghost_Registry\<close> (\<^verbatim>\<open>ghostsession\<close>): routing rules and the session registry.
  \<^item> \<open>Device_Password\<close> (\<^verbatim>\<open>pkg/crypto/aes.go\<close>), \<open>Pending_Device\<close> (\<^verbatim>\<open>udphub/pending_device.go\<close>),
    \<open>Device_Bind\<close> (\<^verbatim>\<open>handler/device_bind.go\<close>): stored device passwords, dynamic codes, and the endpoints
    that bind and configure a device.
  \<^item> \<open>Refresh_Store\<close>, \<open>Refresh_Handler\<close> (\<^verbatim>\<open>auth/refresh_token_store_memory.go\<close>, \<^verbatim>\<open>handler/auth_refresh.go\<close>):
    refresh tokens in memory and the endpoint that exchanges them.
  \<^item> \<open>Broadcast_Media\<close>, \<open>Broadcast_Player\<close> (\<^verbatim>\<open>broadcast/media/container.go\<close>, \<^verbatim>\<open>broadcast/player/player.go\<close>):
    stored audio and its playback in real time.

  \<^bold>\<open>State and effects.\<close>  A Go struct is a record, a method that holds a mutex is one function on it,
  an error is a value of a sum or option type, and the clock, random bytes, the database, JSON codecs
  and callbacks are arguments.  Shared objects are references into a heap.  Where goroutines share state,
  an inductive step relation interleaves their parts: \<open>hub_step\<close> (the locked sections of domain lookups and
  of a link refresh), \<open>fan_exec\<close> (every channel operation and write of the fan-out), \<open>auth_step\<close>,
  \<open>registry_step\<close>, \<open>server_step\<close> and \<open>bridge_step\<close>; invariants are proved by rule induction over the
  reachable states.

  Some steps are coarser than the code.  In \<open>bridge_step\<close> the admission of a datagram and the first
  attempt to enqueue it are one step each, though the closing flag may be set within them.  In
  \<open>server_step\<close> the pending counter's increment and its undoing, and the installation of a session
  and the release of its pending place, are one step.  A link refresh takes one view of the group cache.
  The centre's relay handlers read their tables in one state.  The requests of \<open>Device_Bind\<close> run one after
  the other, and the user row of a token exchange does not change during it.

  \<^bold>\<open>What is shown.\<close>  Codecs: round trips, authenticity of what is accepted, bounds on every size.
  Filters and budgets: the replay window refines a set, rate budgets hold in every window, the limiter
  always answers.  Arbitration: one speaker per domain, leases are exclusive, and domains are the connected
  components of the links while lookups do not straddle a change of the links (\<open>settled\<close>; without that
  condition \<open>stale_domain_after_refresh\<close> shows a lasting stale domain).  Registries and tables: their indexes
  agree, counters are exact and bounded in every interleaving, a refused update is undone.  Fan-out: the
  receivers are exactly those of the linked groups, no target is lost uncounted, nobody hears himself, each
  broadcast frame is reported once.  Credentials: a refresh token and a dynamic code are used once, a stored
  password verifies, a configured device logs in.  Composition: a relayed packet reaches the cluster as it was
  prepared, only under the authority of the centre's tables, and a claimed domain carries the speaker's
  voice; a datagram reaches the queue; a handshake ends in two agreeing sessions; a stored broadcast plays.
  Each such theorem names its conditions in the text before it.

  \<^bold>\<open>Termination and bounds.\<close>  Loops are structural recursions or have a termination proof; the
  limiter's cleanup is a partial function that is proved to return.  The breadth-first search over
  links ends because it visits every group of a finite link table once.  No function carries fuel.
  Integers that wrap in the code are words; counters that cannot reach their width are integers.

  \<^bold>\<open>Not modelled.\<close>  Other HTTP handlers, the database repositories beyond four queries, the Redis token
  store, WebSocket and socket I/O, TLS, the audio recorder, cookies, audit logs and the scheduling of
  broadcasts are calls of libraries with little logic of their own.  Of the gateways the device session tables,
  the speaker states of an edge, configuration delivery and peer centres are not modelled yet, nor
  are the hub's packet dispatch and its runtime indexes.
\<close>

section \<open>Relaying packets between nodes\<close>

text \<open>C5: The whole path of a relayed packet.  An edge prepares a text or Opus packet of a granted device for
  forwarding and sends it; the centre holds the grant's route under that control session.  If the
  payload has at most 710 bytes, the user name and call sign at most 32 each (longer ones are cut
  and then refused), the session ID, its epoch and the domain ID are not zero, sending is not
  disabled, the node ID has 1 to 32 bytes and no NUL, the two ends share a session key of at least
  8 bytes, the socket takes the datagram, and a voice packet carries the lease its session holds and a
  text packet none, then: the frame is built, sent as a datagram and unmarshalled with no size limit
  exceeded; the centre accepts it; and it hands exactly one frame to the cluster, with the grant's session, domain and lease, whose inner
  packet is the prepared one apart from the reserved field, where the grant's group stands if it is
  a positive 32-bit number.\<close>

theorem relay_end_to_end:
  assumes "t = DraARLTypeTextMessage \<and> leaseID = 0 \<or> t = DraARLTypeOpus16K \<and> holds_lease g cs grant leaseID now1"
    and "length payload \<le> 710" and "length (gr_Username grant) \<le> 32" and "length (gr_CallSign grant) \<le> 32"
    and "inner = PrepareForwardPacket buf src (gr_Username grant) (gr_CallSign grant) (gr_SSID grant) t (gr_DevModel grant) (gr_DMRID grant) payload"
    and "gr_SessionID grant \<noteq> 0" and "gr_SessionEpoch grant \<noteq> 0" and "gr_DomainID grant \<noteq> 0" and "\<not> gr_DisableSend grant"
    and "ns_NodeID (peer_session p) \<noteq> []" and "length (ns_NodeID (peer_session p)) \<le> 32" and "CHR 0x00 \<notin> set (ns_NodeID (peer_session p))" and "8 \<le> length (ns_Key (peer_session p))"
    and "same_session (peer_session p) cs" and "centre_knows g cs grant" and "\<forall>data. w (peer_center p) data"
  shows "\<exists>n' env p' wire e g' f. sendEdgeRelay clock (Some (peer_session p)) v n grant inner leaseID = (n', Some env) \<and>
    peer_Send (Some w) p env = (p', Inr wire) \<and> Unmarshal wire (ns_Key cs) = Inr e \<and>
    handleRelayUpstream now1 now2 g (Some cs) e = (g',
      (if cg_onAcceptedRelay g then [Accepted (accepted_relay (session_owner g (gr_SessionID grant)) (Route grant) f)] else []) @
        [Relayed (ns_NodeID cs) f], True) \<and>
    rf_SessionID f = gr_SessionID grant \<and> rf_DomainID f = gr_DomainID grant \<and> rf_SpeakerLeaseID f = leaseID \<and>
    same_packet (rf_InnerPacket f) inner \<and>
    (0 < gr_GroupID grant \<and> gr_GroupID grant < 2 ^ 32 \<longrightarrow> ReservedUint32 (slice (rf_InnerPacket f) 86 90) = of_int (gr_GroupID grant))"
proof -
  have t: "t = DraARLTypeTextMessage \<or> t = DraARLTypeOpus16K" using assms(1) by blast
  note inner = forward_inner [OF t assms(2-5)]
  obtain env p' wire e f where wire: "sendEdgeRelay clock (Some (peer_session p)) v n grant inner leaseID = (n + 1, Some env)"
    "peer_Send (Some w) p env = (p', Inr wire)" "Unmarshal wire (ns_Key (peer_session p)) = Inr e" "UnmarshalRelayFrame (env_Payload e) = Inr f"
    and f: "f = \<lparr>rf_SessionID = gr_SessionID grant, rf_SessionEpoch = gr_SessionEpoch grant, rf_DomainID = gr_DomainID grant,
          rf_RequiredProjectionVersion = v, rf_SpeakerLeaseID = leaseID, rf_InnerPacket = relay_inner (peer_session p) grant inner\<rparr>"
    using edge_wire [of grant inner "peer_session p" w p, OF assms(6-8) inner(1,2) assms(10-13,16) refl] .
  have f': "rf_SessionID f = gr_SessionID grant" "rf_SessionEpoch f = gr_SessionEpoch grant"
      "rf_DomainID f = gr_DomainID grant" "rf_SpeakerLeaseID f = leaseID" "same_packet (rf_InnerPacket f) inner"
    by (simp_all add: f relay_inner_same)
  from upstream_accepts [OF assms(15,9,8) wire(4) f' inner(1,3,4,5) assms(1)]
  obtain g' h where "handleRelayUpstream now1 now2 g (Some cs) e = (g',
      (if cg_onAcceptedRelay g then [Accepted (accepted_relay (session_owner g (gr_SessionID grant)) (Route grant) h)] else []) @
        [Relayed (ns_NodeID cs) h], True)"
    "rf_SessionID h = gr_SessionID grant" "rf_SessionEpoch h = gr_SessionEpoch grant" "rf_DomainID h = gr_DomainID grant"
    "rf_SpeakerLeaseID h = leaseID" "same_packet (rf_InnerPacket h) inner"
    "0 < gr_GroupID grant \<and> gr_GroupID grant < 2 ^ 32 \<longrightarrow> ReservedUint32 (slice (rf_InnerPacket h) 86 90) = of_int (gr_GroupID grant)" .
  with wire assms(14) show ?thesis
    by (intro exI [of _ "n + 1"] exI [of _ env] exI [of _ p'] exI [of _ wire] exI [of _ e] exI [of _ g'] exI [of _ h])
      (simp add: same_session_def)
qed

abbreviation (input) example_text :: bytes where
  "example_text \<equiv> PrepareForwardPacket [] [] ''BG5'' ''BG5XYZ'' 3 DraARLTypeTextMessage 1 9 [1, 2, 3]"

text \<open>A text packet arrives, with its group.\<close>

theorem relay_end_to_end_witness:
  "\<exists>env wire e g' f. snd (sendEdgeRelay 0 (Some edge_session) 0 0 device_grant example_text 0) = Some env \<and>
     snd (peer_Send (Some (\<lambda>_ _. True)) edge_peer env) = Inr wire \<and> Unmarshal wire (replicate 32 1) = Inr e \<and>
     handleRelayUpstream 10 10 small_centre (Some edge_session) e = (g',
       [Accepted (accepted_relay (session_owner small_centre 5) (Route device_grant) f), Relayed ''edge-1'' f], True) \<and>
     ReservedUint32 (slice (rf_InnerPacket f) 86 90) = 4"
proof -
  have "\<exists>n' env p' wire e g' f. sendEdgeRelay 0 (Some (peer_session edge_peer)) 0 0 device_grant example_text 0 = (n', Some env) \<and>
    peer_Send (Some (\<lambda>_ _. True)) edge_peer env = (p', Inr wire) \<and> Unmarshal wire (ns_Key edge_session) = Inr e \<and>
    handleRelayUpstream 10 10 small_centre (Some edge_session) e = (g',
      (if cg_onAcceptedRelay small_centre then [Accepted (accepted_relay (session_owner small_centre (gr_SessionID device_grant)) (Route device_grant) f)] else []) @
        [Relayed (ns_NodeID edge_session) f], True) \<and>
    rf_SessionID f = gr_SessionID device_grant \<and> rf_DomainID f = gr_DomainID device_grant \<and> rf_SpeakerLeaseID f = 0 \<and>
    same_packet (rf_InnerPacket f) example_text \<and>
    (0 < gr_GroupID device_grant \<and> gr_GroupID device_grant < 2 ^ 32 \<longrightarrow> ReservedUint32 (slice (rf_InnerPacket f) 86 90) = of_int (gr_GroupID device_grant))"
    by (rule relay_end_to_end [of DraARLTypeTextMessage 0 _ _ _ _ "[1, 2, 3]" _ "[]" "[]"])
      (simp_all add: example_fields same_session_def small_centre_knows)
  then show ?thesis unfolding example_fields by (elim exE conjE) (intro exI conjI, auto simp: example_fields)
qed

end
